(* ===== verification/Zejf_Prelude.thy ===== *)
theory Zejf_Prelude
  imports Main "HOL-Library.Word" "HOL-Library.Monad_Syntax"
begin

text \<open>
  What every component of the model shares.

  The C functions are modelled in the option monad: \<^term>\<open>None\<close> is undefined behaviour (a
  dereference of a null, freed or uninitialised pointer, an index outside an array) or a loop
  that does not end, so a lemma that a function \<^emph>\<open>returns\<close> is a memory-safety and a
  termination statement at once.  A C pointer that may be null is an \<open>option\<close>, and
  dereferencing it is a bind.  The theory gives the total-correctness predicate \<open>returns\<close>
  with its rules, the heap allocator (whose failures are part of the model), and the lemmas on
  lists and words the components use.
\<close>

section \<open>Machine types\<close>

type_synonym u8 = "8 word"
type_synonym u16 = "16 word"
type_synonym u32 = "32 word"

text \<open>A heap address. Objects of different C types live in different stores.\<close>

type_synonym addr = nat

section \<open>Total correctness of a computation\<close>

definition returns :: "'a option \<Rightarrow> ('a \<Rightarrow> bool) \<Rightarrow> bool" where
  "returns m P \<longleftrightarrow> (case m of None \<Rightarrow> False | Some a \<Rightarrow> P a)"

named_theorems wp "rules that push \<open>returns\<close> through the control structure of a C function"

lemma returns_Some [wp, simp]: "returns (Some a) P \<longleftrightarrow> P a"
  by (simp add: returns_def)

lemma returns_None [wp, simp]: "\<not> returns None P"
  by (simp add: returns_def)

lemma returns_bind [wp]: "returns (Option.bind m f) P \<longleftrightarrow> returns m (\<lambda>a. returns (f a) P)"
  by (cases m) (simp_all add: returns_def)

lemma returns_if [wp]:
  "returns (if b then x else y) P \<longleftrightarrow> (b \<longrightarrow> returns x P) \<and> (\<not> b \<longrightarrow> returns y P)"
  by simp

lemma returns_prod [wp]:
  "returns (case p of (a, b) \<Rightarrow> f a b) P \<longleftrightarrow> (\<forall>a b. p = (a, b) \<longrightarrow> returns (f a b) P)"
  by (cases p) simp

lemma returns_option [wp]:
  "returns (case x of None \<Rightarrow> f | Some a \<Rightarrow> g a) P \<longleftrightarrow>
     (x = None \<longrightarrow> returns f P) \<and> (\<forall>a. x = Some a \<longrightarrow> returns (g a) P)"
  by (cases x) simp_all

lemma returns_iff: "returns m P \<longleftrightarrow> (\<exists>a. m = Some a \<and> P a)"
  by (cases m) (simp_all add: returns_def)

lemma returns_mono: "returns m P \<Longrightarrow> (\<And>a. m = Some a \<Longrightarrow> P a \<Longrightarrow> Q a) \<Longrightarrow> returns m Q"
  by (cases m) (simp_all add: returns_def)

lemma returns_weaken: "returns m P \<Longrightarrow> (\<And>a. P a \<Longrightarrow> Q a) \<Longrightarrow> returns m Q"
  by (cases m) (simp_all add: returns_def)

lemma returns_bindI:
  "returns m P \<Longrightarrow> (\<And>a. P a \<Longrightarrow> returns (f a) Q) \<Longrightarrow> returns (Option.bind m f) Q"
  by (cases m) (simp_all add: returns_def)

lemma returnsD: "returns m P \<Longrightarrow> m = Some a \<Longrightarrow> P a"
  by (simp add: returns_def)

lemma returns_conj: "returns m P \<Longrightarrow> returns m Q \<Longrightarrow> returns m (\<lambda>a. P a \<and> Q a)"
  by (cases m) (simp_all add: returns_def)

section \<open>The heap allocator\<close>

text \<open>
  \<open>malloc\<close>, \<open>calloc\<close> and \<open>realloc\<close> either fail or give an address that no live object has.
  Which requests fail is not known to the program: \<open>alloc_ok n\<close> says whether the
  \<open>n\<close>-th request is served.  Every request takes a new address.
\<close>

record allocator =
  alloc_ok :: "nat \<Rightarrow> bool"
  next_addr :: addr

definition malloc :: "allocator \<Rightarrow> addr option \<times> allocator" where
  "malloc m =
     ((if alloc_ok m (next_addr m) then Some (next_addr m) else None),
      m\<lparr>next_addr := Suc (next_addr m)\<rparr>)"

definition never_fails :: "allocator \<Rightarrow> bool" where
  "never_fails m \<longleftrightarrow> (\<forall>n. alloc_ok m n)"

lemma malloc_never_fails [simp]:
  "never_fails m \<Longrightarrow> malloc m = (Some (next_addr m), m\<lparr>next_addr := Suc (next_addr m)\<rparr>)"
  by (simp add: malloc_def never_fails_def)

lemma never_fails_update [simp]: "never_fails (m\<lparr>next_addr := n\<rparr>) = never_fails m"
  by (simp add: never_fails_def)

lemma malloc_cases:
  obtains "fst (malloc m) = None" | "fst (malloc m) = Some (next_addr m)"
  by (cases "alloc_ok m (next_addr m)") (simp_all add: malloc_def)

lemma snd_malloc [simp]: "snd (malloc m) = m\<lparr>next_addr := Suc (next_addr m)\<rparr>"
  by (simp add: malloc_def)

section \<open>Arrays\<close>

text \<open>Reading and writing a C array: outside its bounds the behaviour is undefined.\<close>

definition arr_get :: "'a list \<Rightarrow> nat \<Rightarrow> 'a option" where
  "arr_get xs i = (if i < length xs then Some (xs ! i) else None)"

definition arr_set :: "'a list \<Rightarrow> nat \<Rightarrow> 'a \<Rightarrow> 'a list option" where
  "arr_set xs i v = (if i < length xs then Some (xs[i := v]) else None)"

lemma arr_get_in [simp]: "i < length xs \<Longrightarrow> arr_get xs i = Some (xs ! i)"
  by (simp add: arr_get_def)

lemma arr_get_out [simp]: "length xs \<le> i \<Longrightarrow> arr_get xs i = None"
  by (simp add: arr_get_def)

lemma arr_set_in [simp]: "i < length xs \<Longrightarrow> arr_set xs i v = Some (xs[i := v])"
  by (simp add: arr_set_def)

lemma arr_set_out [simp]: "length xs \<le> i \<Longrightarrow> arr_set xs i v = None"
  by (simp add: arr_set_def)

text \<open>The loop \<open>for (i = 0; i < n; i++) if (P (xs[i])) ...\<close>, stopping at the first hit.\<close>

function arr_any_from :: "('a \<Rightarrow> bool) \<Rightarrow> 'a list \<Rightarrow> nat \<Rightarrow> nat \<Rightarrow> bool option" where
  "arr_any_from P xs n i =
     (if i < n then do { x \<leftarrow> arr_get xs i; (if P x then Some True else arr_any_from P xs n (Suc i)) }
      else Some False)"
  by pat_completeness auto
termination
  by (relation "measure (\<lambda>(P, xs, n, i). n - i)") auto

declare arr_any_from.simps [simp del]

definition arr_any :: "('a \<Rightarrow> bool) \<Rightarrow> 'a list \<Rightarrow> nat \<Rightarrow> bool option" where
  "arr_any P xs n = arr_any_from P xs n 0"

lemma arr_any_from_ok:
  "n \<le> length xs \<Longrightarrow> arr_any_from P xs n i = Some (\<exists>j. i \<le> j \<and> j < n \<and> P (xs ! j))"
proof (induction P xs n i rule: arr_any_from.induct)
  case (1 P xs n i)
  show ?case
  proof (cases "i < n")
    case True
    with 1 have "arr_any_from P xs n i =
        (if P (xs ! i) then Some True else Some (\<exists>j. Suc i \<le> j \<and> j < n \<and> P (xs ! j)))"
      by (subst arr_any_from.simps) auto
    moreover have "(\<exists>j. i \<le> j \<and> j < n \<and> P (xs ! j)) \<longleftrightarrow> P (xs ! i) \<or> (\<exists>j. Suc i \<le> j \<and> j < n \<and> P (xs ! j))"
      using True by (metis Suc_leD Suc_leI le_eq_less_or_eq)
    ultimately show ?thesis by simp
  next
    case False
    then show ?thesis by (subst arr_any_from.simps) auto
  qed
qed

lemma arr_any_ok: "n \<le> length xs \<Longrightarrow> arr_any P xs n = Some (\<exists>x\<in>set (take n xs). P x)"
  by (simp add: arr_any_def arr_any_from_ok)
    (metis in_set_conv_nth length_take min.absorb2 nth_take)

lemma arr_any_all [simp]: "arr_any P xs (length xs) = Some (\<exists>x\<in>set xs. P x)"
  by (simp add: arr_any_ok)

section \<open>Sizes\<close>

text \<open>
  Counters of type \<open>size_t\<close> are natural numbers; the only decrement the code does on one is
  written with its wrap-around.
\<close>

definition size_dec :: "nat \<Rightarrow> nat" where
  "size_dec n = (if n = 0 then 2 ^ 64 - 1 else n - 1)"

lemma size_dec_Suc [simp]: "size_dec (Suc n) = n"
  by (simp add: size_dec_def)

lemma size_dec_pos: "0 < n \<Longrightarrow> size_dec n = n - 1"
  by (simp add: size_dec_def)

section \<open>Words\<close>

lemma unat_bound: "unat (x :: 'a::len word) < 2 ^ LENGTH('a)"
  by (rule unsigned_less)

section \<open>Lists\<close>

lemma map_fun_upd_last:
  assumes "distinct xs" and "xs \<noteq> []"
  shows "map (f(last xs := v)) xs = butlast (map f xs) @ [v]"
proof -
  obtain ys y where xs: "xs = ys @ [y]"
    using assms(2) by (metis append_butlast_last_id)
  have "map (f(y := v)) ys = map f ys"
    using assms(1) xs by (auto intro: map_cong)
  then show ?thesis by (simp add: xs)
qed

lemma map_fun_upd_notin [simp]: "x \<notin> set xs \<Longrightarrow> map (f(x := v)) xs = map f xs"
  by (auto intro: map_cong)

lemma rotate1_Cons_snoc: "rotate1 (x # xs) = xs @ [x]"
  by simp

lemma rotate_length_append: "rotate (length xs) (xs @ ys) = ys @ xs"
  by (induction xs arbitrary: ys) (simp_all add: rotate1_rotate_swap)

end
