(* ===== verification/Linked_List.thy ===== *)
theory Linked_List
  imports Zejf_Prelude
begin

text \<open>
  The bounded circular doubly linked list of \<open>api/zejf_api/src/linked_list.c\<close>, on which
  the packet queues, the hour cache, the request queue and the server's client list are built.

  A list carries its own store of nodes, addressed like the C heap: \<open>nodes l a\<close> is the node
  at address \<open>a\<close>, and \<^term>\<open>None\<close> where nothing is allocated (or where a node has been
  freed), so every dereference of the C code is a lookup that can fail.  The first half models
  the C functions; the second half proves that, on a well-formed ring, they implement a bounded
  sequence (\<open>list_items\<close>): push appends, pop takes the first item, remove deletes one
  position, prioritise rotates.
\<close>

section \<open>Data\<close>

record 'a node =
  node_next :: addr
  node_previous :: addr
  node_item :: 'a

record 'a linked_list =
  capacity :: nat
  item_count :: nat
  head :: "addr option"
  tail :: "addr option"
  nodes :: "addr \<Rightarrow> 'a node option"

section \<open>Operations\<close>

text \<open>\<open>a->next = v\<close> and \<open>a->previous = v\<close>.\<close>

definition set_next :: "(addr \<Rightarrow> 'a node option) \<Rightarrow> addr \<Rightarrow> addr \<Rightarrow> (addr \<Rightarrow> 'a node option) option" where
  "set_next ns a v = do { n \<leftarrow> ns a; Some (ns(a \<mapsto> n\<lparr>node_next := v\<rparr>)) }"

definition set_previous :: "(addr \<Rightarrow> 'a node option) \<Rightarrow> addr \<Rightarrow> addr \<Rightarrow> (addr \<Rightarrow> 'a node option) option" where
  "set_previous ns a v = do { n \<leftarrow> ns a; Some (ns(a \<mapsto> n\<lparr>node_previous := v\<rparr>)) }"

definition list_create :: "allocator \<Rightarrow> nat \<Rightarrow> 'a linked_list option \<times> allocator" where
  "list_create m cap =
     (case malloc m of
        (None, m') \<Rightarrow> (None, m')
      | (Some _, m') \<Rightarrow>
          (Some \<lparr>capacity = cap, item_count = 0, head = None, tail = None, nodes = Map.empty\<rparr>, m'))"

definition list_is_full :: "'a linked_list \<Rightarrow> bool" where
  "list_is_full l \<longleftrightarrow> item_count l = capacity l"

definition list_is_empty :: "'a linked_list \<Rightarrow> bool" where
  "list_is_empty l \<longleftrightarrow> item_count l = 0"

text \<open>
  The loop of \<open>list_destroy\<close>: the destructor is called on the items in the order of the
  accumulated list, and each node is freed after its successor is read.
\<close>

partial_function (option) list_destroy_loop ::
  "addr option \<Rightarrow> (addr \<Rightarrow> 'a node option) \<Rightarrow> addr \<Rightarrow> 'a list \<Rightarrow> ('a list \<times> (addr \<Rightarrow> 'a node option)) option"
where
  "list_destroy_loop t0 ns a acc =
     do {
       n \<leftarrow> ns a;
       let ns' = ns(a := None);
       (if Some (node_next n) \<noteq> t0
        then list_destroy_loop t0 ns' (node_next n) (acc @ [node_item n])
        else Some (acc @ [node_item n], ns'))
     }"

text \<open>The result is the items given to the destructor and the nodes that are left allocated.\<close>

definition list_destroy :: "'a linked_list option \<Rightarrow> ('a list \<times> (addr \<Rightarrow> 'a node option)) option" where
  "list_destroy list =
     do {
       l \<leftarrow> list;
       (case tail l of
          None \<Rightarrow> Some ([], nodes l)
        | Some t \<Rightarrow> list_destroy_loop (tail l) (nodes l) t [])
     }"

definition list_push ::
  "allocator \<Rightarrow> 'a linked_list option \<Rightarrow> 'a \<Rightarrow> (bool \<times> 'a linked_list option \<times> allocator) option"
where
  "list_push m list it =
     (case list of
        None \<Rightarrow> Some (False, None, m)
      | Some l \<Rightarrow>
          (if list_is_full l then Some (False, Some l, m)
           else
             (case malloc m of
                (None, m') \<Rightarrow> Some (False, Some l, m')
              | (Some new, m') \<Rightarrow>
                  (case head l of
                     None \<Rightarrow>
                       Some (True,
                             Some (l\<lparr>nodes := (nodes l)(new \<mapsto>
                                        \<lparr>node_next = new, node_previous = new, node_item = it\<rparr>),
                                     head := Some new, tail := Some new,
                                     item_count := Suc (item_count l)\<rparr>), m')
                   | Some h \<Rightarrow>
                       do {
                         ns \<leftarrow> set_next (nodes l) h new;
                         t \<leftarrow> tail l;
                         let ns = ns(new \<mapsto> \<lparr>node_next = t, node_previous = h, node_item = it\<rparr>);
                         ns \<leftarrow> set_previous ns t new;
                         Some (True,
                               Some (l\<lparr>nodes := ns, head := Some new,
                                       item_count := Suc (item_count l)\<rparr>), m')
                       }))))"

definition list_peek :: "'a linked_list option \<Rightarrow> addr option" where
  "list_peek list = (case list of None \<Rightarrow> None | Some l \<Rightarrow> tail l)"

definition list_remove ::
  "'a linked_list option \<Rightarrow> addr option \<Rightarrow> ('a option \<times> 'a linked_list option) option"
where
  "list_remove list node =
     (case list of
        None \<Rightarrow> Some (None, None)
      | Some l \<Rightarrow>
          (case node of
             None \<Rightarrow> Some (None, Some l)
           | Some a \<Rightarrow>
               do {
                 n \<leftarrow> nodes l a;
                 let l' = (if tail l = Some a \<and> head l = Some a then l\<lparr>tail := None, head := None\<rparr>
                           else if tail l = Some a then l\<lparr>tail := Some (node_next n)\<rparr>
                           else if head l = Some a then l\<lparr>head := Some (node_previous n)\<rparr>
                           else l);
                 ns \<leftarrow> set_next (nodes l) (node_previous n) (node_next n);
                 n \<leftarrow> ns a;
                 ns \<leftarrow> set_previous ns (node_next n) (node_previous n);
                 n \<leftarrow> ns a;
                 Some (Some (node_item n),
                       Some (l'\<lparr>nodes := ns(a := None), item_count := size_dec (item_count l)\<rparr>))
               }))"

definition list_pop :: "'a linked_list option \<Rightarrow> ('a option \<times> 'a linked_list option) option" where
  "list_pop list = do { l \<leftarrow> list; list_remove list (tail l) }"

definition list_prioritise :: "'a linked_list option \<Rightarrow> addr \<Rightarrow> 'a linked_list option" where
  "list_prioritise list a =
     do {
       l \<leftarrow> list;
       n \<leftarrow> nodes l a;
       Some (l\<lparr>tail := Some a, head := Some (node_previous n)\<rparr>)
     }"

text \<open>The code overwrites the object an item points to; items are values here, so the new
  value is stored in the node.\<close>

definition set_item :: "'a linked_list \<Rightarrow> addr \<Rightarrow> 'a \<Rightarrow> 'a linked_list option" where
  "set_item l a it = do { n \<leftarrow> nodes l a; Some (l\<lparr>nodes := (nodes l)(a \<mapsto> n\<lparr>node_item := it\<rparr>)\<rparr>) }"


section \<open>The ring and the sequence it holds\<close>

definition nxt :: "(addr \<Rightarrow> 'a node option) \<Rightarrow> addr \<Rightarrow> addr" where
  "nxt ns a = node_next (the (ns a))"

definition prv :: "(addr \<Rightarrow> 'a node option) \<Rightarrow> addr \<Rightarrow> addr" where
  "prv ns a = node_previous (the (ns a))"

definition itm :: "(addr \<Rightarrow> 'a node option) \<Rightarrow> addr \<Rightarrow> 'a" where
  "itm ns a = node_item (the (ns a))"

text \<open>\<open>ring ns as\<close>: the nodes at the addresses \<open>as\<close>, in this order, form a circle.\<close>

definition ring :: "(addr \<Rightarrow> 'a node option) \<Rightarrow> addr list \<Rightarrow> bool" where
  "ring ns as \<longleftrightarrow> distinct as \<and> set as \<subseteq> dom ns \<and>
     map (nxt ns) as = rotate1 as \<and> map (prv ns) (rotate1 as) = as"

text \<open>\<open>list_rep l as\<close>: the list \<open>l\<close> is well formed and its nodes, from tail to head, are \<open>as\<close>.\<close>

definition list_rep :: "'a linked_list \<Rightarrow> addr list \<Rightarrow> bool" where
  "list_rep l as \<longleftrightarrow> ring (nodes l) as \<and> dom (nodes l) = set as \<and>
     tail l = (if as = [] then None else Some (hd as)) \<and>
     head l = (if as = [] then None else Some (last as)) \<and>
     item_count l = length as \<and> length as \<le> capacity l"

definition list_wf :: "'a linked_list \<Rightarrow> bool" where
  "list_wf l \<longleftrightarrow> (\<exists>as. list_rep l as)"

primrec walk :: "(addr \<Rightarrow> 'a node option) \<Rightarrow> nat \<Rightarrow> addr \<Rightarrow> addr list" where
  "walk ns 0 a = []"
| "walk ns (Suc n) a = a # walk ns n (nxt ns a)"

definition list_addrs :: "'a linked_list \<Rightarrow> addr list" where
  "list_addrs l = (case tail l of None \<Rightarrow> [] | Some t \<Rightarrow> walk (nodes l) (item_count l) t)"

definition list_items :: "'a linked_list \<Rightarrow> 'a list" where
  "list_items l = map (itm (nodes l)) (list_addrs l)"

subsection \<open>Links\<close>

lemma ring_Nil [simp]: "ring ns []"
  by (simp add: ring_def)

lemma ring_distinct: "ring ns as \<Longrightarrow> distinct as"
  by (simp add: ring_def)

lemma ring_in_dom: "ring ns as \<Longrightarrow> a \<in> set as \<Longrightarrow> \<exists>n. ns a = Some n"
  by (auto simp: ring_def)

lemma ring_cong:
  assumes "nxt ns' = nxt ns" and "prv ns' = prv ns" and "dom ns' = dom ns"
  shows "ring ns' as = ring ns as"
  using assms by (simp add: ring_def)

lemma ring_rotate1: "ring ns as \<Longrightarrow> ring ns (rotate1 as)"
  unfolding ring_def by (auto simp: rotate1_map [symmetric])

lemma ring_rotate: "ring ns as \<Longrightarrow> ring ns (rotate k as)"
  by (induction k) (simp_all add: ring_rotate1)

lemma ring_swap: "ring ns (xs @ ys) \<Longrightarrow> ring ns (ys @ xs)"
  using ring_rotate [of ns "xs @ ys" "length xs"] by (simp add: rotate_length_append)

lemma ring_next: "ring ns (xs @ a # b # ys) \<Longrightarrow> nxt ns a = b"
  using ring_swap [of ns xs "a # b # ys"] by (simp add: ring_def)

lemma ring_previous: "ring ns (xs @ a # b # ys) \<Longrightarrow> prv ns b = a"
  using ring_swap [of ns xs "a # b # ys"] by (simp add: ring_def)

lemma ring_next_last: "ring ns as \<Longrightarrow> as \<noteq> [] \<Longrightarrow> nxt ns (last as) = hd as"
proof -
  assume "ring ns as" and "as \<noteq> []"
  then obtain bs b where as: "as = bs @ [b]" by (metis append_butlast_last_id)
  with \<open>ring ns as\<close> have "ring ns (b # bs)" using ring_swap [of ns bs "[b]"] by simp
  then show ?thesis by (cases bs) (simp_all add: as ring_def)
qed

lemma ring_previous_hd: "ring ns as \<Longrightarrow> as \<noteq> [] \<Longrightarrow> prv ns (hd as) = last as"
proof -
  assume "ring ns as" and "as \<noteq> []"
  then obtain b bs where as: "as = b # bs" by (cases as) auto
  from \<open>ring ns as\<close> have "map (prv ns) (bs @ [b]) = b # bs" by (simp add: ring_def as)
  then have "last (map (prv ns) (bs @ [b])) = last (b # bs)" by (rule arg_cong)
  then show ?thesis by (simp add: as)
qed

lemma walk_ring: "ring ns (xs @ b # ys) \<Longrightarrow> walk ns (length (b # ys)) b = b # ys"
proof (induction ys arbitrary: xs b)
  case Nil
  then show ?case by simp
next
  case (Cons c ys)
  then have "walk ns (length (c # ys)) c = c # ys"
    using Cons.IH [of "xs @ [b]" c] by simp
  with ring_next [OF Cons.prems] show ?case by simp
qed

lemma list_rep_addrs: "list_rep l as \<Longrightarrow> list_addrs l = as"
proof (cases as)
  case Nil
  assume "list_rep l as"
  with Nil show ?thesis by (simp add: list_rep_def list_addrs_def)
next
  case (Cons a bs)
  assume "list_rep l as"
  with Cons have "ring (nodes l) ([] @ a # bs)" and "tail l = Some a" and "item_count l = length (a # bs)"
    by (simp_all add: list_rep_def)
  with walk_ring [of "nodes l" "[]" a bs] Cons show ?thesis by (simp add: list_addrs_def)
qed

lemma list_wf_rep: "list_wf l \<longleftrightarrow> list_rep l (list_addrs l)"
  by (auto simp: list_wf_def dest: list_rep_addrs)

lemma length_list_items: "list_wf l \<Longrightarrow> length (list_items l) = item_count l"
  by (simp add: list_items_def list_wf_rep list_rep_def)

lemma list_items_capacity: "list_wf l \<Longrightarrow> length (list_items l) \<le> capacity l"
  by (simp add: list_items_def list_wf_rep list_rep_def)

subsection \<open>Writing links\<close>

lemma set_next_ok:
  assumes "a \<in> dom ns"
  obtains ns' where "set_next ns a v = Some ns'" "nxt ns' = (nxt ns)(a := v)" "prv ns' = prv ns"
    "itm ns' = itm ns" "dom ns' = dom ns"
proof -
  from assms obtain n where "ns a = Some n" by auto
  then show thesis
    by (intro that [of "ns(a \<mapsto> n\<lparr>node_next := v\<rparr>)"])
      (auto simp: set_next_def nxt_def prv_def itm_def fun_eq_iff)
qed

lemma set_previous_ok:
  assumes "a \<in> dom ns"
  obtains ns' where "set_previous ns a v = Some ns'" "prv ns' = (prv ns)(a := v)" "nxt ns' = nxt ns"
    "itm ns' = itm ns" "dom ns' = dom ns"
proof -
  from assms obtain n where "ns a = Some n" by auto
  then show thesis
    by (intro that [of "ns(a \<mapsto> n\<lparr>node_previous := v\<rparr>)"])
      (auto simp: set_previous_def nxt_def prv_def itm_def fun_eq_iff)
qed

lemma node_upd_links [simp]:
  "nxt (ns(a \<mapsto> n)) = (nxt ns)(a := node_next n)"
  "prv (ns(a \<mapsto> n)) = (prv ns)(a := node_previous n)"
  "itm (ns(a \<mapsto> n)) = (itm ns)(a := node_item n)"
  by (simp_all add: nxt_def prv_def itm_def fun_eq_iff)

lemma ring_free: "ring ns as \<Longrightarrow> a \<notin> set as \<Longrightarrow> ring (ns(a := None)) as"
proof -
  assume r: "ring ns as" and a: "a \<notin> set as"
  have "map (nxt (ns(a := None))) as = map (nxt ns) as"
    using a by (auto simp: nxt_def)
  moreover have "map (prv (ns(a := None))) (rotate1 as) = map (prv ns) (rotate1 as)"
    using a by (auto simp: prv_def)
  moreover have "set as \<subseteq> dom (ns(a := None))"
    using r a by (auto simp: ring_def)
  ultimately show ?thesis using r by (simp only: ring_def)
qed

lemma ring_insert:
  assumes "ring ns (t # xs)" and "new \<notin> set (t # xs)" and "h = last (t # xs)"
    and "nxt ns' = (nxt ns)(h := new, new := t)" and "prv ns' = (prv ns)(new := h, t := new)"
    and "dom ns' = insert new (dom ns)"
  shows "ring ns' (t # xs @ [new])"
proof -
  from assms(1) have d: "distinct (t # xs)" "set (t # xs) \<subseteq> dom ns"
    and nx: "map (nxt ns) (t # xs) = xs @ [t]" and pv: "map (prv ns) (xs @ [t]) = t # xs"
    by (simp_all add: ring_def)
  have "map (nxt ns') (t # xs) = map ((nxt ns)(last (t # xs) := new)) (t # xs)"
    using assms(2,3,4) by auto
  also have "\<dots> = butlast (map (nxt ns) (t # xs)) @ [new]"
    using d(1) by (rule map_fun_upd_last) simp
  also have "\<dots> = xs @ [new]" unfolding nx by simp
  finally have 1: "map (nxt ns') (t # xs) = xs @ [new]" .
  have "map (prv ns') xs = map (prv ns) xs"
    using assms(2,5) d(1) by auto
  also have "\<dots> = butlast (t # xs)" using arg_cong [OF pv, of butlast] by simp
  finally have 2: "map (prv ns') (xs @ [new, t]) = t # xs @ [new]"
    using assms(2,3,5) append_butlast_last_id [of "t # xs"] by auto
  show ?thesis using 1 2 d assms(2,4,6) by (auto simp: ring_def)
qed

lemma ring_remove:
  assumes "ring ns (a # zs)" and "zs \<noteq> []"
    and "nxt ns' = (nxt ns)(last zs := hd zs)" and "prv ns' = (prv ns)(hd zs := last zs)"
    and "dom ns' = dom ns"
  shows "ring ns' zs"
proof -
  obtain z zs' where zs: "zs = z # zs'" using assms(2) by (cases zs) auto
  from assms(1) have d: "distinct (a # zs)" "set zs \<subseteq> dom ns"
    and nx: "map (nxt ns) zs = zs' @ [a]" and pv: "map (prv ns) (zs @ [a]) = a # zs"
    by (simp_all add: ring_def zs)
  have "map (nxt ns') zs = butlast (map (nxt ns) zs) @ [hd zs]"
    unfolding assms(3) using d(1) assms(2) by (intro map_fun_upd_last) simp_all
  then have 1: "map (nxt ns') zs = rotate1 zs" unfolding nx by (simp add: zs)
  have "map (prv ns) zs' = butlast zs"
    using arg_cong [OF pv, of "\<lambda>l. butlast (tl l)"] by (simp add: zs)
  then have "map (prv ns') (rotate1 zs) = zs"
    using assms(4) d(1) append_butlast_last_id [OF assms(2)] by (simp add: zs)
  with 1 d assms(5) show ?thesis by (simp add: ring_def)
qed


subsection \<open>The operations on a well-formed list\<close>

lemma list_rep_items: "list_rep l as \<Longrightarrow> list_items l = map (itm (nodes l)) as"
  by (simp add: list_items_def list_rep_addrs)

lemma list_create_rep:
  "fst (list_create m cap) = Some l \<Longrightarrow> list_rep l [] \<and> capacity l = cap"
  by (auto simp: list_create_def list_rep_def split: prod.splits option.splits)

lemma list_is_full_rep: "list_rep l as \<Longrightarrow> list_is_full l \<longleftrightarrow> length as = capacity l"
  by (simp add: list_is_full_def list_rep_def)

lemma list_is_empty_rep: "list_rep l as \<Longrightarrow> list_is_empty l \<longleftrightarrow> as = []"
  by (simp add: list_is_empty_def list_rep_def)

lemma list_push_null [simp]: "list_push m None it = Some (False, None, m)"
  by (simp add: list_push_def)

lemma list_push_full: "list_is_full l \<Longrightarrow> list_push m (Some l) it = Some (False, Some l, m)"
  by (simp add: list_push_def)

lemma list_push_no_memory:
  "\<not> list_is_full l \<Longrightarrow> \<not> alloc_ok m (next_addr m) \<Longrightarrow>
     list_push m (Some l) it = Some (False, Some l, m\<lparr>next_addr := Suc (next_addr m)\<rparr>)"
  by (simp add: list_push_def malloc_def)

lemma list_push_first:
  assumes "list_rep l []" and "\<not> list_is_full l" and "alloc_ok m (next_addr m)"
  shows "\<exists>l'. list_push m (Some l) it = Some (True, Some l', m\<lparr>next_addr := Suc (next_addr m)\<rparr>) \<and>
     list_rep l' [next_addr m] \<and> itm (nodes l') = (itm (nodes l))(next_addr m := it) \<and>
     capacity l' = capacity l"
  using assms by (auto simp: list_push_def malloc_def list_rep_def list_is_full_def ring_def)

lemma list_push_next:
  assumes rep: "list_rep l (t # xs)" and "\<not> list_is_full l" and "alloc_ok m (next_addr m)"
    and fresh: "next_addr m \<notin> set (t # xs)"
  shows "\<exists>l'. list_push m (Some l) it = Some (True, Some l', m\<lparr>next_addr := Suc (next_addr m)\<rparr>) \<and>
     list_rep l' (t # xs @ [next_addr m]) \<and> itm (nodes l') = (itm (nodes l))(next_addr m := it) \<and>
     capacity l' = capacity l"
proof -
  let ?new = "next_addr m" and ?h = "last (t # xs)"
  from rep have r: "ring (nodes l) (t # xs)" and d: "dom (nodes l) = set (t # xs)"
    and hd: "head l = Some ?h" "tail l = Some t" and c: "item_count l = length (t # xs)"
    and le: "length (t # xs) \<le> capacity l"
    by (simp_all add: list_rep_def)
  have lt: "length (t # xs) < capacity l"
    using assms(2) le c by (simp add: list_is_full_def)
  have "?h \<in> dom (nodes l)" unfolding d by (rule last_in_set) simp
  then obtain ns1 where ns1: "set_next (nodes l) ?h ?new = Some ns1"
    "nxt ns1 = (nxt (nodes l))(?h := ?new)" "prv ns1 = prv (nodes l)" "itm ns1 = itm (nodes l)"
    "dom ns1 = dom (nodes l)" by (rule set_next_ok)
  let ?ns2 = "ns1(?new \<mapsto> \<lparr>node_next = t, node_previous = ?h, node_item = it\<rparr>)"
  have "t \<in> dom ?ns2" using ns1(5) d by simp
  then obtain ns3 where ns3: "set_previous ?ns2 t ?new = Some ns3" "prv ns3 = (prv ?ns2)(t := ?new)"
    "nxt ns3 = nxt ?ns2" "itm ns3 = itm ?ns2" "dom ns3 = dom ?ns2" by (rule set_previous_ok)
  have "ring ns3 (t # xs @ [?new])"
    by (rule ring_insert [OF r fresh refl]) (simp_all add: ns1 ns3)
  with ns1 ns3 d hd c lt show ?thesis
    by (auto simp: list_push_def malloc_def assms(2,3) list_rep_def)
qed

lemma list_push_ok:
  assumes "list_rep l as" and "\<not> list_is_full l" and "alloc_ok m (next_addr m)"
    and "next_addr m \<notin> set as"
  shows "\<exists>l'. list_push m (Some l) it = Some (True, Some l', m\<lparr>next_addr := Suc (next_addr m)\<rparr>) \<and>
     list_rep l' (as @ [next_addr m]) \<and> itm (nodes l') = (itm (nodes l))(next_addr m := it) \<and>
     capacity l' = capacity l"
proof (cases as)
  case Nil
  with list_push_first [of l m it] assms show ?thesis by simp
next
  case (Cons t xs)
  with list_push_next [of l t xs m it] assms show ?thesis by simp
qed

lemma list_remove_null [simp]:
  "list_remove None node = Some (None, None)" "list_remove (Some l) None = Some (None, Some l)"
  by (simp_all add: list_remove_def)

lemma list_remove_single:
  assumes "list_rep l [a]"
  shows "\<exists>l'. list_remove (Some l) (Some a) = Some (Some (itm (nodes l) a), Some l') \<and>
     list_rep l' [] \<and> capacity l' = capacity l"
  using assms
  by (auto simp: list_rep_def list_remove_def ring_def set_next_def set_previous_def nxt_def prv_def
      itm_def dom_eq_singleton_conv)

lemma list_remove_links:
  assumes r: "ring ns (a # zs)" and "zs \<noteq> []"
  obtains n ns1 n1 ns2 n2 where "ns a = Some n" "node_next n = hd zs" "node_previous n = last zs"
    "set_next ns (node_previous n) (node_next n) = Some ns1" "ns1 a = Some n1"
    "set_previous ns1 (node_next n1) (node_previous n1) = Some ns2" "ns2 a = Some n2"
    "node_item n2 = itm ns a" "ring ns2 zs" "itm ns2 = itm ns" "dom ns2 = dom ns"
proof -
  obtain z zs' where zs: "zs = z # zs'" using assms(2) by (cases zs) auto
  have a: "a \<notin> set zs" "a \<in> dom ns" and sub: "set zs \<subseteq> dom ns" using r by (auto simp: ring_def)
  have nx: "nxt ns a = hd zs" and pv: "prv ns a = last zs"
    using ring_next [of ns "[]" a z zs'] ring_previous_hd [OF r] r zs by simp_all
  have "prv ns a \<in> dom ns" using pv sub assms(2) by (auto simp: last_in_set subset_iff)
  then obtain ns1 where ns1: "set_next ns (prv ns a) (nxt ns a) = Some ns1"
    "nxt ns1 = (nxt ns)(prv ns a := nxt ns a)" "prv ns1 = prv ns" "itm ns1 = itm ns" "dom ns1 = dom ns"
    by (rule set_next_ok)
  have ne: "a \<noteq> last zs" "a \<noteq> hd zs" using a(1) assms(2) by (auto simp: last_in_set)
  have nx1: "nxt ns1 a = hd zs" using ns1(2) nx pv ne by simp
  then have "nxt ns1 a \<in> dom ns1" using sub zs ns1(5) by simp
  then obtain ns2 where ns2: "set_previous ns1 (nxt ns1 a) (prv ns1 a) = Some ns2"
    "prv ns2 = (prv ns1)(nxt ns1 a := prv ns1 a)" "nxt ns2 = nxt ns1" "itm ns2 = itm ns1" "dom ns2 = dom ns1"
    by (rule set_previous_ok)
  have ring: "ring ns2 zs"
    by (rule ring_remove [OF r assms(2)]) (use ns1 ns2 nx pv nx1 in simp_all)
  obtain n n1 n2 where n: "ns a = Some n" "ns1 a = Some n1" "ns2 a = Some n2"
    using a(2) ns1(5) ns2(5) by (metis domD)
  then have "node_next n = nxt ns a" "node_previous n = prv ns a" "node_next n1 = nxt ns1 a"
    "node_previous n1 = prv ns1 a" "node_item n2 = itm ns2 a"
    by (simp_all add: nxt_def prv_def itm_def)
  with ns1 ns2 nx pv ring n show thesis
    by (intro that [of n ns1 n1 ns2 n2]) simp_all
qed

lemma list_remove_many:
  assumes rep: "list_rep l (xs @ a # ys)" and ne: "xs @ ys \<noteq> []"
  shows "\<exists>l'. list_remove (Some l) (Some a) = Some (Some (itm (nodes l) a), Some l') \<and>
     list_rep l' (xs @ ys) \<and> (\<forall>b\<in>set (xs @ ys). itm (nodes l') b = itm (nodes l) b) \<and>
     capacity l' = capacity l"
proof -
  have r: "ring (nodes l) (xs @ a # ys)" using rep by (simp add: list_rep_def)
  then have "ring (nodes l) (a # (ys @ xs))" using ring_swap [of _ xs "a # ys"] by simp
  moreover have "ys @ xs \<noteq> []" using ne by auto
  ultimately obtain n ns1 n1 ns2 n2 where L: "nodes l a = Some n" "node_next n = hd (ys @ xs)"
    "node_previous n = last (ys @ xs)"
    "set_next (nodes l) (node_previous n) (node_next n) = Some ns1" "ns1 a = Some n1"
    "set_previous ns1 (node_next n1) (node_previous n1) = Some ns2" "ns2 a = Some n2"
    "node_item n2 = itm (nodes l) a" "ring ns2 (ys @ xs)" "itm ns2 = itm (nodes l)"
    "dom ns2 = dom (nodes l)"
    by (rule list_remove_links)
  have dist: "a \<notin> set xs" "a \<notin> set ys" using ring_distinct [OF r] by auto
  have r': "ring (ns2(a := None)) (xs @ ys)"
    using ring_free [OF ring_swap [OF L(9)], of a] dist by simp
  have eqs: "hd (xs @ a # ys) = a \<longleftrightarrow> xs = []" "last (xs @ a # ys) = a \<longleftrightarrow> ys = []"
    using dist by (auto simp: hd_append last_in_set split: list.splits)
  have "dom (ns2(a := None)) = set (xs @ ys)" using L(11) rep dist by (auto simp: list_rep_def)
  moreover have "\<forall>b\<in>set (xs @ ys). itm (ns2(a := None)) b = itm (nodes l) b"
    using dist fun_cong [OF L(10)] by (auto simp: itm_def)
  ultimately show ?thesis
    using r' rep L(1-8) eqs ne
    by (auto simp: list_remove_def list_rep_def hd_append last_append size_dec_def)
qed

lemma list_remove_ok:
  assumes rep: "list_rep l (xs @ a # ys)"
  shows "\<exists>l'. list_remove (Some l) (Some a) = Some (Some (itm (nodes l) a), Some l') \<and>
     list_rep l' (xs @ ys) \<and> (\<forall>b\<in>set (xs @ ys). itm (nodes l') b = itm (nodes l) b) \<and>
     capacity l' = capacity l"
proof (cases "xs @ ys = []")
  case True
  with list_remove_single [of l a] rep show ?thesis by auto
next
  case False
  with rep show ?thesis by (rule list_remove_many)
qed

lemma list_prioritise_ok:
  assumes "list_rep l (xs @ a # ys)"
  shows "\<exists>l'. list_prioritise (Some l) a = Some l' \<and> list_rep l' (a # ys @ xs) \<and>
     nodes l' = nodes l \<and> capacity l' = capacity l"
proof -
  have r: "ring (nodes l) (xs @ a # ys)" using assms by (simp add: list_rep_def)
  from ring_swap [OF this] have r': "ring (nodes l) (a # ys @ xs)" by simp
  have "prv (nodes l) a = last (a # ys @ xs)" using ring_previous_hd [OF r'] by simp
  moreover obtain n where "nodes l a = Some n" using ring_in_dom [OF r] by auto
  ultimately show ?thesis
    using assms r' by (auto simp: list_prioritise_def list_rep_def prv_def)
qed

lemma set_item_ok:
  assumes "list_rep l as" and "a \<in> set as"
  shows "\<exists>l'. set_item l a it = Some l' \<and> list_rep l' as \<and> itm (nodes l') = (itm (nodes l))(a := it) \<and>
     capacity l' = capacity l"
proof -
  from assms obtain n where n: "nodes l a = Some n" by (auto simp: list_rep_def)
  let ?ns = "(nodes l)(a \<mapsto> n\<lparr>node_item := it\<rparr>)"
  have "ring ?ns as = ring (nodes l) as"
    by (rule ring_cong) (use n in \<open>auto simp: nxt_def prv_def fun_eq_iff\<close>)
  with assms n show ?thesis by (auto simp: set_item_def list_rep_def)
qed


lemma list_destroy_loop_ok:
  assumes "ring ns0 (xs @ a # ys)" and "t = hd (xs @ a # ys)"
    and "\<And>b. b \<in> set (a # ys) \<Longrightarrow> ns b = ns0 b" and "dom ns = set (a # ys)"
  shows "list_destroy_loop (Some t) ns a acc = Some (acc @ map (itm ns0) (a # ys), Map.empty)"
  using assms
proof (induction ys arbitrary: xs a ns acc)
  case Nil
  then obtain n where n: "ns a = Some n" "ns0 a = Some n" using ring_in_dom [OF Nil(1), of a] by auto
  have "nxt ns0 a = t" using ring_next_last [OF Nil(1)] Nil(2) by simp
  then have "node_next n = t" by (simp add: nxt_def n)
  moreover have "ns(a := None) = Map.empty" using Nil(4) by (auto simp: fun_eq_iff)
  ultimately show ?case by (subst list_destroy_loop.simps) (simp add: n itm_def)
next
  case (Cons c ys)
  then obtain n where n: "ns a = Some n" "ns0 a = Some n" using ring_in_dom [OF Cons(2), of a] by auto
  have nx: "node_next n = c" using ring_next [OF Cons(2)] by (simp add: nxt_def n)
  have dist: "distinct (xs @ a # c # ys)" using ring_distinct [OF Cons(2)] .
  then have ct: "c \<noteq> t" using Cons.prems(2) by (cases xs) auto
  have "list_destroy_loop (Some t) (ns(a := None)) c (acc @ [itm ns0 a]) =
        Some ((acc @ [itm ns0 a]) @ map (itm ns0) (c # ys), Map.empty)"
  proof (rule Cons.IH [of "xs @ [a]"])
    show "ring ns0 ((xs @ [a]) @ c # ys)" using Cons.prems(1) by simp
    show "t = hd ((xs @ [a]) @ c # ys)" using Cons.prems(2) by (simp add: hd_append)
    show "(ns(a := None)) b = ns0 b" if "b \<in> set (c # ys)" for b
      using that Cons.prems(3) [of b] dist by auto
    show "dom (ns(a := None)) = set (c # ys)" using Cons.prems(4) dist by auto
  qed
  with nx ct show ?case by (subst list_destroy_loop.simps) (simp add: n itm_def)
qed

text \<open>\<open>list_destroy\<close> hands every item to the destructor once, in order, and frees every node.\<close>

lemma list_destroy_ok:
  assumes "list_rep l as"
  shows "list_destroy (Some l) = Some (map (itm (nodes l)) as, Map.empty)"
proof (cases as)
  case Nil
  with assms show ?thesis by (simp add: list_destroy_def list_rep_def)
next
  case (Cons a ys)
  with assms have "ring (nodes l) ([] @ a # ys)" "tail l = Some a" "dom (nodes l) = set (a # ys)"
    by (simp_all add: list_rep_def)
  with list_destroy_loop_ok [of "nodes l" "[]" a ys a "nodes l" "[]"] Cons show ?thesis
    by (simp add: list_destroy_def)
qed

section \<open>The queue interface\<close>

text \<open>
  What the clients of the list rely on: a bounded first-in first-out queue.  A push may be
  refused because the queue is full or because no memory is left, and then changes nothing.
\<close>

primrec push_all ::
  "(allocator \<Rightarrow> 'q \<Rightarrow> 'a \<Rightarrow> (bool \<times> 'q \<times> allocator) option) \<Rightarrow> allocator \<Rightarrow> 'q \<Rightarrow> 'a list \<Rightarrow>
   (bool list \<times> 'q \<times> allocator) option"
where
  "push_all push m q [] = Some ([], q, m)"
| "push_all push m q (x # xs) =
     do { (ok, q, m) \<leftarrow> push m q x; (oks, q, m) \<leftarrow> push_all push m q xs; Some (ok # oks, q, m) }"

primrec pop_all :: "('q \<Rightarrow> ('a option \<times> 'q) option) \<Rightarrow> nat \<Rightarrow> 'q \<Rightarrow> ('a option list \<times> 'q) option" where
  "pop_all pop 0 q = Some ([], q)"
| "pop_all pop (Suc n) q = do { (x, q) \<leftarrow> pop q; (ys, q) \<leftarrow> pop_all pop n q; Some (x # ys, q) }"

definition alloc_mono :: "allocator \<Rightarrow> allocator \<Rightarrow> bool" where
  "alloc_mono m m' \<longleftrightarrow> alloc_ok m' = alloc_ok m \<and> next_addr m \<le> next_addr m'"

lemma alloc_mono_refl [simp, intro]: "alloc_mono m m"
  by (simp add: alloc_mono_def)

lemma alloc_mono_Suc [simp, intro]: "alloc_mono m (m\<lparr>next_addr := Suc (next_addr m)\<rparr>)"
  by (simp add: alloc_mono_def)

lemma alloc_mono_trans [trans]: "alloc_mono a b \<Longrightarrow> alloc_mono b c \<Longrightarrow> alloc_mono a c"
  by (simp add: alloc_mono_def)

lemma alloc_mono_never_fails: "alloc_mono m m' \<Longrightarrow> never_fails m' = never_fails m"
  by (simp add: alloc_mono_def never_fails_def)

locale bounded_queue =
  fixes invar :: "allocator \<Rightarrow> 'q \<Rightarrow> bool"
    and contents :: "'q \<Rightarrow> 'a list"
    and bound :: "'q \<Rightarrow> nat"
    and push :: "allocator \<Rightarrow> 'q \<Rightarrow> 'a \<Rightarrow> (bool \<times> 'q \<times> allocator) option"
    and pop :: "'q \<Rightarrow> ('a option \<times> 'q) option"
  assumes contents_bound: "invar m q \<Longrightarrow> length (contents q) \<le> bound q"
    and push_spec: "invar m q \<Longrightarrow> returns (push m q x) (\<lambda>(ok, q', m').
        invar m' q' \<and> bound q' = bound q \<and> alloc_mono m m' \<and>
        (ok \<longleftrightarrow> length (contents q) < bound q \<and> alloc_ok m (next_addr m)) \<and>
        contents q' = contents q @ (if ok then [x] else []))"
    and pop_spec: "invar m q \<Longrightarrow> returns (pop q) (\<lambda>(r, q').
        invar m q' \<and> bound q' = bound q \<and>
        r = (if contents q = [] then None else Some (hd (contents q))) \<and> contents q' = tl (contents q))"
begin

lemma push_all_accepts:
  "invar m q \<Longrightarrow> never_fails m \<Longrightarrow> length (contents q) + length xs \<le> bound q \<Longrightarrow>
   returns (push_all push m q xs) (\<lambda>(oks, q', m').
     oks = replicate (length xs) True \<and> invar m' q' \<and> bound q' = bound q \<and> contents q' = contents q @ xs)"
proof (induction xs arbitrary: m q)
  case Nil
  then show ?case by simp
next
  case (Cons x xs)
  have step: "returns (push_all push m1 q1 xs) (\<lambda>(oks, q', m'). oks = replicate (length xs) True \<and>
      invar m' q' \<and> bound q' = bound q \<and> contents q' = contents q @ x # xs)"
    if "invar m1 q1" "bound q1 = bound q" "alloc_mono m m1" "contents q1 = contents q @ [x]" for m1 q1
    using Cons.IH [of m1 q1] Cons.prems(2,3) that alloc_mono_never_fails [of m m1] by simp
  have "returns (do { (oks, q, m) \<leftarrow> push_all push m1 q1 xs; Some (ok # oks, q, m) }) (\<lambda>(oks, q', m').
      oks = replicate (length (x # xs)) True \<and> invar m' q' \<and> bound q' = bound q \<and> contents q' = contents q @ x # xs)"
    if "invar m1 q1" "bound q1 = bound q" "alloc_mono m m1" "contents q1 = contents q @ [x]" "ok" for m1 q1 ok
    by (rule returns_bindI [OF step [OF that(1-4)]]) (use that(5) in auto)
  then show ?case
    unfolding push_all.simps using Cons.prems(2,3)
    by (intro returns_bindI [OF push_spec [OF Cons.prems(1), of x]]) (auto simp: never_fails_def)
qed

lemma pop_all_takes:
  "invar m q \<Longrightarrow> n \<le> length (contents q) \<Longrightarrow>
   returns (pop_all pop n q) (\<lambda>(ys, q'). ys = map Some (take n (contents q)) \<and> invar m q' \<and>
     contents q' = drop n (contents q))"
proof (induction n arbitrary: q)
  case 0
  then show ?case by simp
next
  case (Suc n)
  then obtain c cs where c: "contents q = c # cs" by (cases "contents q") auto
  have step: "returns (pop_all pop n q1) (\<lambda>(ys, q'). ys = map Some (take n cs) \<and> invar m q' \<and>
      contents q' = drop n cs)" if "invar m q1" "contents q1 = cs" for q1
    using Suc.IH [of q1] Suc.prems(2) that c by simp
  have "returns (do { (ys, q) \<leftarrow> pop_all pop n q1; Some (Some c # ys, q) }) (\<lambda>(ys, q').
      ys = map Some (take (Suc n) (contents q)) \<and> invar m q' \<and> contents q' = drop (Suc n) (contents q))"
    if "invar m q1" "contents q1 = cs" for q1
    by (rule returns_bindI [OF step [OF that]]) (auto simp: c)
  then show ?case unfolding pop_all.simps
    by (intro returns_bindI [OF pop_spec [OF Suc.prems(1)]]) (auto simp: c)
qed

text \<open>Items come out in the order they went in.\<close>

lemma fifo:
  assumes "invar m q" and "contents q = []" and "never_fails m" and "length xs \<le> bound q"
  shows "returns (do { (oks, q, m) \<leftarrow> push_all push m q xs; pop_all pop (length xs) q })
           (\<lambda>(ys, q'). ys = map Some xs \<and> contents q' = [])"
proof -
  have "returns (push_all push m q xs) (\<lambda>(oks, q', m').
     oks = replicate (length xs) True \<and> invar m' q' \<and> bound q' = bound q \<and> contents q' = xs)"
    using push_all_accepts [OF assms(1,3)] assms(2,4) by simp
  moreover have "returns (pop_all pop (length xs) q') (\<lambda>(ys, q'). ys = map Some xs \<and> contents q' = [])"
    if "invar m' q'" "contents q' = xs" for m' q'
    using pop_all_takes [OF that(1), of "length xs"] that(2) by (auto elim!: returns_weaken)
  ultimately show ?thesis by (auto simp: wp elim!: returns_weaken)
qed

end

subsection \<open>The list implements the interface\<close>

text \<open>\<open>list_ok m l\<close>: well formed, with every node at an address the allocator has given out.\<close>

definition list_ok :: "allocator \<Rightarrow> 'a linked_list \<Rightarrow> bool" where
  "list_ok m l \<longleftrightarrow> list_wf l \<and> (\<forall>a\<in>set (list_addrs l). a < next_addr m)"

definition queue_ok :: "allocator \<Rightarrow> 'a linked_list option \<Rightarrow> bool" where
  "queue_ok m q \<longleftrightarrow> (case q of None \<Rightarrow> False | Some l \<Rightarrow> list_ok m l)"

definition queue_items :: "'a linked_list option \<Rightarrow> 'a list" where
  "queue_items q = (case q of None \<Rightarrow> [] | Some l \<Rightarrow> list_items l)"

definition queue_cap :: "'a linked_list option \<Rightarrow> nat" where
  "queue_cap q = (case q of None \<Rightarrow> 0 | Some l \<Rightarrow> capacity l)"

lemma queue_simps [simp]:
  "queue_ok m (Some l) = list_ok m l" "\<not> queue_ok m None" "queue_items (Some l) = list_items l"
  "queue_cap (Some l) = capacity l"
  by (simp_all add: queue_ok_def queue_items_def queue_cap_def)

lemma list_ok_repI: "list_rep l as \<Longrightarrow> \<forall>a\<in>set as. a < next_addr m \<Longrightarrow> list_ok m l"
  by (auto simp: list_ok_def list_wf_def list_rep_addrs)

lemma list_ok_rep: "list_ok m l \<longleftrightarrow> list_rep l (list_addrs l) \<and> (\<forall>a\<in>set (list_addrs l). a < next_addr m)"
  by (simp add: list_ok_def list_wf_rep)

lemma list_ok_mono: "list_ok m l \<Longrightarrow> alloc_mono m m' \<Longrightarrow> list_ok m' l"
  by (fastforce simp: list_ok_def alloc_mono_def)

lemma queue_ok_mono: "queue_ok m q \<Longrightarrow> alloc_mono m m' \<Longrightarrow> queue_ok m' q"
  by (auto simp: queue_ok_def list_ok_mono split: option.splits)

lemma list_ok_full: "list_ok m l \<Longrightarrow> list_is_full l \<longleftrightarrow> length (list_items l) = capacity l"
  by (simp add: list_ok_def length_list_items list_is_full_def)

lemma list_ok_empty: "list_ok m l \<Longrightarrow> list_is_empty l \<longleftrightarrow> list_items l = []"
  using length_list_items [of l] by (auto simp: list_ok_def list_is_empty_def)

lemma list_ok_count: "list_ok m l \<Longrightarrow> item_count l = length (list_items l)"
  by (simp add: list_ok_def length_list_items)

lemma list_ok_le: "list_ok m l \<Longrightarrow> length (list_items l) \<le> capacity l"
  by (simp add: list_ok_def list_items_capacity)

lemma list_create_ok:
  "list_create m cap = (Some l, m') \<Longrightarrow> list_ok m' l \<and> list_items l = [] \<and> capacity l = cap"
  using list_create_rep [of m cap l]
  by (auto simp: list_rep_items intro: list_ok_repI [of l "[]"])

lemma list_push_returns:
  assumes "list_ok m l"
  shows "returns (list_push m (Some l) it) (\<lambda>(ok, q', m'). \<exists>l'. q' = Some l' \<and> list_ok m' l' \<and>
     capacity l' = capacity l \<and> alloc_mono m m' \<and>
     (ok \<longleftrightarrow> \<not> list_is_full l \<and> alloc_ok m (next_addr m)) \<and>
     list_items l' = list_items l @ (if ok then [it] else []) \<and>
     list_addrs l' = list_addrs l @ (if ok then [next_addr m] else []) \<and>
     (\<forall>a\<in>set (list_addrs l). itm (nodes l') a = itm (nodes l) a))"
proof (cases "\<not> list_is_full l \<and> alloc_ok m (next_addr m)")
  case True
  let ?as = "list_addrs l"
  from assms have rep: "list_rep l ?as" and lt: "\<forall>a\<in>set ?as. a < next_addr m"
    by (simp_all add: list_ok_rep)
  then have fresh: "next_addr m \<notin> set ?as" by auto
  with True list_push_ok [OF rep, of m it] obtain l' where
    l': "list_push m (Some l) it = Some (True, Some l', m\<lparr>next_addr := Suc (next_addr m)\<rparr>)"
      "list_rep l' (?as @ [next_addr m])" "itm (nodes l') = (itm (nodes l))(next_addr m := it)"
      "capacity l' = capacity l"
    by blast
  have "list_ok (m\<lparr>next_addr := Suc (next_addr m)\<rparr>) l'"
    by (rule list_ok_repI [OF l'(2)]) (use lt in \<open>auto simp: less_Suc_eq\<close>)
  moreover have "list_items l' = list_items l @ [it]"
    using fresh by (simp add: list_rep_items [OF l'(2)] list_rep_items [OF rep] l'(3))
  ultimately show ?thesis
    using l'(1,3,4) True fresh by (auto simp: list_rep_addrs [OF l'(2)])
next
  case False
  then show ?thesis
    using assms list_ok_mono [OF assms, of "m\<lparr>next_addr := Suc (next_addr m)\<rparr>"]
    by (cases "list_is_full l") (auto simp: list_push_full list_push_no_memory)
qed

lemma list_remove_returns:
  assumes "list_ok m l" and "list_addrs l = xs @ a # ys"
  shows "returns (list_remove (Some l) (Some a)) (\<lambda>(r, q'). r = Some (itm (nodes l) a) \<and>
     (\<exists>l'. q' = Some l' \<and> list_ok m l' \<and> capacity l' = capacity l \<and> list_addrs l' = xs @ ys \<and>
       list_items l' = map (itm (nodes l)) (xs @ ys) \<and> (\<forall>b\<in>set (xs @ ys). itm (nodes l') b = itm (nodes l) b)))"
proof -
  from assms have rep: "list_rep l (xs @ a # ys)" and lt: "\<forall>a\<in>set (xs @ ys). a < next_addr m"
    by (auto simp: list_ok_rep)
  from list_remove_ok [OF rep] obtain l' where
    l': "list_remove (Some l) (Some a) = Some (Some (itm (nodes l) a), Some l')" "list_rep l' (xs @ ys)"
      "\<forall>b\<in>set (xs @ ys). itm (nodes l') b = itm (nodes l) b" "capacity l' = capacity l"
    by blast
  moreover have "list_ok m l'" by (rule list_ok_repI [OF l'(2) lt])
  moreover have "list_items l' = map (itm (nodes l)) (xs @ ys)"
    unfolding list_rep_items [OF l'(2)] using l'(3) by (auto intro: map_cong)
  ultimately show ?thesis by (simp add: list_rep_addrs [OF l'(2)])
qed

lemma list_pop_returns:
  assumes "list_ok m l"
  shows "returns (list_pop (Some l)) (\<lambda>(r, q').
     r = (if list_items l = [] then None else Some (hd (list_items l))) \<and>
     (\<exists>l'. q' = Some l' \<and> list_ok m l' \<and> capacity l' = capacity l \<and> list_items l' = tl (list_items l)))"
proof (cases "list_addrs l")
  case Nil
  with assms have "tail l = None" by (simp add: list_ok_rep list_rep_def)
  with Nil assms show ?thesis by (simp add: list_pop_def list_items_def)
next
  case (Cons a ys)
  with assms have "tail l = Some a" by (simp add: list_ok_rep list_rep_def)
  moreover have "list_items l = map (itm (nodes l)) (a # ys)" using Cons by (simp add: list_items_def)
  ultimately show ?thesis
    using list_remove_returns [of m l "[]" a ys] assms Cons
    by (auto simp: list_pop_def elim!: returns_weaken)
qed

interpretation ll: bounded_queue queue_ok queue_items queue_cap list_push list_pop
proof
  show "length (queue_items q) \<le> queue_cap q" if "queue_ok m q" for m and q :: "'a linked_list option"
    using that by (auto simp: list_ok_le split: option.splits simp: queue_ok_def)
next
  fix m and q :: "'a linked_list option" and x
  assume "queue_ok m q"
  then obtain l where "q = Some l" "list_ok m l" by (auto simp: queue_ok_def split: option.splits)
  note ok = this list_ok_full [OF this(2)] list_ok_le [OF this(2)]
  show "returns (list_push m q x) (\<lambda>(ok, q', m'). queue_ok m' q' \<and> queue_cap q' = queue_cap q \<and>
      alloc_mono m m' \<and> (ok \<longleftrightarrow> length (queue_items q) < queue_cap q \<and> alloc_ok m (next_addr m)) \<and>
      queue_items q' = queue_items q @ (if ok then [x] else []))"
    unfolding ok(1) by (rule returns_weaken [OF list_push_returns [OF ok(2), of x]]) (use ok in auto)
next
  fix m and q :: "'a linked_list option"
  assume "queue_ok m q"
  then obtain l where "q = Some l" "list_ok m l" by (auto simp: queue_ok_def split: option.splits)
  then show "returns (list_pop q) (\<lambda>(r, q'). queue_ok m q' \<and> queue_cap q' = queue_cap q \<and>
      r = (if queue_items q = [] then None else Some (hd (queue_items q))) \<and> queue_items q' = tl (queue_items q))"
    by (auto intro: returns_weaken [OF list_pop_returns [of m l]])
qed

section \<open>Properties\<close>

text \<open>
  C7: a queue is first-in first-out.  From an empty list of sufficient capacity, with memory
  available, every push of a sequence succeeds, and as many pops return the same items in the same
  order and leave the list empty, with no invalid pointer followed on the way.
\<close>

theorem linked_list_fifo:
  assumes "queue_ok m q" and "queue_items q = []" and "never_fails m" and "length xs \<le> queue_cap q"
  shows "returns (do { (oks, q, m) \<leftarrow> push_all list_push m q xs; pop_all list_pop (length xs) q })
           (\<lambda>(ys, q'). ys = map Some xs \<and> queue_items q' = [])"
  by (rule ll.fifo [OF assms])

definition empty_list :: "'a linked_list" where
  "empty_list = \<lparr>capacity = 3, item_count = 0, head = None, tail = None, nodes = Map.empty\<rparr>"

lemma empty_list_ok [simp]: "list_ok m empty_list" "list_items empty_list = []" "capacity empty_list = 3"
  by (simp_all add: empty_list_def list_ok_def list_wf_def list_rep_def list_addrs_def list_items_def ring_def)

theorem linked_list_fifo_witness:
  "returns (do { (oks, q, m) \<leftarrow> push_all list_push \<lparr>alloc_ok = (\<lambda>_. True), next_addr = 0\<rparr> (Some empty_list) [7, 8, 9 :: nat];
                 pop_all list_pop (length [7, 8, 9 :: nat]) q })
     (\<lambda>(ys, q'). ys = [Some 7, Some 8, Some 9])"
  by (rule returns_weaken [OF linked_list_fifo]) (auto simp: never_fails_def)

definition two_nodes :: "nat linked_list" where
  "two_nodes = \<lparr>capacity = 4, item_count = 2, head = Some 5, tail = Some 3,
     nodes = [3 \<mapsto> \<lparr>node_next = 5, node_previous = 5, node_item = 50\<rparr>,
              5 \<mapsto> \<lparr>node_next = 3, node_previous = 3, node_item = 60\<rparr>]\<rparr>"

lemma two_nodes_rep: "list_rep two_nodes [3, 5]"
  by (simp add: two_nodes_def list_rep_def ring_def nxt_def prv_def insert_commute)

text \<open>
  C8: \<open>list_destroy\<close> ends, hands every item to the destructor exactly once, in order,
  and frees every node, reading no node after it is freed.
\<close>

theorem linked_list_destroy:
  assumes "list_ok m l"
  shows "list_destroy (Some l) = Some (list_items l, Map.empty)"
  using assms list_destroy_ok [of l "list_addrs l"] by (simp add: list_ok_rep list_items_def)

theorem linked_list_destroy_witness:
  "list_destroy (Some two_nodes) = Some (list_items two_nodes, Map.empty)"
  by (rule linked_list_destroy [OF list_ok_repI [OF two_nodes_rep, of "\<lparr>alloc_ok = (\<lambda>_. True), next_addr = 9\<rparr>"]])
    simp

end
