(* ===== verification/C_Stdio.thy ===== *)
theory C_Stdio
  imports Zejf_Prelude
begin

text \<open>
  The part of the C library's formatted input and output the program uses: \<open>%u\<close>-style
  decimal output, \<open>snprintf\<close> with its truncation, and \<open>sscanf\<close> with the directives
  \<open>%hu\<close>, \<open>%u\<close>, \<open>%[^\t\n]\<close>, \<open>%f\<close> and literal characters.  A C string is the
  list of its characters without the terminating zero.

  Unsigned conversions follow \<open>strtoul\<close> on a 64-bit \<open>unsigned long\<close> (blanks and a sign
  are accepted, a negated value wraps, a value that does not fit gives \<open>ULONG_MAX\<close>), and the
  result is cut to the width of the object it is stored in.  A \<open>float\<close> is its IEEE 754 binary32
  bit pattern; \<open>%.4f\<close> prints the exactly rounded decimal and \<open>%f\<close> reads the nearest
  float, ties to even in both directions.
\<close>

section \<open>Characters\<close>

definition char_code :: "char \<Rightarrow> nat" where
  "char_code c = of_char c"

definition is_digit :: "char \<Rightarrow> bool" where
  "is_digit c \<longleftrightarrow> 48 \<le> char_code c \<and> char_code c \<le> 57"

definition is_space :: "char \<Rightarrow> bool" where
  "is_space c \<longleftrightarrow> char_code c = 32 \<or> (9 \<le> char_code c \<and> char_code c \<le> 13)"

definition digit_char :: "nat \<Rightarrow> char" where
  "digit_char d = char_of (48 + d)"

abbreviation (input) NUL :: char where "NUL \<equiv> CHR 0x00"
abbreviation (input) TAB :: char where "TAB \<equiv> CHR 0x09"
abbreviation (input) NL :: char where "NL \<equiv> CHR 0x0A"

text \<open>The string a byte buffer holds: everything before the first zero.\<close>

definition c_string :: "char list \<Rightarrow> string" where
  "c_string buf = takeWhile (\<lambda>c. c \<noteq> NUL) buf"

section \<open>Output\<close>

fun show_nat :: "nat \<Rightarrow> string" where
  "show_nat n = (if n < 10 then [digit_char n] else show_nat (n div 10) @ [digit_char (n mod 10)])"

declare show_nat.simps [simp del]

definition show_uint :: "'a::len word \<Rightarrow> string" where
  "show_uint w = show_nat (unat w)"

text \<open>\<open>snprintf (buff, n, ...)\<close>: what the buffer holds, and the value returned.\<close>

definition snprintf :: "nat \<Rightarrow> string \<Rightarrow> string \<times> int" where
  "snprintf n s = (take (n - 1) s, int (length s))"

section \<open>Input\<close>

primrec scan_digits :: "nat \<Rightarrow> string \<Rightarrow> nat \<times> string" where
  "scan_digits acc [] = (acc, [])"
| "scan_digits acc (c # cs) =
     (if is_digit c then scan_digits (10 * acc + (char_code c - 48)) cs else (acc, c # cs))"

definition scan_sign :: "string \<Rightarrow> bool \<times> string" where
  "scan_sign s =
     (case s of
        [] \<Rightarrow> (False, [])
      | c # cs \<Rightarrow> if c = CHR ''-'' then (True, cs) else if c = CHR ''+'' then (False, cs) else (False, s))"

definition ulong_of :: "bool \<Rightarrow> nat \<Rightarrow> nat" where
  "ulong_of neg v =
     (if 2 ^ 64 \<le> v then 2 ^ 64 - 1 else if neg then (2 ^ 64 - v) mod 2 ^ 64 else v)"

definition scan_uint :: "nat \<Rightarrow> string \<Rightarrow> (nat \<times> string) option" where
  "scan_uint width s =
     (case scan_sign (dropWhile is_space s) of
        (neg, t) \<Rightarrow>
          (case t of
             [] \<Rightarrow> None
           | c # _ \<Rightarrow>
               if is_digit c
               then (case scan_digits 0 t of (v, rest) \<Rightarrow> Some (ulong_of neg v mod 2 ^ width, rest))
               else None))"

section \<open>Floats\<close>

definition round_half_even :: "nat \<Rightarrow> nat \<Rightarrow> nat" where
  "round_half_even a b =
     (let q = a div b; r = a mod b
      in if b < 2 * r \<or> (2 * r = b \<and> odd q) then Suc q else q)"

definition float_sign :: "u32 \<Rightarrow> bool" where
  "float_sign b \<longleftrightarrow> 2 ^ 31 \<le> unat b"

definition float_expo :: "u32 \<Rightarrow> nat" where
  "float_expo b = unat b div 2 ^ 23 mod 2 ^ 8"

definition float_frac :: "u32 \<Rightarrow> nat" where
  "float_frac b = unat b mod 2 ^ 23"

text \<open>The magnitude of a finite float times \<open>2 ^ 149\<close>.\<close>

definition float_mag :: "u32 \<Rightarrow> nat" where
  "float_mag b =
     (if float_expo b = 0 then float_frac b else (float_frac b + 2 ^ 23) * 2 ^ (float_expo b - 1))"

definition pad4 :: "nat \<Rightarrow> string" where
  "pad4 n = [digit_char (n div 1000 mod 10), digit_char (n div 100 mod 10),
             digit_char (n div 10 mod 10), digit_char (n mod 10)]"

text \<open>\<open>%.4f\<close>.\<close>

definition show_float4 :: "u32 \<Rightarrow> string" where
  "show_float4 b =
     (if float_sign b then ''-'' else '''') @
     (if float_expo b = 255 then (if float_frac b = 0 then ''inf'' else ''nan'')
      else (let n = round_half_even (float_mag b * 10000) (2 ^ 149)
            in show_nat (n div 10000) @ ''.'' @ pad4 (n mod 10000)))"

text \<open>
  The float nearest to \<open>num / den\<close>.  The quotient is counted in units of \<open>2 ^ -149\<close>, the
  smallest subnormal; \<open>e\<close> is the shift that leaves 24 significant bits (none for a
  subnormal), and adding it above the 23 fraction bits of the rounded significand gives the bit
  pattern, also when the rounding carries.  Anything above the largest float is infinity.
\<close>

fun ilog2 :: "nat \<Rightarrow> nat" where
  "ilog2 n = (if n \<le> 1 then 0 else Suc (ilog2 (n div 2)))"

declare ilog2.simps [simp del]

definition float_of_ratio :: "bool \<Rightarrow> nat \<Rightarrow> nat \<Rightarrow> u32" where
  "float_of_ratio neg num den =
     (let scaled = num * 2 ^ 149 div den;
          e = ilog2 scaled - 23;
          q = round_half_even (num * 2 ^ 149) (den * 2 ^ e);
          bits = min (q + e * 2 ^ 23) (255 * 2 ^ 23)
      in of_nat (bits + (if neg then 2 ^ 31 else 0)))"

definition lower_char :: "char \<Rightarrow> char" where
  "lower_char c = (if 65 \<le> char_code c \<and> char_code c \<le> 90 then char_of (char_code c + 32) else c)"

definition ci_prefix :: "string \<Rightarrow> string \<Rightarrow> bool" where
  "ci_prefix p s \<longleftrightarrow> map lower_char (take (length p) s) = p"

text \<open>An optional exponent: \<^term>\<open>None\<close> when \<open>e\<close> is not followed by an integer.\<close>

definition scan_exponent :: "string \<Rightarrow> (int \<times> string) option" where
  "scan_exponent s =
     (case s of
        [] \<Rightarrow> Some (0, [])
      | c # cs \<Rightarrow>
          if lower_char c = CHR ''e''
          then (case scan_sign cs of
                  (neg, t) \<Rightarrow>
                    (if t \<noteq> [] \<and> is_digit (hd t)
                     then (case scan_digits 0 t of (v, rest) \<Rightarrow> Some ((if neg then - int v else int v), rest))
                     else None))
          else Some (0, s))"

text \<open>\<open>%f\<close>.\<close>

definition scan_float :: "string \<Rightarrow> (u32 \<times> string) option" where
  "scan_float s =
     (case scan_sign (dropWhile is_space s) of
        (neg, t) \<Rightarrow>
          if ci_prefix ''infinity'' t then Some (float_of_ratio neg (2 ^ 128) 1, drop 8 t)
          else if ci_prefix ''inf'' t then Some (float_of_ratio neg (2 ^ 128) 1, drop 3 t)
          else if ci_prefix ''nan'' t then Some (if neg then 0xFFC00000 else 0x7FC00000, drop 3 t)
          else
            (case scan_digits 0 t of
               (whole, t1) \<Rightarrow>
                 (case (if t1 \<noteq> [] \<and> hd t1 = CHR ''.'' then scan_digits whole (tl t1) else (whole, t1)) of
                    (mant, t2) \<Rightarrow>
                      (let frac = (if t1 \<noteq> [] \<and> hd t1 = CHR ''.'' then length (tl t1) - length t2 else 0)
                       in if length t = length t1 \<and> frac = 0 then None
                          else
                            (case scan_exponent t2 of
                               None \<Rightarrow> None
                             | Some (x, rest) \<Rightarrow>
                                 Some (if 0 \<le> x
                                       then float_of_ratio neg (mant * 10 ^ nat x) (10 ^ frac)
                                       else float_of_ratio neg mant (10 ^ (frac + nat (- x))), rest))))))"

section \<open>sscanf\<close>

datatype directive = U nat | L char | Not_tab_newline | F

datatype scanned = UVal nat | SVal string | FVal u32

text \<open>The values assigned, in order; the value \<open>sscanf\<close> returns is their number.\<close>

fun sscanf :: "directive list \<Rightarrow> string \<Rightarrow> scanned list" where
  "sscanf [] s = []"
| "sscanf (L c # ds) s = (case s of [] \<Rightarrow> [] | x # xs \<Rightarrow> if x = c then sscanf ds xs else [])"
| "sscanf (U w # ds) s = (case scan_uint w s of None \<Rightarrow> [] | Some (v, r) \<Rightarrow> UVal v # sscanf ds r)"
| "sscanf (F # ds) s = (case scan_float s of None \<Rightarrow> [] | Some (v, r) \<Rightarrow> FVal v # sscanf ds r)"
| "sscanf (Not_tab_newline # ds) s =
     (let t = takeWhile (\<lambda>c. c \<noteq> TAB \<and> c \<noteq> NL) s
      in if t = [] then [] else SVal t # sscanf ds (drop (length t) s))"

section \<open>Lemmas\<close>

lemma char_code_less: "char_code c < 256"
  unfolding char_code_def by (metis of_char_mod_256 mod_less_divisor zero_less_numeral)

lemma char_code_inj: "char_code a = char_code b \<Longrightarrow> a = b"
  by (simp add: char_code_def)

lemma char_code_digit_char [simp]: "d < 10 \<Longrightarrow> char_code (digit_char d) = 48 + d"
  by (simp add: char_code_def digit_char_def)

lemma is_digit_digit_char [simp]: "d < 10 \<Longrightarrow> is_digit (digit_char d)"
  by (simp add: is_digit_def)

lemma is_digit_not_space: "is_digit c \<Longrightarrow> \<not> is_space c"
  by (auto simp: is_digit_def is_space_def)

lemma is_digit_not_sign: "is_digit c \<Longrightarrow> c \<noteq> CHR ''-'' \<and> c \<noteq> CHR ''+''"
  by (auto simp: is_digit_def char_code_def)

lemma show_nat_not_Nil [simp]: "show_nat n \<noteq> []"
  by (subst show_nat.simps) simp

lemma show_nat_digits: "c \<in> set (show_nat n) \<Longrightarrow> is_digit c"
proof (induction n arbitrary: c rule: show_nat.induct)
  case (1 n)
  show ?case
  proof (cases "n < 10")
    case True
    with 1(2) show ?thesis by (simp add: show_nat.simps [of n])
  next
    case False
    with 1 show ?thesis by (auto simp: show_nat.simps [of n])
  qed
qed

lemma scan_digits_append:
  "(\<forall>c\<in>set xs. is_digit c) \<Longrightarrow> scan_digits acc (xs @ ys) = scan_digits (fst (scan_digits acc xs)) ys"
  by (induction xs arbitrary: acc) simp_all

lemma scan_digits_stop: "ys = [] \<or> \<not> is_digit (hd ys) \<Longrightarrow> scan_digits acc ys = (acc, ys)"
  by (cases ys) simp_all

lemma scan_digits_show_nat_fst: "fst (scan_digits 0 (show_nat n)) = n"
proof (induction n rule: show_nat.induct)
  case (1 n)
  show ?case
  proof (cases "n < 10")
    case True
    then show ?thesis by (simp add: show_nat.simps [of n])
  next
    case False
    have "scan_digits 0 (show_nat (n div 10) @ [digit_char (n mod 10)]) =
          scan_digits (n div 10) [digit_char (n mod 10)]"
      using 1 False show_nat_digits by (subst scan_digits_append) auto
    with False show ?thesis by (simp add: show_nat.simps [of n])
  qed
qed

lemma scan_digits_show_nat:
  assumes "rest = [] \<or> \<not> is_digit (hd rest)"
  shows "scan_digits 0 (show_nat n @ rest) = (n, rest)"
  using assms show_nat_digits
  by (subst scan_digits_append) (auto simp: scan_digits_show_nat_fst scan_digits_stop)

lemma show_nat_Cons:
  obtains c cs where "show_nat n = c # cs" "is_digit c"
  using show_nat_digits [of _ n] by (cases "show_nat n") auto

text \<open>What \<open>%u\<close> prints, \<open>%u\<close> reads back, up to the width of the target.\<close>

lemma scan_uint_show_nat:
  assumes "n < 2 ^ 64" and "rest = [] \<or> \<not> is_digit (hd rest)"
  shows "scan_uint w (show_nat n @ rest) = Some (n mod 2 ^ w, rest)"
proof -
  obtain c cs where c: "show_nat n = c # cs" "is_digit c" by (rule show_nat_Cons)
  then have "dropWhile is_space (show_nat n @ rest) = show_nat n @ rest"
    by (simp add: is_digit_not_space)
  moreover have "scan_sign (show_nat n @ rest) = (False, show_nat n @ rest)"
    using c is_digit_not_sign [OF c(2)] by (simp add: scan_sign_def)
  moreover note scan_digits_show_nat [OF assms(2), of n]
  ultimately show ?thesis using c assms(1) by (simp add: scan_uint_def ulong_of_def)
qed

lemma scan_uint_show_uint:
  fixes x :: "'a::len word"
  assumes "LENGTH('a) \<le> w" and "w \<le> 64" and "rest = [] \<or> \<not> is_digit (hd rest)"
  shows "scan_uint w (show_uint x @ rest) = Some (unat x, rest)"
proof -
  have le: "2 ^ LENGTH('a) \<le> (2 ^ w :: nat)" using assms(1) by (rule power_increasing) simp
  have le64: "2 ^ w \<le> (2 ^ 64 :: nat)" using assms(2) by (rule power_increasing) simp
  have "unat x < 2 ^ w" using unat_bound [of x] le by (rule less_le_trans)
  moreover have "unat x < 2 ^ 64" using calculation le64 by (rule less_le_trans)
  ultimately show ?thesis
    unfolding show_uint_def using scan_uint_show_nat [OF _ assms(3), of "unat x" w] by simp
qed

lemma length_show_nat: "n < 10 ^ Suc k \<Longrightarrow> length (show_nat n) \<le> Suc k"
proof (induction k arbitrary: n)
  case 0
  then show ?case by (simp add: show_nat.simps [of n])
next
  case (Suc k)
  show ?case
  proof (cases "n < 10")
    case True
    then show ?thesis by (simp add: show_nat.simps [of n])
  next
    case False
    have "n div 10 < 10 ^ Suc k" using Suc.prems by (simp add: div_less_iff_less_mult mult.commute)
    from Suc.IH [OF this] False show ?thesis by (simp add: show_nat.simps [of n])
  qed
qed

lemma length_show_u8: "length (show_uint (x :: u8)) \<le> 3"
  using length_show_nat [of "unat x" 2] unat_bound [of x] by (simp add: show_uint_def)

lemma length_show_u16: "length (show_uint (x :: u16)) \<le> 5"
  using length_show_nat [of "unat x" 4] unat_bound [of x] by (simp add: show_uint_def)

lemma length_show_u32: "length (show_uint (x :: u32)) \<le> 10"
  using length_show_nat [of "unat x" 9] unat_bound [of x] by (simp add: show_uint_def)

lemma show_uint_digits: "c \<in> set (show_uint x) \<Longrightarrow> is_digit c"
  by (simp add: show_uint_def show_nat_digits)

lemma show_uint_not_Nil [simp]: "show_uint x \<noteq> []"
  by (simp add: show_uint_def)


lemma not_digit [simp]:
  "\<not> is_digit CHR '';''" "\<not> is_digit CHR '',''" "\<not> is_digit CHR ''@''" "\<not> is_digit CHR ''.''"
  "\<not> is_digit CHR ''}''" "\<not> is_digit NUL" "\<not> is_digit TAB" "\<not> is_digit NL"
  by (simp_all add: is_digit_def char_code_def)

lemma show_uint_no_NUL: "NUL \<notin> set (show_uint x)"
  using show_uint_digits not_digit(6) by blast

lemma c_string_id: "NUL \<notin> set s \<Longrightarrow> c_string s = s"
  unfolding c_string_def by (induction s) auto

lemma length_c_string: "length (c_string s) \<le> length s"
  by (simp add: c_string_def length_takeWhile_le)

subsection \<open>How much of the input a conversion consumes\<close>

lemma scan_digits_length: "length (snd (scan_digits acc s)) \<le> length s"
  by (induction s arbitrary: acc) (simp_all add: le_Suc_eq)

lemma scan_sign_length: "scan_sign s = (neg, t) \<Longrightarrow> length t \<le> length s"
  by (auto simp: scan_sign_def split: list.splits if_splits)

lemma scan_uint_consumes: "scan_uint w s = Some (v, r) \<Longrightarrow> length r < length s"
proof -
  assume a: "scan_uint w s = Some (v, r)"
  let ?u = "dropWhile is_space s"
  obtain neg t where t: "scan_sign ?u = (neg, t)" by fastforce
  have le: "length t \<le> length s"
    using scan_sign_length [OF t] length_dropWhile_le [of is_space s] by (rule le_trans)
  from a t obtain c cs where c: "t = c # cs" "is_digit c"
    and sd: "r = snd (scan_digits 0 t)"
    by (auto simp: scan_uint_def split: list.splits if_splits prod.splits)
  have "length r < length t"
    using c scan_digits_length [of "char_code c - 48" cs] by (simp add: sd)
  with le show ?thesis by simp
qed

lemma sscanf_L: "sscanf (L c # ds) s = vs \<Longrightarrow> vs \<noteq> [] \<Longrightarrow> \<exists>r. s = c # r \<and> sscanf ds r = vs"
  by (auto split: list.splits if_splits)

lemma sscanf_U: "sscanf (U w # ds) s = v # vs \<Longrightarrow> \<exists>n r. v = UVal n \<and> sscanf ds r = vs \<and> length r < length s"
  by (auto split: option.splits dest: scan_uint_consumes)


text \<open>The equations that run a conversion on a concrete string.\<close>

lemmas scan_exec =
  c_string_def scan_uint_def scan_sign_def is_space_def is_digit_def char_code_def ulong_of_def

end
