(* ===== verification/Zejf_Defs.thy ===== *)
theory Zejf_Defs
  imports Linked_List C_Stdio
begin

text \<open>
  The types of \<open>api/zejf_api/inc/zejf_defs.h\<close>, what a device supplies to the library
  (\<open>platform\<close>: the constants of its \<open>zejf_settings.h\<close> and the functions
  \<open>zejf_api.h\<close> leaves to the target), and the global variables of the library (\<open>zejf\<close>).

  The type \<open>'w\<close> is the rest of the device, the state the platform's own functions read and
  change (files, sockets, the interface array).  A packet, a request and a routing entry have
  exactly one owner and are values; hours and interfaces are shared through pointers and live in
  stores.
\<close>

section \<open>Error codes\<close>

datatype zejf_err =
    ZEJF_OK
  | ZEJF_ERR_GENERIC
  | ZEJF_ERR_NULL
  | ZEJF_ERR_PACKET_FORMAT
  | ZEJF_ERR_CHECKSUM
  | ZEJF_ERR_ITSELF
  | ZEJF_ERR_QUEUE_FULL
  | ZEJF_ERR_TXID
  | ZEJF_ERR_RXID
  | ZEJF_ERR_TTL
  | ZEJF_ERR_NO_SUCH_DEVICE
  | ZEJF_ERR_PACKET_FORMAT_BRACKETS
  | ZEJF_ERR_PACKET_FORMAT_ITEMS
  | ZEJF_ERR_PACKET_FORMAT_LENGTH
  | ZEJF_ERR_OUT_OF_MEMORY
  | ZEJF_ERR_NO_CHANGE
  | ZEJF_ERR_PARTIAL
  | ZEJF_ERR_INVALID_SAMPLE_RATE
  | ZEJF_ERR_VARIABLES_MAX
  | ZEJF_ERR_VARIABLE_ALREADY_EXISTS
  | ZEJF_ERR_LOG_NUMBER
  | ZEJF_ERR_VALUE
  | ZEJF_ERR_NO_FREE_SLOTS
  | ZEJF_ERR_REQUEST_ALREADY_EXISTS
  | ZEJF_ERR_IO
  | ZEJF_ERR_FILE_DOESNT_EXIST
  | ZEJF_ERR_SEND_UNABLE

section \<open>Constants\<close>

text \<open>A \<open>float\<close> is its bit pattern: these are \<open>-999.0\<close> and \<open>-998.0\<close>.  Both are finite and
  not zero, so \<open>==\<close> against them is equality of bit patterns.\<close>

definition VALUE_EMPTY :: u32 where "VALUE_EMPTY = 0xC479C000"
definition VALUE_NOT_MEASURED :: u32 where "VALUE_NOT_MEASURED = 0xC4798000"

abbreviation (input) BROADCAST :: u16 where "BROADCAST \<equiv> 0xFFFF"
abbreviation (input) ALL_VARIABLES :: u16 where "ALL_VARIABLES \<equiv> 0xFFFF"
abbreviation (input) PRIORITY_HIGH :: nat where "PRIORITY_HIGH \<equiv> 2"
abbreviation (input) PRIORITY_MEDIUM :: nat where "PRIORITY_MEDIUM \<equiv> 4"
abbreviation (input) PRIORITY_LOW :: nat where "PRIORITY_LOW \<equiv> 8"
abbreviation (input) HOUR :: nat where "HOUR \<equiv> 3600000"
abbreviation (input) CHECKSUM_BYPASS_VALUE :: u32 where "CHECKSUM_BYPASS_VALUE \<equiv> 0"
abbreviation (input) RESERVED_DEVICE_IDS :: u16 where "RESERVED_DEVICE_IDS \<equiv> 1000"

text \<open>The enumeration \<open>commands\<close>.\<close>

abbreviation (input) RIP :: u8 where "RIP \<equiv> 0x01"
abbreviation (input) DATA_PROVIDE :: u8 where "DATA_PROVIDE \<equiv> 0x04"
abbreviation (input) DATA_DEMAND :: u8 where "DATA_DEMAND \<equiv> 0x05"
abbreviation (input) DATA_LOG :: u8 where "DATA_LOG \<equiv> 0x06"
abbreviation (input) DATA_REQUEST :: u8 where "DATA_REQUEST \<equiv> 0x07"
abbreviation (input) DATA_CHECK :: u8 where "DATA_CHECK \<equiv> 0x08"
abbreviation (input) TIME_CHECK :: u8 where "TIME_CHECK \<equiv> 0x09"
abbreviation (input) MESSAGE :: u8 where "MESSAGE \<equiv> 0x0a"
abbreviation (input) TIME_REQUEST :: u8 where "TIME_REQUEST \<equiv> 0x0b"
abbreviation (input) STATUS_REQUEST :: u8 where "STATUS_REQUEST \<equiv> 0x0c"
abbreviation (input) VARIABLES_REQUEST :: u8 where "VARIABLES_REQUEST \<equiv> 0x0d"
abbreviation (input) VARIABLE_INFO :: u8 where "VARIABLE_INFO \<equiv> 0x0e"
abbreviation (input) ID_REQUEST :: u8 where "ID_REQUEST \<equiv> 0x0f"
abbreviation (input) ID_INFO :: u8 where "ID_INFO \<equiv> 0x10"
abbreviation (input) DATA_SUBSCRIBE :: u8 where "DATA_SUBSCRIBE \<equiv> 0x11"

section \<open>Structures\<close>

record Interface =
  if_uid :: int
  if_type :: nat
  if_handle :: int
  rx_count :: u32
  tx_count :: u32

record VariableInfo =
  samples_per_hour :: u32
  var_id :: u16

record Variable =
  variable_info :: VariableInfo
  var_data :: "u32 list"

text \<open>\<open>variables\<close> is the allocated array; the null pointer of a new hour is the empty array.\<close>

record DataHour =
  hour_id :: u32
  hour_checksum :: u32
  variable_count :: u16
  hour_flags :: u8
  variables :: "Variable list"

record DataRequest =
  req_variable :: VariableInfo
  target_device :: u16
  req_hour_number :: u32
  start_log :: u32
  end_log :: u32
  current_log :: u32
  req_errors :: u16

record RoutingEntry =
  last_seen :: u32
  device_id :: u16
  demand_count :: u16
  demanded_variables :: "u16 list"
  re_interface :: "addr option"
  paused :: u8
  distance :: u8
  provided_count :: u16
  provided_variables :: "VariableInfo list"
  subscribed :: bool

text \<open>\<open>message\<close> is null or a zero-terminated string.\<close>

record Packet =
  source_interface :: "addr option"
  destination_interface :: "addr option"
  time_received :: u32
  time_sent :: u32
  pkt_flags :: u32
  pkt_checksum :: u32
  pkt_from :: u16
  pkt_to :: u16
  message_size :: u16
  ttl :: u8
  command :: u8
  message :: "string option"

section \<open>The platform\<close>

record 'w platform =
  DEVICE_ID :: u16
  PACKET_MAX_LENGTH :: nat
  PACKET_MAX_TTL :: nat
  RX_QUEUE_SIZE :: nat
  TX_QUEUE_SIZE :: nat
  PACKET_DELETE_TIMEOUT :: u32
  ROUTING_TABLE_SIZE :: nat
  ROUTING_ENTRY_TIMEOUT :: u32
  HOUR_BUFFER_SIZE :: nat
  SAMPLE_RATE_MAX :: u32
  VARIABLES_MAX :: u16
  DATA_REQUEST_QUEUE_SIZE :: nat
  network_send_via :: "string \<Rightarrow> Interface \<Rightarrow> u32 \<Rightarrow> 'w \<Rightarrow> zejf_err \<times> 'w"
  get_all_interfaces :: "'w \<Rightarrow> addr list"
  get_provided_variables :: "'w \<Rightarrow> VariableInfo list option"
  get_demanded_variables :: "'w \<Rightarrow> u16 list option"
  hour_load :: "u32 \<Rightarrow> 'w \<Rightarrow> (zejf_err \<times> u8 list option) \<times> 'w"
  hour_save :: "u32 \<Rightarrow> u8 list \<Rightarrow> 'w \<Rightarrow> zejf_err \<times> 'w"

text \<open>
  The constants of \<open>devices/ZejfMeteo/src/zejf_settings.h\<close>, with platform functions that do
  nothing: no interfaces, no variables, no stored hours, and every send succeeds.
\<close>

definition meteo_settings :: "'w platform" where
  "meteo_settings =
     \<lparr>DEVICE_ID = 1, PACKET_MAX_LENGTH = 128, PACKET_MAX_TTL = 8, RX_QUEUE_SIZE = 16384,
      TX_QUEUE_SIZE = 16384, PACKET_DELETE_TIMEOUT = 10000, ROUTING_TABLE_SIZE = 16,
      ROUTING_ENTRY_TIMEOUT = 60000, HOUR_BUFFER_SIZE = 128, SAMPLE_RATE_MAX = 720,
      VARIABLES_MAX = 128, DATA_REQUEST_QUEUE_SIZE = 32768,
      network_send_via = (\<lambda>_ _ _ w. (ZEJF_OK, w)), get_all_interfaces = (\<lambda>_. []),
      get_provided_variables = (\<lambda>_. Some []), get_demanded_variables = (\<lambda>_. Some []),
      hour_load = (\<lambda>_ w. ((ZEJF_ERR_FILE_DOESNT_EXIST, None), w)), hour_save = (\<lambda>_ _ w. (ZEJF_OK, w))\<rparr>"

lemma meteo_settings_simps [simp]:
  "DEVICE_ID meteo_settings = 1" "PACKET_MAX_LENGTH meteo_settings = 128" "PACKET_MAX_TTL meteo_settings = 8"
  "RX_QUEUE_SIZE meteo_settings = 16384" "TX_QUEUE_SIZE meteo_settings = 16384"
  "PACKET_DELETE_TIMEOUT meteo_settings = 10000" "ROUTING_TABLE_SIZE meteo_settings = 16"
  "ROUTING_ENTRY_TIMEOUT meteo_settings = 60000" "HOUR_BUFFER_SIZE meteo_settings = 128"
  "SAMPLE_RATE_MAX meteo_settings = 720" "VARIABLES_MAX meteo_settings = 128"
  "DATA_REQUEST_QUEUE_SIZE meteo_settings = 32768" "network_send_via meteo_settings s i t w = (ZEJF_OK, w)"
  "get_all_interfaces meteo_settings w = []" "get_provided_variables meteo_settings w = Some []"
  "get_demanded_variables meteo_settings w = Some []"
  "hour_load meteo_settings h w = ((ZEJF_ERR_FILE_DOESNT_EXIST, None), w)"
  "hour_save meteo_settings h bs w = (ZEJF_OK, w)"
  by (simp_all add: meteo_settings_def)

section \<open>The global variables of the library\<close>

record 'w zejf =
  mem :: allocator
  tx_queue :: "Packet linked_list option"
  rx_queue :: "Packet linked_list option"
  next_packet :: "addr option"
  provide_ptr :: u16
  demand_ptr :: u16
  rtable :: "RoutingEntry option list"
  routing_table_top :: nat
  next_free_id :: u16
  data_queue :: "addr linked_list option"
  hours :: "addr \<Rightarrow> DataHour option"
  data_requests_queue :: "DataRequest linked_list option"
  interfaces :: "addr \<Rightarrow> Interface option"
  world :: 'w

text \<open>\<open>malloc\<close> on the global state.\<close>

definition zmalloc :: "'w zejf \<Rightarrow> addr option \<times> 'w zejf" where
  "zmalloc s = (fst (malloc (mem s)), s\<lparr>mem := snd (malloc (mem s))\<rparr>)"

lemma zmalloc_never_fails [simp]:
  "never_fails (mem s) \<Longrightarrow>
   zmalloc s = (Some (next_addr (mem s)), s\<lparr>mem := (mem s)\<lparr>next_addr := Suc (next_addr (mem s))\<rparr>\<rparr>)"
  by (simp add: zmalloc_def)

text \<open>What allocating alone may change.\<close>

definition mem_frame :: "'w zejf \<Rightarrow> 'w zejf \<Rightarrow> bool" where
  "mem_frame s s' \<longleftrightarrow> s' = s\<lparr>mem := mem s'\<rparr> \<and> alloc_mono (mem s) (mem s')"

text \<open>The globals before \<open>zejf_init\<close>, with a heap that serves every request.\<close>

definition zejf_start :: "'w platform \<Rightarrow> 'w \<Rightarrow> 'w zejf" where
  "zejf_start P w =
     \<lparr>mem = \<lparr>alloc_ok = (\<lambda>_. True), next_addr = 0\<rparr>, tx_queue = None, rx_queue = None, next_packet = None,
      provide_ptr = 0, demand_ptr = 0, rtable = replicate (ROUTING_TABLE_SIZE P) None, routing_table_top = 0,
      next_free_id = RESERVED_DEVICE_IDS, data_queue = None, hours = Map.empty,
      data_requests_queue = None, interfaces = Map.empty, world = w\<rparr>"

end
