(* ===== verification/Protocol.thy ===== *)
theory Protocol
  imports Zejf_Defs
begin

text \<open>
  The packet text format of \<open>api/zejf_api/src/zejf_protocol.c\<close>: the checksum, writing a packet
  as text and reading it back.  Freeing a packet has no effect on values, so
  \<open>packet_destroy\<close> has no counterpart.
\<close>

unbundle bit_operations_syntax

section \<open>Definitions\<close>

definition packet_zero :: Packet where
  "packet_zero =
     \<lparr>source_interface = None, destination_interface = None, time_received = 0, time_sent = 0,
      pkt_flags = 0, pkt_checksum = 0, pkt_from = 0, pkt_to = 0, message_size = 0, ttl = 0, command = 0,
      message = None\<rparr>"

definition packet_create :: "allocator \<Rightarrow> Packet option \<times> allocator" where
  "packet_create m =
     (case malloc m of (None, m') \<Rightarrow> (None, m') | (Some _, m') \<Rightarrow> (Some packet_zero, m'))"

definition checksum :: "u8 list \<Rightarrow> u32" where
  "checksum bs = foldl (\<lambda>result b. (push_bit 5 result + result) + ucast b) 5381 bs"

definition char_byte :: "char \<Rightarrow> u8" where
  "char_byte c = of_nat (char_code c)"

text \<open>The bytes of an object in memory, least significant first.\<close>

definition bytes_u16 :: "u16 \<Rightarrow> u8 list" where
  "bytes_u16 x = [ucast x, ucast (drop_bit 8 x)]"

definition bytes_u32 :: "u32 \<Rightarrow> u8 list" where
  "bytes_u32 x = [ucast x, ucast (drop_bit 8 x), ucast (drop_bit 16 x), ucast (drop_bit 24 x)]"

text \<open>The \<open>message_size\<close> bytes at \<open>message\<close>; reading past the terminating zero is undefined.\<close>

definition message_bytes :: "Packet \<Rightarrow> u8 list option" where
  "message_bytes p =
     (case message p of
        None \<Rightarrow> if message_size p = 0 then Some [] else None
      | Some s \<Rightarrow>
          if unat (message_size p) \<le> length s + 1
          then Some (take (unat (message_size p)) (map char_byte s @ [0])) else None)"

definition packet_checksum :: "Packet \<Rightarrow> u32 option" where
  "packet_checksum p =
     do {
       let result = checksum [command p];
       let result = result + checksum (bytes_u16 (message_size p));
       bs \<leftarrow> message_bytes p;
       let result = result + checksum bs;
       let result = result + checksum (bytes_u16 (pkt_from p));
       let result = result + checksum (bytes_u16 (pkt_to p));
       let result = result + checksum [ttl p];
       let result = result + checksum (bytes_u32 (pkt_flags p));
       Some result
     }"

definition replace_character :: "string \<Rightarrow> char \<Rightarrow> char \<Rightarrow> string" where
  "replace_character str target replacement = map (\<lambda>c. if c = target then replacement else c) str"

abbreviation (input) STX :: char where "STX \<equiv> CHR 0x02"

definition packet_format :: "directive list" where
  "packet_format =
     [L CHR ''{'', U 16, L CHR '';'', U 16, L CHR '';'', U 16, L CHR '';'', U 16, L CHR '';'',
      U 32, L CHR '';'', U 32, L CHR '';'', U 16, L CHR '';'', Not_tab_newline]"

text \<open>The eight conversions, when all of them succeeded (\<open>rv == 8\<close>).\<close>

definition packet_fields ::
  "scanned list \<Rightarrow> (nat \<times> nat \<times> nat \<times> nat \<times> nat \<times> nat \<times> nat \<times> string) option"
where
  "packet_fields vs =
     (case vs of
        [UVal from', UVal to', UVal command', UVal ttl', UVal checksum', UVal flags', UVal size', SVal msg] \<Rightarrow>
          Some (from', to', command', ttl', checksum', flags', size', msg)
      | _ \<Rightarrow> None)"

text \<open>
  \<open>data\<close> is the buffer up to \<open>length\<close>; the callers put a zero after it, which is what
  \<open>data[0]\<close> reads when the length is zero.
\<close>

definition packet_from_string ::
  "Packet \<Rightarrow> char list \<Rightarrow> allocator \<Rightarrow> (zejf_err \<times> Packet \<times> allocator) option"
where
  "packet_from_string p data m =
     (if data = [] \<or> hd data \<noteq> CHR ''{'' \<or> last data \<noteq> CHR ''}''
      then Some (ZEJF_ERR_PACKET_FORMAT_BRACKETS, p, m)
      else
        (case packet_fields (sscanf packet_format (c_string data)) of
           None \<Rightarrow> Some (ZEJF_ERR_PACKET_FORMAT_ITEMS, p, m)
         | Some (from', to', command', ttl', checksum', flags', message_size', text) \<Rightarrow>
             (let msg = butlast text
              in if length msg \<noteq> message_size'
                 then Some (ZEJF_ERR_PACKET_FORMAT_LENGTH, p, m)
                 else
                   (let p = p\<lparr>pkt_from := of_nat from', pkt_to := of_nat to', ttl := of_nat ttl',
                              pkt_flags := of_nat flags', pkt_checksum := of_nat checksum',
                              command := of_nat command', message_size := of_nat message_size',
                              message := Some msg\<rparr>
                    in do {
                      expected \<leftarrow> (if pkt_checksum p \<noteq> CHECKSUM_BYPASS_VALUE then packet_checksum p
                                   else Some (pkt_checksum p));
                      (if pkt_checksum p \<noteq> CHECKSUM_BYPASS_VALUE \<and> pkt_checksum p \<noteq> expected
                       then Some (ZEJF_ERR_CHECKSUM, p\<lparr>message := None\<rparr>, m)
                       else
                         (case malloc m of
                            (None, m) \<Rightarrow> Some (ZEJF_ERR_OUT_OF_MEMORY, p\<lparr>message := None\<rparr>, m)
                          | (Some _, m) \<Rightarrow>
                              Some (ZEJF_OK, p\<lparr>message := Some (replace_character msg STX NL)\<rparr>, m)))
                    }))))"

definition packet_text :: "Packet \<Rightarrow> u32 \<Rightarrow> string \<Rightarrow> string" where
  "packet_text p cs msg =
     ''{'' @ show_uint (pkt_from p) @ '';'' @ show_uint (pkt_to p) @ '';'' @ show_uint (command p) @ '';'' @
     show_uint (ttl p) @ '';'' @ show_uint cs @ '';'' @ show_uint (pkt_flags p) @ '';'' @
     show_uint (message_size p) @ '';'' @ msg @ ''}''"

text \<open>The result, the buffer, and the packet, whose size and message the function rewrites.\<close>

definition packet_to_string :: "Packet \<Rightarrow> nat \<Rightarrow> (zejf_err \<times> string \<times> Packet) option" where
  "packet_to_string p max_length =
     do {
       let p = (case message p of
                  None \<Rightarrow> p\<lparr>message_size := 0\<rparr>
                | Some s \<Rightarrow> p\<lparr>message_size := of_nat (length s), message := Some (replace_character s NL STX)\<rparr>);
       cs \<leftarrow> packet_checksum p;
       let text = packet_text p cs (case message p of None \<Rightarrow> [] | Some s \<Rightarrow> s);
       (case snprintf max_length text of
          (buff, rv) \<Rightarrow> Some (if 0 < rv then ZEJF_OK else ZEJF_ERR_GENERIC, buff, p))
     }"


section \<open>The checksum\<close>

lemma times33_inj: "33 * (a :: u32) = 33 * b \<Longrightarrow> a = b"
proof -
  assume eq: "33 * a = 33 * b"
  have unit: "1041204193 * (33 * c) = c" for c :: u32
  proof -
    have "(1041204193 * 33 :: u32) = 1" by code_simp
    then show ?thesis by (simp only: mult.assoc [symmetric]) simp
  qed
  from eq have "1041204193 * (33 * a) = 1041204193 * (33 * b)" by (rule arg_cong)
  then show ?thesis by (simp only: unit)
qed

definition checksum_add :: "u32 \<Rightarrow> u8 \<Rightarrow> u32" where
  "checksum_add r b = (push_bit 5 r + r) + ucast b"

lemma checksum_eq: "checksum bs = foldl checksum_add 5381 bs"
  by (simp add: checksum_def checksum_add_def [abs_def])

lemma checksum_add_eq: "checksum_add r b = 33 * r + ucast b"
  by (simp add: checksum_add_def push_bit_eq_mult algebra_simps)

lemma checksum_fold_inj: "foldl checksum_add a bs = foldl checksum_add a' bs \<Longrightarrow> a = a'"
proof (induction bs arbitrary: a a')
  case Nil
  then show ?case by simp
next
  case (Cons b bs)
  then have "checksum_add a b = checksum_add a' b" by simp
  then have "33 * a = 33 * a'" by (simp add: checksum_add_eq)
  then show ?case by (rule times33_inj)
qed

lemma ucast_u8_inj: "(ucast (a :: u8) :: u32) = ucast b \<Longrightarrow> a = b"
proof (rule bit_word_eqI)
  fix n
  assume "(ucast a :: u32) = ucast b" and n: "n < LENGTH(8)"
  then have "bit (ucast a :: u32) n = bit (ucast b :: u32) n" by simp
  with n show "bit a n = bit b n" by (simp add: bit_ucast_iff)
qed

lemma checksum_single_byte:
  assumes "checksum (xs @ a # ys) = checksum (xs @ b # ys)"
  shows "a = b"
proof -
  let ?r = "foldl checksum_add 5381 xs"
  have "checksum_add ?r a = checksum_add ?r b"
    using assms checksum_fold_inj [of "checksum_add ?r a" ys "checksum_add ?r b"]
    by (simp add: checksum_eq)
  then have "(ucast a :: u32) = ucast b" by (simp add: checksum_add_eq)
  then show ?thesis by (rule ucast_u8_inj)
qed

lemma char_byte_inj: "char_byte a = char_byte b \<Longrightarrow> a = b"
proof -
  assume "char_byte a = char_byte b"
  then have "unat (char_byte a) = unat (char_byte b)" by simp
  then have "char_code a = char_code b"
    by (simp add: char_byte_def unat_of_nat char_code_less)
  then show ?thesis by (rule char_code_inj)
qed


lemma packet_checksum_message:
  assumes "message p = Some s" and "unat (message_size p) = length s"
  shows "packet_checksum p =
    Some (checksum [command p] + checksum (bytes_u16 (message_size p)) + checksum (map char_byte s) +
          checksum (bytes_u16 (pkt_from p)) + checksum (bytes_u16 (pkt_to p)) + checksum [ttl p] +
          checksum (bytes_u32 (pkt_flags p)))"
  using assms by (simp add: packet_checksum_def message_bytes_def)

section \<open>Writing and reading a packet\<close>

text \<open>The messages the text format carries faithfully.\<close>

definition wire_message :: "string \<Rightarrow> bool" where
  "wire_message s \<longleftrightarrow> NUL \<notin> set s \<and> TAB \<notin> set s \<and> STX \<notin> set s"

definition packet_message :: "Packet \<Rightarrow> string" where
  "packet_message p = (case message p of None \<Rightarrow> [] | Some s \<Rightarrow> s)"

lemma length_replace_character [simp]: "length (replace_character s a b) = length s"
  by (simp add: replace_character_def)

lemma set_replace_character: "c \<in> set (replace_character s a b) \<Longrightarrow> c \<in> set s \<and> c \<noteq> a \<or> c = b"
  by (auto simp: replace_character_def split: if_splits)

lemma replace_character_back: "b \<notin> set s \<Longrightarrow> replace_character (replace_character s a b) b a = s"
  unfolding replace_character_def by (induction s) auto

text \<open>Substituting one byte of the message of a packet always changes its checksum.\<close>

text \<open>C6: the checksum detects every substitution of a single character of the message.\<close>

theorem checksum_detects_substitution:
  assumes "message p = Some (xs @ a # ys)" and "unat (message_size p) = length (xs @ a # ys)"
    and "a \<noteq> b"
  shows "packet_checksum p \<noteq> packet_checksum (p\<lparr>message := Some (xs @ b # ys)\<rparr>)"
proof
  assume "packet_checksum p = packet_checksum (p\<lparr>message := Some (xs @ b # ys)\<rparr>)"
  then have "checksum (map char_byte (xs @ a # ys)) = checksum (map char_byte (xs @ b # ys))"
    using packet_checksum_message [OF assms(1,2)]
      packet_checksum_message [of "p\<lparr>message := Some (xs @ b # ys)\<rparr>" "xs @ b # ys"] assms(2)
    by simp
  then have "char_byte a = char_byte b" using checksum_single_byte by simp
  with assms(3) show False by (blast dest: char_byte_inj)
qed

theorem checksum_detects_substitution_witness:
  "packet_checksum (packet_zero\<lparr>message := Some ''1013.2'', message_size := 6\<rparr>) \<noteq>
   packet_checksum (packet_zero\<lparr>message := Some ''1013.7'', message_size := 6\<rparr>)"
  using checksum_detects_substitution
    [of "packet_zero\<lparr>message := Some ''1013.2'', message_size := 6\<rparr>" "''1013.''" "CHR ''2''" "[]" "CHR ''7''"]
  by (simp add: packet_zero_def)

lemma takeWhile_text: "TAB \<notin> set s \<Longrightarrow> NL \<notin> set s \<Longrightarrow> takeWhile (\<lambda>c. c \<noteq> TAB \<and> c \<noteq> NL) s = s"
  by (induction s) auto

lemma sscanf_packet_text:
  assumes "TAB \<notin> set msg" and "NL \<notin> set msg"
  shows "sscanf packet_format (packet_text p cs msg) =
    [UVal (unat (pkt_from p)), UVal (unat (pkt_to p)), UVal (unat (command p)), UVal (unat (ttl p)),
     UVal (unat cs), UVal (unat (pkt_flags p)), UVal (unat (message_size p)), SVal (msg @ ''}'')]"
proof -
  have "takeWhile (\<lambda>c. c \<noteq> TAB \<and> c \<noteq> NL) (msg @ ''}'') = msg @ ''}''"
    using assms by (intro takeWhile_text) auto
  then show ?thesis
    by (simp add: packet_format_def packet_text_def scan_uint_show_uint Let_def)
qed

lemma packet_text_no_NUL: "NUL \<notin> set msg \<Longrightarrow> NUL \<notin> set (packet_text p cs msg)"
  by (auto simp: packet_text_def show_uint_no_NUL)

lemma packet_text_brackets [simp]:
  "packet_text p cs msg \<noteq> []" "hd (packet_text p cs msg) = CHR ''{''" "last (packet_text p cs msg) = CHR ''}''"
  by (simp_all add: packet_text_def)

lemma length_packet_text: "length (packet_text p cs msg) \<le> length msg + 50"
  using length_show_u16 [of "pkt_from p"] length_show_u16 [of "pkt_to p"] length_show_u8 [of "command p"]
    length_show_u8 [of "ttl p"] length_show_u32 [of cs] length_show_u32 [of "pkt_flags p"]
    length_show_u16 [of "message_size p"]
  by (simp add: packet_text_def)

text \<open>The packet that is written: its message escaped and its size set.\<close>

definition packet_written :: "Packet \<Rightarrow> Packet" where
  "packet_written p =
     (case message p of
        None \<Rightarrow> p\<lparr>message_size := 0\<rparr>
      | Some s \<Rightarrow> p\<lparr>message_size := of_nat (length s), message := Some (replace_character s NL STX)\<rparr>)"

lemma packet_written_simps [simp]:
  "pkt_from (packet_written p) = pkt_from p" "pkt_to (packet_written p) = pkt_to p"
  "command (packet_written p) = command p" "ttl (packet_written p) = ttl p"
  "pkt_flags (packet_written p) = pkt_flags p" "source_interface (packet_written p) = source_interface p"
  "time_received (packet_written p) = time_received p"
  "message (packet_written p) = None \<longleftrightarrow> message p = None"
  by (simp_all add: packet_written_def split: option.splits)

lemma message_bytes_written: "\<exists>bs. message_bytes (packet_written p) = Some bs"
proof (cases "message p")
  case None
  then show ?thesis by (simp add: message_bytes_def packet_written_def)
next
  case (Some s)
  have "unat (of_nat (length s) :: u16) \<le> length s" by (simp add: unat_of_nat)
  with Some show ?thesis by (simp add: message_bytes_def packet_written_def)
qed

lemma packet_checksum_written: "\<exists>cs. packet_checksum (packet_written p) = Some cs"
  using message_bytes_written [of p] by (auto simp: packet_checksum_def)

text \<open>\<open>packet_to_string\<close> always returns, whatever the packet.\<close>

lemma packet_to_string_eq:
  obtains cs where "packet_checksum (packet_written p) = Some cs"
    "packet_to_string p n =
       Some (ZEJF_OK, take (n - 1) (packet_text (packet_written p) cs (packet_message (packet_written p))),
             packet_written p)"
proof -
  obtain cs where cs: "packet_checksum (packet_written p) = Some cs"
    using packet_checksum_written by blast
  have "0 < length (packet_text (packet_written p) cs (packet_message (packet_written p)))"
    by (rule length_greater_0_conv [THEN iffD2]) simp
  then have "packet_to_string p n =
       Some (ZEJF_OK, take (n - 1) (packet_text (packet_written p) cs (packet_message (packet_written p))),
             packet_written p)"
    unfolding packet_to_string_def packet_written_def [symmetric] packet_message_def [symmetric]
    by (simp add: cs snprintf_def Let_def)
  with cs that show thesis by blast
qed

lemma packet_from_string_text:
  assumes "NUL \<notin> set msg" "TAB \<notin> set msg" "NL \<notin> set msg" and "unat (message_size p) = length msg"
    and "message p = Some msg" and "packet_checksum p = Some cs"
  shows "packet_from_string q (packet_text p cs msg) m =
    (case malloc m of
       (None, m') \<Rightarrow>
         Some (ZEJF_ERR_OUT_OF_MEMORY,
               q\<lparr>pkt_from := pkt_from p, pkt_to := pkt_to p, ttl := ttl p, pkt_flags := pkt_flags p,
                 pkt_checksum := cs, command := command p, message_size := message_size p, message := None\<rparr>, m')
     | (Some _, m') \<Rightarrow>
         Some (ZEJF_OK,
               q\<lparr>pkt_from := pkt_from p, pkt_to := pkt_to p, ttl := ttl p, pkt_flags := pkt_flags p,
                 pkt_checksum := cs, command := command p, message_size := message_size p,
                 message := Some (replace_character msg STX NL)\<rparr>, m'))"
proof -
  have c: "c_string (packet_text p cs msg) = packet_text p cs msg"
    by (rule c_string_id) (rule packet_text_no_NUL [OF assms(1)])
  let ?p = "q\<lparr>pkt_from := pkt_from p, pkt_to := pkt_to p, ttl := ttl p, pkt_flags := pkt_flags p,
              pkt_checksum := cs, command := command p, message_size := message_size p, message := Some msg\<rparr>"
  have "packet_checksum ?p = Some cs"
    using assms(6) by (simp add: packet_checksum_message [OF assms(5,4)] packet_checksum_message assms(4))
  moreover have "of_nat (length msg) = message_size p" by (simp flip: assms(4))
  ultimately show ?thesis
    by (simp add: packet_from_string_def c sscanf_packet_text [OF assms(2,3)] packet_fields_def assms(4)
        malloc_def Let_def)
qed


lemma packet_roundtrip_run:
  assumes "wire_message (packet_message p)" and "length (packet_message p) < 2 ^ 16"
    and "length (packet_message p) + 50 < n" and "alloc_ok m (next_addr m)"
  shows "returns (do { (e, buff, p') \<leftarrow> packet_to_string p n; packet_from_string q buff m })
     (\<lambda>(e, r, m'). e = ZEJF_OK \<and> pkt_from r = pkt_from p \<and> pkt_to r = pkt_to p \<and>
        command r = command p \<and> ttl r = ttl p \<and> pkt_flags r = pkt_flags p \<and>
        message r = Some (packet_message p) \<and> unat (message_size r) = length (packet_message p) \<and>
        source_interface r = source_interface q)"
proof -
  let ?w = "(packet_written p)\<lparr>message := Some (packet_message (packet_written p))\<rparr>"
  let ?msg = "packet_message (packet_written p)"
  obtain cs where cs: "packet_checksum (packet_written p) = Some cs"
    and out: "packet_to_string p n = Some (ZEJF_OK, take (n - 1) (packet_text (packet_written p) cs ?msg), packet_written p)"
    by (rule packet_to_string_eq)
  have msg: "?msg = replace_character (packet_message p) NL STX"
    by (simp add: packet_message_def packet_written_def replace_character_def split: option.splits)
  have len: "unat (message_size ?w) = length ?msg"
    using assms(2) by (auto simp: packet_written_def packet_message_def unat_of_nat split: option.splits)
  have chars: "NUL \<notin> set ?msg" "TAB \<notin> set ?msg" "NL \<notin> set ?msg"
    using assms(1) unfolding msg wire_message_def by (auto dest: set_replace_character)
  have "message_bytes ?w = message_bytes (packet_written p)"
    by (simp add: message_bytes_def packet_message_def packet_written_def split: option.splits)
  then have cs': "packet_checksum ?w = Some cs" using cs by (simp add: packet_checksum_def)
  have same: "packet_text (packet_written p) cs ?msg = packet_text ?w cs ?msg" by (simp add: packet_text_def)
  have "length (packet_text ?w cs ?msg) < n"
    using length_packet_text [of ?w cs ?msg] assms(3) by (simp add: msg)
  then have "take (n - 1) (packet_text (packet_written p) cs ?msg) = packet_text ?w cs ?msg"
    by (simp add: same)
  moreover have "replace_character ?msg STX NL = packet_message p"
    unfolding msg using assms(1) by (intro replace_character_back) (simp add: wire_message_def)
  ultimately show ?thesis
    using packet_from_string_text [OF chars len _ cs', of q m] assms(4) len
    by (simp add: out malloc_def msg)
qed



text \<open>
  The buffer \<open>char message[length]\<close> that \<open>sscanf\<close> fills is as long as the input, and the text
  that reaches it is always shorter, with room for the terminating zero.
\<close>

fun uint_or_char :: "directive \<Rightarrow> bool" where
  "uint_or_char (U w) = True"
| "uint_or_char (L c) = True"
| "uint_or_char d = False"

fun is_uint :: "directive \<Rightarrow> bool" where
  "is_uint (U w) = True"
| "is_uint d = False"

lemma sscanf_consumes:
  assumes "sscanf (ds @ [Not_tab_newline]) s = vs @ [SVal text]" and "list_all uint_or_char ds"
    and "length vs = length (filter is_uint ds)"
  shows "length text + length ds \<le> length s"
  using assms
proof (induction ds arbitrary: s vs)
  case Nil
  then show ?case
    using length_takeWhile_le [of "\<lambda>c. c \<noteq> TAB \<and> c \<noteq> NL" s] by (auto simp: Let_def split: if_splits)
next
  case (Cons d ds)
  show ?case
  proof (cases d)
    case (U w)
    with Cons.prems(3) obtain v vs' where vs: "vs = v # vs'" by (cases vs) auto
    with sscanf_U [of w "ds @ [Not_tab_newline]" s] Cons.prems(1) U
    obtain r where r: "sscanf (ds @ [Not_tab_newline]) r = vs' @ [SVal text]" "length r < length s" by auto
    have "length text + length ds \<le> length r" by (rule Cons.IH [OF r(1)]) (use Cons.prems U vs in auto)
    with r(2) show ?thesis by simp
  next
    case (L c)
    with sscanf_L [of c "ds @ [Not_tab_newline]" s] Cons.prems(1)
    obtain r where r: "s = c # r" "sscanf (ds @ [Not_tab_newline]) r = vs @ [SVal text]" by auto
    have "length text + length ds \<le> length r" by (rule Cons.IH [OF r(2)]) (use Cons.prems L in auto)
    with r(1) show ?thesis by simp
  qed (use Cons.prems in auto)
qed

text \<open>The text \<open>sscanf\<close> stores into \<open>char message[length]\<close>, its terminating zero
  included, fits into the buffer, whatever was received.\<close>

theorem message_buffer_fits:
  assumes "sscanf packet_format (c_string data) = [a, b, c, d, e, f, g, SVal text]"
  shows "length text + 1 \<le> length data"
proof -
  have "length text + length (butlast packet_format) \<le> length (c_string data)"
    by (rule sscanf_consumes [of _ _ "[a, b, c, d, e, f, g]"]) (use assms in \<open>simp_all add: packet_format_def\<close>)
  with length_c_string [of data] show ?thesis by (simp add: packet_format_def)
qed

theorem message_buffer_fits_witness:
  "length ''12.5}'' + 1 \<le> length ''{2;1;6;0;0;0;4;12.5}''"
  by (rule message_buffer_fits [of _ "UVal 2" "UVal 1" "UVal 6" "UVal 0" "UVal 0" "UVal 0" "UVal 4"])
    (simp add: packet_format_def scan_exec)


section \<open>Reading always returns\<close>

lemma packet_checksum_returns:
  assumes "message p = Some s" and "unat (message_size p) \<le> length s"
  shows "\<exists>cs. packet_checksum p = Some cs"
  using assms by (simp add: packet_checksum_def message_bytes_def)

lemma sscanf_value_bound:
  assumes "sscanf (ds @ U w # es) s = vs @ UVal n # us" and "list_all uint_or_char ds"
    and "length vs = length (filter is_uint ds)"
  shows "n < 2 ^ w"
  using assms
proof (induction ds arbitrary: s vs)
  case Nil
  then show ?case by (auto simp: scan_uint_def split: option.splits prod.splits list.splits if_splits)
next
  case (Cons d ds)
  show ?case
  proof (cases d)
    case (U v)
    with Cons.prems(3) obtain x vs' where vs: "vs = x # vs'" by (cases vs) auto
    with sscanf_U [of v "ds @ U w # es" s] Cons.prems(1) U
    obtain r where "sscanf (ds @ directive.U w # es) r = vs' @ UVal n # us" by auto
    then show ?thesis by (rule Cons.IH) (use Cons.prems U vs in auto)
  next
    case (L c)
    with sscanf_L [of c "ds @ directive.U w # es" s] Cons.prems(1)
    obtain r where "sscanf (ds @ directive.U w # es) r = vs @ UVal n # us" by auto
    then show ?thesis by (rule Cons.IH) (use Cons.prems L in auto)
  qed (use Cons.prems in auto)
qed

lemma packet_fields_Some:
  "packet_fields vs = Some (a, b, c, d, e, f, n, t) \<Longrightarrow>
   vs = [UVal a, UVal b, UVal c, UVal d, UVal e, UVal f, UVal n, SVal t]"
  by (simp add: packet_fields_def split: list.split_asm scanned.split_asm)

lemma packet_fields_size:
  assumes "packet_fields (sscanf packet_format s) = Some (a, b, c, d, e, f, n, t)"
  shows "n < 2 ^ 16"
proof (rule sscanf_value_bound)
  show "sscanf (take 13 packet_format @ U 16 # drop 14 packet_format) s =
      [UVal a, UVal b, UVal c, UVal d, UVal e, UVal f] @ UVal n # [SVal t]"
    using packet_fields_Some [OF assms] by (simp add: packet_format_def)
qed (simp_all add: packet_format_def)

lemma packet_from_string_returns:
  "returns (packet_from_string p data m) (\<lambda>(e, p', m').
     alloc_mono m m' \<and> source_interface p' = source_interface p \<and>
     destination_interface p' = destination_interface p \<and>
     (e = ZEJF_OK \<longrightarrow> (\<exists>t. message p' = Some t \<and> length t < 2 ^ 16)))"
proof -
  have ok: "returns (packet_checksum (p\<lparr>pkt_from := a, pkt_to := b, ttl := c, pkt_flags := d,
      pkt_checksum := e, command := f, message_size := of_nat (length t - Suc 0), message := Some (butlast t)\<rparr>)) (\<lambda>_. True)"
    for a b c d e f t
    unfolding returns_iff simp_thms
    by (rule packet_checksum_returns [of _ "butlast t"]) (simp_all add: unat_of_nat)
  show ?thesis
    unfolding packet_from_string_def
    by (auto simp: Let_def malloc_def alloc_mono_def dest: packet_fields_size split: option.split)
      (auto simp: wp malloc_def ok dest: packet_fields_size)
qed
end
