(* ===== verification/Routing.thy ===== *)
theory Routing
  imports Protocol
begin

text \<open>
  The routing table of \<open>api/zejf_api/src/zejf_routing.c\<close>: an array of
  \<open>ROUTING_TABLE_SIZE\<close> pointers of which the first \<open>routing_table_top\<close> are entries.  A
  \<open>RoutingEntry *\<close> that a function hands out is the index of the entry.  Freeing an entry
  leaves \<^term>\<open>None\<close> in its slot, which every later dereference of the slot turns into undefined
  behaviour, as a dangling or a null pointer would.  \<open>print_routing_table\<close> only prints and is
  not modelled; \<open>network_send_routing_info\<close> and \<open>interface_removed\<close>, which send packets and
  clear the queues, are in theory \<open>Network\<close>.
\<close>

section \<open>Operations\<close>

definition routing_init :: "'w platform \<Rightarrow> 'w zejf \<Rightarrow> zejf_err \<times> 'w zejf" where
  "routing_init P s =
     (ZEJF_OK, s\<lparr>routing_table_top := 0, rtable := replicate (ROUTING_TABLE_SIZE P) None\<rparr>)"

definition routing_destroy :: "'w zejf \<Rightarrow> 'w zejf option" where
  "routing_destroy s =
     (if routing_table_top s \<le> length (rtable s)
      then Some (s\<lparr>rtable :=
                     replicate (routing_table_top s) None @ drop (routing_table_top s) (rtable s)\<rparr>)
      else None)"

definition routing_entry_zero :: RoutingEntry where
  "routing_entry_zero =
     \<lparr>last_seen = 0, device_id = 0, demand_count = 0, demanded_variables = [], re_interface = None,
      paused = 0, distance = 0, provided_count = 0, provided_variables = [], subscribed = False\<rparr>"

definition routing_entry_create :: "'w zejf \<Rightarrow> RoutingEntry option \<times> 'w zejf" where
  "routing_entry_create s =
     (case zmalloc s of (None, s) \<Rightarrow> (None, s) | (Some _, s) \<Rightarrow> (Some routing_entry_zero, s))"

text \<open>
  The array grown by one element.  When the 16-bit count wraps to zero the code writes in
  front of the array.
\<close>

definition routing_entry_add_provided_variable ::
  "RoutingEntry \<Rightarrow> VariableInfo \<Rightarrow> 'w zejf \<Rightarrow> (zejf_err \<times> RoutingEntry \<times> 'w zejf) option"
where
  "routing_entry_add_provided_variable entry provided_variable s =
     do {
       known \<leftarrow> arr_any (\<lambda>v. var_id v = var_id provided_variable) (provided_variables entry)
                  (unat (provided_count entry));
       (if known then Some (ZEJF_ERR_GENERIC, entry, s)
        else
          let entry' = entry\<lparr>provided_count := provided_count entry + 1\<rparr> in
          (case zmalloc s of
             (None, s) \<Rightarrow> Some (ZEJF_ERR_OUT_OF_MEMORY, entry', s)
           | (Some _, s) \<Rightarrow>
               if provided_count entry' = 0 then None
               else Some (ZEJF_OK,
                          entry'\<lparr>provided_variables :=
                                   take (unat (provided_count entry)) (provided_variables entry) @ [provided_variable]\<rparr>,
                          s)))
     }"

definition routing_entry_add_demanded_variable ::
  "RoutingEntry \<Rightarrow> u16 \<Rightarrow> 'w zejf \<Rightarrow> (zejf_err \<times> RoutingEntry \<times> 'w zejf) option"
where
  "routing_entry_add_demanded_variable entry demanded_variable s =
     do {
       known \<leftarrow> arr_any (\<lambda>v. v = demanded_variable) (demanded_variables entry) (unat (demand_count entry));
       (if known then Some (ZEJF_ERR_GENERIC, entry, s)
        else
          let entry' = entry\<lparr>demand_count := demand_count entry + 1\<rparr> in
          (case zmalloc s of
             (None, s) \<Rightarrow> Some (ZEJF_ERR_OUT_OF_MEMORY, entry', s)
           | (Some _, s) \<Rightarrow>
               if demand_count entry' = 0 then None
               else Some (ZEJF_OK,
                          entry'\<lparr>demanded_variables :=
                                   take (unat (demand_count entry)) (demanded_variables entry) @ [demanded_variable]\<rparr>,
                          s)))
     }"

text \<open>\<open>routing_table[i]\<close>, dereferenced.\<close>

definition entry_at :: "'w zejf \<Rightarrow> nat \<Rightarrow> RoutingEntry option" where
  "entry_at s i = do { slot \<leftarrow> arr_get (rtable s) i; slot }"

function routing_find_from :: "(RoutingEntry \<Rightarrow> bool option) \<Rightarrow> 'w zejf \<Rightarrow> nat \<Rightarrow> nat option option" where
  "routing_find_from Q s i =
     (if i < routing_table_top s
      then do {
        entry \<leftarrow> entry_at s i;
        hit \<leftarrow> Q entry;
        (if hit then Some (Some i) else routing_find_from Q s (Suc i))
      }
      else Some None)"
  by pat_completeness auto
termination
  by (relation "measure (\<lambda>(Q, s, i). routing_table_top s - i)") auto

declare routing_find_from.simps [simp del]

definition routing_entry_find :: "u16 \<Rightarrow> 'w zejf \<Rightarrow> nat option option" where
  "routing_entry_find dev s = routing_find_from (\<lambda>entry. Some (device_id entry = dev)) s 0"

text \<open>\<open>entry->interface->uid\<close>.\<close>

definition entry_uid :: "'w zejf \<Rightarrow> RoutingEntry \<Rightarrow> int option" where
  "entry_uid s entry = do { a \<leftarrow> re_interface entry; i \<leftarrow> interfaces s a; Some (if_uid i) }"

definition routing_entry_find_by_interface :: "int \<Rightarrow> 'w zejf \<Rightarrow> nat option option" where
  "routing_entry_find_by_interface uid s =
     routing_find_from (\<lambda>entry. do { u \<leftarrow> entry_uid s entry; Some (u = uid) }) s 0"

definition set_entry :: "'w zejf \<Rightarrow> nat \<Rightarrow> RoutingEntry option \<Rightarrow> 'w zejf option" where
  "set_entry s i slot = do { table \<leftarrow> arr_set (rtable s) i slot; Some (s\<lparr>rtable := table\<rparr>) }"

definition routing_table_insert ::
  "'w platform \<Rightarrow> u16 \<Rightarrow> addr option \<Rightarrow> u8 \<Rightarrow> u32 \<Rightarrow> 'w zejf \<Rightarrow> (zejf_err \<times> 'w zejf) option"
where
  "routing_table_insert P dev interface dist time s =
     (if ROUTING_TABLE_SIZE P \<le> routing_table_top s then Some (ZEJF_ERR_GENERIC, s)
      else
        (case routing_entry_create s of
           (new, s) \<Rightarrow>
             do {
               entry \<leftarrow> new;
               a \<leftarrow> interface;
               i \<leftarrow> interfaces s a;
               let s = s\<lparr>interfaces := (interfaces s)(a \<mapsto> i\<lparr>tx_count := 0, rx_count := 0\<rparr>)\<rparr>;
               let entry = entry\<lparr>device_id := dev, distance := dist, re_interface := interface, last_seen := time\<rparr>;
               s \<leftarrow> set_entry s (routing_table_top s) (Some entry);
               Some (ZEJF_OK, s\<lparr>routing_table_top := Suc (routing_table_top s)\<rparr>)
             }))"

definition routing_table_update ::
  "'w platform \<Rightarrow> u16 \<Rightarrow> addr option \<Rightarrow> u8 \<Rightarrow> u32 \<Rightarrow> 'w zejf \<Rightarrow> (zejf_err \<times> 'w zejf) option"
where
  "routing_table_update P dev interface dist time s =
     (if dev = DEVICE_ID P then Some (ZEJF_ERR_GENERIC, s)
      else do {
        existing \<leftarrow> routing_entry_find dev s;
        (case existing of
           None \<Rightarrow> routing_table_insert P dev interface dist time s
         | Some k \<Rightarrow>
             do {
               entry \<leftarrow> entry_at s k;
               let (entry, result) =
                 (if dist < distance entry
                  then (entry\<lparr>distance := dist, re_interface := interface\<rparr>, ZEJF_OK)
                  else (entry, ZEJF_ERR_NO_CHANGE));
               let (entry, result) =
                 (if distance entry = dist then (entry\<lparr>last_seen := time\<rparr>, ZEJF_OK) else (entry, result));
               s \<leftarrow> set_entry s k (Some entry);
               Some (result, s)
             })
      })"

text \<open>The loop of \<open>routing_entry_remove\<close> that moves the entries above the gap down.\<close>

function shift_down :: "nat \<Rightarrow> nat \<Rightarrow> 'a list \<Rightarrow> 'a list option" where
  "shift_down n i xs =
     (if i < n then do { x \<leftarrow> arr_get xs (Suc i); xs \<leftarrow> arr_set xs i x; shift_down n (Suc i) xs }
      else Some xs)"
  by pat_completeness auto
termination
  by (relation "measure (\<lambda>(n, i, xs). n - i)") auto

declare shift_down.simps [simp del]

definition routing_entry_remove :: "nat \<Rightarrow> 'w zejf \<Rightarrow> 'w zejf option" where
  "routing_entry_remove index s =
     do {
       entry \<leftarrow> entry_at s index;
       s \<leftarrow> set_entry s index None;
       table \<leftarrow> shift_down (size_dec (routing_table_top s)) index (rtable s);
       let top = size_dec (routing_table_top s);
       table \<leftarrow> arr_set table top None;
       Some (s\<lparr>rtable := table, routing_table_top := top\<rparr>)
     }"

text \<open>
  The loops of \<open>routing_table_check\<close> and \<open>interface_removed\<close>: an index that advances in
  every round, also after a removal has moved the next entry into the current slot.
\<close>

partial_function (option) routing_remove_loop ::
  "('w zejf \<Rightarrow> RoutingEntry \<Rightarrow> bool option) \<Rightarrow> nat \<Rightarrow> 'w zejf \<Rightarrow> 'w zejf option"
where
  "routing_remove_loop Q i s =
     (if i < routing_table_top s
      then do {
        entry \<leftarrow> entry_at s i;
        gone \<leftarrow> Q s entry;
        s \<leftarrow> (if gone then routing_entry_remove i s else Some s);
        routing_remove_loop Q (Suc i) s
      }
      else Some s)"

definition routing_table_check :: "'w platform \<Rightarrow> u32 \<Rightarrow> 'w zejf \<Rightarrow> 'w zejf option" where
  "routing_table_check P time s =
     routing_remove_loop (\<lambda>_ entry. Some (ROUTING_ENTRY_TIMEOUT P < time - last_seen entry)) 0 s"

text \<open>
  One round of the outer loop of \<open>routing_find_free_id\<close> finds the current id in the table and
  moves on, or ends.
\<close>

partial_function (option) free_id_loop :: "'w zejf \<Rightarrow> u16 \<Rightarrow> u16 option option" where
  "free_id_loop s id' =
     do {
       used \<leftarrow> routing_find_from (\<lambda>entry. Some (device_id entry = id')) s 0;
       (case used of
          None \<Rightarrow> Some (Some id')
        | Some _ \<Rightarrow>
            let next = (if id' + 1 = 0 then RESERVED_DEVICE_IDS else id' + 1)
            in if next = next_free_id s then Some None else free_id_loop s next)
     }"

definition routing_find_free_id :: "'w zejf \<Rightarrow> (u16 \<times> 'w zejf) option" where
  "routing_find_free_id s =
     do {
       r \<leftarrow> free_id_loop s (next_free_id s);
       (case r of
          None \<Rightarrow> Some (0, s)
        | Some id' \<Rightarrow>
            let s = s\<lparr>next_free_id := id' + 1\<rparr>;
                id' = (if next_free_id s = 0 then RESERVED_DEVICE_IDS else id')
            in Some (id', s))
     }"

section \<open>The table as a list of entries\<close>

definition table_entries :: "'w zejf \<Rightarrow> RoutingEntry list" where
  "table_entries s = map the (take (routing_table_top s) (rtable s))"

text \<open>\<open>table_rep P s es\<close>: the slots below the top hold \<open>es\<close>, the others are null.\<close>

definition table_rep :: "'w platform \<Rightarrow> 'w zejf \<Rightarrow> RoutingEntry list \<Rightarrow> bool" where
  "table_rep P s es \<longleftrightarrow>
     rtable s = map Some es @ replicate (ROUTING_TABLE_SIZE P - length es) None \<and>
     routing_table_top s = length es \<and> length es \<le> ROUTING_TABLE_SIZE P"

lemma table_rep_entries: "table_rep P s es \<Longrightarrow> table_entries s = es"
  by (simp add: table_rep_def table_entries_def o_def)

lemma table_rep_cong:
  "rtable s' = rtable s \<Longrightarrow> routing_table_top s' = routing_table_top s \<Longrightarrow> table_rep P s' es = table_rep P s es"
  by (simp add: table_rep_def)

lemma routing_init_rep: "table_rep P (snd (routing_init P s)) []"
  by (simp add: routing_init_def table_rep_def)

lemma entry_at_rep: "table_rep P s es \<Longrightarrow> i < length es \<Longrightarrow> entry_at s i = Some (es ! i)"
  by (simp add: entry_at_def table_rep_def nth_append)

lemma routing_find_from_rep:
  assumes "table_rep P s es" and "\<And>e. e \<in> set es \<Longrightarrow> Q e = Some (q e)"
  shows "i \<le> length es \<Longrightarrow> routing_find_from Q s i = Some (find (\<lambda>k. q (es ! k)) [i..<length es])"
proof (induction "length es - i" arbitrary: i)
  case 0
  with assms(1) show ?case by (subst routing_find_from.simps) (simp add: table_rep_def)
next
  case (Suc n)
  then have i: "i < length es" by simp
  with Suc have "routing_find_from Q s (Suc i) = Some (find (\<lambda>k. q (es ! k)) [Suc i..<length es])" by simp
  moreover have "routing_table_top s = length es" using assms(1) by (simp add: table_rep_def)
  ultimately show ?case
    using i assms(2) [of "es ! i"] entry_at_rep [OF assms(1) i]
    by (subst routing_find_from.simps) (simp add: upt_conv_Cons)
qed

lemma routing_entry_find_rep:
  "table_rep P s es \<Longrightarrow> routing_entry_find d s = Some (find (\<lambda>k. device_id (es ! k) = d) [0..<length es])"
  unfolding routing_entry_find_def
  by (rule routing_find_from_rep [where q = "\<lambda>e. device_id e = d", simplified]) simp_all

lemma find_index_None: "find (\<lambda>k. q (es ! k)) [0..<length es] = None \<longleftrightarrow> (\<forall>e\<in>set es. \<not> q e)"
  by (simp add: find_None_iff all_set_conv_all_nth)

lemma find_index_Some: "find (\<lambda>k. q (es ! k)) [0..<length es] = Some k \<Longrightarrow> k < length es \<and> q (es ! k)"
  by (auto simp: find_Some_iff)

lemma set_entry_rep:
  assumes "table_rep P s es" and "k < length es"
  shows "\<exists>t. set_entry s k (Some e) = Some (s\<lparr>rtable := t\<rparr>) \<and> table_rep P (s\<lparr>rtable := t\<rparr>) (es[k := e])"
  using assms by (auto simp: set_entry_def table_rep_def list_update_append map_update)

lemma shift_down_ok:
  "shift_down (length pre + length ys) (length pre) (pre @ y # ys @ zs) = Some (pre @ ys @ last (y # ys) # zs)"
proof (induction ys arbitrary: pre y)
  case Nil
  then show ?case by (subst shift_down.simps) simp
next
  case (Cons x ys)
  have "shift_down (length (pre @ [x]) + length ys) (length (pre @ [x])) ((pre @ [x]) @ x # ys @ zs) =
      Some ((pre @ [x]) @ ys @ last (x # ys) # zs)" by (rule Cons.IH)
  then show ?case by (subst shift_down.simps) (simp add: nth_append)
qed

lemma routing_entry_remove_rep:
  assumes "table_rep P s (xs @ e # ys)"
  shows "\<exists>t. routing_entry_remove (length xs) s =
      Some (s\<lparr>rtable := t, routing_table_top := length (xs @ ys)\<rparr>) \<and>
    table_rep P (s\<lparr>rtable := t, routing_table_top := length (xs @ ys)\<rparr>) (xs @ ys)"
proof -
  let ?n = "ROUTING_TABLE_SIZE P - length (xs @ e # ys)"
  have table: "rtable s = map Some xs @ Some e # map Some ys @ replicate ?n None"
    and top: "routing_table_top s = length (xs @ e # ys)" and le: "length (xs @ e # ys) \<le> ROUTING_TABLE_SIZE P"
    using assms by (simp_all add: table_rep_def)
  have at: "entry_at s (length xs) = Some e"
    using entry_at_rep [OF assms, of "length xs"] by (simp add: nth_append)
  have dec: "size_dec (routing_table_top s) = length xs + length ys" by (simp add: top size_dec_def)
  have "shift_down (length (map Some xs) + length (map Some ys)) (length (map Some xs))
      (map Some xs @ None # map Some ys @ replicate ?n None) =
    Some (map Some xs @ map Some ys @ last (None # map Some ys) # replicate ?n None)"
    by (rule shift_down_ok)
  then have rem: "routing_entry_remove (length xs) s =
    Some (s\<lparr>rtable := map Some xs @ map Some ys @ None # replicate ?n None, routing_table_top := length (xs @ ys)\<rparr>)"
    unfolding routing_entry_remove_def at
    by (simp add: set_entry_def table dec list_update_append Let_def)
  have fill: "None # replicate ?n None = replicate (ROUTING_TABLE_SIZE P - length (xs @ ys)) None"
    using le by (simp flip: replicate_Suc add: Suc_diff_Suc)
  show ?thesis unfolding rem fill using le by (auto simp: table_rep_def)
qed

text \<open>What the removing loops do to the list: the entry after a removed one is never examined.\<close>

fun skip_remove :: "('a \<Rightarrow> bool) \<Rightarrow> 'a list \<Rightarrow> 'a list" where
  "skip_remove q [] = []"
| "skip_remove q [x] = (if q x then [] else [x])"
| "skip_remove q (x # y # ys) = (if q x then y # skip_remove q ys else x # skip_remove q (y # ys))"

lemma routing_remove_loop_end: "routing_table_top s \<le> i \<Longrightarrow> routing_remove_loop Q i s = Some s"
  by (subst routing_remove_loop.simps) simp

lemma routing_remove_loop_rep:
  assumes "table_rep P s (xs @ ys)"
    and "\<And>s' e. e \<in> set ys \<Longrightarrow> interfaces s' = interfaces s \<Longrightarrow> Q s' e = Some (q e)"
  shows "\<exists>t n. routing_remove_loop Q (length xs) s = Some (s\<lparr>rtable := t, routing_table_top := n\<rparr>) \<and>
    table_rep P (s\<lparr>rtable := t, routing_table_top := n\<rparr>) (xs @ skip_remove q ys)"
  using assms
proof (induction q ys arbitrary: xs s rule: skip_remove.induct)
  case (1 q)
  then have "routing_remove_loop Q (length xs) s = Some s"
    by (simp add: table_rep_def routing_remove_loop_end)
  then show ?case using 1(1) by (intro exI [of _ "rtable s"] exI [of _ "routing_table_top s"]) simp
next
  case (2 q x)
  have Q: "Q s x = Some (q x)" using 2(2) by simp
  have at: "entry_at s (length xs) = Some x" using entry_at_rep [OF 2(1), of "length xs"] by (simp add: nth_append)
  show ?case
  proof (cases "q x")
    case True
    with routing_entry_remove_rep [OF 2(1)] obtain t where
      t: "routing_entry_remove (length xs) s = Some (s\<lparr>rtable := t, routing_table_top := length xs\<rparr>)"
        "table_rep P (s\<lparr>rtable := t, routing_table_top := length xs\<rparr>) xs" by auto
    then have "routing_remove_loop Q (length xs) s = Some (s\<lparr>rtable := t, routing_table_top := length xs\<rparr>)"
      using Q at True 2(1) by (subst routing_remove_loop.simps) (simp add: table_rep_def routing_remove_loop_end)
    with t(2) True show ?thesis by auto
  next
    case False
    then have "routing_remove_loop Q (length xs) s = Some s"
      using Q at 2(1) by (subst routing_remove_loop.simps) (simp add: table_rep_def routing_remove_loop_end)
    with False 2(1) show ?thesis
      by (intro exI [of _ "rtable s"] exI [of _ "routing_table_top s"]) simp
  qed
next
  case (3 q x y ys)
  have Q: "Q s x = Some (q x)" using 3(4) by simp
  have at: "entry_at s (length xs) = Some x" using entry_at_rep [OF 3(3), of "length xs"] by (simp add: nth_append)
  show ?case
  proof (cases "q x")
    case True
    with routing_entry_remove_rep [OF 3(3)] obtain t where
      t: "routing_entry_remove (length xs) s = Some (s\<lparr>rtable := t, routing_table_top := length (xs @ y # ys)\<rparr>)"
        "table_rep P (s\<lparr>rtable := t, routing_table_top := length (xs @ y # ys)\<rparr>) (xs @ y # ys)" by auto
    let ?s = "s\<lparr>rtable := t, routing_table_top := length (xs @ y # ys)\<rparr>"
    have "\<exists>t n. routing_remove_loop Q (length (xs @ [y])) ?s = Some (?s\<lparr>rtable := t, routing_table_top := n\<rparr>) \<and>
        table_rep P (?s\<lparr>rtable := t, routing_table_top := n\<rparr>) ((xs @ [y]) @ skip_remove q ys)"
      by (rule 3(1) [OF True]) (use t(2) 3(4) in auto)
    moreover have "routing_remove_loop Q (length xs) s = routing_remove_loop Q (length (xs @ [y])) ?s"
      using Q at True 3(3) t(1) by (subst routing_remove_loop.simps) (simp add: table_rep_def)
    ultimately show ?thesis using True by auto
  next
    case False
    have "\<exists>t n. routing_remove_loop Q (length (xs @ [x])) s = Some (s\<lparr>rtable := t, routing_table_top := n\<rparr>) \<and>
        table_rep P (s\<lparr>rtable := t, routing_table_top := n\<rparr>) ((xs @ [x]) @ skip_remove q (y # ys))"
      by (rule 3(2) [OF False]) (use 3(3,4) in auto)
    moreover have "routing_remove_loop Q (length xs) s = routing_remove_loop Q (length (xs @ [x])) s"
      using Q at False 3(3) by (subst routing_remove_loop.simps) (simp add: table_rep_def)
    ultimately show ?thesis using False by auto
  qed
qed


section \<open>The invariant\<close>

definition entry_ok :: "(addr \<Rightarrow> Interface option) \<Rightarrow> RoutingEntry \<Rightarrow> bool" where
  "entry_ok ifs e \<longleftrightarrow>
     unat (demand_count e) = length (demanded_variables e) \<and> distinct (demanded_variables e) \<and>
     unat (provided_count e) = length (provided_variables e) \<and> distinct (map var_id (provided_variables e)) \<and>
     (\<exists>a i. re_interface e = Some a \<and> ifs a = Some i)"

definition routing_ok :: "'w platform \<Rightarrow> 'w zejf \<Rightarrow> bool" where
  "routing_ok P s \<longleftrightarrow>
     table_rep P s (table_entries s) \<and> (\<forall>e\<in>set (table_entries s). entry_ok (interfaces s) e) \<and>
     distinct (map device_id (table_entries s)) \<and> DEVICE_ID P \<notin> device_id ` set (table_entries s)"

lemma routing_okI:
  assumes "table_rep P s es" and "\<forall>e\<in>set es. entry_ok (interfaces s) e" and "distinct (map device_id es)"
    and "DEVICE_ID P \<notin> device_id ` set es"
  shows "routing_ok P s"
  using assms by (simp add: routing_ok_def table_rep_entries)

lemma routing_ok_rep: "routing_ok P s \<Longrightarrow> table_rep P s (table_entries s)"
  by (simp add: routing_ok_def)

lemma routing_ok_cong:
  assumes "rtable s' = rtable s" and "routing_table_top s' = routing_table_top s" and "interfaces s' = interfaces s"
  shows "routing_ok P s' = routing_ok P s"
  using assms by (simp add: routing_ok_def table_rep_def table_entries_def)

lemma routing_init_ok: "routing_ok P (snd (routing_init P s))"
  by (rule routing_okI [OF routing_init_rep]) simp_all

lemma entry_ok_mono: "entry_ok ifs e \<Longrightarrow> dom ifs \<subseteq> dom ifs' \<Longrightarrow> entry_ok ifs' e"
  by (fastforce simp: entry_ok_def)

text \<open>What the table operations may change.\<close>

definition routing_frame :: "'w zejf \<Rightarrow> 'w zejf \<Rightarrow> bool" where
  "routing_frame s s' \<longleftrightarrow>
     (\<exists>m t n ifs. s' = s\<lparr>mem := m, rtable := t, routing_table_top := n, interfaces := ifs\<rparr> \<and>
        alloc_mono (mem s) m \<and> dom ifs = dom (interfaces s))"

lemma routing_frameD:
  assumes "routing_frame s s'"
  shows "alloc_mono (mem s) (mem s')" "tx_queue s' = tx_queue s" "rx_queue s' = rx_queue s"
    "next_packet s' = next_packet s" "provide_ptr s' = provide_ptr s" "demand_ptr s' = demand_ptr s"
    "next_free_id s' = next_free_id s" "data_queue s' = data_queue s" "hours s' = hours s"
    "data_requests_queue s' = data_requests_queue s" "dom (interfaces s') = dom (interfaces s)" "world s' = world s"
  using assms unfolding routing_frame_def by (elim exE conjE, simp)+

lemma routing_frame_refl [simp]: "routing_frame s s"
  unfolding routing_frame_def
  by (intro exI [of _ "mem s"] exI [of _ "rtable s"] exI [of _ "routing_table_top s"] exI [of _ "interfaces s"]) simp

lemma routing_frame_rtable: "routing_frame s (s\<lparr>rtable := t\<rparr>)"
  unfolding routing_frame_def
  by (intro exI [of _ "mem s"] exI [of _ t] exI [of _ "routing_table_top s"] exI [of _ "interfaces s"]) simp

section \<open>Functional behaviour\<close>

text \<open>How a report of a device at distance \<open>dist\<close> through interface \<open>a\<close> changes its entry.\<close>

definition refresh :: "addr \<Rightarrow> u8 \<Rightarrow> u32 \<Rightarrow> RoutingEntry \<Rightarrow> RoutingEntry" where
  "refresh a dist time e =
     (if dist < distance e then e\<lparr>distance := dist, re_interface := Some a, last_seen := time\<rparr>
      else if dist = distance e then e\<lparr>last_seen := time\<rparr> else e)"

definition new_entry :: "u16 \<Rightarrow> addr \<Rightarrow> u8 \<Rightarrow> u32 \<Rightarrow> RoutingEntry" where
  "new_entry dev a dist time =
     routing_entry_zero\<lparr>device_id := dev, distance := dist, re_interface := Some a, last_seen := time\<rparr>"

lemma list_update_map_distinct:
  assumes "k < length es" and "distinct (map g es)" and "g (es ! k) = d"
  shows "es[k := f (es ! k)] = map (\<lambda>e. if g e = d then f e else e) es"
proof (rule nth_equalityI)
  fix i
  assume "i < length (es[k := f (es ! k)])"
  then have i: "i < length es" by simp
  have "g (es ! i) = d \<longleftrightarrow> i = k"
    using assms i by (metis distinct_conv_nth length_map nth_map)
  with i show "es[k := f (es ! k)] ! i = map (\<lambda>e. if g e = d then f e else e) es ! i"
    by (auto simp: nth_list_update)
qed simp

lemma entry_ok_refresh: "entry_ok ifs e \<Longrightarrow> ifs a = Some i \<Longrightarrow> entry_ok ifs (refresh a dist time e)"
  by (auto simp: entry_ok_def refresh_def)

lemma device_id_refresh [simp]: "device_id (refresh a dist time e) = device_id e"
  by (simp add: refresh_def)

lemma entry_ok_new: "ifs a = Some i \<Longrightarrow> entry_ok ifs (new_entry d a dist time)"
  by (simp add: entry_ok_def new_entry_def routing_entry_zero_def)

lemma routing_table_insert_ok:
  assumes "table_rep P s es" and "length es < ROUTING_TABLE_SIZE P" and "never_fails (mem s)"
    and "interfaces s a = Some i"
  shows "returns (routing_table_insert P d (Some a) dist time s) (\<lambda>(r, s'). r = ZEJF_OK \<and>
     table_rep P s' (es @ [new_entry d a dist time]) \<and> routing_frame s s')"
proof -
  obtain k where k: "ROUTING_TABLE_SIZE P - length es = Suc k" "ROUTING_TABLE_SIZE P - Suc (length es) = k"
    using assms(2) by (cases "ROUTING_TABLE_SIZE P - length es") auto
  have dom: "insert a (dom (interfaces s)) = dom (interfaces s)" using assms(4) by (simp add: insert_absorb domI)
  have frame: "routing_frame s (s\<lparr>mem := (mem s)\<lparr>next_addr := Suc (next_addr (mem s))\<rparr>,
      interfaces := (interfaces s)(a \<mapsto> i'), rtable := t, routing_table_top := n\<rparr>)" for i' t n
    unfolding routing_frame_def
    by (intro exI [of _ "(mem s)\<lparr>next_addr := Suc (next_addr (mem s))\<rparr>"] exI [of _ t] exI [of _ n]
        exI [of _ "(interfaces s)(a \<mapsto> i')"]) (simp add: dom)
  from assms k frame show ?thesis
    by (simp add: routing_table_insert_def routing_entry_create_def set_entry_def table_rep_def Let_def
        new_entry_def list_update_append)
qed


lemma routing_table_update_existing:
  assumes "table_rep P s es" and "distinct (map device_id es)" and "d \<noteq> DEVICE_ID P" and "d \<in> device_id ` set es"
  shows "returns (routing_table_update P d (Some a) dist time s) (\<lambda>(r, s').
     r = (if \<exists>e\<in>set es. device_id e = d \<and> dist \<le> distance e then ZEJF_OK else ZEJF_ERR_NO_CHANGE) \<and>
     table_rep P s' (map (\<lambda>e. if device_id e = d then refresh a dist time e else e) es) \<and>
     (\<exists>t. s' = s\<lparr>rtable := t\<rparr>))"
proof -
  let ?k = "find (\<lambda>k. device_id (es ! k) = d) [0..<length es]"
  have "?k \<noteq> None" unfolding find_index_None [of "\<lambda>e. device_id e = d"] using assms(4) by auto
  then obtain k where k: "?k = Some k" by auto
  with find_index_Some [of "\<lambda>e. device_id e = d"] have kl: "k < length es" "device_id (es ! k) = d" by auto
  have unique: "e = es ! k" if "e \<in> set es" "device_id e = d" for e
    using that assms(2) kl by (metis distinct_conv_nth in_set_conv_nth length_map nth_map)
  then have ex: "(\<exists>e\<in>set es. device_id e = d \<and> dist \<le> distance e) \<longleftrightarrow> dist \<le> distance (es ! k)"
    using kl by (metis nth_mem)
  obtain t where t: "set_entry s k (Some (refresh a dist time (es ! k))) = Some (s\<lparr>rtable := t\<rparr>)"
    "table_rep P (s\<lparr>rtable := t\<rparr>) (es[k := refresh a dist time (es ! k)])"
    using set_entry_rep [OF assms(1) kl(1)] by blast
  have eq: "es[k := refresh a dist time (es ! k)] = map (\<lambda>e. if device_id e = d then refresh a dist time e else e) es"
    by (rule list_update_map_distinct [OF kl(1) assms(2) kl(2)])
  have "routing_table_update P d (Some a) dist time s =
     Some (if dist \<le> distance (es ! k) then ZEJF_OK else ZEJF_ERR_NO_CHANGE, s\<lparr>rtable := t\<rparr>)"
    using t(1) assms(3)
    by (auto simp: routing_table_update_def routing_entry_find_rep [OF assms(1)] k entry_at_rep [OF assms(1) kl(1)]
        refresh_def le_less Let_def)
  with t(2) ex eq show ?thesis by auto
qed


text \<open>The recorded distance is the smallest ever reported.\<close>

lemma distance_refresh: "distance (refresh a dist time e) = min (distance e) dist"
  by (auto simp: refresh_def min_def)

text \<open>
  The specification of \<open>routing_table_update\<close>: the table is a finite map from device ids,
  bounded in size, that keeps for each device the best route reported.
\<close>

definition table_update ::
  "u16 \<Rightarrow> nat \<Rightarrow> u16 \<Rightarrow> addr \<Rightarrow> u8 \<Rightarrow> u32 \<Rightarrow> RoutingEntry list \<Rightarrow> zejf_err \<times> RoutingEntry list" where
  "table_update self cap d a dist time es =
     (if d = self then (ZEJF_ERR_GENERIC, es)
      else if d \<notin> device_id ` set es
      then (if length es = cap then (ZEJF_ERR_GENERIC, es) else (ZEJF_OK, es @ [new_entry d a dist time]))
      else (if \<exists>e\<in>set es. device_id e = d \<and> dist \<le> distance e then ZEJF_OK else ZEJF_ERR_NO_CHANGE,
            map (\<lambda>e. if device_id e = d then refresh a dist time e else e) es))"

lemma routing_table_update_rep:
  assumes rep: "table_rep P s es" and dist: "distinct (map device_id es)" and nf: "never_fails (mem s)"
    and a: "interfaces s a = Some i"
  shows "returns (routing_table_update P d (Some a) dist time s) (\<lambda>(r, s'). routing_frame s s' \<and>
     r = fst (table_update (DEVICE_ID P) (ROUTING_TABLE_SIZE P) d a dist time es) \<and>
     table_rep P s' (snd (table_update (DEVICE_ID P) (ROUTING_TABLE_SIZE P) d a dist time es)))"
proof -
  consider (self) "d = DEVICE_ID P" | (new) "d \<noteq> DEVICE_ID P" "d \<notin> device_id ` set es"
    | (old) "d \<noteq> DEVICE_ID P" "d \<in> device_id ` set es" by blast
  then show ?thesis
  proof cases
    case self
    with rep show ?thesis by (simp add: routing_table_update_def table_update_def)
  next
    case new
    then have find: "routing_entry_find d s = Some None"
      using find_index_None [of "\<lambda>e. device_id e = d" es] by (auto simp: routing_entry_find_rep [OF rep])
    show ?thesis
    proof (cases "length es = ROUTING_TABLE_SIZE P")
      case True
      with new find rep show ?thesis
        by (simp add: routing_table_update_def routing_table_insert_def table_update_def table_rep_def)
    next
      case False
      then have "length es < ROUTING_TABLE_SIZE P" using rep by (simp add: table_rep_def)
      then show ?thesis using new False find routing_table_insert_ok [OF rep _ nf a, of d dist time]
        by (auto simp: routing_table_update_def table_update_def elim: returns_weaken)
    qed
  next
    case old
    then show ?thesis
      using routing_table_update_existing [OF rep dist old, of a dist time]
      by (auto simp: table_update_def routing_frame_rtable elim!: returns_weaken)
  qed
qed

lemma table_update_ok:
  assumes "\<forall>e\<in>set es. entry_ok ifs e" and "distinct (map device_id es)" and "self \<notin> device_id ` set es"
    and "a \<in> dom ifs"
  shows "(\<forall>e\<in>set (snd (table_update self cap d a dist time es)). entry_ok ifs e) \<and>
    distinct (map device_id (snd (table_update self cap d a dist time es))) \<and>
    self \<notin> device_id ` set (snd (table_update self cap d a dist time es))"
  using assms
  by (auto simp: table_update_def new_entry_def [THEN arg_cong [of _ _ device_id]] if_distrib [of device_id] o_def
      intro: entry_ok_refresh entry_ok_new cong: if_cong)

lemma routing_table_update_ok:
  assumes ok: "routing_ok P s" and nf: "never_fails (mem s)" and a: "interfaces s a = Some i"
  shows "returns (routing_table_update P d (Some a) dist time s) (\<lambda>(r, s').
     routing_ok P s' \<and> routing_frame s s' \<and>
     (r, table_entries s') =
       table_update (DEVICE_ID P) (ROUTING_TABLE_SIZE P) d a dist time (table_entries s))"
proof -
  let ?es = "snd (table_update (DEVICE_ID P) (ROUTING_TABLE_SIZE P) d a dist time (table_entries s))"
  have "routing_ok P s'" if "routing_frame s s'" "table_rep P s' ?es" for s'
  proof (rule routing_okI [OF that(2)])
    have dom: "dom (interfaces s') = dom (interfaces s)" by (rule routing_frameD(11) [OF that(1)])
    have "\<forall>e\<in>set (table_entries s). entry_ok (interfaces s') e"
      using ok dom entry_ok_mono [of "interfaces s" _ "interfaces s'"] by (auto simp: routing_ok_def)
    then have "(\<forall>e\<in>set ?es. entry_ok (interfaces s') e) \<and> distinct (map device_id ?es) \<and> DEVICE_ID P \<notin> device_id ` set ?es"
      using ok a dom by (intro table_update_ok) (auto simp: routing_ok_def)
    then show "\<forall>e\<in>set ?es. entry_ok (interfaces s') e" "distinct (map device_id ?es)" "DEVICE_ID P \<notin> device_id ` set ?es"
      by blast+
  qed
  then show ?thesis
    using ok by (intro returns_weaken [OF routing_table_update_rep [OF routing_ok_rep [OF ok] _ nf a]])
      (auto simp: routing_ok_def prod_eq_iff dest: table_rep_entries)
qed


section \<open>Expiry\<close>

lemma skip_remove_keeps: "filter (\<lambda>x. \<not> q x) (skip_remove q xs) = filter (\<lambda>x. \<not> q x) xs"
  by (induction q xs rule: skip_remove.induct) auto

lemma skip_remove_subseq: "set (skip_remove q xs) \<subseteq> set xs"
  by (induction q xs rule: skip_remove.induct) auto

lemma skip_remove_distinct: "distinct (map f xs) \<Longrightarrow> distinct (map f (skip_remove q xs))"
proof (induction q xs rule: skip_remove.induct)
  case (3 q x y ys)
  then show ?case using skip_remove_subseq [of q ys] skip_remove_subseq [of q "y # ys"] by auto
qed simp_all

text \<open>Exactly the runs of marked entries survive in part: without two neighbours marked the loop is a filter.\<close>

fun isolated :: "('a \<Rightarrow> bool) \<Rightarrow> 'a list \<Rightarrow> bool" where
  "isolated q (x # y # ys) \<longleftrightarrow> \<not> (q x \<and> q y) \<and> isolated q (y # ys)"
| "isolated q _ \<longleftrightarrow> True"

lemma isolated_tl: "isolated q (x # ys) \<Longrightarrow> isolated q ys"
  by (cases ys) auto

lemma skip_remove_isolated: "isolated q xs \<Longrightarrow> skip_remove q xs = filter (\<lambda>x. \<not> q x) xs"
  by (induction q xs rule: skip_remove.induct) (auto dest: isolated_tl)

definition expired :: "'w platform \<Rightarrow> u32 \<Rightarrow> RoutingEntry \<Rightarrow> bool" where
  "expired P time e \<longleftrightarrow> ROUTING_ENTRY_TIMEOUT P < time - last_seen e"

lemma routing_ok_skip_remove:
  assumes "routing_ok P s" and "table_rep P s' (skip_remove q (table_entries s))" and "interfaces s' = interfaces s"
  shows "routing_ok P s'"
  using assms skip_remove_subseq [of q "table_entries s"]
  by (intro routing_okI [OF assms(2)]) (auto simp: routing_ok_def skip_remove_distinct)

lemma routing_remove_loop_ok:
  assumes ok: "routing_ok P s"
    and Q: "\<And>s' e. e \<in> set (table_entries s) \<Longrightarrow> interfaces s' = interfaces s \<Longrightarrow> Q s' e = Some (q e)"
  shows "returns (routing_remove_loop Q 0 s) (\<lambda>s'. routing_ok P s' \<and>
     table_entries s' = skip_remove q (table_entries s) \<and> (\<exists>t n. s' = s\<lparr>rtable := t, routing_table_top := n\<rparr>))"
proof -
  have "table_rep P s ([] @ table_entries s)" using routing_ok_rep [OF ok] by simp
  from routing_remove_loop_rep [OF this, of Q q] Q obtain t n where
    t: "routing_remove_loop Q 0 s = Some (s\<lparr>rtable := t, routing_table_top := n\<rparr>)"
      "table_rep P (s\<lparr>rtable := t, routing_table_top := n\<rparr>) (skip_remove q (table_entries s))" by auto
  then show ?thesis using routing_ok_skip_remove [OF ok t(2)] table_rep_entries [OF t(2)] by auto
qed

lemma routing_table_check_ok:
  assumes "routing_ok P s"
  shows "returns (routing_table_check P time s) (\<lambda>s'. routing_ok P s' \<and>
     table_entries s' = skip_remove (expired P time) (table_entries s) \<and>
     (\<exists>t n. s' = s\<lparr>rtable := t, routing_table_top := n\<rparr>))"
  unfolding routing_table_check_def by (rule routing_remove_loop_ok [OF assms]) (simp add: expired_def)

section \<open>Variables of an entry\<close>

lemma unat_Suc_word: "(w :: 'a::len word) + 1 \<noteq> 0 \<Longrightarrow> unat (w + 1) = Suc (unat w)"
  by (metis add.commute unatSuc)

definition add_provided :: "VariableInfo \<Rightarrow> RoutingEntry \<Rightarrow> RoutingEntry" where
  "add_provided v e =
     (if var_id v \<in> var_id ` set (provided_variables e) then e
      else e\<lparr>provided_count := provided_count e + 1, provided_variables := provided_variables e @ [v]\<rparr>)"

definition add_demanded :: "u16 \<Rightarrow> RoutingEntry \<Rightarrow> RoutingEntry" where
  "add_demanded v e =
     (if v \<in> set (demanded_variables e) then e
      else e\<lparr>demand_count := demand_count e + 1, demanded_variables := demanded_variables e @ [v]\<rparr>)"

lemma device_id_add [simp]: "device_id (add_provided w e) = device_id e" "device_id (add_demanded v e) = device_id e"
  by (simp_all add: add_provided_def add_demanded_def)

lemma add_provided_variable_ok:
  assumes "entry_ok ifs e" and "never_fails (mem s)" and "length (provided_variables e) < 65535"
  shows "returns (routing_entry_add_provided_variable e v s) (\<lambda>(r, e', s'). entry_ok ifs e' \<and>
     e' = add_provided v e \<and> mem_frame s s' \<and>
     r = (if var_id v \<in> var_id ` set (provided_variables e) then ZEJF_ERR_GENERIC else ZEJF_OK))"
proof -
  have n: "unat (provided_count e) = length (provided_variables e)" using assms(1) by (simp add: entry_ok_def)
  then have w: "provided_count e + 1 \<noteq> 0" using assms(3) by (auto simp: unat_eq_0 [symmetric] unat_word_ariths)
  then have "unat (provided_count e + 1) = Suc (length (provided_variables e))" by (simp add: unat_Suc_word n)
  with assms w show ?thesis
    by (auto simp: routing_entry_add_provided_variable_def n Let_def entry_ok_def image_iff mem_frame_def add_provided_def)
qed

lemma add_demanded_variable_ok:
  assumes "entry_ok ifs e" and "never_fails (mem s)" and "length (demanded_variables e) < 65535"
  shows "returns (routing_entry_add_demanded_variable e v s) (\<lambda>(r, e', s'). entry_ok ifs e' \<and>
     e' = add_demanded v e \<and> mem_frame s s' \<and>
     r = (if v \<in> set (demanded_variables e) then ZEJF_ERR_GENERIC else ZEJF_OK))"
proof -
  have n: "unat (demand_count e) = length (demanded_variables e)" using assms(1) by (simp add: entry_ok_def)
  then have w: "demand_count e + 1 \<noteq> 0" using assms(3) by (auto simp: unat_eq_0 [symmetric] unat_word_ariths)
  then have "unat (demand_count e + 1) = Suc (length (demanded_variables e))" by (simp add: unat_Suc_word n)
  with assms w show ?thesis
    by (auto simp: routing_entry_add_demanded_variable_def n Let_def entry_ok_def mem_frame_def add_demanded_def)
qed

section \<open>Handing out device ids\<close>

definition used_id :: "'w zejf \<Rightarrow> u16 \<Rightarrow> bool" where
  "used_id s d \<longleftrightarrow> d \<in> device_id ` set (table_entries s)"

lemma find_used:
  assumes "routing_ok P s"
  shows "\<not> used_id s d \<Longrightarrow> routing_find_from (\<lambda>e. Some (device_id e = d)) s 0 = Some None"
    and "used_id s d \<Longrightarrow> \<exists>k. routing_find_from (\<lambda>e. Some (device_id e = d)) s 0 = Some (Some k)"
  using routing_entry_find_rep [OF routing_ok_rep [OF assms], of d]
    find_index_None [of "\<lambda>e. device_id e = d" "table_entries s"]
  by (auto simp: routing_entry_find_def used_id_def)

text \<open>Between the start and an unused id \<open>x\<close> at or above it, the loop finds the least unused id.\<close>

lemma free_id_loop_least:
  assumes ok: "routing_ok P s" and x: "\<not> used_id s x"
  shows "next_free_id s \<le> d \<Longrightarrow> d \<le> x \<Longrightarrow>
    returns (free_id_loop s d) (\<lambda>r. \<exists>j. r = Some j \<and> d \<le> j \<and> j \<le> x \<and> \<not> used_id s j \<and> (\<forall>k. d \<le> k \<and> k < j \<longrightarrow> used_id s k))"
proof (induction "unat x - unat d" arbitrary: d)
  case 0
  then have "d = x" by (simp add: word_le_nat_alt word_unat_eq_iff)
  then show ?case using x find_used(1) [OF ok x] by (subst free_id_loop.simps) auto
next
  case (Suc n)
  then have d: "unat d < unat x" by simp
  then have w: "d + 1 \<noteq> 0" using unat_bound [of x] by (auto simp: unat_eq_0 [symmetric] unat_word_ariths)
  have u: "unat (d + 1) = Suc (unat d)" by (rule unat_Suc_word [OF w])
  have between: "d \<le> k \<and> k < j \<longleftrightarrow> (k = d \<and> d < j) \<or> (d + 1 \<le> k \<and> k < j)" for k j
    using u by (auto simp: word_le_nat_alt word_less_nat_alt word_unat_eq_iff)
  show ?case
  proof (cases "used_id s d")
    case False
    then show ?thesis using find_used(1) [OF ok False] Suc.prems by (subst free_id_loop.simps) auto
  next
    case True
    have ne: "d + 1 \<noteq> next_free_id s" and pre: "next_free_id s \<le> d + 1" "d + 1 \<le> x" "d \<le> d + 1"
      using Suc.prems d u by (auto simp: word_le_nat_alt)
    have "returns (free_id_loop s (d + 1)) (\<lambda>r. \<exists>j. r = Some j \<and> d + 1 \<le> j \<and> j \<le> x \<and> \<not> used_id s j \<and>
        (\<forall>k. d + 1 \<le> k \<and> k < j \<longrightarrow> used_id s k))"
      by (rule Suc.hyps(1)) (use Suc.hyps(2) u pre in auto)
    then show ?thesis using find_used(2) [OF ok True] w ne True pre(3)
      by (subst free_id_loop.simps) (auto simp: Let_def between elim!: returns_weaken intro: order_trans)
  qed
qed

lemma routing_find_free_id_least:
  assumes "routing_ok P s" and "\<not> used_id s x" and "next_free_id s \<le> x" and "x \<noteq> 0xFFFF"
  shows "returns (routing_find_free_id s) (\<lambda>(j, s'). s' = s\<lparr>next_free_id := j + 1\<rparr> \<and>
     next_free_id s \<le> j \<and> \<not> used_id s j \<and> (\<forall>k. next_free_id s \<le> k \<and> k < j \<longrightarrow> used_id s k))"
proof -
  have "j + 1 \<noteq> 0" if "j \<le> x" for j :: u16
    using that assms(4) unat_bound [of x]
    by (auto simp: unat_eq_0 [symmetric] unat_word_ariths word_le_nat_alt word_unat_eq_iff)
  then show ?thesis
    unfolding routing_find_free_id_def
    by (intro returns_bindI [OF free_id_loop_least [OF assms(1,2) order_refl assms(3)]]) auto
qed


text \<open>The loop ends whenever some id that is not reserved is unused: the ids from the start on, then
  the ids from \<open>RESERVED_DEVICE_IDS\<close> on, are tried in order.\<close>

lemma free_id_loop_returns:
  assumes ok: "routing_ok P s" and x: "\<not> used_id s x" "RESERVED_DEVICE_IDS \<le> x"
  shows "returns (free_id_loop s d) (\<lambda>r. \<forall>j. r = Some j \<longrightarrow> \<not> used_id s j)"
proof (induction "if d \<le> x then unat x - unat d else 65536 + unat x - unat d" arbitrary: d rule: less_induct)
  case less
  show ?case
  proof (cases "used_id s d")
    case False
    then show ?thesis using find_used(1) [OF ok False] by (subst free_id_loop.simps) auto
  next
    case True
    let ?n = "if d + 1 = 0 then RESERVED_DEVICE_IDS else d + 1"
    have "d \<noteq> x" using True x(1) by auto
    then have ne: "unat d \<noteq> unat x" by (simp add: word_unat_eq_iff)
    have last: "unat d = 65535" if "d + 1 = 0"
    proof -
      have "d = 0xFFFF" using that by (simp add: eq_neg_iff_add_eq_0 [symmetric])
      then show ?thesis by simp
    qed
    have "(if ?n \<le> x then unat x - unat ?n else 65536 + unat x - unat ?n) <
        (if d \<le> x then unat x - unat d else 65536 + unat x - unat d)"
      using ne last x(2) unat_Suc_word [of d] unat_bound [of d] unat_bound [of x]
      by (auto simp: word_le_nat_alt)
    from less [OF this] show ?thesis using find_used(2) [OF ok True]
      by (subst free_id_loop.simps) (auto simp: Let_def)
  qed
qed


lemma unreserved_ids: "card {x :: u16. RESERVED_DEVICE_IDS \<le> x} = 64536"
proof -
  have "{x :: u16. RESERVED_DEVICE_IDS \<le> x} = word_of_nat ` {1000..<65536}"
  proof (intro set_eqI iffI)
    fix x :: u16
    assume "x \<in> {x. RESERVED_DEVICE_IDS \<le> x}"
    then show "x \<in> word_of_nat ` {1000..<65536}"
      using unat_bound [of x] by (intro image_eqI [of _ _ "unat x"]) (simp_all add: word_le_nat_alt)
  next
    fix x :: u16
    assume "x \<in> word_of_nat ` {1000..<65536}"
    then show "x \<in> {x. RESERVED_DEVICE_IDS \<le> x}"
      by (auto simp: word_le_nat_alt unat_of_nat)
  qed
  moreover have "inj_on (word_of_nat :: nat \<Rightarrow> u16) {1000..<65536}"
    by (rule inj_on_inverseI [of _ unat]) (simp add: unat_of_nat)
  ultimately show ?thesis by (simp add: card_image)
qed

lemma unused_id_exists:
  assumes "routing_ok P s" and "ROUTING_TABLE_SIZE P < 64536"
  obtains x where "\<not> used_id s x" "RESERVED_DEVICE_IDS \<le> x"
proof -
  have "card (device_id ` set (table_entries s)) \<le> length (table_entries s)"
    by (metis card_length image_set length_map)
  also have "\<dots> < card {x :: u16. RESERVED_DEVICE_IDS \<le> x}"
    using assms by (simp add: routing_ok_def table_rep_def unreserved_ids del: word_le_def)
  finally have "\<not> {x :: u16. RESERVED_DEVICE_IDS \<le> x} \<subseteq> device_id ` set (table_entries s)"
    by (meson card_mono finite_imageI finite_set leD)
  then show ?thesis using that by (auto simp: used_id_def)
qed

lemma routing_find_free_id_returns:
  assumes "routing_ok P s" and "ROUTING_TABLE_SIZE P < 64536"
  shows "returns (routing_find_free_id s) (\<lambda>(j, s'). s' = s\<lparr>next_free_id := next_free_id s'\<rparr> \<and>
     (j = 0 \<or> \<not> used_id s j \<or> j = RESERVED_DEVICE_IDS \<and> \<not> used_id s 0xFFFF))"
proof -
  obtain x where x: "\<not> used_id s x" "RESERVED_DEVICE_IDS \<le> x" by (rule unused_id_exists [OF assms])
  have "j = 0xFFFF" if "j + 1 = 0" for j :: u16
    using that by (simp add: eq_neg_iff_add_eq_0 [symmetric])
  then show ?thesis
    unfolding routing_find_free_id_def
    by (intro returns_bindI [OF free_id_loop_returns [OF assms(1) x]]) (auto split: option.splits)
qed

section \<open>Properties\<close>

text \<open>
  C4: \<open>routing_table_update\<close> implements the bounded best-route table: on every
  well-formed table it returns without undefined behaviour, keeps the invariant of the table
  (one entry per device, none for the device itself, every entry with a live interface, at most
  \<open>ROUTING_TABLE_SIZE\<close> entries, null slots above), changes nothing but the table, the counters
  of interfaces and the heap, and its error code and the new entries are those of the specification
  \<open>table_update\<close>.
\<close>

theorem routing_table_update_refines:
  assumes "routing_ok P s" and "never_fails (mem s)" and "interfaces s a = Some i"
  shows "returns (routing_table_update P d (Some a) dist time s) (\<lambda>(r, s').
     routing_ok P s' \<and> routing_frame s s' \<and>
     (r, table_entries s') =
       table_update (DEVICE_ID P) (ROUTING_TABLE_SIZE P) d a dist time (table_entries s))"
  by (rule routing_table_update_ok [OF assms])

text \<open>A sequence of reports \<open>(device, interface, distance, time)\<close> on the table.\<close>

primrec routing_reports ::
  "'w platform \<Rightarrow> (u16 \<times> addr \<times> u8 \<times> u32) list \<Rightarrow> 'w zejf \<Rightarrow> 'w zejf option" where
  "routing_reports P [] s = Some s"
| "routing_reports P (r # rs) s =
     (case r of (d, a, dist, time) \<Rightarrow>
        do { (_, s) \<leftarrow> routing_table_update P d (Some a) dist time s; routing_reports P rs s })"

definition route_distance :: "u16 \<Rightarrow> RoutingEntry list \<Rightarrow> u8 option" where
  "route_distance d es = map_option distance (find (\<lambda>e. device_id e = d) es)"

text \<open>The best of the distances reported for \<open>d\<close>, starting from a known one.\<close>

definition best :: "u8 option \<Rightarrow> u8 \<Rightarrow> u8 option" where
  "best known dist = Some (case known of None \<Rightarrow> dist | Some k \<Rightarrow> min k dist)"

lemma find_map_device:
  "(\<And>e. device_id (f e) = device_id e) \<Longrightarrow>
   find (\<lambda>e. device_id e = d) (map f es) = map_option f (find (\<lambda>e. device_id e = d) es)"
  by (induction es) auto

lemma route_distance_None: "route_distance d es = None \<longleftrightarrow> d \<notin> device_id ` set es"
  by (auto simp: route_distance_def find_None_iff)

lemma route_distance_update:
  assumes "d' \<noteq> self" and "length es < cap \<or> d' \<in> device_id ` set es"
  shows "route_distance d (snd (table_update self cap d' a dist time es)) =
    (if d = d' then best (route_distance d es) dist else route_distance d es)"
proof (cases "d' \<in> device_id ` set es")
  case True
  let ?f = "\<lambda>e. if device_id e = d' then refresh a dist time e else e"
  have "map_option distance (find (\<lambda>e. device_id e = d) (map ?f es)) =
     map_option (distance \<circ> ?f) (find (\<lambda>e. device_id e = d) es)"
    by (simp add: find_map_device option.map_comp)
  moreover have "device_id e = d" if "find (\<lambda>e. device_id e = d) es = Some e" for e
    using that by (auto simp: find_Some_iff)
  moreover have "find (\<lambda>e. device_id e = d) es \<noteq> None" if "d = d'" using True that by (auto simp: find_None_iff)
  ultimately show ?thesis
    using True assms(1)
    by (cases "find (\<lambda>e. device_id e = d) es") (auto simp: table_update_def route_distance_def best_def distance_refresh)
next
  case False
  then have "find (\<lambda>e. device_id e = d') es = None" by (auto simp: find_None_iff)
  moreover have "find (\<lambda>e. device_id e = d) (es @ [new_entry d' a dist time]) =
     (case find (\<lambda>e. device_id e = d) es of None \<Rightarrow> if d = d' then Some (new_entry d' a dist time) else None | Some e \<Rightarrow> Some e)"
    by (induction es) (auto simp: new_entry_def)
  ultimately show ?thesis using False assms
    by (auto simp: table_update_def route_distance_def best_def new_entry_def split: option.splits)
qed


lemma length_table_update: "length (snd (table_update self cap d a dist time es)) \<le> Suc (length es)"
  by (simp add: table_update_def)

lemma routing_reports_run:
  assumes "routing_ok P s" and "never_fails (mem s)" and "\<forall>(d, a, r)\<in>set rs. a \<in> dom (interfaces s)"
    and "length (table_entries s) + length rs \<le> ROUTING_TABLE_SIZE P"
  shows "returns (routing_reports P rs s) (\<lambda>s'. routing_ok P s' \<and>
     (\<forall>d. d \<noteq> DEVICE_ID P \<longrightarrow> route_distance d (table_entries s') =
        fold (\<lambda>(d', _, dist, _) known. if d' = d then best known dist else known) rs
          (route_distance d (table_entries s))))"
  using assms
proof (induction rs arbitrary: s)
  case Nil
  then show ?case by simp
next
  case (Cons r rs)
  obtain d a dist time where r: "r = (d, a, dist, time)" by (cases r)
  let ?es = "snd (table_update (DEVICE_ID P) (ROUTING_TABLE_SIZE P) d a dist time (table_entries s))"
  from Cons.prems(3) obtain i where a: "interfaces s a = Some i" by (auto simp: r)
  have upd: "route_distance k ?es =
      (if k = d then best (route_distance k (table_entries s)) dist else route_distance k (table_entries s))"
    if "k \<noteq> DEVICE_ID P" for k
    using that Cons.prems(4) route_distance_update [of d "DEVICE_ID P" "table_entries s"]
    by (cases "d = DEVICE_ID P") (auto simp: table_update_def)
  show ?case
    unfolding r routing_reports.simps prod.case
  proof (rule returns_bindI [OF routing_table_update_ok [OF Cons.prems(1,2) a]], clarify)
    fix r' s'
    assume ok: "routing_ok P s'" and f: "routing_frame s s'"
      and es: "(r', table_entries s') =
        table_update (DEVICE_ID P) (ROUTING_TABLE_SIZE P) d a dist time (table_entries s)"
    have es': "table_entries s' = ?es" using es by (metis snd_conv)
    have "length (table_entries s') + length rs \<le> ROUTING_TABLE_SIZE P"
      using Cons.prems(4) length_table_update [of "DEVICE_ID P" "ROUTING_TABLE_SIZE P" d a dist time "table_entries s"]
      by (simp add: es')
    moreover have "never_fails (mem s')" using routing_frameD(1) [OF f] Cons.prems(2) by (simp add: alloc_mono_never_fails)
    moreover have "\<forall>(d, a, r)\<in>set rs. a \<in> dom (interfaces s')"
      using routing_frameD(11) [OF f] Cons.prems(3) by auto
    ultimately have "returns (routing_reports P rs s') (\<lambda>s''. routing_ok P s'' \<and>
       (\<forall>d. d \<noteq> DEVICE_ID P \<longrightarrow> route_distance d (table_entries s'') =
          fold (\<lambda>(d', _, dist, _) known. if d' = d then best known dist else known) rs (route_distance d (table_entries s'))))"
      using Cons.IH [OF ok] by simp
    then show "returns (routing_reports P rs s') (\<lambda>s''. routing_ok P s'' \<and>
       (\<forall>k. k \<noteq> DEVICE_ID P \<longrightarrow> route_distance k (table_entries s'') =
          fold (\<lambda>(d', _, dist, _) known. if d' = k then best known dist else known) ((d, a, dist, time) # rs)
            (route_distance k (table_entries s))))"
      by (rule returns_weaken) (auto simp: es' upd)
  qed
qed

text \<open>A state with one interface, to apply the properties to.\<close>

definition one_interface :: "unit zejf" where
  "one_interface =
     (zejf_start meteo_settings ())\<lparr>interfaces :=
        [7 \<mapsto> \<lparr>if_uid = 1, if_type = 2, if_handle = 0, rx_count = 0, tx_count = 0\<rparr>]\<rparr>"

lemma one_interface_simps [simp]:
  "table_entries one_interface = []" "never_fails (mem one_interface)"
  "interfaces one_interface 7 = Some \<lparr>if_uid = 1, if_type = 2, if_handle = 0, rx_count = 0, tx_count = 0\<rparr>"
  "routing_ok meteo_settings one_interface"
  "next_free_id one_interface = 1000"
  by (simp_all add: one_interface_def zejf_start_def table_entries_def never_fails_def routing_ok_def table_rep_def)

theorem routing_table_update_refines_witness:
  "returns (routing_table_update meteo_settings 5 (Some 7) 2 100 one_interface) (\<lambda>(r, s').
     r = ZEJF_OK \<and> table_entries s' = [new_entry 5 7 2 100])"
  by (rule returns_weaken [OF routing_table_update_refines])
    (auto simp: table_update_def)

text \<open>
  Shortest routes.  After any sequence of reports that fits the table, the distance recorded
  for every other device is the smallest of the distances reported for it and the one known before,
  whatever the order of the reports; the invariant holds throughout.
\<close>

theorem routing_reports_best:
  assumes "routing_ok P s" and "never_fails (mem s)" and "\<forall>(d, a, r)\<in>set rs. a \<in> dom (interfaces s)"
    and "length (table_entries s) + length rs \<le> ROUTING_TABLE_SIZE P"
  shows "returns (routing_reports P rs s) (\<lambda>s'. routing_ok P s' \<and>
     (\<forall>d. d \<noteq> DEVICE_ID P \<longrightarrow> route_distance d (table_entries s') =
        fold (\<lambda>(d', _, dist, _) known. if d' = d then best known dist else known) rs
          (route_distance d (table_entries s))))"
  by (rule routing_reports_run [OF assms])

theorem routing_reports_best_witness:
  "returns (routing_reports meteo_settings [(5, 7, 3, 10), (6, 7, 1, 11), (5, 7, 2, 12), (5, 7, 4, 13)] one_interface)
     (\<lambda>s'. route_distance 5 (table_entries s') = Some 2 \<and> route_distance 6 (table_entries s') = Some 1)"
  by (rule returns_weaken [OF routing_reports_best])
    (auto simp: best_def route_distance_def)

text \<open>
  C9: expiry.  \<open>routing_table_check\<close> returns with the invariant kept, never drops an entry that
  is still fresh, and on a table without two expired neighbours keeps exactly the fresh
  ones.  In general it keeps the expired entries that stand right after a removed one.
\<close>

theorem routing_table_check_expires:
  assumes "routing_ok P s"
  shows "returns (routing_table_check P time s) (\<lambda>s'. routing_ok P s' \<and>
     table_entries s' = skip_remove (expired P time) (table_entries s) \<and>
     filter (\<lambda>e. \<not> expired P time e) (table_entries s') = filter (\<lambda>e. \<not> expired P time e) (table_entries s) \<and>
     (isolated (expired P time) (table_entries s) \<longrightarrow>
        table_entries s' = filter (\<lambda>e. \<not> expired P time e) (table_entries s)))"
  by (rule returns_weaken [OF routing_table_check_ok [OF assms]])
    (auto simp: skip_remove_keeps skip_remove_isolated)

text \<open>Two neighbours that are both expired.\<close>

definition two_expired :: "unit zejf" where
  "two_expired = one_interface\<lparr>rtable := map Some [new_entry 5 7 1 0, new_entry 6 7 1 0] @ replicate 14 None,
                               routing_table_top := 2\<rparr>"

lemma two_expired_simps [simp]:
  "table_entries two_expired = [new_entry 5 7 1 0, new_entry 6 7 1 0]" "routing_ok meteo_settings two_expired"
  by (simp_all add: two_expired_def one_interface_def zejf_start_def table_entries_def routing_ok_def table_rep_def new_entry_def entry_ok_def routing_entry_zero_def)

theorem routing_table_check_expires_witness:
  "returns (routing_table_check meteo_settings 100000 two_expired) (\<lambda>s'. table_entries s' = [new_entry 6 7 1 0])"
  by (rule returns_weaken [OF routing_table_check_expires])
    (auto simp: expired_def new_entry_def word_less_nat_alt)

text \<open>
  Device ids are handed out in order.  While some id between \<open>next_free_id\<close> and
  \<open>0xFFFE\<close> is unused, \<open>routing_find_free_id\<close> returns the smallest unused id from
  \<open>next_free_id\<close> on and remembers its successor.
\<close>

theorem routing_find_free_id_fresh:
  assumes "routing_ok P s" and "\<not> used_id s x" and "next_free_id s \<le> x" and "x \<noteq> 0xFFFF"
  shows "returns (routing_find_free_id s) (\<lambda>(j, s'). s' = s\<lparr>next_free_id := j + 1\<rparr> \<and>
     next_free_id s \<le> j \<and> \<not> used_id s j \<and> (\<forall>k. next_free_id s \<le> k \<and> k < j \<longrightarrow> used_id s k))"
  by (rule routing_find_free_id_least [OF assms])

theorem routing_find_free_id_fresh_witness:
  "returns (routing_find_free_id two_expired) (\<lambda>(j, s'). 1000 \<le> j \<and> j \<notin> {5, 6} \<and> next_free_id s' = j + 1)"
  by (rule returns_weaken [OF routing_find_free_id_fresh [of meteo_settings _ 1000]])
    (auto simp: used_id_def new_entry_def, simp_all add: two_expired_def)

text \<open>
  The wrap-around of the ids.  When only \<open>0xFFFF\<close> is left before the wrap,
  \<open>routing_find_free_id\<close> returns \<open>RESERVED_DEVICE_IDS\<close> whether or not a device has that id,
  and the next search starts at id 0, among the reserved ids.
\<close>

theorem routing_find_free_id_wraps:
  assumes "routing_ok P s" and "next_free_id s = 0xFFFF" and "\<not> used_id s 0xFFFF"
  shows "routing_find_free_id s = Some (RESERVED_DEVICE_IDS, s\<lparr>next_free_id := 0\<rparr>)"
proof -
  have "free_id_loop s 0xFFFF = Some (Some 0xFFFF)"
    by (subst free_id_loop.simps) (simp add: find_used(1) [OF assms(1,3)])
  then show ?thesis by (simp add: routing_find_free_id_def assms(2))
qed

definition id_1000_used :: "unit zejf" where
  "id_1000_used = one_interface\<lparr>rtable := Some (new_entry 1000 7 1 0) # replicate 15 None,
                               routing_table_top := 1, next_free_id := 0xFFFF\<rparr>"

theorem routing_find_free_id_wraps_witness:
  "used_id id_1000_used 1000 \<and> routing_find_free_id id_1000_used = Some (1000, id_1000_used\<lparr>next_free_id := 0\<rparr>)"
proof
  show "used_id id_1000_used 1000"
    by (simp add: id_1000_used_def used_id_def table_entries_def new_entry_def)
  show "routing_find_free_id id_1000_used = Some (1000, id_1000_used\<lparr>next_free_id := 0\<rparr>)"
    by (rule routing_find_free_id_wraps [of meteo_settings])
      (simp_all add: id_1000_used_def one_interface_def zejf_start_def table_entries_def routing_ok_def table_rep_def new_entry_def entry_ok_def routing_entry_zero_def used_id_def)
qed

end
