(* ===== verification/Network.thy ===== *)
theory Network
  imports Routing
begin

text \<open>
  The packet queues and the forwarding of \<open>api/zejf_api/src/zejf_network.c\<close>, with
  \<open>interface_removed\<close> and \<open>network_send_routing_info\<close> of \<open>zejf_routing.c\<close>: accepting a packet
  from outside, queueing, the round-robin transmitter, broadcasts, routing announcements and the
  assignment of device ids.  \<open>network_catch_packet\<close>, \<open>network_process_rx\<close> and
  \<open>network_process_packets\<close>, which call the data components, are in theory \<open>Zejf_Api\<close>.

  The queues hold packets by value, so an item is never null; what the code writes into a queued
  packet is written back into its node.
\<close>

section \<open>Operations\<close>

definition network_init :: "'w platform \<Rightarrow> 'w zejf \<Rightarrow> zejf_err \<times> 'w zejf" where
  "network_init P s =
     (case list_create (mem s) (RX_QUEUE_SIZE P) of
        (rx, m) \<Rightarrow>
          (case list_create m (TX_QUEUE_SIZE P) of
             (tx, m) \<Rightarrow>
               (if rx \<noteq> None \<and> tx \<noteq> None then ZEJF_OK else ZEJF_ERR_OUT_OF_MEMORY,
                s\<lparr>mem := m, rx_queue := rx, tx_queue := tx, next_packet := None,
                  provide_ptr := 0, demand_ptr := 0\<rparr>)))"

text \<open>After \<open>network_destroy\<close> the queues are gone; nothing is called on them any more.\<close>

definition network_destroy :: "'w zejf \<Rightarrow> 'w zejf option" where
  "network_destroy s =
     do {
       _ \<leftarrow> list_destroy (rx_queue s);
       _ \<leftarrow> list_destroy (tx_queue s);
       Some (s\<lparr>rx_queue := None, tx_queue := None\<rparr>)
     }"

text \<open>
  \<open>network_prepare_packet\<close> does not test the result of \<open>packet_create\<close>.  The size of the message is
  kept in 16 bits; a longer message would be copied without its terminating zero.
\<close>

definition network_prepare_packet ::
  "'w platform \<Rightarrow> u16 \<Rightarrow> u8 \<Rightarrow> string option \<Rightarrow> 'w zejf \<Rightarrow> (Packet option \<times> 'w zejf) option"
where
  "network_prepare_packet P to' cmd msg s =
     (case packet_create (mem s) of
        (new, m) \<Rightarrow>
          do {
            p \<leftarrow> new;
            let s = s\<lparr>mem := m\<rparr>;
            let p = p\<lparr>command := cmd, pkt_from := DEVICE_ID P, pkt_to := to', ttl := 0\<rparr>;
            (case msg of
               None \<Rightarrow> Some (Some (p\<lparr>message_size := 0, message := None\<rparr>), s)
             | Some t \<Rightarrow>
                 let p = p\<lparr>message_size := of_nat (length t)\<rparr> in
                 (case zmalloc s of
                    (None, s) \<Rightarrow> Some (None, s)
                  | (Some _, s) \<Rightarrow>
                      if unat (message_size p) = length t then Some (Some (p\<lparr>message := Some t\<rparr>), s) else None))
          })"

text \<open>\<open>network_send_via\<close> on an interface given by its address.\<close>

definition send_via ::
  "'w platform \<Rightarrow> string \<Rightarrow> addr option \<Rightarrow> u32 \<Rightarrow> 'w zejf \<Rightarrow> (zejf_err \<times> 'w zejf) option"
where
  "send_via P buff interface time s =
     do {
       a \<leftarrow> interface;
       i \<leftarrow> interfaces s a;
       (case network_send_via P buff i time (world s) of (e, w) \<Rightarrow> Some (e, s\<lparr>world := w\<rparr>))
     }"

definition process_id_request ::
  "'w platform \<Rightarrow> Packet \<Rightarrow> u32 \<Rightarrow> 'w zejf \<Rightarrow> (zejf_err \<times> 'w zejf) option"
where
  "process_id_request P packet time s =
     do {
       (asigned_id, s) \<leftarrow> routing_find_free_id s;
       (if asigned_id = 0 then Some (ZEJF_ERR_NO_FREE_SLOTS, s)
        else do {
          (new, s) \<leftarrow> network_prepare_packet P asigned_id ID_INFO None s;
          (case new of
             None \<Rightarrow> Some (ZEJF_ERR_NULL, s)
           | Some pack \<Rightarrow>
               do {
                 (rv, buff, _) \<leftarrow> packet_to_string pack (PACKET_MAX_LENGTH P);
                 (if rv \<noteq> ZEJF_OK then Some (rv, s) else send_via P buff (source_interface packet) time s)
               })
        })
     }"

text \<open>The loop of \<open>network_send_everywhere\<close> over the interfaces.\<close>

primrec everywhere_loop ::
  "'w platform \<Rightarrow> Packet \<Rightarrow> string \<Rightarrow> u32 \<Rightarrow> addr list \<Rightarrow> zejf_err \<Rightarrow> 'w zejf \<Rightarrow> (zejf_err \<times> 'w zejf) option"
where
  "everywhere_loop P packet buff time [] result s = Some (result, s)"
| "everywhere_loop P packet buff time (a # as) result s =
     do {
       i \<leftarrow> interfaces s a;
       elsewhere \<leftarrow> (case source_interface packet of
                       None \<Rightarrow> Some True
                     | Some b \<Rightarrow> do { j \<leftarrow> interfaces s b; Some (if_uid i \<noteq> if_uid j) });
       (if elsewhere
        then do {
          (res, s) \<leftarrow> send_via P buff (Some a) time s;
          everywhere_loop P packet buff time as (if res \<noteq> ZEJF_OK then ZEJF_ERR_PARTIAL else result) s
        }
        else everywhere_loop P packet buff time as result s)
     }"

definition network_send_everywhere ::
  "'w platform \<Rightarrow> Packet \<Rightarrow> u32 \<Rightarrow> 'w zejf \<Rightarrow> (zejf_err \<times> 'w zejf) option"
where
  "network_send_everywhere P packet time s =
     do {
       (rv, buff, packet) \<leftarrow> packet_to_string packet (PACKET_MAX_LENGTH P);
       (if rv \<noteq> ZEJF_OK then Some (ZEJF_ERR_GENERIC, s)
        else everywhere_loop P packet buff time (get_all_interfaces P (world s)) ZEJF_OK s)
     }"

definition process_rip_packet ::
  "'w platform \<Rightarrow> Packet \<Rightarrow> u32 \<Rightarrow> 'w zejf \<Rightarrow> (zejf_err \<times> 'w zejf) option"
where
  "process_rip_packet P packet now s =
     do {
       (rv, s) \<leftarrow> routing_table_update P (pkt_from packet) (source_interface packet) (ttl packet) now s;
       (if rv = ZEJF_OK \<and> pkt_flags packet \<noteq> 0 then network_send_everywhere P packet now s
        else Some (rv, s))
     }"

definition network_push_packet ::
  "'w platform \<Rightarrow> Packet \<Rightarrow> 'w zejf \<Rightarrow> (zejf_err \<times> 'w zejf) option"
where
  "network_push_packet P packet s =
     (if pkt_to packet = DEVICE_ID P
      then do {
        (ok, q, m) \<leftarrow> list_push (mem s) (rx_queue s) packet;
        Some (if ok then ZEJF_OK else ZEJF_ERR_GENERIC, s\<lparr>mem := m, rx_queue := q\<rparr>)
      }
      else do {
        (ok, q, m) \<leftarrow> list_push (mem s) (tx_queue s) packet;
        Some (if ok then ZEJF_OK else ZEJF_ERR_GENERIC, s\<lparr>mem := m, tx_queue := q\<rparr>)
      })"

definition network_send_packet ::
  "'w platform \<Rightarrow> Packet option \<Rightarrow> u32 \<Rightarrow> 'w zejf \<Rightarrow> (zejf_err \<times> 'w zejf) option"
where
  "network_send_packet P pkt time s =
     (case pkt of
        None \<Rightarrow> Some (ZEJF_ERR_NULL, s)
      | Some packet \<Rightarrow>
          if pkt_from packet = DEVICE_ID P \<and> pkt_to packet = DEVICE_ID P then Some (ZEJF_ERR_ITSELF, s)
          else do {
            unreachable \<leftarrow>
              (if pkt_from packet = DEVICE_ID P \<and> pkt_to packet \<noteq> BROADCAST
               then do { e \<leftarrow> routing_entry_find (pkt_to packet) s; Some (e = None) } else Some False);
            (if unreachable then Some (ZEJF_ERR_NO_SUCH_DEVICE, s)
             else if command packet = ID_REQUEST
             then do {
               (rv, s) \<leftarrow> process_id_request P packet time s;
               Some (if rv \<noteq> ZEJF_OK then ZEJF_ERR_GENERIC else ZEJF_OK, s)
             }
             else if command packet = RIP then process_rip_packet P packet time s
             else do {
               queue \<leftarrow> (if pkt_to packet = DEVICE_ID P then rx_queue s else tx_queue s);
               (if list_is_full queue then Some (ZEJF_ERR_QUEUE_FULL, s)
                else if pkt_from packet \<noteq> DEVICE_ID P \<and> command packet \<noteq> RIP \<and> source_interface packet = None
                then Some (ZEJF_OK, s)
                else do {
                  (rv, s) \<leftarrow> network_push_packet P (packet\<lparr>time_received := time, time_sent := 0\<rparr>) s;
                  Some (if rv \<noteq> ZEJF_OK then ZEJF_ERR_OUT_OF_MEMORY else ZEJF_OK, s)
                })
             })
          })"

definition network_accept ::
  "'w platform \<Rightarrow> char list \<Rightarrow> addr option \<Rightarrow> u32 \<Rightarrow> 'w zejf \<Rightarrow> (zejf_err \<times> 'w zejf) option"
where
  "network_accept P msg interface time s =
     (case packet_create (mem s) of
        (None, m) \<Rightarrow> Some (ZEJF_ERR_NULL, s\<lparr>mem := m\<rparr>)
      | (Some packet, m) \<Rightarrow>
          do {
            (rv, packet, m) \<leftarrow> packet_from_string packet msg m;
            let s = s\<lparr>mem := m\<rparr>;
            (if rv \<noteq> ZEJF_OK then Some (rv, s)
             else
               let packet = packet\<lparr>source_interface := interface, ttl := ttl packet + 1\<rparr> in
               if PACKET_MAX_TTL P \<le> unat (ttl packet) then Some (ZEJF_ERR_TTL, s)
               else network_send_packet P (Some packet) time s)
          })"

text \<open>\<open>node->next\<close> for a node of the transmit queue.\<close>

definition tx_next :: "'w zejf \<Rightarrow> addr \<Rightarrow> addr option" where
  "tx_next s a = do { q \<leftarrow> tx_queue s; n \<leftarrow> nodes q a; Some (node_next n) }"

definition packet_remove :: "addr \<Rightarrow> 'w zejf \<Rightarrow> 'w zejf option" where
  "packet_remove node s =
     do {
       s \<leftarrow> (if next_packet s = Some node
             then do {
               next \<leftarrow> tx_next s node;
               Some (s\<lparr>next_packet := if next = node then None else Some next\<rparr>)
             }
             else Some s);
       (_, q) \<leftarrow> list_remove (tx_queue s) (Some node);
       Some (s\<lparr>tx_queue := q\<rparr>)
     }"

partial_function (option) interface_removed_loop :: "addr \<Rightarrow> addr \<Rightarrow> 'w zejf \<Rightarrow> 'w zejf option" where
  "interface_removed_loop interface node s =
     do {
       q \<leftarrow> tx_queue s;
       n \<leftarrow> nodes q node;
       s \<leftarrow> (if destination_interface (node_item n) = Some interface \<or>
               source_interface (node_item n) = Some interface
             then packet_remove node s else Some s);
       q \<leftarrow> tx_queue s;
       (if Some (node_next n) \<noteq> tail q then interface_removed_loop interface (node_next n) s else Some s)
     }"

definition network_interface_removed :: "addr \<Rightarrow> 'w zejf \<Rightarrow> 'w zejf option" where
  "network_interface_removed interface s =
     do {
       q \<leftarrow> tx_queue s;
       (case tail q of None \<Rightarrow> Some s | Some node \<Rightarrow> interface_removed_loop interface node s)
     }"

definition interface_removed :: "addr \<Rightarrow> 'w zejf \<Rightarrow> 'w zejf option" where
  "interface_removed interface s =
     do {
       s \<leftarrow> routing_remove_loop
              (\<lambda>s entry. do { u \<leftarrow> entry_uid s entry; i \<leftarrow> interfaces s interface; Some (u = if_uid i) }) 0 s;
       network_interface_removed interface s
     }"

definition prepare_and_send ::
  "'w platform \<Rightarrow> Packet \<Rightarrow> addr option \<Rightarrow> u32 \<Rightarrow> 'w zejf \<Rightarrow> (zejf_err \<times> Packet \<times> 'w zejf) option"
where
  "prepare_and_send P packet dest time s =
     do {
       (rv, buff, packet) \<leftarrow> packet_to_string packet (PACKET_MAX_LENGTH P);
       (if rv \<noteq> ZEJF_OK then Some (ZEJF_ERR_SEND_UNABLE, packet, s)
        else do {
          let packet = packet\<lparr>destination_interface := dest\<rparr>;
          (e, s) \<leftarrow> send_via P buff dest time s;
          Some (e, packet, s)
        })
     }"

text \<open>The difference of two values of type \<open>size_t\<close>.\<close>

definition size_sub :: "nat \<Rightarrow> nat \<Rightarrow> nat" where
  "size_sub a b = (if b \<le> a then a - b else 2 ^ 64 + a - b)"

partial_function (option) broadcast_loop ::
  "'w platform \<Rightarrow> Packet \<Rightarrow> nat \<Rightarrow> zejf_err \<Rightarrow> 'w zejf \<Rightarrow> (zejf_err \<times> 'w zejf) option"
where
  "broadcast_loop P packet i result s =
     (if i < routing_table_top s
      then do {
        entry \<leftarrow> entry_at s i;
        (new, s) \<leftarrow> network_prepare_packet P (device_id entry) (command packet) (message packet) s;
        (case new of
           None \<Rightarrow> Some (ZEJF_ERR_NULL, s)
         | Some new_packet \<Rightarrow>
             do {
               (rv, s) \<leftarrow> network_send_packet P (Some new_packet) (time_received packet) s;
               broadcast_loop P packet (Suc i) (if rv \<noteq> ZEJF_OK then ZEJF_ERR_PARTIAL else result) s
             })
      }
      else Some (result, s))"

definition process_broadcast_packet ::
  "'w platform \<Rightarrow> Packet \<Rightarrow> 'w zejf \<Rightarrow> (zejf_err \<times> 'w zejf) option"
where
  "process_broadcast_packet P packet s =
     do {
       q \<leftarrow> tx_queue s;
       (if routing_table_top s \<le> size_sub (capacity q) (item_count q)
        then broadcast_loop P packet 0 ZEJF_OK s
        else Some (ZEJF_ERR_QUEUE_FULL, s))
     }"

definition network_send_routing_info :: "'w platform \<Rightarrow> u32 \<Rightarrow> 'w zejf \<Rightarrow> (zejf_err \<times> 'w zejf) option" where
  "network_send_routing_info P time s =
     do {
       (new, s) \<leftarrow> network_prepare_packet P 0 RIP None s;
       packet \<leftarrow> new;
       network_send_everywhere P (packet\<lparr>pkt_flags := 1\<rparr>) time s
     }"

definition network_has_packets :: "'w zejf \<Rightarrow> bool option" where
  "network_has_packets s =
     do { rx \<leftarrow> rx_queue s; tx \<leftarrow> tx_queue s; Some (\<not> list_is_empty rx \<or> \<not> list_is_empty tx) }"

text \<open>The two exits of \<open>network_send_tx\<close>.\<close>

definition next_one :: "'w zejf \<Rightarrow> 'w zejf option" where
  "next_one s = do { a \<leftarrow> next_packet s; b \<leftarrow> tx_next s a; Some (s\<lparr>next_packet := Some b\<rparr>) }"

definition remove_current :: "'w zejf \<Rightarrow> 'w zejf option" where
  "remove_current s = do { a \<leftarrow> next_packet s; packet_remove a s }"

definition network_send_tx :: "'w platform \<Rightarrow> u32 \<Rightarrow> 'w zejf \<Rightarrow> 'w zejf option" where
  "network_send_tx P time s =
     do {
       q \<leftarrow> tx_queue s;
       (if list_is_empty q then Some s
        else do {
          let s = (if next_packet s = None then s\<lparr>next_packet := tail q\<rparr> else s);
          a \<leftarrow> next_packet s;
          n \<leftarrow> nodes q a;
          let packet = node_item n;
          (if PACKET_DELETE_TIMEOUT P \<le> time - time_received packet then remove_current s
           else if pkt_to packet = BROADCAST
           then do {
             (rv, s) \<leftarrow> process_broadcast_packet P packet s;
             (if rv \<noteq> ZEJF_OK \<and> rv \<noteq> ZEJF_ERR_PARTIAL then next_one s else remove_current s)
           }
           else do {
             found \<leftarrow> routing_entry_find (pkt_to packet) s;
             (case found of
                None \<Rightarrow> remove_current s
              | Some k \<Rightarrow>
                  do {
                    entry \<leftarrow> entry_at s k;
                    (rv, packet, s) \<leftarrow>
                      prepare_and_send P (packet\<lparr>time_sent := time\<rparr>) (re_interface entry) time s;
                    q \<leftarrow> tx_queue s;
                    q \<leftarrow> set_item q a packet;
                    let s = s\<lparr>tx_queue := Some q\<rparr>;
                    (if rv = ZEJF_ERR_SEND_UNABLE then next_one s else remove_current s)
                  })
           })
        })
     }"

text \<open>\<open>priority\<close> is one of the constants \<open>PRIORITY_HIGH\<close>, \<open>PRIORITY_MEDIUM\<close>, \<open>PRIORITY_LOW\<close>.\<close>

definition allocate_packet_queue :: "nat \<Rightarrow> 'w zejf \<Rightarrow> nat option" where
  "allocate_packet_queue priority s =
     do { q \<leftarrow> tx_queue s; Some (size_sub (capacity q) (item_count q) div priority) }"

section \<open>The invariant of the network\<close>

definition live :: "(addr \<Rightarrow> Interface option) \<Rightarrow> addr option \<Rightarrow> bool" where
  "live ifs ptr \<longleftrightarrow> (\<forall>a. ptr = Some a \<longrightarrow> a \<in> dom ifs)"

text \<open>A packet that may be queued: no dangling interface, few hops, a message whose size fits its
  field, and none of the commands that are handled at once.\<close>

definition packet_ok :: "'w platform \<Rightarrow> (addr \<Rightarrow> Interface option) \<Rightarrow> Packet \<Rightarrow> bool" where
  "packet_ok P ifs p \<longleftrightarrow>
     live ifs (source_interface p) \<and> live ifs (destination_interface p) \<and> unat (ttl p) < PACKET_MAX_TTL P \<and>
     length (packet_message p) < 2 ^ 16 \<and> command p \<noteq> RIP \<and> command p \<noteq> ID_REQUEST"

definition queue_addrs :: "'a linked_list option \<Rightarrow> addr list" where
  "queue_addrs q = (case q of None \<Rightarrow> [] | Some l \<Rightarrow> list_addrs l)"

definition net_ok :: "'w platform \<Rightarrow> 'w zejf \<Rightarrow> bool" where
  "net_ok P s \<longleftrightarrow>
     never_fails (mem s) \<and> routing_ok P s \<and>
     queue_ok (mem s) (rx_queue s) \<and> queue_cap (rx_queue s) = RX_QUEUE_SIZE P \<and>
     queue_ok (mem s) (tx_queue s) \<and> queue_cap (tx_queue s) = TX_QUEUE_SIZE P \<and>
     (\<forall>p\<in>set (queue_items (rx_queue s)).
        packet_ok P (interfaces s) p \<and> pkt_to p = DEVICE_ID P \<and> message p \<noteq> None) \<and>
     (\<forall>p\<in>set (queue_items (tx_queue s)). packet_ok P (interfaces s) p \<and> pkt_to p \<noteq> DEVICE_ID P) \<and>
     (\<forall>a. next_packet s = Some a \<longrightarrow> a \<in> set (queue_addrs (tx_queue s)))"

text \<open>What the library relies on in the device it runs on.\<close>

definition platform_ok :: "'w platform \<Rightarrow> (addr \<Rightarrow> Interface option) \<Rightarrow> bool" where
  "platform_ok P ifs \<longleftrightarrow>
     (\<forall>w. set (get_all_interfaces P w) \<subseteq> dom ifs) \<and>
     (\<forall>w vs. get_provided_variables P w = Some vs \<longrightarrow> length vs < 2 ^ 16) \<and>
     (\<forall>w vs. get_demanded_variables P w = Some vs \<longrightarrow> length vs < 2 ^ 16) \<and>
     ROUTING_TABLE_SIZE P < 64536 \<and> 0 < PACKET_MAX_TTL P \<and> PACKET_MAX_LENGTH P \<le> 2 ^ 16 \<and>
     DEVICE_ID P \<noteq> BROADCAST"

lemma queue_addrs_Some [simp]: "queue_addrs (Some l) = list_addrs l"
  by (simp add: queue_addrs_def)

lemma live_simps [simp]: "live ifs None" "live ifs (Some a) \<longleftrightarrow> a \<in> dom ifs"
  by (simp_all add: live_def)

lemma table_entries_upd [simp]:
  "table_entries (s\<lparr>mem := m\<rparr>) = table_entries s" "table_entries (s\<lparr>tx_queue := q\<rparr>) = table_entries s"
  "table_entries (s\<lparr>rx_queue := q\<rparr>) = table_entries s" "table_entries (s\<lparr>next_packet := a\<rparr>) = table_entries s"
  "table_entries (s\<lparr>world := w\<rparr>) = table_entries s" "table_entries (s\<lparr>next_free_id := i\<rparr>) = table_entries s"
  "table_entries (s\<lparr>provide_ptr := i\<rparr>) = table_entries s" "table_entries (s\<lparr>demand_ptr := i\<rparr>) = table_entries s"
  "table_entries (s\<lparr>data_queue := dq\<rparr>) = table_entries s" "table_entries (s\<lparr>hours := h\<rparr>) = table_entries s"
  "table_entries (s\<lparr>data_requests_queue := rq\<rparr>) = table_entries s"
  by (simp_all add: table_entries_def)

lemma routing_ok_upd [simp]:
  "routing_ok P (s\<lparr>mem := m\<rparr>) = routing_ok P s" "routing_ok P (s\<lparr>tx_queue := q\<rparr>) = routing_ok P s"
  "routing_ok P (s\<lparr>rx_queue := q\<rparr>) = routing_ok P s" "routing_ok P (s\<lparr>next_packet := a\<rparr>) = routing_ok P s"
  "routing_ok P (s\<lparr>world := w\<rparr>) = routing_ok P s" "routing_ok P (s\<lparr>next_free_id := i\<rparr>) = routing_ok P s"
  "routing_ok P (s\<lparr>provide_ptr := i\<rparr>) = routing_ok P s" "routing_ok P (s\<lparr>demand_ptr := i\<rparr>) = routing_ok P s"
  "routing_ok P (s\<lparr>data_queue := dq\<rparr>) = routing_ok P s" "routing_ok P (s\<lparr>hours := h\<rparr>) = routing_ok P s"
  "routing_ok P (s\<lparr>data_requests_queue := rq\<rparr>) = routing_ok P s"
  by (rule routing_ok_cong; simp)+

lemma net_ok_upd [simp]:
  "net_ok P (s\<lparr>world := w\<rparr>) = net_ok P s" "net_ok P (s\<lparr>next_free_id := i\<rparr>) = net_ok P s"
  "net_ok P (s\<lparr>provide_ptr := i\<rparr>) = net_ok P s" "net_ok P (s\<lparr>demand_ptr := i\<rparr>) = net_ok P s"
  "net_ok P (s\<lparr>data_queue := dq\<rparr>) = net_ok P s" "net_ok P (s\<lparr>hours := h\<rparr>) = net_ok P s"
  "net_ok P (s\<lparr>data_requests_queue := rq\<rparr>) = net_ok P s"
  by (simp_all add: net_ok_def)

lemma net_ok_mem: "net_ok P s \<Longrightarrow> alloc_mono (mem s) m \<Longrightarrow> net_ok P (s\<lparr>mem := m\<rparr>)"
  by (auto simp: net_ok_def queue_ok_mono alloc_mono_never_fails)

lemma net_okD:
  assumes "net_ok P s"
  shows "never_fails (mem s)" "routing_ok P s" "queue_ok (mem s) (rx_queue s)" "queue_ok (mem s) (tx_queue s)"
    "queue_cap (tx_queue s) = TX_QUEUE_SIZE P" "queue_cap (rx_queue s) = RX_QUEUE_SIZE P"
  using assms by (simp_all add: net_ok_def)

lemma net_ok_tx:
  assumes "net_ok P s"
  obtains l where "tx_queue s = Some l" "list_ok (mem s) l" "capacity l = TX_QUEUE_SIZE P"
  using assms by (auto simp: net_ok_def queue_ok_def queue_cap_def split: option.splits)

lemma net_ok_rx:
  assumes "net_ok P s"
  obtains l where "rx_queue s = Some l" "list_ok (mem s) l" "capacity l = RX_QUEUE_SIZE P"
  using assms by (auto simp: net_ok_def queue_ok_def queue_cap_def split: option.splits)

text \<open>What the network functions may change: never the data side of the state.\<close>

definition net_frame :: "'w zejf \<Rightarrow> 'w zejf \<Rightarrow> bool" where
  "net_frame s s' \<longleftrightarrow>
     alloc_mono (mem s) (mem s') \<and> dom (interfaces s') = dom (interfaces s) \<and>
     provide_ptr s' = provide_ptr s \<and> demand_ptr s' = demand_ptr s \<and> data_queue s' = data_queue s \<and>
     hours s' = hours s \<and> data_requests_queue s' = data_requests_queue s"

lemma net_frame_refl [simp]: "net_frame s s"
  by (simp add: net_frame_def)

lemma net_frame_trans [trans]: "net_frame a b \<Longrightarrow> net_frame b c \<Longrightarrow> net_frame a c"
  by (auto simp: net_frame_def intro: alloc_mono_trans)

lemma routing_net_frame: "routing_frame s s' \<Longrightarrow> net_frame s s'"
  by (simp add: net_frame_def routing_frameD)

lemma net_frame_upd [simp]:
  "net_frame s (t\<lparr>world := w\<rparr>) = net_frame s t" "net_frame s (t\<lparr>next_free_id := i\<rparr>) = net_frame s t"
  "net_frame s (t\<lparr>tx_queue := q\<rparr>) = net_frame s t" "net_frame s (t\<lparr>rx_queue := q\<rparr>) = net_frame s t"
  "net_frame s (t\<lparr>next_packet := a\<rparr>) = net_frame s t"
  by (simp_all add: net_frame_def)

lemma net_frame_mem: "net_frame s t \<Longrightarrow> alloc_mono (mem t) m \<Longrightarrow> net_frame s (t\<lparr>mem := m\<rparr>)"
  by (auto simp: net_frame_def intro: alloc_mono_trans)

section \<open>Preparing and sending\<close>

text \<open>The packet \<open>network_prepare_packet\<close> makes.\<close>

definition own_packet :: "'w platform \<Rightarrow> u16 \<Rightarrow> u8 \<Rightarrow> string option \<Rightarrow> Packet" where
  "own_packet P to' cmd msg =
     packet_zero\<lparr>command := cmd, pkt_from := DEVICE_ID P, pkt_to := to',
       message_size := of_nat (length (case msg of None \<Rightarrow> [] | Some t \<Rightarrow> t)), message := msg\<rparr>"

lemma own_packet_simps [simp]:
  "command (own_packet P d c msg) = c" "pkt_from (own_packet P d c msg) = DEVICE_ID P"
  "pkt_to (own_packet P d c msg) = d" "message (own_packet P d c msg) = msg" "ttl (own_packet P d c msg) = 0"
  "source_interface (own_packet P d c msg) = None" "destination_interface (own_packet P d c msg) = None"
  by (simp_all add: own_packet_def packet_zero_def)

lemma network_prepare_packet_ok:
  assumes "never_fails (mem s)" and "\<And>t. msg = Some t \<Longrightarrow> length t < 2 ^ 16"
  shows "returns (network_prepare_packet P d c msg s)
     (\<lambda>(p, s'). p = Some (own_packet P d c msg) \<and> mem_frame s s')"
proof (cases msg)
  case None
  with assms show ?thesis
    by (simp add: network_prepare_packet_def packet_create_def own_packet_def packet_zero_def mem_frame_def)
next
  case (Some t)
  with assms have "unat (of_nat (length t) :: u16) = length t" by (simp add: unat_of_nat)
  with assms Some show ?thesis
    by (simp add: network_prepare_packet_def packet_create_def own_packet_def packet_zero_def mem_frame_def
        Let_def alloc_mono_def)
qed

lemma mem_frameD:
  assumes "mem_frame s s'"
  obtains m where "s' = s\<lparr>mem := m\<rparr>" "alloc_mono (mem s) m"
  using assms unfolding mem_frame_def by metis

text \<open>What a send may change.\<close>

definition world_frame :: "'w zejf \<Rightarrow> 'w zejf \<Rightarrow> bool" where
  "world_frame s s' \<longleftrightarrow> s' = s\<lparr>world := world s'\<rparr>"

lemma world_frame_simps [simp]:
  "world_frame s s" "world_frame s (s\<lparr>world := w\<rparr>)" "world_frame (s\<lparr>world := w\<rparr>) s' = world_frame s s'"
  by (simp_all add: world_frame_def)

lemma world_frameE: "world_frame s s' \<Longrightarrow> (\<And>w. s' = s\<lparr>world := w\<rparr> \<Longrightarrow> R) \<Longrightarrow> R"
  by (auto simp: world_frame_def)

lemma send_via_ok:
  assumes "a \<in> dom (interfaces s)"
  shows "returns (send_via P buff (Some a) time s) (\<lambda>(e, s'). world_frame s s')"
  using assms by (auto simp: send_via_def split: prod.splits)

lemma packet_to_string_returns:
  "returns (packet_to_string p n) (\<lambda>(e, buff, p'). e = ZEJF_OK \<and> p' = packet_written p)"
  by (rule packet_to_string_eq [of p n]) simp

lemma everywhere_loop_ok:
  assumes "set as \<subseteq> dom (interfaces s)" and "live (interfaces s) (source_interface p)"
  shows "returns (everywhere_loop P p buff time as result s) (\<lambda>(e, s'). world_frame s s')"
  using assms
proof (induction as arbitrary: result s)
  case Nil
  then show ?case by simp
next
  case (Cons a as)
  then obtain i where i: "interfaces s a = Some i" by auto
  have elsewhere: "\<exists>b. (case source_interface p of None \<Rightarrow> Some True
      | Some b \<Rightarrow> do { j \<leftarrow> interfaces s b; Some (if_uid i \<noteq> if_uid j) }) = Some b"
    using Cons.prems(2) by (auto split: option.splits)
  have step: "returns (everywhere_loop P p buff time as r (s\<lparr>world := w\<rparr>)) (\<lambda>(e, s'). world_frame s s')" for r w
    using Cons.IH [of "s\<lparr>world := w\<rparr>" r] Cons.prems by simp
  have send: "returns (do { (res, s) \<leftarrow> send_via P buff (Some a) time s;
        everywhere_loop P p buff time as (if res \<noteq> ZEJF_OK then ZEJF_ERR_PARTIAL else result) s })
      (\<lambda>(e, s'). world_frame s s')"
    by (rule returns_bindI [OF send_via_ok]) (use i step in \<open>auto elim!: world_frameE\<close>)
  from elsewhere i send step [of result "world s"] show ?case by auto
qed

lemma network_send_everywhere_ok:
  assumes "platform_ok P (interfaces s)" and "live (interfaces s) (source_interface p)"
  shows "returns (network_send_everywhere P p time s) (\<lambda>(e, s'). world_frame s s')"
  unfolding network_send_everywhere_def
proof (rule returns_bindI [OF packet_to_string_returns], clarify)
  fix buff
  show "returns (if ZEJF_OK \<noteq> ZEJF_OK then Some (ZEJF_ERR_GENERIC, s)
      else everywhere_loop P (packet_written p) buff time (get_all_interfaces P (world s)) ZEJF_OK s)
      (\<lambda>(e, s'). world_frame s s')"
    using assms by (simp add: platform_ok_def everywhere_loop_ok)
qed

lemma packet_ok_dom: "dom ifs' = dom ifs \<Longrightarrow> packet_ok P ifs' = packet_ok P ifs"
  by (simp add: packet_ok_def live_def fun_eq_iff)

lemma net_ok_routing:
  assumes ok: "net_ok P s" and r: "routing_ok P s'" and f: "routing_frame s s'"
  shows "net_ok P s'"
proof -
  note D = routing_frameD [OF f]
  have "packet_ok P (interfaces s') = packet_ok P (interfaces s)" by (rule packet_ok_dom [OF D(11)])
  then show ?thesis
    using ok r alloc_mono_never_fails [OF D(1)] by (simp add: net_ok_def D(2-4) queue_ok_mono [OF _ D(1)])
qed

lemma platform_ok_dom: "dom ifs' = dom ifs \<Longrightarrow> platform_ok P ifs' = platform_ok P ifs"
  by (simp add: platform_ok_def)

lemma process_rip_packet_ok:
  assumes "net_ok P s" and "platform_ok P (interfaces s)" and "source_interface p = Some a" and "interfaces s a = Some i"
  shows "returns (process_rip_packet P p time s) (\<lambda>(e, s'). net_ok P s' \<and> net_frame s s')"
  unfolding process_rip_packet_def assms(3)
proof (rule returns_bindI [OF routing_table_update_ok [OF net_okD(2,1) [OF assms(1)] assms(4)]], clarify)
  fix rv s1
  assume r: "routing_ok P s1" and f: "routing_frame s s1"
  have ok: "net_ok P s1" by (rule net_ok_routing [OF assms(1) r f])
  have d: "dom (interfaces s1) = dom (interfaces s)" by (rule routing_frameD(11) [OF f])
  have "returns (network_send_everywhere P p time s1) (\<lambda>(e, s'). world_frame s1 s')"
    by (rule network_send_everywhere_ok) (use assms d platform_ok_dom [OF d, of P] in auto)
  then have "returns (network_send_everywhere P p time s1) (\<lambda>(e, s'). net_ok P s' \<and> net_frame s s')"
    by (rule returns_weaken) (use ok routing_net_frame [OF f] in \<open>auto elim!: world_frameE\<close>)
  then show "returns (if rv = ZEJF_OK \<and> pkt_flags p \<noteq> 0 then network_send_everywhere P p time s1 else Some (rv, s1))
      (\<lambda>(e, s'). net_ok P s' \<and> net_frame s s')"
    using ok routing_net_frame [OF f] by simp
qed

lemma process_id_request_ok:
  assumes "net_ok P s" and "platform_ok P (interfaces s)" and "source_interface p = Some a" and "a \<in> dom (interfaces s)"
  shows "returns (process_id_request P p time s) (\<lambda>(e, s'). net_ok P s' \<and> net_frame s s' \<and>
    table_entries s' = table_entries s)"
  unfolding process_id_request_def assms(3)
proof (rule returns_bindI [OF routing_find_free_id_returns [OF net_okD(2) [OF assms(1)]]], goal_cases)
  case 1
  then show ?case using assms(2) by (simp add: platform_ok_def)
next
  case (2 r)
  obtain j s1 where r: "r = (j, s1)" by (cases r)
  with 2 obtain n where s1: "s1 = s\<lparr>next_free_id := n\<rparr>" by auto
  have ok: "net_ok P s1" "net_frame s s1" "table_entries s1 = table_entries s" "a \<in> dom (interfaces s1)"
    using assms s1 by simp_all
  show ?case
  proof (cases "j = 0")
    case True
    with ok show ?thesis by (simp add: r)
  next
    case False
    have "returns (send_via P buff (Some a) time s2) (\<lambda>(e, s'). net_ok P s' \<and> net_frame s s' \<and> table_entries s' = table_entries s)"
      if "mem_frame s1 s2" for buff s2
      by (rule returns_weaken [OF send_via_ok])
        (use ok net_ok_mem [OF ok(1)] net_frame_mem [OF ok(2)] that in \<open>auto elim!: mem_frameD world_frameE\<close>)
    then show ?thesis
      unfolding r using False net_okD(1) [OF ok(1)]
      by (auto intro!: returns_bindI [OF network_prepare_packet_ok] returns_bindI [OF packet_to_string_returns])
  qed
qed


section \<open>Queueing\<close>

text \<open>What queueing a packet for transmission may change: the queue grows at its end.\<close>

definition tx_frame :: "'w zejf \<Rightarrow> 'w zejf \<Rightarrow> bool" where
  "tx_frame s s' \<longleftrightarrow>
     s' = s\<lparr>mem := mem s', tx_queue := tx_queue s'\<rparr> \<and> alloc_mono (mem s) (mem s') \<and>
     (\<exists>new. queue_addrs (tx_queue s') = queue_addrs (tx_queue s) @ new) \<and>
     (\<forall>a\<in>set (queue_addrs (tx_queue s)). itm (nodes (the (tx_queue s'))) a = itm (nodes (the (tx_queue s))) a)"

lemma tx_frame_refl [simp]: "tx_frame s s"
  by (simp add: tx_frame_def)

lemma tx_frameE:
  assumes "tx_frame s s'"
  obtains m q where "s' = s\<lparr>mem := m, tx_queue := q\<rparr>" "alloc_mono (mem s) m"
  using assms unfolding tx_frame_def by metis

lemma tx_frame_trans [trans]:
  assumes "tx_frame a b" and "tx_frame b c"
  shows "tx_frame a c"
proof -
  from assms have "c = a\<lparr>mem := mem c, tx_queue := tx_queue c\<rparr>"
    by (auto elim!: tx_frameE)
  with assms show ?thesis unfolding tx_frame_def by (auto intro: alloc_mono_trans)
qed

lemma mem_tx_frame: "mem_frame s s' \<Longrightarrow> tx_frame s s'"
  by (auto elim!: mem_frameD simp: tx_frame_def)

lemma tx_net_frame: "tx_frame s s' \<Longrightarrow> net_frame s s'"
  by (auto elim!: tx_frameE simp: net_frame_def)

lemma tx_frame_simps:
  assumes "tx_frame s s'"
  shows "table_entries s' = table_entries s" "interfaces s' = interfaces s" "rx_queue s' = rx_queue s"
    "next_packet s' = next_packet s" "routing_table_top s' = routing_table_top s" "rtable s' = rtable s"
    "world s' = world s" "next_free_id s' = next_free_id s" "provide_ptr s' = provide_ptr s"
    "demand_ptr s' = demand_ptr s" "data_queue s' = data_queue s" "hours s' = hours s"
    "data_requests_queue s' = data_requests_queue s"
  using assms by (auto elim!: tx_frameE)

lemma push_tx_ok:
  assumes "net_ok P s" and "packet_ok P (interfaces s) p" and "pkt_to p \<noteq> DEVICE_ID P"
  shows "returns (network_push_packet P p s) (\<lambda>(e, s'). net_ok P s' \<and> tx_frame s s' \<and>
     (if length (queue_items (tx_queue s)) < TX_QUEUE_SIZE P
      then e = ZEJF_OK \<and> queue_items (tx_queue s') = queue_items (tx_queue s) @ [p]
      else e = ZEJF_ERR_GENERIC \<and> queue_items (tx_queue s') = queue_items (tx_queue s)))"
proof -
  obtain l where l: "tx_queue s = Some l" "list_ok (mem s) l" "capacity l = TX_QUEUE_SIZE P" by (rule net_ok_tx [OF assms(1)])
  have full: "list_is_full l \<longleftrightarrow> \<not> length (list_items l) < TX_QUEUE_SIZE P"
    using list_ok_full [OF l(2)] list_ok_le [OF l(2)] l(3) by auto
  have alloc: "alloc_ok (mem s) n" for n using net_okD(1) [OF assms(1)] by (simp add: never_fails_def)
  have ok: "net_ok P (s\<lparr>mem := m, tx_queue := Some l'\<rparr>)" and fr: "tx_frame s (s\<lparr>mem := m, tx_queue := Some l'\<rparr>)"
    if "list_ok m l'" "capacity l' = capacity l" "alloc_mono (mem s) m" "list_items l' = list_items l @ xs"
      "set xs \<subseteq> {p}" "list_addrs l' = list_addrs l @ new" "\<forall>a\<in>set (list_addrs l). itm (nodes l') a = itm (nodes l) a"
    for m l' xs new
  proof -
    show "tx_frame s (s\<lparr>mem := m, tx_queue := Some l'\<rparr>)" using that l by (simp add: tx_frame_def)
    show "net_ok P (s\<lparr>mem := m, tx_queue := Some l'\<rparr>)"
      using assms that l by (auto simp: net_ok_def queue_ok_mono alloc_mono_never_fails)
  qed
  show ?thesis
    unfolding network_push_packet_def using assms(3)
    by (auto simp: l(1) full alloc intro!: returns_bindI [OF list_push_returns [OF l(2), of p]] ok fr)
qed

lemma push_rx_ok:
  assumes "net_ok P s" and "packet_ok P (interfaces s) p" and "pkt_to p = DEVICE_ID P" and "message p \<noteq> None"
  shows "returns (network_push_packet P p s) (\<lambda>(e, s'). net_ok P s' \<and> net_frame s s' \<and>
     s' = s\<lparr>mem := mem s', rx_queue := rx_queue s'\<rparr> \<and>
     (if length (queue_items (rx_queue s)) < RX_QUEUE_SIZE P
      then e = ZEJF_OK \<and> queue_items (rx_queue s') = queue_items (rx_queue s) @ [p]
      else e = ZEJF_ERR_GENERIC \<and> queue_items (rx_queue s') = queue_items (rx_queue s)))"
proof -
  obtain l where l: "rx_queue s = Some l" "list_ok (mem s) l" "capacity l = RX_QUEUE_SIZE P" by (rule net_ok_rx [OF assms(1)])
  have full: "list_is_full l \<longleftrightarrow> \<not> length (list_items l) < RX_QUEUE_SIZE P"
    using list_ok_full [OF l(2)] list_ok_le [OF l(2)] l(3) by auto
  have alloc: "alloc_ok (mem s) n" for n using net_okD(1) [OF assms(1)] by (simp add: never_fails_def)
  have ok: "net_ok P (s\<lparr>mem := m, rx_queue := Some l'\<rparr>)" 
    if "list_ok m l'" "capacity l' = capacity l" "alloc_mono (mem s) m" "set (list_items l') \<subseteq> insert p (set (list_items l))"
    for m l'
    using assms that l by (auto simp: net_ok_def queue_ok_mono alloc_mono_never_fails)
  show ?thesis
    unfolding network_push_packet_def using assms(3)
    by (auto simp: l(1) full alloc intro!: returns_bindI [OF list_push_returns [OF l(2), of p]] ok net_frame_mem)
qed

text \<open>The specification of \<open>network_send_packet\<close> on a data packet of this device.\<close>

definition send_spec :: "'w platform \<Rightarrow> Packet \<Rightarrow> u32 \<Rightarrow> 'w zejf \<Rightarrow> zejf_err \<times> Packet list" where
  "send_spec P p time s =
     (if pkt_to p = DEVICE_ID P then (ZEJF_ERR_ITSELF, queue_items (tx_queue s))
      else if pkt_to p \<noteq> BROADCAST \<and> \<not> used_id s (pkt_to p) then (ZEJF_ERR_NO_SUCH_DEVICE, queue_items (tx_queue s))
      else if length (queue_items (tx_queue s)) = TX_QUEUE_SIZE P then (ZEJF_ERR_QUEUE_FULL, queue_items (tx_queue s))
      else (ZEJF_OK, queue_items (tx_queue s) @ [p\<lparr>time_received := time, time_sent := 0\<rparr>]))"

lemma entry_find_used:
  assumes "routing_ok P s"
  shows "\<exists>e. routing_entry_find d s = Some e \<and> (e = None \<longleftrightarrow> \<not> used_id s d)"
  using find_used [OF assms, of d] unfolding routing_entry_find_def by (cases "used_id s d") auto

lemma packet_ok_times [simp]: "packet_ok P ifs (p\<lparr>time_received := a, time_sent := b\<rparr>) = packet_ok P ifs p"
  by (simp add: packet_ok_def packet_message_def)

lemma send_own_ok:
  assumes "net_ok P s" and "packet_ok P (interfaces s) p" and "pkt_from p = DEVICE_ID P"
  shows "returns (network_send_packet P (Some p) time s) (\<lambda>(e, s'). net_ok P s' \<and> tx_frame s s' \<and>
     (e, queue_items (tx_queue s')) = send_spec P p time s)"
proof -
  have ok: "packet_ok P (interfaces s) p" "command p \<noteq> RIP" "command p \<noteq> ID_REQUEST"
    using assms(2) by (simp_all add: packet_ok_def)
  obtain l where l: "tx_queue s = Some l" "list_ok (mem s) l" "capacity l = TX_QUEUE_SIZE P" by (rule net_ok_tx [OF assms(1)])
  have full: "list_is_full l \<longleftrightarrow> length (list_items l) = TX_QUEUE_SIZE P" and le: "length (list_items l) \<le> TX_QUEUE_SIZE P"
    using list_ok_full [OF l(2)] list_ok_le [OF l(2)] l(3) by auto
  obtain e where e: "routing_entry_find (pkt_to p) s = Some e" "e = None \<longleftrightarrow> \<not> used_id s (pkt_to p)"
    using entry_find_used [OF net_okD(2) [OF assms(1)]] by blast
  consider (self) "pkt_to p = DEVICE_ID P" | (other) "pkt_to p \<noteq> DEVICE_ID P" by blast
  then show ?thesis
  proof cases
    case self
    with assms show ?thesis by (simp add: network_send_packet_def send_spec_def)
  next
    case other
    have push: "returns (network_push_packet P (p\<lparr>time_received := time, time_sent := 0\<rparr>) s) (\<lambda>(e, s'). net_ok P s' \<and> tx_frame s s' \<and>
      (if length (queue_items (tx_queue s)) < TX_QUEUE_SIZE P
       then e = ZEJF_OK \<and> queue_items (tx_queue s') = queue_items (tx_queue s) @ [p\<lparr>time_received := time, time_sent := 0\<rparr>]
       else e = ZEJF_ERR_GENERIC \<and> queue_items (tx_queue s') = queue_items (tx_queue s)))"
      by (rule push_tx_ok) (use assms other in auto)
    have go: "returns (do { (rv, s) \<leftarrow> network_push_packet P (p\<lparr>time_received := time, time_sent := 0\<rparr>) s;
          Some (if rv \<noteq> ZEJF_OK then ZEJF_ERR_OUT_OF_MEMORY else ZEJF_OK, s) })
        (\<lambda>(e, s'). net_ok P s' \<and> tx_frame s s' \<and> (e, queue_items (tx_queue s')) = send_spec P p time s)"
      if "length (list_items l) \<noteq> TX_QUEUE_SIZE P" "pkt_to p = BROADCAST \<or> used_id s (pkt_to p)"
      by (rule returns_bindI [OF push]) (use that le other l in \<open>auto simp: send_spec_def\<close>)
    show ?thesis
      unfolding network_send_packet_def using assms(1,3) other ok e l(1) full go
      by (cases "pkt_to p = BROADCAST") (auto simp: send_spec_def)
  qed
qed

lemma send_outside_ok:
  assumes "net_ok P s" and "platform_ok P (interfaces s)" and "source_interface p = Some a" and "a \<in> dom (interfaces s)"
    and "live (interfaces s) (destination_interface p)" and "unat (ttl p) < PACKET_MAX_TTL P"
    and "message p = Some t" and "length t < 2 ^ 16"
  shows "returns (network_send_packet P (Some p) time s) (\<lambda>(e, s'). net_ok P s' \<and> net_frame s s')"
proof -
  obtain i where i: "interfaces s a = Some i" using assms(4) by auto
  obtain e where e: "routing_entry_find (pkt_to p) s = Some e"
    using entry_find_used [OF net_okD(2) [OF assms(1)]] by blast
  obtain rx where rx: "rx_queue s = Some rx" by (rule net_ok_rx [OF assms(1)])
  obtain tx where tx: "tx_queue s = Some tx" by (rule net_ok_tx [OF assms(1)])
  have push: "returns (network_push_packet P (p\<lparr>time_received := time, time_sent := 0\<rparr>) s) (\<lambda>(e, s'). net_ok P s' \<and> net_frame s s')"
    if "command p \<noteq> RIP" "command p \<noteq> ID_REQUEST"
  proof -
    have ok: "packet_ok P (interfaces s) (p\<lparr>time_received := time, time_sent := 0\<rparr>)"
      using assms that by (simp add: packet_ok_def packet_message_def)
    show ?thesis
    proof (cases "pkt_to p = DEVICE_ID P")
      case True
      show ?thesis by (rule returns_weaken [OF push_rx_ok [OF assms(1) ok]]) (use True assms(7) in auto)
    next
      case False
      show ?thesis by (rule returns_weaken [OF push_tx_ok [OF assms(1) ok]]) (use False in \<open>auto intro: tx_net_frame\<close>)
    qed
  qed
  have "returns (do { (rv, s) \<leftarrow> network_push_packet P (p\<lparr>time_received := time, time_sent := 0\<rparr>) s;
      Some (if rv \<noteq> ZEJF_OK then ZEJF_ERR_OUT_OF_MEMORY else ZEJF_OK, s) }) (\<lambda>(e, s'). net_ok P s' \<and> net_frame s s')"
    if "command p \<noteq> RIP" "command p \<noteq> ID_REQUEST"
    by (rule returns_bindI [OF push [OF that]]) auto
  moreover have "returns (do { (rv, s) \<leftarrow> process_id_request P p time s;
      Some (if rv \<noteq> ZEJF_OK then ZEJF_ERR_GENERIC else ZEJF_OK, s) }) (\<lambda>(e, s'). net_ok P s' \<and> net_frame s s')"
    by (rule returns_bindI [OF process_id_request_ok [OF assms(1-4)]]) auto
  moreover note process_rip_packet_ok [OF assms(1-3) i, of time]
  ultimately show ?thesis
    unfolding network_send_packet_def using assms(1) rx tx e by auto
qed

lemma network_accept_ok:
  assumes "net_ok P s" and "platform_ok P (interfaces s)" and "a \<in> dom (interfaces s)"
  shows "returns (network_accept P msg (Some a) time s) (\<lambda>(e, s'). net_ok P s' \<and> net_frame s s')"
proof -
  let ?m = "(mem s)\<lparr>next_addr := Suc (next_addr (mem s))\<rparr>"
  have go: "returns (let s = s\<lparr>mem := m\<rparr> in
       if e \<noteq> ZEJF_OK then Some (e, s)
       else let packet = p\<lparr>source_interface := Some a, ttl := ttl p + 1\<rparr> in
         if PACKET_MAX_TTL P \<le> unat (ttl packet) then Some (ZEJF_ERR_TTL, s)
         else network_send_packet P (Some packet) time s)
      (\<lambda>(e, s'). net_ok P s' \<and> net_frame s s')"
    if "alloc_mono ?m m" "destination_interface p = None" "e = ZEJF_OK \<longrightarrow> (\<exists>t. message p = Some t \<and> length t < 2 ^ 16)"
    for m p e
  proof -
    note d = that(2)
    have mono: "alloc_mono (mem s) m" using that(1) by (auto simp: alloc_mono_def)
    have ok: "net_ok P (s\<lparr>mem := m\<rparr>)" "net_frame s (s\<lparr>mem := m\<rparr>)"
      using net_ok_mem [OF assms(1) mono] net_frame_mem [OF net_frame_refl mono] by simp_all
    have "returns (network_send_packet P (Some (p\<lparr>source_interface := Some a, ttl := ttl p + 1\<rparr>)) time (s\<lparr>mem := m\<rparr>))
        (\<lambda>(e, s'). net_ok P s' \<and> net_frame s s')" if t: "message p = Some t" "length t < 2 ^ 16" "unat (ttl p + 1) < PACKET_MAX_TTL P" for t
      by (rule returns_weaken [OF send_outside_ok [OF ok(1), of _ a t]])
        (use assms t d net_frame_trans [OF ok(2)] in auto)
    with ok that(3) show ?thesis by (auto simp: Let_def not_le)
  qed
  show ?thesis
    unfolding network_accept_def packet_create_def using net_okD(1) [OF assms(1)]
    by (simp, intro returns_bindI [OF packet_from_string_returns [of packet_zero msg ?m]])
      (clarify, rule go, auto simp: packet_zero_def)
qed

section \<open>The transmit queue\<close>

lemma net_ok_tx_upd:
  assumes "net_ok P s" and "list_ok (mem s) l" and "capacity l = TX_QUEUE_SIZE P"
    and "\<And>p. p \<in> set (list_items l) \<Longrightarrow> packet_ok P (interfaces s) p \<and> pkt_to p \<noteq> DEVICE_ID P"
    and "\<And>a. np = Some a \<Longrightarrow> a \<in> set (list_addrs l)"
  shows "net_ok P (s\<lparr>next_packet := np, tx_queue := Some l\<rparr>)"
  using assms by (simp add: net_ok_def)

lemma net_ok_tx_items:
  assumes "net_ok P s" and "tx_queue s = Some l" and "a \<in> set (list_addrs l)"
  shows "packet_ok P (interfaces s) (itm (nodes l) a) \<and> pkt_to (itm (nodes l) a) \<noteq> DEVICE_ID P"
  using assms by (simp add: net_ok_def list_items_def)

lemma ring_successor: "ring ns (xs @ a # ys) \<Longrightarrow> nxt ns a = hd (ys @ xs @ [a])"
proof -
  assume "ring ns (xs @ a # ys)"
  then have r: "ring ns (a # ys @ xs)" using ring_swap [of ns xs "a # ys"] by simp
  show ?thesis
  proof (cases "ys @ xs")
    case Nil
    with ring_next_last [OF r] show ?thesis by simp
  next
    case (Cons b zs)
    with r have "ring ns ([] @ a # b # zs)" by simp
    from ring_next [OF this] have "nxt ns a = b" .
    moreover have "hd (ys @ xs @ [a]) = b" using Cons by (metis append.assoc append_Cons list.sel(1))
    ultimately show ?thesis by simp
  qed
qed

lemma tx_next_ok:
  assumes "list_ok m l" and "tx_queue s = Some l" and "list_addrs l = xs @ a # ys"
  shows "tx_next s a = Some (hd (ys @ xs @ [a]))"
proof -
  have r: "ring (nodes l) (xs @ a # ys)" using assms by (simp add: list_ok_rep list_rep_def)
  then obtain n where "nodes l a = Some n" using ring_in_dom by fastforce
  with ring_successor [OF r] show ?thesis by (simp add: tx_next_def assms(2) nxt_def)
qed

lemma packet_remove_ok:
  assumes ok: "net_ok P s" and l: "tx_queue s = Some l" and as: "list_addrs l = xs @ a # ys"
  shows "returns (packet_remove a s) (\<lambda>s'. net_ok P s' \<and> (\<exists>l' np. s' = s\<lparr>next_packet := np, tx_queue := Some l'\<rparr> \<and>
     list_addrs l' = xs @ ys \<and> list_items l' = map (itm (nodes l)) (xs @ ys) \<and>
     (\<forall>b\<in>set (xs @ ys). itm (nodes l') b = itm (nodes l) b) \<and>
     np = (if next_packet s = Some a then if xs @ ys = [] then None else Some (hd (ys @ xs)) else next_packet s)))"
proof -
  have lok: "list_ok (mem s) l" "capacity l = TX_QUEUE_SIZE P" using ok l by (auto elim: net_ok_tx)
  have dist: "distinct (xs @ a # ys)" using lok(1) as by (metis list_ok_rep list_rep_def ring_distinct)
  let ?np = "if next_packet s = Some a then if xs @ ys = [] then None else Some (hd (ys @ xs)) else next_packet s"
  let ?s = "s\<lparr>next_packet := ?np\<rparr>"
  have "hd (ys @ xs @ [a]) = a \<longleftrightarrow> xs @ ys = []" and "xs @ ys \<noteq> [] \<Longrightarrow> hd (ys @ xs @ [a]) = hd (ys @ xs)"
    using dist by (cases ys; cases xs; auto)+
  then have first: "(if next_packet s = Some a
        then do { next \<leftarrow> tx_next s a; Some (s\<lparr>next_packet := if next = a then None else Some next\<rparr>) }
        else Some s) = Some ?s"
    using tx_next_ok [OF lok(1) l as] by simp
  have np: "b \<in> set (xs @ ys)" if "?np = Some b" for b
  proof (cases "next_packet s = Some a")
    case True
    with that show ?thesis by (cases ys; cases xs; auto split: if_splits)
  next
    case False
    with that ok l as show ?thesis by (auto simp: net_ok_def)
  qed
  have fin: "net_ok P (s\<lparr>next_packet := ?np, tx_queue := Some l'\<rparr>)"
    if "list_ok (mem s) l'" "capacity l' = capacity l" "list_addrs l' = xs @ ys"
      "list_items l' = map (itm (nodes l)) (xs @ ys)" for l'
  proof (rule net_ok_tx_upd [OF ok that(1)])
    show "capacity l' = TX_QUEUE_SIZE P" using that(2) lok(2) by simp
    show "packet_ok P (interfaces s) p \<and> pkt_to p \<noteq> DEVICE_ID P" if "p \<in> set (list_items l')" for p
      using that net_ok_tx_items [OF ok l] as \<open>list_items l' = _\<close> by auto
    show "b \<in> set (list_addrs l')" if "?np = Some b" for b using np [OF that] \<open>list_addrs l' = _\<close> by simp
  qed
  have "returns (list_remove (tx_queue ?s) (Some a)) (\<lambda>(r, q'). r = Some (itm (nodes l) a) \<and>
     (\<exists>l'. q' = Some l' \<and> list_ok (mem s) l' \<and> capacity l' = capacity l \<and> list_addrs l' = xs @ ys \<and>
       list_items l' = map (itm (nodes l)) (xs @ ys) \<and> (\<forall>b\<in>set (xs @ ys). itm (nodes l') b = itm (nodes l) b)))"
    using list_remove_returns [OF lok(1) as] l by simp
  then show ?thesis
    unfolding packet_remove_def first bind.bind_lunit
    by (rule returns_bindI) (use fin in \<open>auto simp del: map_append\<close>)
qed


section \<open>Broadcasts\<close>

lemma packet_ok_own:
  assumes "platform_ok P ifs" and "\<And>t. msg = Some t \<Longrightarrow> length t < 2 ^ 16" and "c \<noteq> RIP" and "c \<noteq> ID_REQUEST"
  shows "packet_ok P ifs' (own_packet P d c msg)"
  using assms by (simp add: packet_ok_def platform_ok_def packet_message_def split: option.splits)

text \<open>The copies of a broadcast packet, one for each device of the table.\<close>

definition broadcast_copies :: "'w platform \<Rightarrow> Packet \<Rightarrow> RoutingEntry list \<Rightarrow> Packet list" where
  "broadcast_copies P p es =
     map (\<lambda>e. (own_packet P (device_id e) (command p) (message p))\<lparr>time_received := time_received p, time_sent := 0\<rparr>) es"

lemma broadcast_loop_ok:
  assumes "net_ok P s" and "platform_ok P (interfaces s)" and "packet_ok P (interfaces s) p"
    and "table_entries s = pre @ es" and "length (queue_items (tx_queue s)) + length es \<le> TX_QUEUE_SIZE P"
  shows "returns (broadcast_loop P p (length pre) result s) (\<lambda>(e, s'). e = result \<and> net_ok P s' \<and> tx_frame s s' \<and>
     queue_items (tx_queue s') = queue_items (tx_queue s) @ broadcast_copies P p es)"
  using assms
proof (induction es arbitrary: pre s)
  case Nil
  then have "routing_table_top s = length pre" using net_okD(2) routing_ok_rep by (fastforce simp: table_rep_def)
  with Nil show ?case by (subst broadcast_loop.simps) (simp add: broadcast_copies_def)
next
  case (Cons e es)
  have r: "routing_ok P s" by (rule net_okD(2) [OF Cons.prems(1)])
  have rep: "table_rep P s (pre @ e # es)" using routing_ok_rep [OF r] Cons.prems(4) by simp
  then have top: "length pre < routing_table_top s" by (simp add: table_rep_def)
  have at: "entry_at s (length pre) = Some e" using entry_at_rep [OF rep, of "length pre"] by simp
  have used: "used_id s (device_id e)" and other: "device_id e \<noteq> DEVICE_ID P"
    using r Cons.prems(4) by (auto simp: used_id_def routing_ok_def)
  have len: "\<And>t. message p = Some t \<Longrightarrow> length t < 2 ^ 16" and cmd: "command p \<noteq> RIP" "command p \<noteq> ID_REQUEST"
    using Cons.prems(3) by (simp_all add: packet_ok_def packet_message_def)
  let ?q = "own_packet P (device_id e) (command p) (message p)"
  have own: "packet_ok P ifs ?q" for ifs by (rule packet_ok_own [OF Cons.prems(2) len cmd])
  have step: "returns (broadcast_loop P p (Suc (length pre)) result s2) (\<lambda>(e', s'). e' = result \<and> net_ok P s' \<and> tx_frame s s' \<and>
     queue_items (tx_queue s') = queue_items (tx_queue s) @ broadcast_copies P p (e # es))"
    if s2: "net_ok P s2" "tx_frame s s2"
      "queue_items (tx_queue s2) = queue_items (tx_queue s) @ [?q\<lparr>time_received := time_received p, time_sent := 0\<rparr>]" for s2
  proof -
    note D = tx_frame_simps [OF s2(2)]
    have "returns (broadcast_loop P p (length (pre @ [e])) result s2) (\<lambda>(e, s'). e = result \<and> net_ok P s' \<and> tx_frame s2 s' \<and>
       queue_items (tx_queue s') = queue_items (tx_queue s2) @ broadcast_copies P p es)"
      by (rule Cons.IH) (use Cons.prems s2 D in auto)
    then have "returns (broadcast_loop P p (Suc (length pre)) result s2) (\<lambda>(e, s'). e = result \<and> net_ok P s' \<and> tx_frame s2 s' \<and>
       queue_items (tx_queue s') = queue_items (tx_queue s2) @ broadcast_copies P p es)" by simp
    then show ?thesis
      by (rule returns_weaken) (use s2(3) tx_frame_trans [OF s2(2)] in \<open>auto simp: broadcast_copies_def\<close>)
  qed
  have send: "returns (do { (rv, s) \<leftarrow> network_send_packet P (Some ?q) (time_received p) s1;
       broadcast_loop P p (Suc (length pre)) (if rv \<noteq> ZEJF_OK then ZEJF_ERR_PARTIAL else result) s })
     (\<lambda>(e', s'). e' = result \<and> net_ok P s' \<and> tx_frame s s' \<and>
        queue_items (tx_queue s') = queue_items (tx_queue s) @ broadcast_copies P p (e # es))"
    if s1: "mem_frame s s1" for s1
  proof (rule returns_bindI [OF send_own_ok], goal_cases)
    case 1
    then show ?case using s1 net_ok_mem [OF Cons.prems(1)] by (auto elim!: mem_frameD)
  next
    case (4 r)
    have same: "tx_queue s1 = tx_queue s" "used_id s1 = used_id s"
      using s1 by (auto elim!: mem_frameD simp: used_id_def fun_eq_iff)
    show ?case using 4 Cons.prems(5) used other tx_frame_trans [OF mem_tx_frame [OF s1]]
      by (auto simp: send_spec_def same intro!: step)
  qed (simp_all add: own)
  show ?case
    using top at by (subst broadcast_loop.simps)
      (auto intro!: returns_bindI [OF network_prepare_packet_ok [OF net_okD(1) [OF Cons.prems(1)] len]] send)
qed

lemma process_broadcast_packet_ok:
  assumes ok: "net_ok P s" and "platform_ok P (interfaces s)" and "packet_ok P (interfaces s) p"
  shows "returns (process_broadcast_packet P p s) (\<lambda>(e, s'). net_ok P s' \<and> tx_frame s s' \<and>
     (e, queue_items (tx_queue s')) =
       (if length (queue_items (tx_queue s)) + length (table_entries s) \<le> TX_QUEUE_SIZE P
        then (ZEJF_OK, queue_items (tx_queue s) @ broadcast_copies P p (table_entries s))
        else (ZEJF_ERR_QUEUE_FULL, queue_items (tx_queue s))))"
proof -
  obtain l where l: "tx_queue s = Some l" "list_ok (mem s) l" "capacity l = TX_QUEUE_SIZE P" by (rule net_ok_tx [OF ok])
  have top: "routing_table_top s = length (table_entries s)"
    using routing_ok_rep [OF net_okD(2) [OF ok]] by (simp add: table_rep_def)
  have "routing_table_top s \<le> size_sub (capacity l) (item_count l) \<longleftrightarrow>
      length (list_items l) + length (table_entries s) \<le> TX_QUEUE_SIZE P"
    using list_ok_count [OF l(2)] list_ok_le [OF l(2)] l(3) top by (auto simp: size_sub_def)
  then show ?thesis
    unfolding process_broadcast_packet_def
    using broadcast_loop_ok [OF assms, of "[]" "table_entries s" ZEJF_OK] l(1) ok
    by (auto elim: returns_weaken)
qed


section \<open>The transmitter\<close>

text \<open>The packet whose turn it is.\<close>

definition current :: "'w zejf \<Rightarrow> addr" where
  "current s = (case next_packet s of Some a \<Rightarrow> a | None \<Rightarrow> hd (queue_addrs (tx_queue s)))"

text \<open>
  The specification of one round of the transmitter on the packet \<open>p\<close>: the new world, what is
  left of the packet, and the packets that are added to the queue.
\<close>

definition tx_step :: "'w platform \<Rightarrow> u32 \<Rightarrow> 'w zejf \<Rightarrow> Packet \<Rightarrow> 'w \<times> Packet option \<times> Packet list" where
  "tx_step P time s p =
     (if PACKET_DELETE_TIMEOUT P \<le> time - time_received p then (world s, None, [])
      else if pkt_to p = BROADCAST
      then (if length (queue_items (tx_queue s)) + length (table_entries s) \<le> TX_QUEUE_SIZE P
            then (world s, None, broadcast_copies P p (table_entries s)) else (world s, Some p, []))
      else
        (case find (\<lambda>e. device_id e = pkt_to p) (table_entries s) of
           None \<Rightarrow> (world s, None, [])
         | Some e \<Rightarrow>
             (case the (packet_to_string (p\<lparr>time_sent := time\<rparr>) (PACKET_MAX_LENGTH P)) of
                (_, buff, p') \<Rightarrow>
                  (case network_send_via P buff (the (interfaces s (the (re_interface e)))) time (world s) of
                     (err, w) \<Rightarrow>
                       (w, if err = ZEJF_ERR_SEND_UNABLE then Some (p'\<lparr>destination_interface := re_interface e\<rparr>) else None,
                        [])))))"

lemma find_index: "find Q xs = map_option ((!) xs) (find (\<lambda>k. Q (xs ! k)) [0..<length xs])"
proof (cases "find (\<lambda>k. Q (xs ! k)) [0..<length xs]")
  case None
  then have "find Q xs = None" using find_index_None [of Q xs] by (auto simp: find_None_iff)
  with None show ?thesis by simp
next
  case (Some k)
  then have "find Q xs = Some (xs ! k)" by (auto simp: find_Some_iff)
  with Some show ?thesis by simp
qed

lemma routing_entry_find_entry:
  assumes "routing_ok P s"
  shows "\<exists>r. routing_entry_find d s = Some r \<and>
    (case find (\<lambda>e. device_id e = d) (table_entries s) of None \<Rightarrow> r = None
     | Some e \<Rightarrow> \<exists>k. r = Some k \<and> entry_at s k = Some e \<and> e \<in> set (table_entries s))"
proof -
  note rep = routing_ok_rep [OF assms]
  show ?thesis
    unfolding routing_entry_find_rep [OF rep] find_index [of _ "table_entries s"]
    using find_index_Some [of "\<lambda>e. device_id e = d" "table_entries s"] entry_at_rep [OF rep]
    by (auto split: option.splits)
qed

lemma next_one_ok:
  assumes "net_ok P s" and "tx_queue s = Some l" and "list_addrs l = xs @ a # ys" and "next_packet s = Some a"
  shows "next_one s = Some (s\<lparr>next_packet := Some (hd (ys @ xs @ [a]))\<rparr>) \<and>
    net_ok P (s\<lparr>next_packet := Some (hd (ys @ xs @ [a]))\<rparr>)"
proof -
  have "list_ok (mem s) l" using assms(1,2) by (auto elim: net_ok_tx)
  from tx_next_ok [OF this assms(2,3)] have "tx_next s a = Some (hd (ys @ xs @ [a]))" .
  moreover have "hd (ys @ xs @ [a]) \<in> set (list_addrs l)"
    unfolding assms(3) by (cases ys; cases xs; auto)
  ultimately show ?thesis using assms(1,2,4) by (auto simp: next_one_def net_ok_def)
qed

text \<open>What one round does to the queue.\<close>

definition tx_done :: "'w platform \<Rightarrow> 'w zejf \<Rightarrow> addr list \<Rightarrow> addr \<Rightarrow> addr list \<Rightarrow> 'w \<times> Packet option \<times> Packet list \<Rightarrow> 'w zejf \<Rightarrow> bool" where
  "tx_done P s xs a ys out s' \<longleftrightarrow>
     (case out of (w, left, added) \<Rightarrow>
        net_ok P s' \<and> net_frame s s' \<and> table_entries s' = table_entries s \<and> rx_queue s' = rx_queue s \<and>
        interfaces s' = interfaces s \<and> world s' = w \<and>
        (\<exists>new. queue_addrs (tx_queue s') = xs @ (if left = None then [] else [a]) @ ys @ new \<and>
           queue_items (tx_queue s') =
             map (itm (nodes (the (tx_queue s)))) xs @ (case left of None \<Rightarrow> [] | Some p \<Rightarrow> [p]) @
             map (itm (nodes (the (tx_queue s)))) ys @ added \<and>
           next_packet s' = (if left = None \<and> xs @ ys @ new = [] then None else Some (hd (ys @ new @ xs @ [a])))))"

lemma remove_current_ok:
  assumes ok: "net_ok P s" and l: "tx_queue s = Some l" and as: "list_addrs l = xs @ a # ys" and np: "next_packet s = Some a"
  shows "returns (remove_current s) (\<lambda>s'. net_ok P s' \<and> (\<exists>l'. s' = s\<lparr>next_packet := next_packet s', tx_queue := Some l'\<rparr> \<and>
     list_addrs l' = xs @ ys \<and> list_items l' = map (itm (nodes l)) (xs @ ys)) \<and>
     next_packet s' = (if xs @ ys = [] then None else Some (hd (ys @ xs @ [a]))))"
proof -
  have "xs @ ys \<noteq> [] \<Longrightarrow> hd (ys @ xs) = hd (ys @ xs @ [a])" by (cases ys; cases xs; auto)
  then show ?thesis
    unfolding remove_current_def np bind.bind_lunit
    by (intro returns_weaken [OF packet_remove_ok [OF ok l as]]) (auto simp: np)
qed

text \<open>The two exits, after the queue has grown by \<open>new\<close>.\<close>

lemma tx_done_remove:
  assumes "net_ok P s1" and "net_frame s s1" and "table_entries s1 = table_entries s" and "rx_queue s1 = rx_queue s"
    and "interfaces s1 = interfaces s" and "tx_queue s1 = Some l" and "list_addrs l = xs @ a # ys @ new"
    and "next_packet s1 = Some a"
    and "map (itm (nodes l)) xs = map (itm (nodes (the (tx_queue s)))) xs"
    and "map (itm (nodes l)) (ys @ new) = map (itm (nodes (the (tx_queue s)))) ys @ added"
  shows "returns (remove_current s1) (tx_done P s xs a ys (world s1, None, added))"
proof (rule returns_weaken [OF remove_current_ok [OF assms(1,6,7,8)]], clarify)
  fix s' l'
  assume s': "s' = s1\<lparr>next_packet := next_packet s', tx_queue := Some l'\<rparr>" and ok: "net_ok P s'"
    and l': "list_addrs l' = xs @ ys @ new" "list_items l' = map (itm (nodes l)) (xs @ ys @ new)"
    and np: "next_packet s' = (if xs @ ys @ new = [] then None else Some (hd ((ys @ new) @ xs @ [a])))"
  define np' where "np' = next_packet s'"
  have eq: "s' = s1\<lparr>next_packet := np', tx_queue := Some l'\<rparr>" using s' by (simp add: np'_def)
  have "list_items l' = map (itm (nodes (the (tx_queue s)))) xs @ map (itm (nodes (the (tx_queue s)))) ys @ added"
    using l'(2) assms(9,10) by simp
  then show "tx_done P s xs a ys (world s1, None, added) s'"
    using ok assms(2-5) l'(1) np unfolding tx_done_def np'_def [symmetric] eq by auto
qed

lemma tx_done_next:
  assumes "net_ok P s1" and "net_frame s s1" and "table_entries s1 = table_entries s" and "rx_queue s1 = rx_queue s"
    and "interfaces s1 = interfaces s" and "tx_queue s1 = Some l" and "list_addrs l = xs @ a # ys"
    and "next_packet s1 = Some a"
    and "map (itm (nodes l)) (xs @ ys) = map (itm (nodes (the (tx_queue s)))) (xs @ ys)"
  shows "returns (next_one s1) (tx_done P s xs a ys (world s1, Some (itm (nodes l) a), []))"
  using next_one_ok [OF assms(1,6-8)] assms(2-7,9)
  by (auto simp: tx_done_def list_items_def)

lemma set_item_current:
  assumes ok: "net_ok P s" and l: "tx_queue s = Some l" and as: "list_addrs l = xs @ a # ys" and np: "next_packet s = Some a"
    and p: "packet_ok P (interfaces s) p" "pkt_to p \<noteq> DEVICE_ID P"
  shows "\<exists>l'. set_item l a p = Some l' \<and> net_ok P (s\<lparr>tx_queue := Some l'\<rparr>) \<and> list_addrs l' = xs @ a # ys \<and>
     itm (nodes l') a = p \<and> map (itm (nodes l')) (xs @ ys) = map (itm (nodes l)) (xs @ ys)"
proof -
  have lok: "list_ok (mem s) l" "capacity l = TX_QUEUE_SIZE P" using ok l by (auto elim: net_ok_tx)
  have rep: "list_rep l (xs @ a # ys)" and lt: "\<forall>b\<in>set (xs @ a # ys). b < next_addr (mem s)"
    using lok(1) as by (simp_all add: list_ok_rep)
  have dist: "distinct (xs @ a # ys)" using rep ring_distinct [of "nodes l"] unfolding list_rep_def by blast
  obtain l' where l': "set_item l a p = Some l'" "list_rep l' (xs @ a # ys)" "itm (nodes l') = (itm (nodes l))(a := p)"
    "capacity l' = capacity l" using set_item_ok [OF rep, of a p] by auto
  have items: "list_items l' = map (itm (nodes l)) xs @ p # map (itm (nodes l)) ys"
    using list_rep_items [OF l'(2)] l'(3) dist by auto
  have "net_ok P (s\<lparr>next_packet := Some a, tx_queue := Some l'\<rparr>)"
    by (rule net_ok_tx_upd [OF ok list_ok_repI [OF l'(2) lt]])
      (use l'(4) lok(2) p items net_ok_tx_items [OF ok l] as list_rep_addrs [OF l'(2)] in auto)
  then have "net_ok P (s\<lparr>tx_queue := Some l'\<rparr>)" by (simp add: np [symmetric])
  with l' list_rep_addrs [OF l'(2)] dist show ?thesis by auto
qed

text \<open>The facts about the current packet that the three branches share.\<close>

lemma tx_current:
  assumes ok: "net_ok P s" and l: "tx_queue s = Some l" and as: "list_addrs l = xs @ a # ys" and cur: "current s = a"
  shows "net_ok P (s\<lparr>next_packet := Some a\<rparr>)" "packet_ok P (interfaces s) (itm (nodes l) a)"
    "pkt_to (itm (nodes l) a) \<noteq> DEVICE_ID P" "\<not> list_is_empty l"
    "(if next_packet s = None then s\<lparr>next_packet := tail l\<rparr> else s) = s\<lparr>next_packet := Some a\<rparr>"
    "\<exists>n. nodes l a = Some n \<and> node_item n = itm (nodes l) a"
proof -
  have rep: "list_rep l (xs @ a # ys)" using ok l as by (auto elim: net_ok_tx simp: list_ok_rep)
  show "\<not> list_is_empty l" using list_is_empty_rep [OF rep] by simp
  have tail: "tail l = Some (hd (xs @ a # ys))" using rep by (simp add: list_rep_def)
  show "(if next_packet s = None then s\<lparr>next_packet := tail l\<rparr> else s) = s\<lparr>next_packet := Some a\<rparr>"
    using cur tail l as by (auto simp: current_def split: option.splits)
  have "a \<in> dom (nodes l)" using rep by (simp add: list_rep_def)
  then show "\<exists>n. nodes l a = Some n \<and> node_item n = itm (nodes l) a" by (auto simp: itm_def)
  show "net_ok P (s\<lparr>next_packet := Some a\<rparr>)" using ok l as by (auto simp: net_ok_def)
  show "packet_ok P (interfaces s) (itm (nodes l) a)" "pkt_to (itm (nodes l) a) \<noteq> DEVICE_ID P"
    using net_ok_tx_items [OF ok l] as by simp_all
qed

lemma tx_broadcast_ok:
  assumes ok: "net_ok P s" and pl: "platform_ok P (interfaces s)" and l: "tx_queue s = Some l"
    and as: "list_addrs l = xs @ a # ys" and cur: "current s = a" and p: "p = itm (nodes l) a"
    and b: "pkt_to p = BROADCAST" and young: "\<not> PACKET_DELETE_TIMEOUT P \<le> time - time_received p"
  shows "returns (do { (rv, s) \<leftarrow> process_broadcast_packet P p (s\<lparr>next_packet := Some a\<rparr>);
        (if rv \<noteq> ZEJF_OK \<and> rv \<noteq> ZEJF_ERR_PARTIAL then next_one s else remove_current s) })
      (tx_done P s xs a ys (tx_step P time s p))"
proof (rule returns_bindI [OF process_broadcast_packet_ok [OF tx_current(1) [OF ok l as cur]]], goal_cases)
  case (3 r)
  obtain e s1 where r: "r = (e, s1)" by (cases r)
  with 3 have ok1: "net_ok P s1" and f: "tx_frame (s\<lparr>next_packet := Some a\<rparr>) s1" by auto
  obtain l1 where l1: "tx_queue s1 = Some l1" using ok1 by (rule net_ok_tx)
  obtain new where new: "list_addrs l1 = (xs @ a # ys) @ new"
    and same: "\<forall>b\<in>set (xs @ a # ys). itm (nodes l1) b = itm (nodes l) b"
    using f l as l1 by (auto simp: tx_frame_def)
  have items: "list_items l1 = list_items l @ map (itm (nodes l1)) new"
    using same as new by (simp add: list_items_def)
  note D = tx_frame_simps [OF f]
  have fr: "net_frame s s1" using tx_net_frame [OF f] by (simp add: net_frame_def)
  show ?case
  proof (cases "length (queue_items (tx_queue s)) + length (table_entries s) \<le> TX_QUEUE_SIZE P")
    case True
    with 3 r l have e: "e = ZEJF_OK" and q: "queue_items (tx_queue s1) = list_items l @ broadcast_copies P p (table_entries s)"
      by auto
    have "returns (remove_current s1) (tx_done P s xs a ys (world s1, None, broadcast_copies P p (table_entries s)))"
      by (rule tx_done_remove [OF ok1 fr, of l1 xs a ys new]) (use D l1 new same q items l in auto)
    with e r True b young D show ?thesis by (simp add: tx_step_def)
  next
    case False
    with 3 r l have e: "e = ZEJF_ERR_QUEUE_FULL" and q: "queue_items (tx_queue s1) = list_items l" by auto
    then have "new = []" using items l1 by simp
    then have "returns (next_one s1) (tx_done P s xs a ys (world s1, Some (itm (nodes l1) a), []))"
      by (intro tx_done_next [OF ok1 fr]) (use D l1 new same l in auto)
    with e r False b young D same p show ?thesis by (simp add: tx_step_def)
  qed
qed (use pl p tx_current(2) [OF ok l as cur] in simp_all)

lemma packet_ok_sent:
  assumes "packet_ok P ifs p" and "live ifs d"
  shows "packet_ok P ifs ((packet_written (p\<lparr>time_sent := time\<rparr>))\<lparr>destination_interface := d\<rparr>)"
  using assms by (simp add: packet_ok_def packet_message_def packet_written_def split: option.splits)

lemma tx_unicast_ok:
  assumes ok: "net_ok P s" and l: "tx_queue s = Some l"
    and as: "list_addrs l = xs @ a # ys" and cur: "current s = a" and p: "p = itm (nodes l) a"
    and b: "pkt_to p \<noteq> BROADCAST" and young: "\<not> PACKET_DELETE_TIMEOUT P \<le> time - time_received p"
    and e: "find (\<lambda>e. device_id e = pkt_to p) (table_entries s) = Some e" "e \<in> set (table_entries s)"
  shows "returns (do {
        (rv, packet, s) \<leftarrow> prepare_and_send P (p\<lparr>time_sent := time\<rparr>) (re_interface e) time (s\<lparr>next_packet := Some a\<rparr>);
        q \<leftarrow> tx_queue s;
        q \<leftarrow> set_item q a packet;
        let s = s\<lparr>tx_queue := Some q\<rparr>;
        (if rv = ZEJF_ERR_SEND_UNABLE then next_one s else remove_current s) })
      (tx_done P s xs a ys (tx_step P time s p))"
proof -
  note cp = tx_current [OF ok l as cur, folded p]
  obtain cs where wr: "packet_to_string (p\<lparr>time_sent := time\<rparr>) (PACKET_MAX_LENGTH P) =
      Some (ZEJF_OK, take (PACKET_MAX_LENGTH P - 1) (packet_text (packet_written (p\<lparr>time_sent := time\<rparr>)) cs
        (packet_message (packet_written (p\<lparr>time_sent := time\<rparr>)))), packet_written (p\<lparr>time_sent := time\<rparr>))"
    (is "_ = Some (_, ?buff, ?w)") by (rule packet_to_string_eq)
  obtain d i where d: "re_interface e = Some d" "interfaces s d = Some i"
    using net_okD(2) [OF ok] e(2) by (auto simp: routing_ok_def entry_ok_def)
  obtain err w where via: "network_send_via P ?buff i time (world s) = (err, w)" by fastforce
  let ?q = "?w\<lparr>destination_interface := Some d\<rparr>" and ?s = "s\<lparr>next_packet := Some a, world := w\<rparr>"
  have "packet_ok P (interfaces ?s) ?q" using packet_ok_sent [OF cp(2), of "Some d"] d(2) by auto
  moreover have "pkt_to ?q \<noteq> DEVICE_ID P" using cp(3) by simp
  ultimately obtain l' where l': "set_item l a ?q = Some l'" "net_ok P (?s\<lparr>tx_queue := Some l'\<rparr>)"
      "list_addrs l' = xs @ a # ys" "itm (nodes l') a = ?q" "map (itm (nodes l')) (xs @ ys) = map (itm (nodes l)) (xs @ ys)"
    using set_item_current [of P ?s l xs a ys ?q] cp(1) l as by auto
  have step: "tx_step P time s p = (w, if err = ZEJF_ERR_SEND_UNABLE then Some ?q else None, [])"
    using b young e(1) wr via d by (simp add: tx_step_def)
  have nx: "returns (next_one (?s\<lparr>tx_queue := Some l'\<rparr>)) (tx_done P s xs a ys (world (?s\<lparr>tx_queue := Some l'\<rparr>), Some (itm (nodes l') a), []))"
    by (rule tx_done_next [OF l'(2)]) (use l' l in auto)
  have rm: "returns (remove_current (?s\<lparr>tx_queue := Some l'\<rparr>)) (tx_done P s xs a ys (world (?s\<lparr>tx_queue := Some l'\<rparr>), None, []))"
    by (rule tx_done_remove [OF l'(2), of s l' xs a ys "[]"]) (use l' l in auto)
  show ?thesis
    unfolding step prepare_and_send_def wr send_via_def d(1) using d(2) via l l'(1,4) nx rm by simp
qed

lemma network_send_tx_ok:
  assumes ok: "net_ok P s" and pl: "platform_ok P (interfaces s)" and l: "tx_queue s = Some l"
    and as: "list_addrs l = xs @ a # ys" and cur: "current s = a"
  shows "returns (network_send_tx P time s) (tx_done P s xs a ys (tx_step P time s (itm (nodes l) a)))"
proof -
  let ?p = "itm (nodes l) a" and ?s = "s\<lparr>next_packet := Some a\<rparr>"
  note cp = tx_current [OF ok l as cur]
  have drop: "returns (remove_current ?s) (tx_done P s xs a ys (world s, None, []))"
    using tx_done_remove [OF cp(1), of s l xs a ys "[]" "[]"] l as by simp
  obtain r where r: "routing_entry_find (pkt_to ?p) ?s = Some r" "case find (\<lambda>e. device_id e = pkt_to ?p) (table_entries s) of
      None \<Rightarrow> r = None | Some e \<Rightarrow> \<exists>k. r = Some k \<and> entry_at ?s k = Some e \<and> e \<in> set (table_entries s)"
    using routing_entry_find_entry [OF net_okD(2) [OF cp(1)], of "pkt_to ?p"] unfolding table_entries_upd by blast
  show ?thesis
    unfolding network_send_tx_def l bind.bind_lunit Let_def cp(5)
    using cp(4,6) drop tx_broadcast_ok [OF ok pl l as cur refl, of time] tx_unicast_ok [OF ok l as cur refl, of time] r
    by (auto simp: tx_step_def Let_def split: option.splits)
qed


section \<open>Removing an interface\<close>

definition uses_interface :: "addr \<Rightarrow> Packet \<Rightarrow> bool" where
  "uses_interface i p \<longleftrightarrow> destination_interface p = Some i \<or> source_interface p = Some i"

lemma node_of_rep:
  assumes "list_ok m l" and "list_addrs l = xs @ a # ys"
  shows "\<exists>n. nodes l a = Some n \<and> node_item n = itm (nodes l) a \<and> node_next n = hd (ys @ xs @ [a])"
proof -
  have "ring (nodes l) (xs @ a # ys)" and d: "a \<in> dom (nodes l)"
    using assms by (auto simp: list_ok_rep list_rep_def)
  from ring_successor [OF this(1)] d show ?thesis by (auto simp: itm_def nxt_def)
qed

lemma list_ok_tail: "list_ok m l \<Longrightarrow> tail l = (if list_addrs l = [] then None else Some (hd (list_addrs l)))"
  by (auto simp: list_ok_rep list_rep_def)

text \<open>\<open>s'\<close> is \<open>s\<close> but for the transmit queue, which holds \<open>ps\<close>.\<close>

definition tx_left :: "'w platform \<Rightarrow> 'w zejf \<Rightarrow> Packet list \<Rightarrow> 'w zejf \<Rightarrow> bool" where
  "tx_left P s ps s' \<longleftrightarrow>
     net_ok P s' \<and> s' = s\<lparr>next_packet := next_packet s', tx_queue := tx_queue s'\<rparr> \<and> queue_items (tx_queue s') = ps"

lemma tx_left_upd [simp]: "tx_left P (s\<lparr>next_packet := np, tx_queue := q\<rparr>) ps s' = tx_left P s ps s'"
  by (simp add: tx_left_def)

lemma loop_keep:
  assumes "list_ok (mem s) l" and "tx_queue s = Some l" and "list_addrs l = xs @ b # ys" and "\<not> uses_interface i (itm (nodes l) b)"
  shows "interface_removed_loop i b s =
    (if ys = [] then Some s else interface_removed_loop i (hd ys) s)"
proof -
  obtain n where n: "nodes l b = Some n" "node_item n = itm (nodes l) b" "node_next n = hd (ys @ xs @ [b])"
    using node_of_rep [OF assms(1,3)] by auto
  have "distinct (xs @ b # ys)" using assms(1,3) by (metis list_ok_rep list_rep_def ring_distinct)
  then have "hd (ys @ xs @ [b]) = hd (xs @ b # ys) \<longleftrightarrow> ys = []" by (cases ys; cases xs; auto)
  with n assms list_ok_tail [OF assms(1)] show ?thesis
    by (subst interface_removed_loop.simps) (auto simp: uses_interface_def)
qed

lemma loop_remove:
  assumes ok: "net_ok P s" and l: "tx_queue s = Some l" and as: "list_addrs l = xs @ b # ys" and "xs \<noteq> []"
    and hit: "uses_interface i (itm (nodes l) b)"
    and rest: "\<And>l' np. net_ok P (s\<lparr>next_packet := np, tx_queue := Some l'\<rparr>) \<Longrightarrow> list_addrs l' = xs @ ys \<Longrightarrow>
      map (itm (nodes l')) (xs @ ys) = map (itm (nodes l)) (xs @ ys) \<Longrightarrow>
      returns (if ys = [] then Some (s\<lparr>next_packet := np, tx_queue := Some l'\<rparr>)
               else interface_removed_loop i (hd ys) (s\<lparr>next_packet := np, tx_queue := Some l'\<rparr>)) Q"
  shows "returns (interface_removed_loop i b s) Q"
proof -
  have lok: "list_ok (mem s) l" using ok l by (auto elim: net_ok_tx)
  obtain n where n: "nodes l b = Some n" "node_item n = itm (nodes l) b" "node_next n = hd (ys @ xs @ [b])"
    using node_of_rep [OF lok as] by auto
  have "distinct (xs @ b # ys)" using lok as by (metis list_ok_rep list_rep_def ring_distinct)
  then have stop: "hd (ys @ xs @ [b]) = hd (xs @ ys) \<longleftrightarrow> ys = []" "ys \<noteq> [] \<Longrightarrow> hd (ys @ xs @ [b]) = hd ys"
    using \<open>xs \<noteq> []\<close> by (cases ys; cases xs; auto)+
  have "returns (do { s \<leftarrow> packet_remove b s; q \<leftarrow> tx_queue s;
      (if Some (node_next n) \<noteq> tail q then interface_removed_loop i (node_next n) s else Some s) }) Q"
  proof (rule returns_bindI [OF packet_remove_ok [OF ok l as]], clarify)
    fix l' np
    assume ok': "net_ok P (s\<lparr>next_packet := np, tx_queue := Some l'\<rparr>)" and l': "list_addrs l' = xs @ ys"
      "\<forall>b\<in>set (xs @ ys). itm (nodes l') b = itm (nodes l) b"
    have "tail l' = Some (hd (xs @ ys))" using list_ok_tail [of "mem s" l'] net_okD(4) [OF ok'] l'(1) \<open>xs \<noteq> []\<close> by simp
    with rest [OF ok' l'(1)] l'(2) n(3) stop show "returns (do { q \<leftarrow> tx_queue (s\<lparr>next_packet := np, tx_queue := Some l'\<rparr>);
      (if Some (node_next n) \<noteq> tail q then interface_removed_loop i (node_next n) (s\<lparr>next_packet := np, tx_queue := Some l'\<rparr>)
       else Some (s\<lparr>next_packet := np, tx_queue := Some l'\<rparr>)) }) Q"
      by (cases "ys = []") auto
  qed
  with n l hit show ?thesis by (subst interface_removed_loop.simps) (simp add: uses_interface_def)
qed

lemma interface_removed_loop_ok:
  assumes "net_ok P s" and "tx_queue s = Some l" and "list_addrs l = xs @ b # ys"
    and "xs \<noteq> [] \<or> \<not> uses_interface i (itm (nodes l) b)"
  shows "returns (interface_removed_loop i b s)
    (tx_left P s (map (itm (nodes l)) xs @ filter (\<lambda>p. \<not> uses_interface i p) (map (itm (nodes l)) (b # ys))))"
  using assms
proof (induction ys arbitrary: xs b s l)
  case Nil
  have lok: "list_ok (mem s) l" using Nil.prems by (auto elim: net_ok_tx)
  show ?case
  proof (cases "uses_interface i (itm (nodes l) b)")
    case False
    from loop_keep [OF lok Nil.prems(2,3) False] Nil.prems False show ?thesis
      by (simp add: tx_left_def list_items_def)
  next
    case True
    show ?thesis
      by (rule loop_remove [OF Nil.prems(1-3) _ True])
        (use True Nil.prems(4) in \<open>auto simp: tx_left_def list_items_def\<close>)
  qed
next
  case (Cons c ys)
  have lok: "list_ok (mem s) l" using Cons.prems by (auto elim: net_ok_tx)
  show ?case
  proof (cases "uses_interface i (itm (nodes l) b)")
    case False
    from loop_keep [OF lok Cons.prems(2,3) False] Cons.IH [of s l "xs @ [b]" c] Cons.prems False show ?thesis
      by simp
  next
    case True
    show ?thesis
    proof (rule loop_remove [OF Cons.prems(1-3) _ True])
      show "xs \<noteq> []" using Cons.prems(4) True by simp
      then show "returns (if c # ys = [] then Some (s\<lparr>next_packet := np, tx_queue := Some l'\<rparr>)
           else interface_removed_loop i (hd (c # ys)) (s\<lparr>next_packet := np, tx_queue := Some l'\<rparr>))
         (tx_left P s (map (itm (nodes l)) xs @ filter (\<lambda>p. \<not> uses_interface i p) (map (itm (nodes l)) (b # c # ys))))"
        if "net_ok P (s\<lparr>next_packet := np, tx_queue := Some l'\<rparr>)" "list_addrs l' = xs @ c # ys"
          "map (itm (nodes l')) (xs @ c # ys) = map (itm (nodes l)) (xs @ c # ys)" for l' np
      proof -
        have "map (itm (nodes l')) xs = map (itm (nodes l)) xs" "map (itm (nodes l')) (c # ys) = map (itm (nodes l)) (c # ys)"
          using that(3) by simp_all
        moreover have "filter (\<lambda>p. \<not> uses_interface i p) (map (itm (nodes l)) (b # c # ys)) =
            filter (\<lambda>p. \<not> uses_interface i p) (map (itm (nodes l)) (c # ys))" using True by simp
        ultimately show ?thesis using Cons.IH [OF that(1) _ that(2)] \<open>xs \<noteq> []\<close> by (simp del: map_eq_conv list.map(2))
      qed
    qed
  qed
qed

lemma network_interface_removed_ok:
  assumes ok: "net_ok P s"
    and first: "\<And>p ps. queue_items (tx_queue s) = p # ps \<Longrightarrow> \<not> uses_interface i p"
  shows "returns (network_interface_removed i s)
    (tx_left P s (filter (\<lambda>p. \<not> uses_interface i p) (queue_items (tx_queue s))))"
proof -
  obtain l where l: "tx_queue s = Some l" "list_ok (mem s) l" by (rule net_ok_tx [OF ok])
  show ?thesis
  proof (cases "list_addrs l")
    case Nil
    with l list_ok_tail [OF l(2)] ok show ?thesis
      by (simp add: network_interface_removed_def tx_left_def list_items_def)
  next
    case (Cons a as)
    with l first have "\<not> uses_interface i (itm (nodes l) a)" by (simp add: list_items_def)
    from interface_removed_loop_ok [OF ok l(1), of "[]" a as i] this Cons l list_ok_tail [OF l(2)] show ?thesis
      by (simp add: network_interface_removed_def list_items_def)
  qed
qed

section \<open>Start-up and announcements\<close>

lemma network_init_ok:
  assumes "never_fails (mem s)" and "routing_ok P s"
  obtains m rx tx where "network_init P s = (ZEJF_OK, s\<lparr>mem := m, rx_queue := Some rx, tx_queue := Some tx,
      next_packet := None, provide_ptr := 0, demand_ptr := 0\<rparr>)" "alloc_mono (mem s) m" "list_items rx = []" "list_items tx = []"
    "net_ok P (s\<lparr>mem := m, rx_queue := Some rx, tx_queue := Some tx, next_packet := None, provide_ptr := 0, demand_ptr := 0\<rparr>)"
proof -
  obtain rx :: "Packet linked_list" and m1 where rx: "list_create (mem s) (RX_QUEUE_SIZE P) = (Some rx, m1)" "m1 = (mem s)\<lparr>next_addr := Suc (next_addr (mem s))\<rparr>"
    using assms(1) by (simp add: list_create_def)
  obtain tx :: "Packet linked_list" and m2 where tx: "list_create m1 (TX_QUEUE_SIZE P) = (Some tx, m2)" "m2 = m1\<lparr>next_addr := Suc (next_addr m1)\<rparr>"
    using assms(1) rx(2) by (simp add: list_create_def)
  note ok = list_create_ok [OF rx(1)] list_create_ok [OF tx(1)]
  have eq: "network_init P s = (ZEJF_OK, s\<lparr>mem := m2, rx_queue := Some rx, tx_queue := Some tx,
      next_packet := None, provide_ptr := 0, demand_ptr := 0\<rparr>)"
    unfolding network_init_def rx(1) prod.case tx(1) by simp
  have "list_ok m2 rx" using ok(1) tx(2) list_ok_mono [of m1 rx m2] by simp
  moreover have "never_fails m2" "alloc_mono (mem s) m2" using assms(1) rx(2) tx(2) by (simp_all add: alloc_mono_def)
  ultimately show ?thesis using that [OF eq] ok assms(2) by (simp add: net_ok_def)
qed

lemma network_send_routing_info_ok:
  assumes "net_ok P s" and "platform_ok P (interfaces s)"
  shows "returns (network_send_routing_info P time s) (\<lambda>(e, s'). net_ok P s' \<and>
    s' = s\<lparr>mem := mem s', world := world s'\<rparr> \<and> alloc_mono (mem s) (mem s'))"
  unfolding network_send_routing_info_def
proof (rule returns_bindI [OF network_prepare_packet_ok [OF net_okD(1) [OF assms(1)]]], simp, clarify)
  fix s1
  assume f: "mem_frame s s1"
  have ok: "net_ok P s1" "interfaces s1 = interfaces s" "alloc_mono (mem s) (mem s1)"
    using f net_ok_mem [OF assms(1)] by (auto elim!: mem_frameD)
  show "returns (do { packet \<leftarrow> Some (own_packet P 0 RIP None); network_send_everywhere P (packet\<lparr>pkt_flags := 1\<rparr>) time s1 })
      (\<lambda>(e, s'). net_ok P s' \<and> s' = s\<lparr>mem := mem s', world := world s'\<rparr> \<and> alloc_mono (mem s) (mem s'))"
    using ok f assms(2)
    by (auto intro!: returns_weaken [OF network_send_everywhere_ok] elim!: world_frameE mem_frameD)
qed

lemma interface_removed_ok:
  assumes ok: "net_ok P s" and i: "interfaces s i = Some f"
    and first: "\<And>p ps. queue_items (tx_queue s) = p # ps \<Longrightarrow> \<not> uses_interface i p"
  shows "returns (interface_removed i s) (\<lambda>s'. net_ok P s' \<and> net_frame s s' \<and>
     table_entries s' = skip_remove (\<lambda>e. entry_uid s e = Some (if_uid f)) (table_entries s) \<and> interfaces s' = interfaces s \<and>
     queue_items (tx_queue s') = filter (\<lambda>p. \<not> uses_interface i p) (queue_items (tx_queue s)))"
  unfolding interface_removed_def
proof (rule returns_bindI [OF routing_remove_loop_ok [OF net_okD(2) [OF ok], where q = "\<lambda>e. entry_uid s e = Some (if_uid f)"]])
  fix s' :: "'a zejf" and e
  assume e: "e \<in> set (table_entries s)" and same: "interfaces s' = interfaces s"
  then obtain u where "entry_uid s e = Some u"
    using net_okD(2) [OF ok] by (auto simp: routing_ok_def entry_ok_def entry_uid_def)
  then show "do { u \<leftarrow> entry_uid s' e; j \<leftarrow> interfaces s' i; Some (u = if_uid j) } = Some (entry_uid s e = Some (if_uid f))"
    using same i by (auto simp: entry_uid_def)
next
  fix s1
  assume A: "routing_ok P s1 \<and> table_entries s1 = skip_remove (\<lambda>e. entry_uid s e = Some (if_uid f)) (table_entries s) \<and>
      (\<exists>t n. s1 = s\<lparr>rtable := t, routing_table_top := n\<rparr>)"
  then obtain t n where s1: "s1 = s\<lparr>rtable := t, routing_table_top := n\<rparr>" by blast
  have f: "net_frame s s1" by (simp add: s1 net_frame_def)
  have ok1: "net_ok P s1" using ok A by (simp add: net_ok_def s1)
  show "returns (network_interface_removed i s1) (\<lambda>s'. net_ok P s' \<and> net_frame s s' \<and>
     table_entries s' = skip_remove (\<lambda>e. entry_uid s e = Some (if_uid f)) (table_entries s) \<and> interfaces s' = interfaces s \<and>
     queue_items (tx_queue s') = filter (\<lambda>p. \<not> uses_interface i p) (queue_items (tx_queue s)))"
  proof (rule returns_weaken [OF network_interface_removed_ok [OF ok1]])
    show "\<not> uses_interface i p" if "queue_items (tx_queue s1) = p # ps" for p ps using first that by (simp add: s1)
    fix s'
    assume L: "tx_left P s1 (filter (\<lambda>p. \<not> uses_interface i p) (queue_items (tx_queue s1))) s'"
    then have "s' = s1\<lparr>next_packet := next_packet s', tx_queue := tx_queue s'\<rparr>" by (simp add: tx_left_def)
    then have "net_frame s s' \<and> table_entries s' = table_entries s1" using f
      by (metis net_frame_upd(3,5) table_entries_upd(2,4))
    moreover have "interfaces s' = interfaces s"
      using arg_cong [OF \<open>s' = s1\<lparr>next_packet := next_packet s', tx_queue := tx_queue s'\<rparr>\<close>, of interfaces] by (simp add: s1)
    ultimately show "net_ok P s' \<and> net_frame s s' \<and>
       table_entries s' = skip_remove (\<lambda>e. entry_uid s e = Some (if_uid f)) (table_entries s) \<and> interfaces s' = interfaces s \<and>
       queue_items (tx_queue s') = filter (\<lambda>p. \<not> uses_interface i p) (queue_items (tx_queue s))"
      using L A by (simp add: tx_left_def s1)
  qed
qed

text \<open>The queue whose first packet uses the interface.\<close>

lemma network_interface_removed_single:
  assumes ok: "net_ok P s" and "queue_items (tx_queue s) = [p]" and "uses_interface i p"
  shows "network_interface_removed i s = None"
proof -
  obtain l where l: "tx_queue s = Some l" "list_ok (mem s) l" by (rule net_ok_tx [OF ok])
  from assms(2) l obtain a where a: "list_addrs l = [a]" "itm (nodes l) a = p" by (auto simp: list_items_def)
  obtain n where n: "nodes l a = Some n" "node_item n = p" "node_next n = a"
    using node_of_rep [OF l(2), of "[]" a "[]"] a by auto
  from packet_remove_ok [OF ok l(1), of "[]" a "[]"] a obtain l' np where
    rm: "packet_remove a s = Some (s\<lparr>next_packet := np, tx_queue := Some l'\<rparr>)"
      "net_ok P (s\<lparr>next_packet := np, tx_queue := Some l'\<rparr>)" "list_addrs l' = []"
    by (auto simp: returns_iff)
  have "list_rep l' []" using net_okD(4) [OF rm(2)] rm(3) by (simp add: list_ok_rep)
  then have gone: "tail l' = None" "nodes l' a = None" by (auto simp: list_rep_def dom_def)
  have again: "interface_removed_loop i a (s\<lparr>next_packet := np, tx_queue := Some l'\<rparr>) = None"
    by (subst interface_removed_loop.simps) (simp add: gone)
  have "interface_removed_loop i a s = None"
    using n assms(3) l(1) rm(1) gone again
    by (subst interface_removed_loop.simps) (simp add: uses_interface_def)
  then show ?thesis using l list_ok_tail [OF l(2)] a by (simp add: network_interface_removed_def)
qed

lemma network_interface_removed_first:
  assumes ok: "net_ok P s" and "queue_items (tx_queue s) = p # q # ps" and "uses_interface i p"
  shows "returns (network_interface_removed i s) (tx_left P s (q # ps))"
proof -
  obtain l where l: "tx_queue s = Some l" "list_ok (mem s) l" by (rule net_ok_tx [OF ok])
  from assms(2) l obtain a b as where a: "list_addrs l = a # b # as" "itm (nodes l) a = p" "map (itm (nodes l)) (b # as) = q # ps"
    by (auto simp: list_items_def Cons_eq_map_conv)
  obtain n where n: "nodes l a = Some n" "node_item n = p" "node_next n = b"
    using node_of_rep [OF l(2), of "[]" a "b # as"] a by auto
  from packet_remove_ok [OF ok l(1), of "[]" a "b # as"] a obtain l' np where
    rm: "packet_remove a s = Some (s\<lparr>next_packet := np, tx_queue := Some l'\<rparr>)"
      "net_ok P (s\<lparr>next_packet := np, tx_queue := Some l'\<rparr>)" "list_addrs l' = b # as" "list_items l' = q # ps"
    by (auto simp: returns_iff)
  have t: "tail l' = Some b" using list_ok_tail [of "mem s" l'] net_okD(4) [OF rm(2)] rm(3) by simp
  have "interface_removed_loop i a s = Some (s\<lparr>next_packet := np, tx_queue := Some l'\<rparr>)"
    using n assms(3) l(1) rm(1) t by (subst interface_removed_loop.simps) (simp add: uses_interface_def)
  then show ?thesis using l list_ok_tail [OF l(2)] a rm(2,4) by (simp add: network_interface_removed_def tx_left_def)
qed


section \<open>Arrivals\<close>

lemma network_accept_parsed:
  assumes "never_fails (mem s)"
    and "packet_from_string packet_zero msg ((mem s)\<lparr>next_addr := Suc (next_addr (mem s))\<rparr>) = Some (ZEJF_OK, p, m)"
  shows "network_accept P msg i time s =
    (if PACKET_MAX_TTL P \<le> unat (ttl p + 1) then Some (ZEJF_ERR_TTL, s\<lparr>mem := m\<rparr>)
     else network_send_packet P (Some (p\<lparr>source_interface := i, ttl := ttl p + 1\<rparr>)) time (s\<lparr>mem := m\<rparr>))"
  using assms by (simp add: network_accept_def packet_create_def Let_def)

text \<open>\<open>carries n q buff\<close>: \<open>buff\<close> is what another device writes for the packet \<open>q\<close>.\<close>

definition carries :: "nat \<Rightarrow> Packet \<Rightarrow> string \<Rightarrow> bool" where
  "carries n q buff \<longleftrightarrow>
     wire_message (packet_message q) \<and> length (packet_message q) < 2 ^ 16 \<and> length (packet_message q) + 50 < n \<and>
     (\<exists>q'. packet_to_string q n = Some (ZEJF_OK, buff, q'))"

text \<open>The packet as it arrives.\<close>

definition arrived :: "addr \<Rightarrow> u32 \<Rightarrow> Packet \<Rightarrow> Packet \<Rightarrow> bool" where
  "arrived a time q r \<longleftrightarrow>
     pkt_from r = pkt_from q \<and> pkt_to r = pkt_to q \<and> command r = command q \<and> ttl r = ttl q + 1 \<and>
     pkt_flags r = pkt_flags q \<and> message r = Some (packet_message q) \<and> source_interface r = Some a \<and>
     time_received r = time"

lemma carries_parsed:
  assumes "carries n q buff" and "never_fails (mem s)"
  obtains p m where "packet_from_string packet_zero buff ((mem s)\<lparr>next_addr := Suc (next_addr (mem s))\<rparr>) = Some (ZEJF_OK, p, m)"
    "pkt_from p = pkt_from q" "pkt_to p = pkt_to q" "command p = command q" "ttl p = ttl q" "pkt_flags p = pkt_flags q"
    "message p = Some (packet_message q)" "destination_interface p = None" "alloc_mono (mem s) m"
proof -
  let ?m = "(mem s)\<lparr>next_addr := Suc (next_addr (mem s))\<rparr>"
  obtain q' where w: "packet_to_string q n = Some (ZEJF_OK, buff, q')" using assms(1) by (auto simp: carries_def)
  have ok: "alloc_ok ?m (next_addr ?m)" using assms(2) by (simp add: never_fails_def)
  have "returns (packet_from_string packet_zero buff ?m) (\<lambda>(e, r, m'). e = ZEJF_OK \<and> pkt_from r = pkt_from q \<and> pkt_to r = pkt_to q \<and>
      command r = command q \<and> ttl r = ttl q \<and> pkt_flags r = pkt_flags q \<and> message r = Some (packet_message q) \<and>
      unat (message_size r) = length (packet_message q) \<and> source_interface r = source_interface packet_zero)"
    using packet_roundtrip_run [of q n ?m packet_zero] assms(1) w ok by (simp add: carries_def)
  moreover note packet_from_string_returns [of packet_zero buff ?m]
  ultimately show ?thesis
    using that by (auto simp: returns_iff packet_zero_def alloc_mono_def)
qed

text \<open>A data packet for this device.\<close>

lemma network_accept_delivers:
  assumes ok: "net_ok P s" and a: "a \<in> dom (interfaces s)" and c: "carries n q buff"
    and q: "pkt_from q \<noteq> DEVICE_ID P" "pkt_to q = DEVICE_ID P" "command q \<noteq> RIP" "command q \<noteq> ID_REQUEST"
    and hops: "unat (ttl q + 1) < PACKET_MAX_TTL P" and room: "length (queue_items (rx_queue s)) < RX_QUEUE_SIZE P"
  shows "returns (network_accept P buff (Some a) time s) (\<lambda>(e, s'). e = ZEJF_OK \<and> net_ok P s' \<and>
     (\<exists>r. arrived a time q r \<and> queue_items (rx_queue s') = queue_items (rx_queue s) @ [r]) \<and>
     s' = s\<lparr>mem := mem s', rx_queue := rx_queue s'\<rparr>)"
proof -
  obtain p m where p: "packet_from_string packet_zero buff ((mem s)\<lparr>next_addr := Suc (next_addr (mem s))\<rparr>) = Some (ZEJF_OK, p, m)"
    "pkt_from p = pkt_from q" "pkt_to p = pkt_to q" "command p = command q" "ttl p = ttl q" "pkt_flags p = pkt_flags q"
    "message p = Some (packet_message q)" "destination_interface p = None" "alloc_mono (mem s) m"
    by (rule carries_parsed [OF c net_okD(1) [OF ok]])
  let ?s = "s\<lparr>mem := m\<rparr>" and ?r = "p\<lparr>source_interface := Some a, ttl := ttl p + 1, time_received := time, time_sent := 0\<rparr>"
  have ok1: "net_ok P ?s" by (rule net_ok_mem [OF ok p(9)])
  obtain l where l: "rx_queue s = Some l" "list_ok (mem s) l" "capacity l = RX_QUEUE_SIZE P" by (rule net_ok_rx [OF ok])
  have full: "\<not> list_is_full l" using room list_ok_full [OF l(2)] l by simp
  have "packet_ok P (interfaces ?s) ?r"
    using a p hops q c by (auto simp: packet_ok_def packet_message_def carries_def)
  then have push: "returns (network_push_packet P ?r ?s) (\<lambda>(e, s'). net_ok P s' \<and> net_frame ?s s' \<and>
       s' = ?s\<lparr>mem := mem s', rx_queue := rx_queue s'\<rparr> \<and>
       (if length (queue_items (rx_queue ?s)) < RX_QUEUE_SIZE P
        then e = ZEJF_OK \<and> queue_items (rx_queue s') = queue_items (rx_queue ?s) @ [?r]
        else e = ZEJF_ERR_GENERIC \<and> queue_items (rx_queue s') = queue_items (rx_queue ?s)))"
    by (rule push_rx_ok [OF ok1]) (use p q in simp_all)
  have ar: "arrived a time q ?r" using p by (simp add: arrived_def)
  have "network_accept P buff (Some a) time s = do {
      (rv, s) \<leftarrow> network_push_packet P ?r ?s; Some (if rv \<noteq> ZEJF_OK then ZEJF_ERR_OUT_OF_MEMORY else ZEJF_OK, s) }"
    unfolding network_accept_parsed [OF net_okD(1) [OF ok] p(1)] network_send_packet_def using p q hops l full by simp
  moreover have "returns \<dots> (\<lambda>(e, s'). e = ZEJF_OK \<and> net_ok P s' \<and>
      (\<exists>r. arrived a time q r \<and> queue_items (rx_queue s') = queue_items (rx_queue s) @ [r]) \<and>
      s' = s\<lparr>mem := mem s', rx_queue := rx_queue s'\<rparr>)"
    by (rule returns_bindI [OF push]) (use room ar in auto)
  ultimately show ?thesis by simp
qed


text \<open>A data packet for another device is queued for transmission.\<close>

lemma network_accept_forwards:
  assumes ok: "net_ok P s" and a: "a \<in> dom (interfaces s)" and c: "carries n q buff"
    and q: "pkt_from q \<noteq> DEVICE_ID P" "pkt_to q \<noteq> DEVICE_ID P" "command q \<noteq> RIP" "command q \<noteq> ID_REQUEST"
    and hops: "unat (ttl q + 1) < PACKET_MAX_TTL P" and room: "length (queue_items (tx_queue s)) < TX_QUEUE_SIZE P"
  shows "returns (network_accept P buff (Some a) time s) (\<lambda>(e, s'). e = ZEJF_OK \<and> net_ok P s' \<and>
     (\<exists>r. arrived a time q r \<and> queue_items (tx_queue s') = queue_items (tx_queue s) @ [r]) \<and> tx_frame s s')"
proof -
  obtain p m where p: "packet_from_string packet_zero buff ((mem s)\<lparr>next_addr := Suc (next_addr (mem s))\<rparr>) = Some (ZEJF_OK, p, m)"
    "pkt_from p = pkt_from q" "pkt_to p = pkt_to q" "command p = command q" "ttl p = ttl q" "pkt_flags p = pkt_flags q"
    "message p = Some (packet_message q)" "destination_interface p = None" "alloc_mono (mem s) m"
    by (rule carries_parsed [OF c net_okD(1) [OF ok]])
  let ?s = "s\<lparr>mem := m\<rparr>" and ?r = "p\<lparr>source_interface := Some a, ttl := ttl p + 1, time_received := time, time_sent := 0\<rparr>"
  have ok1: "net_ok P ?s" by (rule net_ok_mem [OF ok p(9)])
  have fr: "tx_frame s ?s" by (rule mem_tx_frame) (simp add: mem_frame_def p(9))
  obtain l where l: "tx_queue s = Some l" "list_ok (mem s) l" "capacity l = TX_QUEUE_SIZE P" by (rule net_ok_tx [OF ok])
  have full: "\<not> list_is_full l" using room list_ok_full [OF l(2)] l by simp
  have "packet_ok P (interfaces ?s) ?r"
    using a p hops q c by (auto simp: packet_ok_def packet_message_def carries_def)
  then have push: "returns (network_push_packet P ?r ?s) (\<lambda>(e, s'). net_ok P s' \<and> tx_frame ?s s' \<and>
       (if length (queue_items (tx_queue ?s)) < TX_QUEUE_SIZE P
        then e = ZEJF_OK \<and> queue_items (tx_queue s') = queue_items (tx_queue ?s) @ [?r]
        else e = ZEJF_ERR_GENERIC \<and> queue_items (tx_queue s') = queue_items (tx_queue ?s)))"
    by (rule push_tx_ok [OF ok1]) (use p q in simp_all)
  have ar: "arrived a time q ?r" using p by (simp add: arrived_def)
  have "network_accept P buff (Some a) time s = do {
      (rv, s) \<leftarrow> network_push_packet P ?r ?s; Some (if rv \<noteq> ZEJF_OK then ZEJF_ERR_OUT_OF_MEMORY else ZEJF_OK, s) }"
    unfolding network_accept_parsed [OF net_okD(1) [OF ok] p(1)] network_send_packet_def using p q hops l full by simp
  moreover have "returns \<dots> (\<lambda>(e, s'). e = ZEJF_OK \<and> net_ok P s' \<and>
      (\<exists>r. arrived a time q r \<and> queue_items (tx_queue s') = queue_items (tx_queue s) @ [r]) \<and> tx_frame s s')"
    by (rule returns_bindI [OF push]) (use room ar tx_frame_trans [OF fr] in auto)
  ultimately show ?thesis by simp
qed

text \<open>A routing announcement.\<close>

lemma network_accept_rip:
  assumes ok: "net_ok P s" and pl: "platform_ok P (interfaces s)" and i: "interfaces s a = Some i" and c: "carries n q buff"
    and q: "pkt_from q \<noteq> DEVICE_ID P" "command q = RIP" and hops: "unat (ttl q + 1) < PACKET_MAX_TTL P"
  shows "returns (network_accept P buff (Some a) time s) (\<lambda>(e, s'). net_ok P s' \<and> net_frame s s' \<and>
     table_entries s' = snd (table_update (DEVICE_ID P) (ROUTING_TABLE_SIZE P) (pkt_from q) a (ttl q + 1) time (table_entries s)))"
proof -
  obtain p m where p: "packet_from_string packet_zero buff ((mem s)\<lparr>next_addr := Suc (next_addr (mem s))\<rparr>) = Some (ZEJF_OK, p, m)"
    "pkt_from p = pkt_from q" "pkt_to p = pkt_to q" "command p = command q" "ttl p = ttl q" "pkt_flags p = pkt_flags q"
    "message p = Some (packet_message q)" "destination_interface p = None" "alloc_mono (mem s) m"
    by (rule carries_parsed [OF c net_okD(1) [OF ok]])
  let ?s = "s\<lparr>mem := m\<rparr>" and ?r = "p\<lparr>source_interface := Some a, ttl := ttl p + 1\<rparr>"
  have ok1: "net_ok P ?s" by (rule net_ok_mem [OF ok p(9)])
  have fr: "net_frame s ?s" by (rule net_frame_mem [OF net_frame_refl p(9)])
  have eq: "network_accept P buff (Some a) time s = process_rip_packet P ?r time ?s"
    unfolding network_accept_parsed [OF net_okD(1) [OF ok] p(1)] network_send_packet_def using p q hops by simp
  have i': "interfaces ?s a = Some i" using i by simp
  have sel: "pkt_from ?r = pkt_from p" "source_interface ?r = Some a" "ttl ?r = ttl p + 1" "pkt_flags ?r = pkt_flags p"
    by simp_all
  show ?thesis
    unfolding eq process_rip_packet_def sel
  proof (rule returns_bindI [OF routing_table_update_ok [OF net_okD(2,1) [OF ok1] i']], clarify)
    fix rv s1
    assume r: "routing_ok P s1" and f: "routing_frame ?s s1"
      and t: "(rv, table_entries s1) = table_update (DEVICE_ID P) (ROUTING_TABLE_SIZE P) (pkt_from p) a (ttl p + 1) time (table_entries ?s)"
    have ok2: "net_ok P s1" by (rule net_ok_routing [OF ok1 r f])
    have fr2: "net_frame s s1" by (rule net_frame_trans [OF fr routing_net_frame [OF f]])
    have d: "dom (interfaces s1) = dom (interfaces s)" using routing_frameD(11) [OF f] by simp
    have "returns (network_send_everywhere P ?r time s1) (\<lambda>(e, s'). world_frame s1 s')"
      by (rule network_send_everywhere_ok) (use i d platform_ok_dom [OF d, of P] pl in auto)
    moreover have "table_entries s1 =
        snd (table_update (DEVICE_ID P) (ROUTING_TABLE_SIZE P) (pkt_from q) a (ttl q + 1) time (table_entries s))"
      using t p by (metis snd_conv table_entries_upd(1))
    ultimately show "returns (if rv = ZEJF_OK \<and> pkt_flags p \<noteq> 0 then network_send_everywhere P ?r time s1 else Some (rv, s1))
        (\<lambda>(e, s'). net_ok P s' \<and> net_frame s s' \<and> table_entries s' =
           snd (table_update (DEVICE_ID P) (ROUTING_TABLE_SIZE P) (pkt_from q) a (ttl q + 1) time (table_entries s)))"
      using ok2 fr2 by (auto elim!: world_frameE returns_weaken)
  qed
qed

section \<open>Draining the queue\<close>

primrec tx_run :: "'w platform \<Rightarrow> u32 list \<Rightarrow> 'w zejf \<Rightarrow> 'w zejf option" where
  "tx_run P [] s = Some s"
| "tx_run P (t # ts) s = do { s \<leftarrow> network_send_tx P t s; tx_run P ts s }"

lemma network_send_tx_empty:
  assumes "net_ok P s" and "queue_items (tx_queue s) = []"
  shows "network_send_tx P time s = Some s"
proof -
  obtain l where l: "tx_queue s = Some l" "list_ok (mem s) l" by (rule net_ok_tx [OF assms(1)])
  with assms(2) list_ok_empty [OF l(2)] show ?thesis by (simp add: network_send_tx_def)
qed

lemma current_in_queue:
  assumes "net_ok P s" and "tx_queue s = Some l" and "list_addrs l \<noteq> []"
  shows "current s \<in> set (list_addrs l)"
  using assms by (auto simp: current_def net_ok_def split: option.splits)

lemma network_send_tx_returns:
  assumes ok: "net_ok P s" and pl: "platform_ok P (interfaces s)"
  shows "returns (network_send_tx P time s) (\<lambda>s'. net_ok P s' \<and> net_frame s s' \<and> interfaces s' = interfaces s \<and>
    table_entries s' = table_entries s)"
proof -
  obtain l where l: "tx_queue s = Some l" "list_ok (mem s) l" by (rule net_ok_tx [OF ok])
  show ?thesis
  proof (cases "list_addrs l = []")
    case True
    with l network_send_tx_empty [OF ok] ok show ?thesis by (simp add: list_items_def)
  next
    case False
    then obtain xs ys where as: "list_addrs l = xs @ current s # ys"
      using split_list [OF current_in_queue [OF ok l(1)]] by blast
    show ?thesis by (rule returns_weaken [OF network_send_tx_ok [OF ok pl l(1) as refl]])
      (auto simp: tx_done_def split: prod.splits)
  qed
qed

lemma tx_step_removes:
  assumes "\<And>buff i t w. fst (network_send_via P buff i t w) \<noteq> ZEJF_ERR_SEND_UNABLE" and "pkt_to p \<noteq> BROADCAST"
  shows "\<exists>w. tx_step P time s p = (w, None, [])"
  using assms by (auto simp: tx_step_def split: option.splits prod.splits) (metis fst_conv)+

lemma network_send_tx_removes:
  assumes ok: "net_ok P s" and pl: "platform_ok P (interfaces s)"
    and able: "\<And>buff i t w. fst (network_send_via P buff i t w) \<noteq> ZEJF_ERR_SEND_UNABLE"
    and ub: "\<forall>p\<in>set (queue_items (tx_queue s)). pkt_to p \<noteq> BROADCAST" and ne: "queue_items (tx_queue s) \<noteq> []"
  shows "returns (network_send_tx P time s) (\<lambda>s'. net_ok P s' \<and> interfaces s' = interfaces s \<and>
     Suc (length (queue_items (tx_queue s'))) = length (queue_items (tx_queue s)) \<and>
     set (queue_items (tx_queue s')) \<subseteq> set (queue_items (tx_queue s)))"
proof -
  obtain l where l: "tx_queue s = Some l" "list_ok (mem s) l" by (rule net_ok_tx [OF ok])
  with ne have "list_addrs l \<noteq> []" by (auto simp: list_items_def)
  then obtain xs ys where as: "list_addrs l = xs @ current s # ys"
    using split_list [OF current_in_queue [OF ok l(1)]] by blast
  have "pkt_to (itm (nodes l) (current s)) \<noteq> BROADCAST" using ub l as by (simp add: list_items_def)
  then obtain w where "tx_step P time s (itm (nodes l) (current s)) = (w, None, [])"
    using tx_step_removes [OF able] by blast
  then show ?thesis
    using network_send_tx_ok [OF ok pl l(1) as refl, of time]
    by (auto simp: tx_done_def l as list_items_def elim!: returns_weaken)
qed

lemma tx_run_drains:
  assumes able: "\<And>buff i t w. fst (network_send_via P buff i t w) \<noteq> ZEJF_ERR_SEND_UNABLE"
  shows "net_ok P s \<Longrightarrow> platform_ok P (interfaces s) \<Longrightarrow> \<forall>p\<in>set (queue_items (tx_queue s)). pkt_to p \<noteq> BROADCAST \<Longrightarrow>
    length (queue_items (tx_queue s)) \<le> length ts \<Longrightarrow>
    returns (tx_run P ts s) (\<lambda>s'. net_ok P s' \<and> queue_items (tx_queue s') = [])"
proof (induction ts arbitrary: s)
  case Nil
  then show ?case by simp
next
  case (Cons t ts)
  show ?case
  proof (cases "queue_items (tx_queue s) = []")
    case True
    with Cons network_send_tx_empty [OF Cons.prems(1) True] show ?thesis by simp
  next
    case False
    show ?thesis
      unfolding tx_run.simps
      by (rule returns_bindI [OF network_send_tx_removes [OF Cons.prems(1,2) able Cons.prems(3) False]])
        (rule Cons.IH, use Cons.prems in \<open>auto simp del: length_0_conv\<close>)
  qed
qed

section \<open>Properties\<close>

text \<open>A network with one interface and empty queues, and one with a queued packet.\<close>

definition net_state :: "unit zejf" where
  "net_state = snd (network_init meteo_settings one_interface)"

lemma platform_ok_meteo [simp]: "platform_ok meteo_settings ifs"
  by (simp add: platform_ok_def)

lemma net_state_simps [simp]:
  "net_ok meteo_settings net_state" "queue_items (rx_queue net_state) = []" "queue_items (tx_queue net_state) = []"
  "table_entries net_state = []" "world net_state = ()"
  "interfaces net_state 7 = Some \<lparr>if_uid = 1, if_type = 2, if_handle = 0, rx_count = 0, tx_count = 0\<rparr>"
proof -
  obtain m rx tx where eq: "network_init meteo_settings one_interface = (ZEJF_OK, one_interface\<lparr>mem := m, rx_queue := Some rx,
      tx_queue := Some tx, next_packet := None, provide_ptr := 0, demand_ptr := 0\<rparr>)" "list_items rx = []" "list_items tx = []"
    and ok: "net_ok meteo_settings (one_interface\<lparr>mem := m, rx_queue := Some rx, tx_queue := Some tx, next_packet := None,
      provide_ptr := 0, demand_ptr := 0\<rparr>)"
    by (rule network_init_ok [of one_interface meteo_settings]) simp_all
  show "net_ok meteo_settings net_state" using ok by (simp only: net_state_def eq snd_conv)
  show "queue_items (rx_queue net_state) = []" "queue_items (tx_queue net_state) = []" "table_entries net_state = []"
    "world net_state = ()" "interfaces net_state 7 = Some \<lparr>if_uid = 1, if_type = 2, if_handle = 0, rx_count = 0, tx_count = 0\<rparr>"
    by (simp_all add: net_state_def eq)
qed

definition one_packet :: "Packet \<Rightarrow> Packet linked_list" where
  "one_packet p = \<lparr>capacity = 16384, item_count = 1, head = Some 0, tail = Some 0,
     nodes = [0 \<mapsto> \<lparr>node_next = 0, node_previous = 0, node_item = p\<rparr>]\<rparr>"

lemma one_packet_rep: "list_rep (one_packet p) [0]"
  by (simp add: one_packet_def list_rep_def ring_def nxt_def prv_def)

lemma one_packet_simps [simp]:
  "list_addrs (one_packet p) = [0]" "list_items (one_packet p) = [p]" "capacity (one_packet p) = 16384" "itm (nodes (one_packet p)) 0 = p"
  using list_rep_addrs [OF one_packet_rep [of p]]
  by (simp_all add: list_items_def) (simp_all add: one_packet_def itm_def)

definition queued :: "Packet \<Rightarrow> unit zejf" where
  "queued p = net_state\<lparr>mem := (mem net_state)\<lparr>next_addr := Suc (next_addr (mem net_state))\<rparr>,
     next_packet := None, tx_queue := Some (one_packet p)\<rparr>"

lemma queued_simps [simp]:
  "tx_queue (queued p) = Some (one_packet p)" "table_entries (queued p) = []" "interfaces (queued p) = interfaces net_state"
  "next_packet (queued p) = None" "world (queued p) = ()"
  by (simp_all add: queued_def)

lemma queued_ok [simp]:
  assumes "packet_ok (meteo_settings :: unit platform) (interfaces net_state) p" and "pkt_to p \<noteq> 1"
  shows "net_ok meteo_settings (queued p)"
proof -
  let ?m = "(mem net_state)\<lparr>next_addr := Suc (next_addr (mem net_state))\<rparr>"
  have ok: "net_ok meteo_settings (net_state\<lparr>mem := ?m\<rparr>)" by (rule net_ok_mem) simp_all
  have "list_ok ?m (one_packet p)" by (rule list_ok_repI [OF one_packet_rep]) simp
  with ok assms show ?thesis unfolding queued_def by (intro net_ok_tx_upd) simp_all
qed

lemma current_queued [simp]: "current (queued p) = 0"
  by (simp add: current_def)

lemma own_meteo_ok [simp]:
  "c \<noteq> RIP \<Longrightarrow> c \<noteq> ID_REQUEST \<Longrightarrow>
   packet_ok (meteo_settings :: 'a platform) ifs (own_packet (meteo_settings :: 'b platform) d c None)"
  by (simp add: packet_ok_def packet_message_def)

lemma carries_text:
  assumes "wire_message (packet_message q)" and "length (packet_message q) < 2 ^ 16" and "length (packet_message q) + 50 < n"
  shows "carries n q (fst (snd (the (packet_to_string q n))))"
  using assms by (rule_tac packet_to_string_eq [of q n]) (simp add: carries_def)

text \<open>
  C11: nothing received can break the device.  Whatever text arrives on a live interface,
  \<open>network_accept\<close> returns, without undefined behaviour, and keeps the invariant of the
  network: well-formed queues within their capacity, a well-formed routing table, no dangling
  interface, no queued packet beyond the hop limit; the data side of the state is not touched.
\<close>

theorem network_accept_robust:
  assumes "net_ok P s" and "platform_ok P (interfaces s)" and "a \<in> dom (interfaces s)"
  shows "returns (network_accept P msg (Some a) time s) (\<lambda>(e, s'). net_ok P s' \<and> net_frame s s')"
  by (rule network_accept_ok [OF assms])

theorem network_accept_robust_witness:
  "returns (network_accept meteo_settings ''{garbage}'' (Some 7) 5 net_state) (\<lambda>(e, s'). net_ok meteo_settings s')"
  by (rule returns_weaken [OF network_accept_robust]) auto


definition hello :: "u16 \<Rightarrow> u8 \<Rightarrow> u8 \<Rightarrow> Packet" where
  "hello to' cmd hops = packet_zero\<lparr>pkt_from := 2, pkt_to := to', command := cmd, ttl := hops, message := Some ''hello''\<rparr>"

lemma hello_simps [simp]:
  "pkt_from (hello d c h) = 2" "pkt_to (hello d c h) = d" "command (hello d c h) = c" "ttl (hello d c h) = h"
  "packet_message (hello d c h) = ''hello''"
  by (simp_all add: hello_def packet_message_def)

lemma hello_carries: "carries 128 (hello d c h) (fst (snd (the (packet_to_string (hello d c h) 128))))"
  by (rule carries_text) (simp_all add: wire_message_def)


text \<open>
  Relaying.  A data packet for a third device that arrives within the hop limit is appended to
  the transmit queue, with sender, receiver, command and message intact and one more hop.
\<close>

theorem packet_relay:
  assumes "net_ok P s" and "a \<in> dom (interfaces s)" and "carries n q buff"
    and "pkt_from q \<noteq> DEVICE_ID P" and "pkt_to q \<noteq> DEVICE_ID P" and "command q \<noteq> RIP" and "command q \<noteq> ID_REQUEST"
    and "unat (ttl q + 1) < PACKET_MAX_TTL P" and "length (queue_items (tx_queue s)) < TX_QUEUE_SIZE P"
  shows "returns (network_accept P buff (Some a) time s) (\<lambda>(e, s'). e = ZEJF_OK \<and> net_ok P s' \<and>
     (\<exists>r. arrived a time q r \<and> queue_items (tx_queue s') = queue_items (tx_queue s) @ [r]) \<and> tx_frame s s')"
  by (rule network_accept_forwards [OF assms])

theorem packet_relay_witness:
  "returns (network_accept meteo_settings (fst (snd (the (packet_to_string (hello 9 MESSAGE 3) 128)))) (Some 7) 5 net_state)
     (\<lambda>(e, s'). e = ZEJF_OK \<and> map ttl (queue_items (tx_queue s')) = [4])"
  by (rule returns_weaken [OF packet_relay [OF _ _ hello_carries]]) (auto simp: arrived_def)

text \<open>
  C12: the hop limit.  A packet that has made its last allowed hop is dropped with
  \<open>ZEJF_ERR_TTL\<close> and leaves the state as it was.
\<close>

theorem network_accept_hop_limit:
  assumes "net_ok P s" and "carries n q buff" and "PACKET_MAX_TTL P \<le> unat (ttl q + 1)"
  shows "returns (network_accept P buff i time s) (\<lambda>(e, s'). e = ZEJF_ERR_TTL \<and> mem_frame s s')"
proof -
  obtain p m where p: "packet_from_string packet_zero buff ((mem s)\<lparr>next_addr := Suc (next_addr (mem s))\<rparr>) = Some (ZEJF_OK, p, m)"
    "ttl p = ttl q" "alloc_mono (mem s) m" by (rule carries_parsed [OF assms(2) net_okD(1) [OF assms(1)]])
  with assms(3) show ?thesis
    by (simp add: network_accept_parsed [OF net_okD(1) [OF assms(1)] p(1)] mem_frame_def)
qed

theorem network_accept_hop_limit_witness:
  "returns (network_accept meteo_settings (fst (snd (the (packet_to_string (hello 1 MESSAGE 7) 128)))) (Some 7) 5 net_state)
     (\<lambda>(e, s'). e = ZEJF_ERR_TTL)"
  by (rule returns_weaken [OF network_accept_hop_limit [OF _ hello_carries]]) auto




text \<open>
  Sending a data packet of this device.  \<open>network_send_packet\<close> refuses a packet to itself,
  to a device without a route, or when the queue is full, each with its own error and no change to the
  queue; otherwise the packet is appended to the transmit queue, stamped with the time.
\<close>

theorem network_send_packet_refines:
  assumes "net_ok P s" and "packet_ok P (interfaces s) p" and "pkt_from p = DEVICE_ID P"
  shows "returns (network_send_packet P (Some p) time s) (\<lambda>(e, s'). net_ok P s' \<and> tx_frame s s' \<and>
     (e, queue_items (tx_queue s')) = send_spec P p time s)"
  by (rule send_own_ok [OF assms])

theorem network_send_packet_refines_witness:
  "returns (network_send_packet meteo_settings (Some (own_packet meteo_settings 9 MESSAGE None)) 5 net_state)
     (\<lambda>(e, s'). e = ZEJF_ERR_NO_SUCH_DEVICE \<and> queue_items (tx_queue s') = [])"
  by (rule returns_weaken [OF network_send_packet_refines])
    (auto simp: send_spec_def used_id_def)

text \<open>
  C13: one round of the transmitter.  On a queue with a packet, \<open>network_send_tx\<close> takes the
  packet whose turn it is: an expired one is dropped, a broadcast is replaced by one copy per known
  device when they all fit (and waits otherwise), a packet without a route is dropped, and any other is
  written out on the interface of its route and leaves the queue unless the interface is unable to send.
  The other packets keep their place, and the turn passes to the next packet.
\<close>

theorem network_send_tx_refines:
  assumes "net_ok P s" and "platform_ok P (interfaces s)" and "tx_queue s = Some l"
    and "list_addrs l = xs @ a # ys" and "current s = a"
  shows "returns (network_send_tx P time s) (tx_done P s xs a ys (tx_step P time s (itm (nodes l) a)))"
  by (rule network_send_tx_ok [OF assms])

theorem network_send_tx_refines_witness:
  "returns (network_send_tx meteo_settings 20000 (queued (own_packet meteo_settings BROADCAST MESSAGE None)))
     (\<lambda>s'. queue_items (tx_queue s') = [])"
  by (rule returns_weaken [OF network_send_tx_refines [where xs = "[]" and a = 0 and ys = "[]"]])
    (auto simp: tx_done_def tx_step_def own_packet_def packet_zero_def packet_ok_def packet_message_def broadcast_copies_def)



text \<open>
  C16: removing an interface.  When the first packet of the transmit queue does not use the
  interface, \<open>interface_removed\<close> returns, drops from the queue exactly the packets that came from it
  or go to it, and removes the routes through it, except a route that stands right after a
  removed one.
\<close>

theorem interface_removed_purges:
  assumes "net_ok P s" and "interfaces s i = Some f"
    and "\<And>p ps. queue_items (tx_queue s) = p # ps \<Longrightarrow> \<not> uses_interface i p"
  shows "returns (interface_removed i s) (\<lambda>s'. net_ok P s' \<and> net_frame s s' \<and>
     table_entries s' = skip_remove (\<lambda>e. entry_uid s e = Some (if_uid f)) (table_entries s) \<and>
     queue_items (tx_queue s') = filter (\<lambda>p. \<not> uses_interface i p) (queue_items (tx_queue s)))"
  by (rule returns_weaken [OF interface_removed_ok [OF assms]]) auto

theorem interface_removed_purges_witness:
  "returns (interface_removed 7 (queued (own_packet meteo_settings 9 MESSAGE None))) (\<lambda>s'. length (queue_items (tx_queue s')) = 1)"
  by (rule returns_weaken [OF interface_removed_purges [of meteo_settings]])
    (auto simp: uses_interface_def intro!: queued_ok)

text \<open>
  Removing the interface of the first packet.  When that packet is alone in the queue, the loop
  of \<open>network_interface_removed\<close> follows it after it is freed (undefined behaviour); when other
  packets follow, the loop ends at once and they all stay, the packets of the removed interface
  among them.
\<close>

theorem interface_removed_first_packet:
  assumes "net_ok P s" and "queue_items (tx_queue s) = p # ps" and "uses_interface i p"
  shows "(ps = [] \<longrightarrow> network_interface_removed i s = None) \<and>
    (ps \<noteq> [] \<longrightarrow> returns (network_interface_removed i s) (\<lambda>s'. queue_items (tx_queue s') = ps))"
proof (cases ps)
  case Nil
  with network_interface_removed_single [OF assms(1) _ assms(3)] assms(2) show ?thesis by simp
next
  case (Cons q qs)
  with network_interface_removed_first [OF assms(1) _ assms(3)] assms(2) show ?thesis
    by (auto simp: tx_left_def elim: returns_weaken)
qed

theorem interface_removed_first_packet_witness:
  "network_interface_removed 7 (queued ((hello 9 MESSAGE 1)\<lparr>source_interface := Some 7\<rparr>)) = None"
proof -
  have "net_ok meteo_settings (queued ((hello 9 MESSAGE 1)\<lparr>source_interface := Some 7\<rparr>))"
    by (rule queued_ok) (simp_all add: packet_ok_def hello_def packet_zero_def packet_message_def domI)
  from interface_removed_first_packet [OF this, of _ "[]" 7] show ?thesis by (simp add: uses_interface_def)
qed

end
