(* ===== verification/Data_Hour.thy ===== *)
theory Data_Hour
  imports Network
begin

text \<open>
  One hour of measurements (\<open>DataHour\<close>, the first half of \<open>api/zejf_api/src/zejf_data.c\<close>): adding
  variables, the checksum, the binary file format in both directions, and looking a variable up.

  A byte buffer that is being filled is the list of the bytes written so far, with the size that was
  allocated; a buffer that is being read is the list of the bytes that are left.  An hour whose
  array of variables has been freed behind its back (a failed allocation in
  \<open>hour_add_variable\<close>) has fewer variables than its count says, and every access to a missing one
  is undefined behaviour.
\<close>

section \<open>Operations\<close>

definition hour_create :: "u32 \<Rightarrow> allocator \<Rightarrow> DataHour option \<times> allocator" where
  "hour_create hid m =
     (case malloc m of
        (None, m) \<Rightarrow> (None, m)
      | (Some _, m) \<Rightarrow>
          (Some \<lparr>hour_id = hid, hour_checksum = 0, variable_count = 0, hour_flags = 0, variables = []\<rparr>, m))"

definition hour_add_variable ::
  "'w platform \<Rightarrow> DataHour \<Rightarrow> VariableInfo \<Rightarrow> allocator \<Rightarrow> (zejf_err \<times> DataHour \<times> allocator) option"
where
  "hour_add_variable P hour variable m =
     (if samples_per_hour variable = 0 \<or> SAMPLE_RATE_MAX P < samples_per_hour variable
      then Some (ZEJF_ERR_INVALID_SAMPLE_RATE, hour, m)
      else if variable_count hour = VARIABLES_MAX P then Some (ZEJF_ERR_VARIABLES_MAX, hour, m)
      else do {
        known \<leftarrow> arr_any (\<lambda>v. var_id (variable_info v) = var_id variable) (variables hour)
                   (unat (variable_count hour));
        (if known then Some (ZEJF_ERR_VARIABLE_ALREADY_EXISTS, hour, m)
         else
           (case malloc m of
              (None, m) \<Rightarrow> Some (ZEJF_ERR_OUT_OF_MEMORY, hour, m)
            | (Some _, m) \<Rightarrow>
                (case malloc m of
                   (None, m) \<Rightarrow> Some (ZEJF_ERR_OUT_OF_MEMORY, hour\<lparr>variables := []\<rparr>, m)
                 | (Some _, m) \<Rightarrow>
                     let new_var = \<lparr>variable_info = variable,
                                    var_data = replicate (unat (samples_per_hour variable)) VALUE_EMPTY\<rparr>
                     in Some (ZEJF_OK,
                              hour\<lparr>variables := take (unat (variable_count hour)) (variables hour) @ [new_var],
                                   variable_count := variable_count hour + 1\<rparr>, m))))
      })"

text \<open>\<open>hour_destroy\<close> reads every variable to free its data.\<close>

definition hour_destroy :: "DataHour \<Rightarrow> unit option" where
  "hour_destroy hour = (if unat (variable_count hour) \<le> length (variables hour) then Some () else None)"

text \<open>The bytes of the samples of a variable, as they lie in memory.\<close>

definition sample_bytes :: "Variable \<Rightarrow> u8 list option" where
  "sample_bytes v =
     (let n = unat (samples_per_hour (variable_info v))
      in if n \<le> length (var_data v) then Some (concat (map bytes_u32 (take n (var_data v)))) else None)"

definition add_bytes :: "u32 \<Rightarrow> u8 list \<Rightarrow> u32" where
  "add_bytes result bs = foldl (\<lambda>r b. r + ucast b) result bs"

function checksum_loop :: "DataHour \<Rightarrow> nat \<Rightarrow> u32 \<Rightarrow> u32 option" where
  "checksum_loop hour i result =
     (if i < unat (variable_count hour)
      then do {
        var \<leftarrow> arr_get (variables hour) i;
        bs \<leftarrow> sample_bytes var;
        checksum_loop hour (Suc i)
          (add_bytes (result + ucast (var_id (variable_info var)) + samples_per_hour (variable_info var)) bs)
      }
      else Some result)"
  by pat_completeness auto
termination
  by (relation "measure (\<lambda>(hour, i, result). unat (variable_count hour) - i)") auto

declare checksum_loop.simps [simp del]

definition hour_calculate_checksum :: "DataHour \<Rightarrow> u32 option" where
  "hour_calculate_checksum hour =
     checksum_loop hour 0 (ucast (hour_flags hour) + hour_id hour + ucast (variable_count hour))"

text \<open>\<open>serialize\<close> appends to a buffer of \<open>total_size\<close> bytes; \<open>*ptr\<close> is the length of what is written.\<close>

definition serialize :: "nat \<Rightarrow> u8 list \<Rightarrow> u8 list \<Rightarrow> u8 list option" where
  "serialize total_size out bs = (if length out + length bs \<le> total_size then Some (out @ bs) else None)"

abbreviation (input) DATAHOUR_BYTES :: nat where "DATAHOUR_BYTES \<equiv> 4 + 4 + 2 + 1"
abbreviation (input) VARIABLE_INFO_BYTES :: nat where "VARIABLE_INFO_BYTES \<equiv> 4 + 2"
abbreviation (input) FLAG_MODIFIED :: u8 where "FLAG_MODIFIED \<equiv> 1"

function size_loop :: "DataHour \<Rightarrow> nat \<Rightarrow> nat \<Rightarrow> nat option" where
  "size_loop hour i total_size =
     (if i < unat (variable_count hour)
      then do {
        var \<leftarrow> arr_get (variables hour) i;
        size_loop hour (Suc i) (total_size + VARIABLE_INFO_BYTES + unat (samples_per_hour (variable_info var)) * 4)
      }
      else Some total_size)"
  by pat_completeness auto
termination
  by (relation "measure (\<lambda>(hour, i, n). unat (variable_count hour) - i)") auto

declare size_loop.simps [simp del]

function serialize_loop :: "DataHour \<Rightarrow> nat \<Rightarrow> nat \<Rightarrow> u8 list \<Rightarrow> u8 list option" where
  "serialize_loop hour total_size i out =
     (if i < unat (variable_count hour)
      then do {
        var \<leftarrow> arr_get (variables hour) i;
        out \<leftarrow> serialize total_size out (bytes_u32 (samples_per_hour (variable_info var)));
        out \<leftarrow> serialize total_size out (bytes_u16 (var_id (variable_info var)));
        bs \<leftarrow> sample_bytes var;
        out \<leftarrow> serialize total_size out bs;
        serialize_loop hour total_size (Suc i) out
      }
      else Some out)"
  by pat_completeness auto
termination
  by (relation "measure (\<lambda>(hour, n, i, out). unat (variable_count hour) - i)") auto

declare serialize_loop.simps [simp del]

text \<open>The buffer (null when memory is exhausted) and the hour, whose checksum field is set.\<close>

definition hour_serialize :: "DataHour \<Rightarrow> allocator \<Rightarrow> (u8 list option \<times> DataHour \<times> allocator) option" where
  "hour_serialize hour m =
     do {
       total_size \<leftarrow> size_loop hour 0 DATAHOUR_BYTES;
       (case malloc m of
          (None, m) \<Rightarrow> Some (None, hour, m)
        | (Some _, m) \<Rightarrow>
            do {
              cs \<leftarrow> hour_calculate_checksum hour;
              let hour = hour\<lparr>hour_checksum := cs\<rparr>;
              out \<leftarrow> serialize total_size [] (bytes_u32 (hour_checksum hour));
              out \<leftarrow> serialize total_size out (bytes_u32 (hour_id hour));
              out \<leftarrow> serialize total_size out (bytes_u16 (variable_count hour));
              out \<leftarrow> serialize total_size out [hour_flags hour];
              out \<leftarrow> serialize_loop hour total_size 0 out;
              Some (Some out, hour, m)
            })
     }"

text \<open>\<open>deserialize\<close> takes \<open>n\<close> bytes, or fails and takes none.\<close>

definition deserialize :: "nat \<Rightarrow> u8 list \<Rightarrow> (u8 list \<times> u8 list) option" where
  "deserialize n bs = (if length bs < n then None else Some (take n bs, drop n bs))"

text \<open>An object in memory from its bytes, least significant first.\<close>

definition u16_of :: "u8 list \<Rightarrow> u16" where
  "u16_of bs = ucast (bs ! 0) OR push_bit 8 (ucast (bs ! 1))"

definition u32_of :: "u8 list \<Rightarrow> u32" where
  "u32_of bs = ucast (bs ! 0) OR push_bit 8 (ucast (bs ! 1)) OR push_bit 16 (ucast (bs ! 2)) OR push_bit 24 (ucast (bs ! 3))"

fun floats_of :: "nat \<Rightarrow> u8 list \<Rightarrow> u32 list" where
  "floats_of 0 bs = []"
| "floats_of (Suc n) bs = u32_of (take 4 bs) # floats_of n (drop 4 bs)"

text \<open>The loop over the variables.  \<open>Inl\<close> is the jump to \<open>error\<close>.\<close>

primrec deserialize_loop ::
  "'w platform \<Rightarrow> nat \<Rightarrow> DataHour \<Rightarrow> u8 list \<Rightarrow> allocator \<Rightarrow> ((DataHour + DataHour \<times> u8 list) \<times> allocator) option"
where
  "deserialize_loop P 0 hour bs m = Some (Inr (hour, bs), m)"
| "deserialize_loop P (Suc n) hour bs m =
     (case deserialize 4 bs of
        None \<Rightarrow> Some (Inl hour, m)
      | Some (sb, bs) \<Rightarrow>
          (case deserialize 2 bs of
             None \<Rightarrow> Some (Inl hour, m)
           | Some (ib, bs) \<Rightarrow>
               do {
                 let info = \<lparr>samples_per_hour = u32_of sb, var_id = u16_of ib\<rparr>;
                 (e, hour, m) \<leftarrow> hour_add_variable P hour info m;
                 (if e \<noteq> ZEJF_OK then Some (Inl hour, m)
                  else do {
                    let k = unat (variable_count hour) - 1;
                    var \<leftarrow> arr_get (variables hour) k;
                    (case deserialize (4 * unat (u32_of sb)) bs of
                       None \<Rightarrow> Some (Inl hour, m)
                     | Some (db, bs) \<Rightarrow>
                         deserialize_loop P n
                           (hour\<lparr>variables := (variables hour)[k := var\<lparr>var_data := floats_of (unat (u32_of sb)) db\<rparr>]\<rparr>)
                           bs m)
                  })
               }))"

definition hour_deserialize ::
  "'w platform \<Rightarrow> u8 list option \<Rightarrow> allocator \<Rightarrow> (DataHour option \<times> allocator) option"
where
  "hour_deserialize P data m =
     (case data of
        None \<Rightarrow> Some (None, m)
      | Some bs \<Rightarrow>
          (case hour_create 0 m of
             (None, m) \<Rightarrow> Some (None, m)
           | (Some hour, m) \<Rightarrow>
               (case do { (cb, bs) \<leftarrow> deserialize 4 bs; (hb, bs) \<leftarrow> deserialize 4 bs;
                          (nb, bs) \<leftarrow> deserialize 2 bs; (fb, bs) \<leftarrow> deserialize 1 bs;
                          Some (u32_of cb, u32_of hb, u16_of nb, hd fb, bs) } of
                  None \<Rightarrow> do { _ \<leftarrow> hour_destroy hour; Some (None, m) }
                | Some (cs, hid, total_variable_count, fl, bs) \<Rightarrow>
                    do {
                      (r, m) \<leftarrow> deserialize_loop P (unat total_variable_count)
                                  (hour\<lparr>hour_checksum := cs, hour_id := hid, hour_flags := fl\<rparr>) bs m;
                      (case r of
                         Inl hour \<Rightarrow> do { _ \<leftarrow> hour_destroy hour; Some (None, m) }
                       | Inr (hour, bs) \<Rightarrow>
                           do {
                             good \<leftarrow> (if bs = []
                                      then do { cs \<leftarrow> hour_calculate_checksum hour; Some (cs = hour_checksum hour) }
                                      else Some False);
                             (if good then Some (Some hour, m)
                              else do { _ \<leftarrow> hour_destroy hour; Some (None, m) })
                           })
                    })))"

text \<open>The variable is given by its index in the array.\<close>

function variable_from :: "DataHour \<Rightarrow> u16 \<Rightarrow> nat \<Rightarrow> nat option option" where
  "variable_from hour vid i =
     (if i < unat (variable_count hour)
      then do {
        var \<leftarrow> arr_get (variables hour) i;
        (if var_id (variable_info var) = vid then Some (Some i) else variable_from hour vid (Suc i))
      }
      else Some None)"
  by pat_completeness auto
termination
  by (relation "measure (\<lambda>(hour, vid, i). unat (variable_count hour) - i)") auto

declare variable_from.simps [simp del]

definition get_variable :: "DataHour \<Rightarrow> u16 \<Rightarrow> nat option option" where
  "get_variable hour vid = variable_from hour vid 0"

section \<open>Bytes\<close>

lemma u16_of_bytes [simp]: "u16_of (bytes_u16 x) = x"
  by (rule bit_word_eqI)
    (auto simp: u16_of_def bytes_u16_def bit_or_iff bit_push_bit_iff bit_ucast_iff bit_drop_bit_eq)

lemma u32_of_bytes [simp]: "u32_of (bytes_u32 x) = x"
proof (rule bit_word_eqI)
  fix n
  assume n: "n < LENGTH(32)"
  consider "n < 8" | "8 \<le> n" "n < 16" | "16 \<le> n" "n < 24" | "24 \<le> n" "n < 32" using n by fastforce
  then show "bit (u32_of (bytes_u32 x)) n = bit x n"
    by cases (auto simp: u32_of_def bytes_u32_def bit_or_iff bit_push_bit_iff bit_ucast_iff bit_drop_bit_eq)
qed

lemma length_bytes [simp]: "length (bytes_u16 x) = 2" "length (bytes_u32 y) = 4"
  by (simp_all add: bytes_u16_def bytes_u32_def)

lemma deserialize_append [simp]: "length xs = n \<Longrightarrow> deserialize n (xs @ ys) = Some (xs, ys)"
  by (simp add: deserialize_def)

lemma length_concat_bytes [simp]: "length (concat (map bytes_u32 xs)) = 4 * length xs"
  by (induction xs) simp_all

lemma floats_of_concat [simp]: "floats_of (length xs) (concat (map bytes_u32 xs)) = xs"
  by (induction xs) simp_all

lemma length_floats_of [simp]: "length (floats_of n bs) = n"
  by (induction n bs rule: floats_of.induct) simp_all

section \<open>The invariant of an hour\<close>

definition variable_ok :: "'w platform \<Rightarrow> Variable \<Rightarrow> bool" where
  "variable_ok P v \<longleftrightarrow>
     samples_per_hour (variable_info v) \<noteq> 0 \<and> samples_per_hour (variable_info v) \<le> SAMPLE_RATE_MAX P \<and>
     length (var_data v) = unat (samples_per_hour (variable_info v))"

definition hour_vars_ok :: "'w platform \<Rightarrow> DataHour \<Rightarrow> bool" where
  "hour_vars_ok P h \<longleftrightarrow>
     unat (variable_count h) = length (variables h) \<and> variable_count h \<le> VARIABLES_MAX P \<and>
     distinct (map (\<lambda>v. var_id (variable_info v)) (variables h)) \<and> (\<forall>v\<in>set (variables h). variable_ok P v)"

lemma sample_bytes_ok: "variable_ok P v \<Longrightarrow> sample_bytes v = Some (concat (map bytes_u32 (var_data v)))"
  by (simp add: sample_bytes_def variable_ok_def Let_def)

lemma hour_destroy_ok [simp]: "hour_vars_ok P h \<Longrightarrow> hour_destroy h = Some ()"
  by (simp add: hour_destroy_def hour_vars_ok_def)

lemma hour_vars_ok_upd [simp]:
  "hour_vars_ok P (h\<lparr>hour_checksum := c\<rparr>) = hour_vars_ok P h" "hour_vars_ok P (h\<lparr>hour_flags := f\<rparr>) = hour_vars_ok P h"
  "hour_vars_ok P (h\<lparr>hour_id := i\<rparr>) = hour_vars_ok P h"
  by (simp_all add: hour_vars_ok_def)

text \<open>The file format: what a variable and an hour look like as bytes.\<close>

definition variable_encoding :: "Variable \<Rightarrow> u8 list" where
  "variable_encoding v =
     bytes_u32 (samples_per_hour (variable_info v)) @ bytes_u16 (var_id (variable_info v)) @
     concat (map bytes_u32 (var_data v))"

definition hour_encoding :: "DataHour \<Rightarrow> u8 list" where
  "hour_encoding h =
     bytes_u32 (hour_checksum h) @ bytes_u32 (hour_id h) @ bytes_u16 (variable_count h) @ [hour_flags h] @
     concat (map variable_encoding (variables h))"

definition variable_sum :: "Variable \<Rightarrow> u32" where
  "variable_sum v =
     ucast (var_id (variable_info v)) + samples_per_hour (variable_info v) +
     sum_list (map ucast (concat (map bytes_u32 (var_data v))))"

definition hour_sum :: "DataHour \<Rightarrow> u32" where
  "hour_sum h =
     ucast (hour_flags h) + hour_id h + ucast (variable_count h) + sum_list (map variable_sum (variables h))"

lemma add_bytes_eq: "add_bytes r bs = r + sum_list (map ucast bs)"
  unfolding add_bytes_def by (induction bs arbitrary: r) (simp_all add: algebra_simps)

lemma checksum_loop_ok:
  assumes "unat (variable_count h) = length (variables h)" and "\<forall>v\<in>set vs. variable_ok P v"
  shows "variables h = pre @ vs \<Longrightarrow> checksum_loop h (length pre) r = Some (r + sum_list (map variable_sum vs))"
  using assms(2)
proof (induction vs arbitrary: pre r)
  case Nil
  with assms(1) show ?case by (subst checksum_loop.simps) simp
next
  case (Cons v vs)
  then have "checksum_loop h (length (pre @ [v])) (r + variable_sum v) =
      Some (r + variable_sum v + sum_list (map variable_sum vs))" by (intro Cons.IH) auto
  moreover have "sample_bytes v = Some (concat (map bytes_u32 (var_data v)))" using Cons.prems(2) sample_bytes_ok by auto
  ultimately show ?case using Cons.prems assms(1)
    by (subst checksum_loop.simps) (simp add: add_bytes_eq variable_sum_def algebra_simps)
qed

lemma hour_calculate_checksum_ok: "hour_vars_ok P h \<Longrightarrow> hour_calculate_checksum h = Some (hour_sum h)"
  using checksum_loop_ok [of h "variables h" P "[]"]
  by (simp add: hour_calculate_checksum_def hour_sum_def hour_vars_ok_def)

lemma size_loop_ok:
  assumes "unat (variable_count h) = length (variables h)" and "\<forall>v\<in>set vs. variable_ok P v"
  shows "variables h = pre @ vs \<Longrightarrow> size_loop h (length pre) n = Some (n + length (concat (map variable_encoding vs)))"
  using assms(2)
proof (induction vs arbitrary: pre n)
  case Nil
  with assms(1) show ?case by (subst size_loop.simps) simp
next
  case (Cons v vs)
  then have "size_loop h (length (pre @ [v])) (n + length (variable_encoding v)) =
      Some (n + length (variable_encoding v) + length (concat (map variable_encoding vs)))" by (intro Cons.IH) auto
  then show ?case using Cons.prems assms(1)
    by (subst size_loop.simps) (simp add: variable_encoding_def variable_ok_def algebra_simps)
qed

lemma serialize_loop_ok:
  assumes "unat (variable_count h) = length (variables h)" and "\<forall>v\<in>set vs. variable_ok P v"
  shows "variables h = pre @ vs \<Longrightarrow> length out + length (concat (map variable_encoding vs)) \<le> n \<Longrightarrow>
    serialize_loop h n (length pre) out = Some (out @ concat (map variable_encoding vs))"
  using assms(2)
proof (induction vs arbitrary: pre out)
  case Nil
  with assms(1) show ?case by (subst serialize_loop.simps) simp
next
  case (Cons v vs)
  then have "serialize_loop h n (length (pre @ [v])) (out @ variable_encoding v) =
      Some ((out @ variable_encoding v) @ concat (map variable_encoding vs))" by (intro Cons.IH) auto
  moreover have "sample_bytes v = Some (concat (map bytes_u32 (var_data v)))" using Cons.prems(3) sample_bytes_ok by auto
  ultimately show ?case using Cons.prems assms(1)
    by (subst serialize_loop.simps) (simp add: serialize_def variable_encoding_def)
qed

lemma hour_serialize_ok:
  assumes "hour_vars_ok P h" and "never_fails m"
  defines "h' \<equiv> h\<lparr>hour_checksum := hour_sum h\<rparr>"
  shows "returns (hour_serialize h m) (\<lambda>(out, h1, m'). out = Some (hour_encoding h') \<and> h1 = h' \<and> alloc_mono m m')"
proof -
  have n: "unat (variable_count h) = length (variables h)" and v: "\<forall>v\<in>set (variables h). variable_ok P v"
    using assms(1) by (simp_all add: hour_vars_ok_def)
  have size: "size_loop h 0 11 = Some (11 + length (concat (map variable_encoding (variables h))))"
    using size_loop_ok [OF n v, of "[]"] by simp
  have loop: "serialize_loop h' (11 + length (concat (map variable_encoding (variables h)))) 0 out =
      Some (out @ concat (map variable_encoding (variables h)))" if "length out = 11" for out
    using serialize_loop_ok [of h' "variables h" P "[]" out] n v that by (simp add: h'_def)
  show ?thesis
    using assms(2) loop
    by (simp add: hour_serialize_def size hour_calculate_checksum_ok [OF assms(1)] serialize_def hour_encoding_def h'_def Let_def)
qed


section \<open>Adding a variable\<close>

definition has_variable :: "DataHour \<Rightarrow> u16 \<Rightarrow> bool" where
  "has_variable h vid \<longleftrightarrow> (\<exists>v\<in>set (variables h). var_id (variable_info v) = vid)"

definition empty_variable :: "VariableInfo \<Rightarrow> Variable" where
  "empty_variable info = \<lparr>variable_info = info, var_data = replicate (unat (samples_per_hour info)) VALUE_EMPTY\<rparr>"

definition add_variable :: "VariableInfo \<Rightarrow> DataHour \<Rightarrow> DataHour" where
  "add_variable info h = h\<lparr>variables := variables h @ [empty_variable info], variable_count := variable_count h + 1\<rparr>"

text \<open>The result of \<open>hour_add_variable\<close> on a well-formed hour.\<close>

definition add_variable_err :: "'w platform \<Rightarrow> DataHour \<Rightarrow> VariableInfo \<Rightarrow> zejf_err" where
  "add_variable_err P h info =
     (if samples_per_hour info = 0 \<or> SAMPLE_RATE_MAX P < samples_per_hour info then ZEJF_ERR_INVALID_SAMPLE_RATE
      else if variable_count h = VARIABLES_MAX P then ZEJF_ERR_VARIABLES_MAX
      else if has_variable h (var_id info) then ZEJF_ERR_VARIABLE_ALREADY_EXISTS
      else ZEJF_OK)"

lemma count_room:
  assumes "variable_count h \<le> VARIABLES_MAX P" and "variable_count h \<noteq> VARIABLES_MAX P"
  shows "unat (variable_count h + 1) = Suc (unat (variable_count h))" "variable_count h + 1 \<le> VARIABLES_MAX P"
proof -
  have lt: "unat (variable_count h) < unat (VARIABLES_MAX P)"
    using assms by (simp add: word_le_nat_alt word_unat_eq_iff)
  then have "variable_count h + 1 \<noteq> 0"
    using unat_bound [of "VARIABLES_MAX P"] by (auto simp: unat_eq_0 [symmetric] unat_word_ariths)
  then show u: "unat (variable_count h + 1) = Suc (unat (variable_count h))" by (rule unat_Suc_word)
  with lt show "variable_count h + 1 \<le> VARIABLES_MAX P" by (simp add: word_le_nat_alt)
qed

lemma add_variable_ok:
  assumes "hour_vars_ok P h" and "add_variable_err P h info = ZEJF_OK"
  shows "hour_vars_ok P (add_variable info h)"
proof -
  from assms(2) have rate: "samples_per_hour info \<noteq> 0" "samples_per_hour info \<le> SAMPLE_RATE_MAX P"
    and room: "variable_count h \<noteq> VARIABLES_MAX P" and new: "\<not> has_variable h (var_id info)"
    by (auto simp: add_variable_err_def not_less split: if_splits)
  have "variable_count h \<le> VARIABLES_MAX P" using assms(1) by (simp add: hour_vars_ok_def)
  note c = count_room [OF this room]
  show ?thesis using assms(1) rate new c
    by (auto simp: hour_vars_ok_def add_variable_def empty_variable_def variable_ok_def has_variable_def)
qed

lemma hour_add_variable_ok:
  assumes "hour_vars_ok P h" and "never_fails m"
  shows "returns (hour_add_variable P h info m) (\<lambda>(e, h', m'). e = add_variable_err P h info \<and> alloc_mono m m' \<and>
     h' = (if e = ZEJF_OK then add_variable info h else h) \<and> hour_vars_ok P h')"
proof -
  have n: "unat (variable_count h) = length (variables h)" using assms(1) by (simp add: hour_vars_ok_def)
  have mono: "alloc_mono m (m\<lparr>next_addr := Suc (Suc (next_addr m))\<rparr>)" by (simp add: alloc_mono_def)
  show ?thesis
    using assms(1,2) n mono add_variable_ok [OF assms(1), of info]
    by (auto simp: hour_add_variable_def add_variable_err_def Let_def has_variable_def add_variable_def empty_variable_def)
qed

section \<open>Reading an hour\<close>

text \<open>Reading never goes wrong, whatever the bytes.\<close>

lemma deserialize_loop_safe:
  assumes "hour_vars_ok P h" and "never_fails m"
  shows "returns (deserialize_loop P n h bs m) (\<lambda>(r, m'). alloc_mono m m' \<and>
     (case r of Inl h' \<Rightarrow> hour_vars_ok P h' | Inr (h', bs') \<Rightarrow> hour_vars_ok P h' \<and> hour_id h' = hour_id h))"
  using assms
proof (induction n arbitrary: h bs m)
  case 0
  then show ?case by simp
next
  case (Suc n)
  have loop: "returns (do { let k = unat (variable_count h') - 1; var \<leftarrow> arr_get (variables h') k;
       (case deserialize (4 * unat (u32_of sb)) bs' of
          None \<Rightarrow> Some (Inl h', m')
        | Some (db, bs) \<Rightarrow>
            deserialize_loop P n (h'\<lparr>variables := (variables h')[k := var\<lparr>var_data := floats_of (unat (u32_of sb)) db\<rparr>]\<rparr>) bs m') })
     (\<lambda>(r, m'). alloc_mono m m' \<and>
       (case r of Inl h' \<Rightarrow> hour_vars_ok P h' | Inr (h', bs') \<Rightarrow> hour_vars_ok P h' \<and> hour_id h' = hour_id h))"
    if h': "h' = add_variable \<lparr>samples_per_hour = u32_of sb, var_id = i\<rparr> h" "hour_vars_ok P h'" and m': "alloc_mono m m'"
    for h' sb i bs' m'
  proof -
    have n: "unat (variable_count h') = length (variables h')" using h'(2) by (simp add: hour_vars_ok_def)
    have "hour_vars_ok P (h'\<lparr>variables := variables h @ [(empty_variable \<lparr>samples_per_hour = u32_of sb, var_id = i\<rparr>)
        \<lparr>var_data := floats_of (unat (u32_of sb)) db\<rparr>]\<rparr>)" for db
      using h' by (simp add: hour_vars_ok_def add_variable_def empty_variable_def variable_ok_def)
    moreover have "never_fails m'" using Suc.prems(2) m' alloc_mono_never_fails by blast
    ultimately show ?thesis
      using n h' m' Suc.IH
      by (auto simp: Let_def add_variable_def nth_append list_update_append split: option.splits sum.splits
          intro!: returns_weaken [OF Suc.IH] intro: alloc_mono_trans)
  qed
  show ?case
    using Suc.prems
    by (auto simp: Let_def split: option.splits
        intro!: returns_bindI [OF hour_add_variable_ok [OF Suc.prems]] loop [unfolded Let_def One_nat_def])
qed


lemma hour_deserialize_safe:
  assumes "never_fails m"
  shows "returns (hour_deserialize P data m) (\<lambda>(r, m'). alloc_mono m m' \<and> (\<forall>h. r = Some h \<longrightarrow> hour_vars_ok P h \<and> next_addr m < next_addr m'))"
proof (cases data)
  case None
  then show ?thesis by (simp add: hour_deserialize_def)
next
  case (Some bs)
  let ?m = "m\<lparr>next_addr := Suc (next_addr m)\<rparr>"
  have zero: "hour_vars_ok P \<lparr>hour_id = i, hour_checksum = c, variable_count = 0, hour_flags = f, variables = []\<rparr>" for i c f by (simp add: hour_vars_ok_def)
  have nf: "never_fails ?m" using assms by simp
  have loop: "returns (do {
       (r, m) \<leftarrow> deserialize_loop P n \<lparr>hour_id = i, hour_checksum = c, variable_count = 0, hour_flags = f, variables = []\<rparr> bs ?m;
       (case r of
          Inl hour \<Rightarrow> do { _ \<leftarrow> hour_destroy hour; Some (None, m) }
        | Inr (hour, bs) \<Rightarrow>
            do {
              good \<leftarrow> (if bs = [] then do { cs \<leftarrow> hour_calculate_checksum hour; Some (cs = hour_checksum hour) } else Some False);
              (if good then Some (Some hour, m) else do { _ \<leftarrow> hour_destroy hour; Some (None, m) })
            }) }) (\<lambda>(r, m'). alloc_mono m m' \<and> (\<forall>h. r = Some h \<longrightarrow> hour_vars_ok P h \<and> next_addr m < next_addr m'))" for n i c f bs
    by (rule returns_bindI [OF deserialize_loop_safe [OF zero nf]])
      (auto simp: hour_calculate_checksum_ok [of P] alloc_mono_def split: sum.splits)
  show ?thesis
    unfolding Some hour_deserialize_def hour_create_def using assms loop hour_destroy_ok [OF zero]
    by (auto split: option.split)
qed

text \<open>What was written is read back.\<close>

lemma deserialize_loop_encoding:
  assumes "hour_vars_ok P h" and "variables h = pre @ vs" and "never_fails m"
  shows "returns (deserialize_loop P (length vs) (h\<lparr>variables := pre, variable_count := of_nat (length pre)\<rparr>)
       (concat (map variable_encoding vs)) m) (\<lambda>(r, m'). r = Inr (h, []) \<and> alloc_mono m m')"
  using assms
proof (induction vs arbitrary: pre m)
  case Nil
  then have "unat (variable_count h) = length pre" by (simp add: hour_vars_ok_def)
  then have "of_nat (length pre) = variable_count h" using unat_bound [of "variable_count h"] by (simp add: word_unat_eq_iff unat_of_nat)
  with Nil show ?case by simp
next
  case (Cons v vs)
  let ?h = "h\<lparr>variables := pre, variable_count := of_nat (length pre)\<rparr>" and ?i = "variable_info v"
  have c: "unat (variable_count h) = length pre + Suc (length vs)" "variable_count h \<le> VARIABLES_MAX P"
    and v: "variable_ok P v" and d: "\<forall>w\<in>set pre. var_id (variable_info w) \<noteq> var_id ?i"
    using Cons.prems by (auto simp: hour_vars_ok_def image_iff)
  have lt: "length pre < 2 ^ 16" using c(1) unat_bound [of "variable_count h"] by simp
  have u: "unat (of_nat (length pre) :: u16) = length pre" using lt by (simp add: unat_of_nat)
  have ok: "hour_vars_ok P ?h"
    using Cons.prems(1,2) u c by (simp add: hour_vars_ok_def word_le_nat_alt)
  have "of_nat (length pre) \<noteq> VARIABLES_MAX P" using c u by (auto simp: word_le_nat_alt)
  then have err: "add_variable_err P ?h ?i = ZEJF_OK"
    using v d by (auto simp: add_variable_err_def variable_ok_def has_variable_def)
  have info: "\<lparr>samples_per_hour = samples_per_hour ?i, var_id = var_id ?i\<rparr> = ?i" by simp
  let ?h1 = "add_variable ?i ?h"
  have n1: "unat (variable_count ?h1) = Suc (length pre)"
    using add_variable_ok [OF ok err] by (simp add: hour_vars_ok_def add_variable_def)
  have step: "returns (deserialize_loop P (length vs) (h\<lparr>variables := pre @ [v], variable_count := of_nat (length (pre @ [v]))\<rparr>)
      (concat (map variable_encoding vs)) m') (\<lambda>(r, m'). r = Inr (h, []) \<and> alloc_mono m m')" if "alloc_mono m m'" for m'
    using Cons.IH [of "pre @ [v]" m'] Cons.prems that alloc_mono_never_fails [OF that]
    by (auto elim!: returns_weaken intro: alloc_mono_trans)
  have put: "?h1\<lparr>variables := (variables ?h1)[length pre := (empty_variable ?i)\<lparr>var_data := var_data v\<rparr>]\<rparr> =
      h\<lparr>variables := pre @ [v], variable_count := of_nat (length (pre @ [v]))\<rparr>"
    by (simp add: add_variable_def empty_variable_def)
  have data: "floats_of (unat (samples_per_hour ?i)) (concat (map bytes_u32 (var_data v))) = var_data v"
    using v floats_of_concat [of "var_data v"] by (simp add: variable_ok_def)
  have len: "length (concat (map bytes_u32 (var_data v))) = 4 * unat (samples_per_hour ?i)"
    using v by (simp add: variable_ok_def)
  have enc: "concat (map variable_encoding (v # vs)) = bytes_u32 (samples_per_hour ?i) @ bytes_u16 (var_id ?i) @
      concat (map bytes_u32 (var_data v)) @ concat (map variable_encoding vs)" by (simp add: variable_encoding_def)
  show ?case
    unfolding enc list.size add_Suc_right deserialize_loop.simps add_0_right
    by (simp add: info, rule returns_bindI [OF hour_add_variable_ok [OF ok Cons.prems(3), of ?i]])
      (use err step n1 put data len in \<open>auto simp: add_variable_def nth_append\<close>)
qed


lemma hour_deserialize_encoding:
  assumes "hour_vars_ok P h" and "hour_checksum h = hour_sum h" and "never_fails m"
  shows "returns (hour_deserialize P (Some (hour_encoding h)) m) (\<lambda>(r, m'). r = Some h \<and> alloc_mono m m')"
proof -
  let ?m = "m\<lparr>next_addr := Suc (next_addr m)\<rparr>" and ?h0 = "h\<lparr>variables := [], variable_count := 0\<rparr>"
  have n: "unat (variable_count h) = length (variables h)" using assms(1) by (simp add: hour_vars_ok_def)
  have h0: "\<lparr>hour_id = hour_id h, hour_checksum = hour_checksum h, variable_count = 0, hour_flags = hour_flags h, variables = []\<rparr> = ?h0"
    by simp
  have loop: "returns (deserialize_loop P (length (variables h)) ?h0 (concat (map variable_encoding (variables h))) ?m)
      (\<lambda>(r, m'). r = Inr (h, []) \<and> alloc_mono ?m m')"
    using deserialize_loop_encoding [of P h "[]" "variables h" ?m] assms by simp
  then obtain m' where m': "deserialize_loop P (length (variables h)) ?h0 (concat (map variable_encoding (variables h))) ?m =
      Some (Inr (h, []), m')" "alloc_mono ?m m'" by (auto simp: returns_iff)
  have one: "deserialize (Suc 0) (x # xs) = Some ([x], xs)" for x :: u8 and xs by (simp add: deserialize_def)
  show ?thesis
    using assms(3) m' hour_calculate_checksum_ok [OF assms(1)]
    by (simp add: hour_deserialize_def hour_encoding_def hour_create_def one n h0 assms(2) [symmetric] alloc_mono_def)
qed

lemma variable_from_ok:
  assumes "hour_vars_ok P h"
  shows "i \<le> length (variables h) \<Longrightarrow>
    variable_from h vid i = Some (find (\<lambda>k. var_id (variable_info (variables h ! k)) = vid) [i..<length (variables h)])"
proof (induction "length (variables h) - i" arbitrary: i)
  case 0
  with assms show ?case by (subst variable_from.simps) (simp add: hour_vars_ok_def)
next
  case (Suc n)
  then have "variable_from h vid (Suc i) = Some (find (\<lambda>k. var_id (variable_info (variables h ! k)) = vid) [Suc i..<length (variables h)])"
    by simp
  moreover have "i < length (variables h)" using Suc(2) by simp
  ultimately show ?case using assms by (subst variable_from.simps) (simp add: hour_vars_ok_def upt_conv_Cons)
qed

text \<open>\<open>get_variable\<close> finds the variable with the id, when there is one.\<close>

lemma get_variable_ok:
  assumes "hour_vars_ok P h"
  shows "returns (get_variable h vid) (\<lambda>r. (r = None \<longleftrightarrow> \<not> has_variable h vid) \<and>
     (\<forall>k. r = Some k \<longrightarrow> k < length (variables h) \<and> var_id (variable_info (variables h ! k)) = vid))"
proof -
  have eq: "get_variable h vid = Some (find (\<lambda>k. var_id (variable_info (variables h ! k)) = vid) [0..<length (variables h)])"
    unfolding get_variable_def using variable_from_ok [OF assms, of 0] by simp
  show ?thesis
    unfolding eq returns_Some
    using find_index_None [of "\<lambda>v. var_id (variable_info v) = vid" "variables h"]
      find_index_Some [of "\<lambda>v. var_id (variable_info v) = vid" "variables h"]
    by (auto simp: has_variable_def)
qed


section \<open>Codecs\<close>

text \<open>
  The interface between the code that stores or sends objects and the formats they are written in:
  what is encoded decodes to itself, so two valid objects with the same encoding are equal.
\<close>

locale codec =
  fixes valid :: "'a \<Rightarrow> bool"
    and encode :: "'a \<Rightarrow> 'b"
    and decode :: "'b \<Rightarrow> 'a option"
  assumes decode_encode: "valid x \<Longrightarrow> decode (encode x) = Some x"
begin

lemma encode_inj: "valid x \<Longrightarrow> valid y \<Longrightarrow> encode x = encode y \<Longrightarrow> x = y"
  by (metis decode_encode option.inject)

lemma encode_inj_on: "inj_on encode {x. valid x}"
  by (rule inj_onI) (auto intro: encode_inj)

end

definition stored_hour :: "'w platform \<Rightarrow> DataHour \<Rightarrow> bool" where
  "stored_hour P h \<longleftrightarrow> hour_vars_ok P h \<and> hour_checksum h = hour_sum h"

text \<open>Reading with a heap that serves every request.\<close>

definition hour_decode :: "'w platform \<Rightarrow> u8 list \<Rightarrow> DataHour option" where
  "hour_decode P bs =
     (case hour_deserialize P (Some bs) \<lparr>alloc_ok = (\<lambda>_. True), next_addr = 0\<rparr> of None \<Rightarrow> None | Some (r, _) \<Rightarrow> r)"

lemma hour_decode_encoding: "stored_hour P h \<Longrightarrow> hour_decode P (hour_encoding h) = Some h"
proof -
  let ?m = "\<lparr>alloc_ok = (\<lambda>_. True), next_addr = 0\<rparr>"
  assume "stored_hour P h"
  then have "returns (hour_deserialize P (Some (hour_encoding h)) ?m) (\<lambda>(r, m'). r = Some h \<and> alloc_mono ?m m')"
    by (intro hour_deserialize_encoding) (simp_all add: stored_hour_def never_fails_def)
  then obtain m' where "hour_deserialize P (Some (hour_encoding h)) ?m = Some (Some h, m')"
    unfolding returns_iff by blast
  then show ?thesis unfolding hour_decode_def by simp
qed

interpretation hour_codec: codec "stored_hour P" hour_encoding "hour_decode P" for P :: "'w platform"
  by unfold_locales (rule hour_decode_encoding)

section \<open>Properties\<close>

definition sample_hour :: DataHour where
  "sample_hour =
     \<lparr>hour_id = 470000, hour_checksum = 0, variable_count = 1, hour_flags = 1,
      variables = [\<lparr>variable_info = \<lparr>samples_per_hour = 2, var_id = 7\<rparr>, var_data = [0x41A40000, VALUE_EMPTY]\<rparr>]\<rparr>"

lemma sample_hour_ok [simp]: "hour_vars_ok meteo_settings sample_hour"
  by (simp add: sample_hour_def hour_vars_ok_def variable_ok_def word_le_nat_alt)

text \<open>
  C17: hours survive storage.  What \<open>hour_serialize\<close> writes for a well-formed hour fills
  exactly the buffer it allocates, and \<open>hour_deserialize\<close> reads it back as the same hour: the same
  id, flags, variables and samples, and the checksum that was computed.
\<close>

theorem hour_roundtrip:
  assumes "hour_vars_ok P h" and "never_fails m"
  shows "returns (do { (out, h', m) \<leftarrow> hour_serialize h m; (r, m) \<leftarrow> hour_deserialize P out m; Some (r, h') })
    (\<lambda>(r, h'). r = Some h' \<and> h' = h\<lparr>hour_checksum := hour_sum h\<rparr>)"
proof (rule returns_bindI [OF hour_serialize_ok [OF assms]], clarify)
  fix m'
  assume "alloc_mono m m'"
  then have nf: "never_fails m'" using assms(2) alloc_mono_never_fails by blast
  have "returns (hour_deserialize P (Some (hour_encoding (h\<lparr>hour_checksum := hour_sum h\<rparr>))) m')
      (\<lambda>(r, m''). r = Some (h\<lparr>hour_checksum := hour_sum h\<rparr>) \<and> alloc_mono m' m'')"
    by (rule hour_deserialize_encoding [OF _ _ nf]) (use assms(1) in \<open>simp_all add: hour_sum_def\<close>)
  then show "returns (do { (r, m) \<leftarrow> hour_deserialize P (Some (hour_encoding (h\<lparr>hour_checksum := hour_sum h\<rparr>))) m';
      Some (r, h\<lparr>hour_checksum := hour_sum h\<rparr>) }) (\<lambda>(r, h'). r = Some h' \<and> h' = h\<lparr>hour_checksum := hour_sum h\<rparr>)"
    by (auto simp: returns_iff)
qed

theorem hour_roundtrip_witness:
  "returns (do { (out, h', m) \<leftarrow> hour_serialize sample_hour \<lparr>alloc_ok = (\<lambda>_. True), next_addr = 0\<rparr>;
                 (r, m) \<leftarrow> hour_deserialize meteo_settings out m; Some (r, h') })
     (\<lambda>(r, h'). \<exists>h. r = Some h \<and> variables h = variables sample_hour)"
  by (rule returns_weaken [OF hour_roundtrip]) (auto simp: never_fails_def)

text \<open>
  C18: no file can break the reader.  \<open>hour_deserialize\<close> returns on every sequence of bytes,
  without reading or writing outside a buffer, and what it accepts is a well-formed hour: as many
  variables as its count says, at most \<open>VARIABLES_MAX\<close>, with different ids, valid sample rates and
  full arrays.
\<close>

theorem hour_read_robust:
  assumes "never_fails m"
  shows "returns (hour_deserialize P data m) (\<lambda>(r, m'). alloc_mono m m' \<and> (\<forall>h. r = Some h \<longrightarrow> hour_vars_ok P h))"
  by (rule returns_weaken [OF hour_deserialize_safe [OF assms]]) auto

theorem hour_read_robust_witness:
  "returns (hour_deserialize (meteo_settings :: unit platform) (Some [1, 2, 3, 255]) \<lparr>alloc_ok = (\<lambda>_. True), next_addr = 0\<rparr>)
     (\<lambda>(r, m'). \<forall>h. r = Some h \<longrightarrow> hour_vars_ok (meteo_settings :: unit platform) h)"
  by (rule returns_weaken [OF hour_read_robust]) (auto simp: never_fails_def)

text \<open>
  The exhausted heap.  When the array of variables can be extended but the samples of the new variable
  cannot be allocated, \<open>hour_add_variable\<close> frees the array and keeps the pointer: saving or
  destroying an hour that had variables is undefined behaviour afterwards.
\<close>

theorem hour_add_variable_dangling:
  assumes "hour_vars_ok P h" and "variables h \<noteq> []" and "add_variable_err P h info = ZEJF_OK"
    and "alloc_ok m (next_addr m)" and "\<not> alloc_ok m (Suc (next_addr m))"
  shows "\<exists>h' m'. hour_add_variable P h info m = Some (ZEJF_ERR_OUT_OF_MEMORY, h', m') \<and>
    hour_destroy h' = None \<and> hour_serialize h' m'' = None"
proof -
  have n: "unat (variable_count h) = length (variables h)" using assms(1) by (simp add: hour_vars_ok_def)
  with assms(2) have pos: "0 < unat (variable_count h)" by simp
  have add: "hour_add_variable P h info m = Some (ZEJF_ERR_OUT_OF_MEMORY, h\<lparr>variables := []\<rparr>, m\<lparr>next_addr := Suc (Suc (next_addr m))\<rparr>)"
    using assms(3-5) n
    by (auto simp: hour_add_variable_def add_variable_err_def has_variable_def malloc_def split: if_splits)
  have "size_loop (h\<lparr>variables := []\<rparr>) 0 DATAHOUR_BYTES = None" using pos by (subst size_loop.simps) simp
  then have "hour_serialize (h\<lparr>variables := []\<rparr>) m'' = None" by (simp add: hour_serialize_def)
  moreover have "hour_destroy (h\<lparr>variables := []\<rparr>) = None" using pos by (simp add: hour_destroy_def)
  ultimately show ?thesis using add by blast
qed

theorem hour_add_variable_dangling_witness:
  "\<exists>h' m'. hour_add_variable meteo_settings sample_hour \<lparr>samples_per_hour = 3, var_id = 8\<rparr>
       \<lparr>alloc_ok = (\<lambda>n. n \<noteq> 1), next_addr = 0\<rparr> = Some (ZEJF_ERR_OUT_OF_MEMORY, h', m') \<and>
     hour_destroy h' = None \<and> hour_serialize h' \<lparr>alloc_ok = (\<lambda>n. True), next_addr = 0\<rparr> = None"
  by (rule hour_add_variable_dangling)
    (simp_all, simp_all add: add_variable_err_def has_variable_def sample_hour_def word_less_nat_alt)

end
