(* ===== verification/Data_Info.thy ===== *)
theory Data_Info
  imports Data_Hour
begin

text \<open>
  The announcements of \<open>api/zejf_api/src/data_info.c\<close>: which variables this device provides and
  demands, what the other devices provide, demand and subscribe to, and sending a logged value to
  them.  \<open>process_data_log\<close>, which writes into the hour cache, is in theory \<open>Data_Store\<close>.
\<close>

section \<open>Operations\<close>

text \<open>
  The common tail of the functions that send a text: print it, make the packet, send it.  The two
  errors are what the function returns when printing fails and when there is no memory.
\<close>

definition send_text ::
  "'w platform \<Rightarrow> zejf_err \<Rightarrow> zejf_err \<Rightarrow> u16 \<Rightarrow> u8 \<Rightarrow> string \<Rightarrow> u32 \<Rightarrow> 'w zejf \<Rightarrow> (zejf_err \<times> 'w zejf) option"
where
  "send_text P print_err null_err to' cmd txt' time s =
     (case snprintf (PACKET_MAX_LENGTH P) txt' of
        (msg, rv) \<Rightarrow>
          if rv \<le> 0 then Some (print_err, s)
          else do {
            (packet, s) \<leftarrow> network_prepare_packet P to' cmd (Some msg) s;
            (if packet = None then Some (null_err, s) else network_send_packet P packet time s)
          })"

definition provide_text :: "VariableInfo \<Rightarrow> string" where
  "provide_text info = show_uint (var_id info) @ ''@'' @ show_uint (samples_per_hour info)"

definition p_send_provide :: "'w platform \<Rightarrow> VariableInfo \<Rightarrow> u32 \<Rightarrow> 'w zejf \<Rightarrow> (zejf_err \<times> 'w zejf) option" where
  "p_send_provide P info time s =
     send_text P ZEJF_ERR_GENERIC ZEJF_ERR_NULL BROADCAST DATA_PROVIDE (provide_text info) time s"

primrec provide_loop ::
  "'w platform \<Rightarrow> VariableInfo list \<Rightarrow> nat \<Rightarrow> u32 \<Rightarrow> 'w zejf \<Rightarrow> (zejf_err \<times> 'w zejf) option"
where
  "provide_loop P vs 0 time s = Some (ZEJF_OK, s)"
| "provide_loop P vs (Suc max_count) time s =
     do {
       v \<leftarrow> arr_get vs (unat (provide_ptr s));
       (rv, s) \<leftarrow> p_send_provide P v time s;
       (if rv \<noteq> ZEJF_OK then Some (rv, s)
        else
          let s = s\<lparr>provide_ptr := (provide_ptr s + 1) mod of_nat (length vs)\<rparr>
          in if provide_ptr s = 0 then Some (ZEJF_OK, s) else provide_loop P vs max_count time s)
     }"

definition network_send_provide_info :: "'w platform \<Rightarrow> u32 \<Rightarrow> 'w zejf \<Rightarrow> (zejf_err \<times> 'w zejf) option" where
  "network_send_provide_info P time s =
     (case get_provided_variables P (world s) of
        None \<Rightarrow> Some (ZEJF_ERR_GENERIC, s)
      | Some vs \<Rightarrow>
          if vs = [] then Some (ZEJF_ERR_GENERIC, s)
          else do {
            let s = (if of_nat (length vs) \<le> provide_ptr s then s\<lparr>provide_ptr := 0\<rparr> else s);
            max_count \<leftarrow> allocate_packet_queue PRIORITY_MEDIUM s;
            provide_loop P vs max_count time s
          })"

definition p_send_demand :: "'w platform \<Rightarrow> u16 \<Rightarrow> u32 \<Rightarrow> 'w zejf \<Rightarrow> (zejf_err \<times> 'w zejf) option" where
  "p_send_demand P var time s =
     send_text P ZEJF_ERR_GENERIC ZEJF_ERR_NULL BROADCAST DATA_DEMAND (show_uint var) time s"

primrec demand_loop ::
  "'w platform \<Rightarrow> u16 list \<Rightarrow> nat \<Rightarrow> u32 \<Rightarrow> 'w zejf \<Rightarrow> (zejf_err \<times> 'w zejf) option"
where
  "demand_loop P vs 0 time s = Some (ZEJF_OK, s)"
| "demand_loop P vs (Suc max_count) time s =
     do {
       v \<leftarrow> arr_get vs (unat (demand_ptr s));
       (rv, s) \<leftarrow> p_send_demand P v time s;
       (if rv \<noteq> ZEJF_OK then Some (rv, s)
        else
          let s = s\<lparr>demand_ptr := (demand_ptr s + 1) mod of_nat (length vs)\<rparr>
          in if demand_ptr s = 0 then Some (ZEJF_OK, s) else demand_loop P vs max_count time s)
     }"

definition network_send_demand_info :: "'w platform \<Rightarrow> u32 \<Rightarrow> 'w zejf \<Rightarrow> (zejf_err \<times> 'w zejf) option" where
  "network_send_demand_info P time s =
     (case get_demanded_variables P (world s) of
        None \<Rightarrow> Some (ZEJF_ERR_GENERIC, s)
      | Some vs \<Rightarrow>
          if vs = [] then Some (ZEJF_ERR_GENERIC, s)
          else do {
            let s = (if of_nat (length vs) \<le> demand_ptr s then s\<lparr>demand_ptr := 0\<rparr> else s);
            max_count \<leftarrow> allocate_packet_queue PRIORITY_MEDIUM s;
            demand_loop P vs max_count time s
          })"

definition demand_decode :: "string \<Rightarrow> u16 option" where
  "demand_decode t = (case sscanf [U 16] t of [UVal v] \<Rightarrow> Some (of_nat v) | _ \<Rightarrow> None)"

definition process_data_demand :: "Packet \<Rightarrow> 'w zejf \<Rightarrow> (zejf_err \<times> 'w zejf) option" where
  "process_data_demand packet s =
     (case message packet of
        None \<Rightarrow> Some (ZEJF_ERR_NULL, s)
      | Some t \<Rightarrow>
          do {
            found \<leftarrow> routing_entry_find (pkt_from packet) s;
            (case found of
               None \<Rightarrow> Some (ZEJF_ERR_NULL, s)
             | Some k \<Rightarrow>
                 (case demand_decode t of
                    None \<Rightarrow> Some (ZEJF_ERR_GENERIC, s)
                  | Some variable \<Rightarrow>
                      do {
                        entry \<leftarrow> entry_at s k;
                        (rv, entry, s) \<leftarrow> routing_entry_add_demanded_variable entry variable s;
                        s \<leftarrow> set_entry s k (Some entry);
                        Some (rv, s)
                      }))
          })"

definition provide_decode :: "string \<Rightarrow> VariableInfo option" where
  "provide_decode t =
     (case sscanf [U 16, L CHR ''@'', U 32] t of
        [UVal i, UVal n] \<Rightarrow> Some \<lparr>samples_per_hour = of_nat n, var_id = of_nat i\<rparr> | _ \<Rightarrow> None)"

definition process_data_provide :: "Packet \<Rightarrow> 'w zejf \<Rightarrow> (zejf_err \<times> 'w zejf) option" where
  "process_data_provide packet s =
     (case message packet of
        None \<Rightarrow> Some (ZEJF_ERR_NULL, s)
      | Some t \<Rightarrow>
          do {
            found \<leftarrow> routing_entry_find (pkt_from packet) s;
            (case found of
               None \<Rightarrow> Some (ZEJF_ERR_NULL, s)
             | Some k \<Rightarrow>
                 (case provide_decode t of
                    None \<Rightarrow> Some (ZEJF_ERR_GENERIC, s)
                  | Some var_info \<Rightarrow>
                      do {
                        entry \<leftarrow> entry_at s k;
                        (rv, entry, s) \<leftarrow> routing_entry_add_provided_variable entry var_info s;
                        s \<leftarrow> set_entry s k (Some entry);
                        Some (rv, s)
                      }))
          })"

definition process_data_subscribe :: "Packet \<Rightarrow> 'w zejf \<Rightarrow> (zejf_err \<times> 'w zejf) option" where
  "process_data_subscribe packet s =
     do {
       found \<leftarrow> routing_entry_find (pkt_from packet) s;
       (case found of
          None \<Rightarrow> Some (ZEJF_ERR_NULL, s)
        | Some k \<Rightarrow>
            do {
              entry \<leftarrow> entry_at s k;
              s \<leftarrow> set_entry s k (Some (entry\<lparr>subscribed := True\<rparr>));
              Some (ZEJF_OK, s)
            })
     }"

definition log_text :: "VariableInfo \<Rightarrow> u32 \<Rightarrow> u32 \<Rightarrow> u32 \<Rightarrow> string" where
  "log_text variable hour_number sample_num val =
     show_uint (var_id variable) @ '','' @ show_uint (samples_per_hour variable) @ '','' @
     show_uint hour_number @ '','' @ show_uint sample_num @ '','' @ show_float4 val"

definition data_send_log ::
  "'w platform \<Rightarrow> u16 \<Rightarrow> VariableInfo \<Rightarrow> u32 \<Rightarrow> u32 \<Rightarrow> u32 \<Rightarrow> u32 \<Rightarrow> 'w zejf \<Rightarrow> (zejf_err \<times> 'w zejf) option"
where
  "data_send_log P to' variable hour_number sample_num val time s =
     send_text P ZEJF_ERR_PACKET_FORMAT ZEJF_ERR_NULL to' DATA_LOG
       (log_text variable hour_number sample_num val) time s"

text \<open>The loops of \<open>network_announce_log\<close> and \<open>network_broadcast_log\<close>, which differ in the test.\<close>

partial_function (option) log_loop ::
  "'w platform \<Rightarrow> (RoutingEntry \<Rightarrow> bool option) \<Rightarrow> VariableInfo \<Rightarrow> u32 \<Rightarrow> u32 \<Rightarrow> u32 \<Rightarrow> u32 \<Rightarrow>
   nat \<Rightarrow> zejf_err \<Rightarrow> 'w zejf \<Rightarrow> (zejf_err \<times> 'w zejf) option"
where
  "log_loop P wants variable hour_number sample_num val time i result s =
     (if i < routing_table_top s
      then do {
        entry \<leftarrow> entry_at s i;
        wanted \<leftarrow> wants entry;
        (if wanted
         then do {
           (rv, s) \<leftarrow> data_send_log P (device_id entry) variable hour_number sample_num val time s;
           log_loop P wants variable hour_number sample_num val time (Suc i)
             (if rv \<noteq> ZEJF_OK then ZEJF_ERR_PARTIAL else result) s
         }
         else log_loop P wants variable hour_number sample_num val time (Suc i) result s)
      }
      else Some (result, s))"

definition demands :: "VariableInfo \<Rightarrow> RoutingEntry \<Rightarrow> bool option" where
  "demands variable entry =
     arr_any (\<lambda>var. var = ALL_VARIABLES \<or> var = var_id variable) (demanded_variables entry) (unat (demand_count entry))"

definition network_announce_log ::
  "'w platform \<Rightarrow> VariableInfo \<Rightarrow> u32 \<Rightarrow> u32 \<Rightarrow> u32 \<Rightarrow> u32 \<Rightarrow> 'w zejf \<Rightarrow> (zejf_err \<times> 'w zejf) option"
where
  "network_announce_log P target_variable hour_number sample_num val time s =
     log_loop P (demands target_variable) target_variable hour_number sample_num val time 0 ZEJF_OK s"

definition network_broadcast_log ::
  "'w platform \<Rightarrow> VariableInfo \<Rightarrow> u32 \<Rightarrow> u32 \<Rightarrow> u32 \<Rightarrow> u32 \<Rightarrow> 'w zejf \<Rightarrow> (zejf_err \<times> 'w zejf) option"
where
  "network_broadcast_log P target_variable hour_number sample_num val time s =
     log_loop P (\<lambda>entry. Some (subscribed entry)) target_variable hour_number sample_num val time 0 ZEJF_OK s"

section \<open>Sending texts\<close>

text \<open>The packet a text is sent in; a text that is too long is cut.\<close>

definition text_packet :: "'w platform \<Rightarrow> u16 \<Rightarrow> u8 \<Rightarrow> string \<Rightarrow> Packet" where
  "text_packet P to' cmd t = own_packet P to' cmd (Some (take (PACKET_MAX_LENGTH P - 1) t))"

lemma send_text_ok:
  assumes ok: "net_ok P s" and pl: "platform_ok P (interfaces s)" and "t \<noteq> []" and c: "cmd \<noteq> RIP" "cmd \<noteq> ID_REQUEST"
  shows "returns (send_text P e1 e2 d cmd t time s) (\<lambda>(e, s'). net_ok P s' \<and> tx_frame s s' \<and>
     (e, queue_items (tx_queue s')) = send_spec P (text_packet P d cmd t) time s)"
proof -
  let ?msg = "take (PACKET_MAX_LENGTH P - 1) t"
  have len: "length ?msg < 2 ^ 16" using pl by (auto simp: platform_ok_def)
  have send: "returns (network_send_packet P (Some (text_packet P d cmd t)) time s1) (\<lambda>(e, s'). net_ok P s' \<and> tx_frame s s' \<and>
     (e, queue_items (tx_queue s')) = send_spec P (text_packet P d cmd t) time s)" if f: "mem_frame s s1" for s1
  proof -
    have ok1: "net_ok P s1" and same: "interfaces s1 = interfaces s" "send_spec P p time s1 = send_spec P p time s" for p
      using f net_ok_mem [OF ok] by (auto elim!: mem_frameD simp: send_spec_def used_id_def)
    have "packet_ok P (interfaces s1) (text_packet P d cmd t)"
      unfolding text_packet_def by (rule packet_ok_own [OF pl]) (use len c in auto)
    then show ?thesis
      by (intro returns_weaken [OF send_own_ok [OF ok1]])
        (auto simp: same text_packet_def intro: tx_frame_trans [OF mem_tx_frame [OF f]])
  qed
  have prep: "returns (network_prepare_packet P d cmd (Some ?msg) s) (\<lambda>(p, s1). p = Some (text_packet P d cmd t) \<and> mem_frame s s1)"
    unfolding text_packet_def by (rule network_prepare_packet_ok [OF net_okD(1) [OF ok]]) (use len in auto)
  have "returns (do { (packet, s) \<leftarrow> network_prepare_packet P d cmd (Some ?msg) s;
      (if packet = None then Some (e2, s) else network_send_packet P packet time s) })
    (\<lambda>(e, s'). net_ok P s' \<and> tx_frame s s' \<and> (e, queue_items (tx_queue s')) = send_spec P (text_packet P d cmd t) time s)"
    by (rule returns_bindI [OF prep]) (use send in auto)
  with assms(3) show ?thesis by (simp add: send_text_def snprintf_def)
qed

lemma show_float4_not_Nil [simp]: "show_float4 v \<noteq> []"
  by (simp add: show_float4_def Let_def)

lemma data_send_log_ok:
  assumes "net_ok P s" and "platform_ok P (interfaces s)"
  shows "returns (data_send_log P d v h n val time s) (\<lambda>(e, s'). net_ok P s' \<and> tx_frame s s' \<and>
     (e, queue_items (tx_queue s')) = send_spec P (text_packet P d DATA_LOG (log_text v h n val)) time s)"
  unfolding data_send_log_def by (rule send_text_ok [OF assms]) (simp_all add: log_text_def)

lemma log_loop_safe:
  assumes "net_ok P s" and "platform_ok P (interfaces s)" and "table_entries s = pre @ es"
    and "\<And>e. e \<in> set es \<Longrightarrow> \<exists>b. wants e = Some b"
  shows "returns (log_loop P wants v h n val time (length pre) result s) (\<lambda>(e, s'). net_ok P s' \<and> tx_frame s s')"
  using assms
proof (induction es arbitrary: pre s result)
  case Nil
  then have "routing_table_top s = length pre" using net_okD(2) routing_ok_rep by (fastforce simp: table_rep_def)
  with Nil show ?case by (subst log_loop.simps) simp
next
  case (Cons e es)
  have rep: "table_rep P s (pre @ e # es)" using routing_ok_rep [OF net_okD(2) [OF Cons.prems(1)]] Cons.prems(3) by simp
  then have top: "length pre < routing_table_top s" by (simp add: table_rep_def)
  have at: "entry_at s (length pre) = Some e" using entry_at_rep [OF rep, of "length pre"] by simp
  obtain b where b: "wants e = Some b" using Cons.prems(4) by auto
  have step: "returns (log_loop P wants v h n val time (Suc (length pre)) r s1) (\<lambda>(e, s'). net_ok P s' \<and> tx_frame s s')"
    if "net_ok P s1" "tx_frame s s1" for r s1
    using Cons.IH [OF that(1), of "pre @ [e]" r] Cons.prems tx_frame_simps [OF that(2)] tx_frame_trans [OF that(2)]
    by (auto elim!: returns_weaken)
  have send: "returns (do { (rv, s) \<leftarrow> data_send_log P (device_id e) v h n val time s;
      log_loop P wants v h n val time (Suc (length pre)) (if rv \<noteq> ZEJF_OK then ZEJF_ERR_PARTIAL else result) s })
     (\<lambda>(e, s'). net_ok P s' \<and> tx_frame s s')"
    by (rule returns_bindI [OF data_send_log_ok [OF Cons.prems(1,2)]]) (auto intro!: step)
  show ?case using top at b send step [OF Cons.prems(1) tx_frame_refl] by (subst log_loop.simps) simp
qed

definition demands_var :: "u16 \<Rightarrow> RoutingEntry \<Rightarrow> bool" where
  "demands_var vid e \<longleftrightarrow> ALL_VARIABLES \<in> set (demanded_variables e) \<or> vid \<in> set (demanded_variables e)"

lemma demands_ok: "entry_ok ifs e \<Longrightarrow> demands v e = Some (demands_var (var_id v) e)"
  by (auto simp: demands_def demands_var_def entry_ok_def)

text \<open>The packets that carry a logged value to the devices of \<open>es\<close>.\<close>

definition log_packets :: "'w platform \<Rightarrow> VariableInfo \<Rightarrow> u32 \<Rightarrow> u32 \<Rightarrow> u32 \<Rightarrow> u32 \<Rightarrow> RoutingEntry list \<Rightarrow> Packet list" where
  "log_packets P v h n val time es =
     map (\<lambda>e. (text_packet P (device_id e) DATA_LOG (log_text v h n val))\<lparr>time_received := time, time_sent := 0\<rparr>) es"

lemma log_loop_exact:
  assumes "net_ok P s" and "platform_ok P (interfaces s)" and "table_entries s = pre @ es"
    and "\<And>e. e \<in> set es \<Longrightarrow> wants e = Some (w e)"
    and "length (queue_items (tx_queue s)) + length (filter w es) \<le> TX_QUEUE_SIZE P"
  shows "returns (log_loop P wants v h n val time (length pre) result s) (\<lambda>(e, s'). e = result \<and> net_ok P s' \<and> tx_frame s s' \<and>
     queue_items (tx_queue s') = queue_items (tx_queue s) @ log_packets P v h n val time (filter w es))"
  using assms
proof (induction es arbitrary: pre s)
  case Nil
  then have "routing_table_top s = length pre" using net_okD(2) routing_ok_rep by (fastforce simp: table_rep_def)
  with Nil show ?case by (subst log_loop.simps) (simp add: log_packets_def)
next
  case (Cons e es)
  have r: "routing_ok P s" by (rule net_okD(2) [OF Cons.prems(1)])
  have rep: "table_rep P s (pre @ e # es)" using routing_ok_rep [OF r] Cons.prems(3) by simp
  then have top: "length pre < routing_table_top s" by (simp add: table_rep_def)
  have at: "entry_at s (length pre) = Some e" using entry_at_rep [OF rep, of "length pre"] by simp
  have used: "used_id s (device_id e)" "device_id e \<noteq> DEVICE_ID P"
    using r Cons.prems(3) by (auto simp: used_id_def routing_ok_def)
  have step: "returns (log_loop P wants v h n val time (Suc (length pre)) result s1) (\<lambda>(e', s'). e' = result \<and> net_ok P s' \<and> tx_frame s s' \<and>
       queue_items (tx_queue s') = queue_items (tx_queue s1) @ log_packets P v h n val time (filter w es))"
    if "net_ok P s1" "tx_frame s s1" "length (queue_items (tx_queue s1)) + length (filter w es) \<le> TX_QUEUE_SIZE P" for s1
    using Cons.IH [OF that(1), of "pre @ [e]"] Cons.prems that(3) tx_frame_simps [OF that(2)] tx_frame_trans [OF that(2)]
    by (auto elim!: returns_weaken)
  show ?case
  proof (cases "w e")
    case False
    with top at Cons.prems step [OF Cons.prems(1) tx_frame_refl] show ?thesis by (subst log_loop.simps) simp
  next
    case True
    have "returns (do { (rv, s) \<leftarrow> data_send_log P (device_id e) v h n val time s;
        log_loop P wants v h n val time (Suc (length pre)) (if rv \<noteq> ZEJF_OK then ZEJF_ERR_PARTIAL else result) s })
       (\<lambda>(e', s'). e' = result \<and> net_ok P s' \<and> tx_frame s s' \<and>
          queue_items (tx_queue s') = queue_items (tx_queue s) @ log_packets P v h n val time (filter w (e # es)))"
      by (rule returns_bindI [OF data_send_log_ok [OF Cons.prems(1,2)]])
        (use True Cons.prems(5) used in \<open>auto simp: send_spec_def text_packet_def [symmetric] log_packets_def
          intro!: returns_weaken [OF step] simp: text_packet_def\<close>)
    with True top at Cons.prems show ?thesis by (subst log_loop.simps) simp
  qed
qed

section \<open>Announcing the variables\<close>

lemma tx_frame_ptr:
  assumes "tx_frame s s1"
  shows "tx_frame (s\<lparr>provide_ptr := x\<rparr>) (s1\<lparr>provide_ptr := x\<rparr>)" "tx_frame (s\<lparr>demand_ptr := x\<rparr>) (s1\<lparr>demand_ptr := x\<rparr>)"
proof -
  note D = tx_frame_simps [OF assms]
  have "s1\<lparr>provide_ptr := x\<rparr> = s\<lparr>provide_ptr := x, mem := mem s1, tx_queue := tx_queue s1\<rparr>"
    "s1\<lparr>demand_ptr := x\<rparr> = s\<lparr>demand_ptr := x, mem := mem s1, tx_queue := tx_queue s1\<rparr>"
    by (rule zejf.equality; simp add: D)+
  then show "tx_frame (s\<lparr>provide_ptr := x\<rparr>) (s1\<lparr>provide_ptr := x\<rparr>)" "tx_frame (s\<lparr>demand_ptr := x\<rparr>) (s1\<lparr>demand_ptr := x\<rparr>)"
    using assms unfolding tx_frame_def by simp_all
qed

lemma tx_frame_ptr_trans:
  assumes "tx_frame s s1"
  shows "tx_frame (s1\<lparr>provide_ptr := x\<rparr>) s2 \<Longrightarrow> tx_frame (s\<lparr>provide_ptr := x\<rparr>) s2"
    "tx_frame (s1\<lparr>demand_ptr := x\<rparr>) s2 \<Longrightarrow> tx_frame (s\<lparr>demand_ptr := x\<rparr>) s2"
  using tx_frame_ptr [OF assms, of x] tx_frame_trans by blast+

text \<open>The packets that announce provided and demanded variables.\<close>

definition stamped :: "u32 \<Rightarrow> Packet \<Rightarrow> Packet" where
  "stamped time p = p\<lparr>time_received := time, time_sent := 0\<rparr>"

definition provide_packets :: "'w platform \<Rightarrow> u32 \<Rightarrow> VariableInfo list \<Rightarrow> Packet list" where
  "provide_packets P time vs = map (\<lambda>v. stamped time (text_packet P BROADCAST DATA_PROVIDE (provide_text v))) vs"

definition demand_packets :: "'w platform \<Rightarrow> u32 \<Rightarrow> u16 list \<Rightarrow> Packet list" where
  "demand_packets P time vs = map (\<lambda>v. stamped time (text_packet P BROADCAST DATA_DEMAND (show_uint v))) vs"

text \<open>The position after \<open>k\<close> of \<open>n\<close> variables were announced from position \<open>i\<close> on.\<close>

definition round_robin :: "nat \<Rightarrow> nat \<Rightarrow> nat \<Rightarrow> nat" where
  "round_robin n i k = (if n \<le> i + k then 0 else i + k)"

lemma ptr_step:
  assumes "unat (p :: u16) < n" and "n < 2 ^ 16"
  shows "unat ((p + 1) mod of_nat n) = (if Suc (unat p) = n then 0 else Suc (unat p))"
proof -
  have n: "unat (of_nat n :: u16) = n" using assms(2) by (simp add: unat_of_nat)
  have "p + 1 \<noteq> 0" using assms by (auto simp: unat_eq_0 [symmetric] unat_word_ariths)
  then have "unat (p + 1) = Suc (unat p)" by (rule unat_Suc_word)
  then show ?thesis using assms(1) by (simp add: unat_mod n mod_Suc)
qed

lemma broadcast_spec:
  assumes "platform_ok P ifs" and "length (queue_items (tx_queue s)) < TX_QUEUE_SIZE P" and "pkt_to p = BROADCAST"
  shows "send_spec P p time s = (ZEJF_OK, queue_items (tx_queue s) @ [stamped time p])"
  using assms by (simp add: send_spec_def platform_ok_def stamped_def)

lemma text_packet_simps [simp]:
  "pkt_to (text_packet P d c t) = d" "command (text_packet P d c t) = c" "pkt_from (text_packet P d c t) = DEVICE_ID P"
  "message (text_packet P d c t) = Some (take (PACKET_MAX_LENGTH P - 1) t)"
  by (simp_all add: text_packet_def)

lemma provide_text_not_Nil [simp]: "provide_text v \<noteq> []"
  by (simp add: provide_text_def)

lemma provide_loop_ok:
  assumes "net_ok P s" and "platform_ok P (interfaces s)" and "unat (provide_ptr s) < length vs" and "length vs < 2 ^ 16"
    and "length (queue_items (tx_queue s)) + max_count \<le> TX_QUEUE_SIZE P"
  shows "returns (provide_loop P vs max_count time s) (\<lambda>(e, s'). e = ZEJF_OK \<and> net_ok P s' \<and>
     tx_frame (s\<lparr>provide_ptr := provide_ptr s'\<rparr>) s' \<and>
     queue_items (tx_queue s') = queue_items (tx_queue s) @ provide_packets P time (take max_count (drop (unat (provide_ptr s)) vs)) \<and>
     unat (provide_ptr s') = round_robin (length vs) (unat (provide_ptr s)) max_count)"
  using assms
proof (induction max_count arbitrary: s)
  case 0
  then show ?case by (simp add: provide_packets_def round_robin_def)
next
  case (Suc k)
  let ?i = "unat (provide_ptr s)" and ?v = "vs ! unat (provide_ptr s)"
  let ?p = "(provide_ptr s + 1) mod of_nat (length vs)"
  have room: "length (queue_items (tx_queue s)) < TX_QUEUE_SIZE P" using Suc.prems(5) by simp
  note pt = ptr_step [OF Suc.prems(3,4)]
  have zero: "?p = 0 \<longleftrightarrow> Suc ?i = length vs" using pt by (auto simp: unat_eq_0 [symmetric])
  have split: "drop ?i vs = ?v # drop (Suc ?i) vs" using Suc.prems(3) by (simp add: Cons_nth_drop_Suc)
  have send: "returns (p_send_provide P ?v time s) (\<lambda>(e, s'). net_ok P s' \<and> tx_frame s s' \<and>
     (e, queue_items (tx_queue s')) =
       (ZEJF_OK, queue_items (tx_queue s) @ [stamped time (text_packet P BROADCAST DATA_PROVIDE (provide_text ?v))]))"
    unfolding p_send_provide_def
    by (rule returns_weaken [OF send_text_ok [OF Suc.prems(1,2)]]) (auto simp: broadcast_spec [OF Suc.prems(2) room])
  have go: "returns (if ?p = 0 then Some (ZEJF_OK, s1\<lparr>provide_ptr := ?p\<rparr>) else provide_loop P vs k time (s1\<lparr>provide_ptr := ?p\<rparr>))
     (\<lambda>(e, s'). e = ZEJF_OK \<and> net_ok P s' \<and> tx_frame (s\<lparr>provide_ptr := provide_ptr s'\<rparr>) s' \<and>
       queue_items (tx_queue s') = queue_items (tx_queue s) @ provide_packets P time (take (Suc k) (drop ?i vs)) \<and>
       unat (provide_ptr s') = round_robin (length vs) ?i (Suc k))"
    if s1: "net_ok P s1" "tx_frame s s1" "queue_items (tx_queue s1) =
        queue_items (tx_queue s) @ [stamped time (text_packet P BROADCAST DATA_PROVIDE (provide_text ?v))]" for s1
  proof (cases "?p = 0")
    case True
    with zero s1 split tx_frame_ptr(1) [OF s1(2), of 0] show ?thesis by (simp add: provide_packets_def round_robin_def)
  next
    case False
    let ?s = "s1\<lparr>provide_ptr := ?p\<rparr>"
    have up: "unat ?p = Suc ?i" using False pt zero by simp
    have "returns (provide_loop P vs k time ?s) (\<lambda>(e, s'). e = ZEJF_OK \<and> net_ok P s' \<and>
       tx_frame (?s\<lparr>provide_ptr := provide_ptr s'\<rparr>) s' \<and>
       queue_items (tx_queue s') = queue_items (tx_queue ?s) @ provide_packets P time (take k (drop (unat (provide_ptr ?s)) vs)) \<and>
       unat (provide_ptr s') = round_robin (length vs) (unat (provide_ptr ?s)) k)"
      by (rule Suc.IH) (use Suc.prems s1 up zero False tx_frame_simps [OF s1(2)] in auto)
    then have "returns (provide_loop P vs k time ?s) (\<lambda>(e, s'). e = ZEJF_OK \<and> net_ok P s' \<and> tx_frame (s\<lparr>provide_ptr := provide_ptr s'\<rparr>) s' \<and>
       queue_items (tx_queue s') = queue_items (tx_queue s) @ provide_packets P time (take (Suc k) (drop ?i vs)) \<and>
       unat (provide_ptr s') = round_robin (length vs) ?i (Suc k))"
      by (rule returns_weaken)
        (use s1 split up tx_frame_ptr_trans(1) [OF s1(2)] in \<open>auto simp: provide_packets_def round_robin_def\<close>)
    with False show ?thesis by simp
  qed
  show ?case
    unfolding provide_loop.simps arr_get_in [OF Suc.prems(3)] bind.bind_lunit
  proof (rule returns_bindI [OF send], clarsimp simp only: prod.inject split_paired_all prod.case)
    fix s1
    assume s1: "net_ok P s1" "tx_frame s s1" "queue_items (tx_queue s1) =
        queue_items (tx_queue s) @ [stamped time (text_packet P BROADCAST DATA_PROVIDE (provide_text ?v))]"
    have "provide_ptr s1 = provide_ptr s" by (rule tx_frame_simps(9) [OF s1(2)])
    with go [OF s1] show "returns (if ZEJF_OK \<noteq> ZEJF_OK then Some (ZEJF_OK, s1)
        else let s = s1\<lparr>provide_ptr := (provide_ptr s1 + 1) mod of_nat (length vs)\<rparr>
          in if provide_ptr s = 0 then Some (ZEJF_OK, s) else provide_loop P vs k time s)
       (\<lambda>(e, s'). e = ZEJF_OK \<and> net_ok P s' \<and> tx_frame (s\<lparr>provide_ptr := provide_ptr s'\<rparr>) s' \<and>
         queue_items (tx_queue s') = queue_items (tx_queue s) @ provide_packets P time (take (Suc k) (drop ?i vs)) \<and>
         unat (provide_ptr s') = round_robin (length vs) ?i (Suc k))"
      by (simp add: Let_def)
  qed
qed

lemma demand_loop_ok:
  assumes "net_ok P s" and "platform_ok P (interfaces s)" and "unat (demand_ptr s) < length vs" and "length vs < 2 ^ 16"
    and "length (queue_items (tx_queue s)) + max_count \<le> TX_QUEUE_SIZE P"
  shows "returns (demand_loop P vs max_count time s) (\<lambda>(e, s'). e = ZEJF_OK \<and> net_ok P s' \<and>
     tx_frame (s\<lparr>demand_ptr := demand_ptr s'\<rparr>) s' \<and>
     queue_items (tx_queue s') = queue_items (tx_queue s) @ demand_packets P time (take max_count (drop (unat (demand_ptr s)) vs)) \<and>
     unat (demand_ptr s') = round_robin (length vs) (unat (demand_ptr s)) max_count)"
  using assms
proof (induction max_count arbitrary: s)
  case 0
  then show ?case by (simp add: demand_packets_def round_robin_def)
next
  case (Suc k)
  let ?i = "unat (demand_ptr s)" and ?v = "vs ! unat (demand_ptr s)"
  let ?p = "(demand_ptr s + 1) mod of_nat (length vs)"
  have room: "length (queue_items (tx_queue s)) < TX_QUEUE_SIZE P" using Suc.prems(5) by simp
  note pt = ptr_step [OF Suc.prems(3,4)]
  have zero: "?p = 0 \<longleftrightarrow> Suc ?i = length vs" using pt by (auto simp: unat_eq_0 [symmetric])
  have split: "drop ?i vs = ?v # drop (Suc ?i) vs" using Suc.prems(3) by (simp add: Cons_nth_drop_Suc)
  have send: "returns (p_send_demand P ?v time s) (\<lambda>(e, s'). net_ok P s' \<and> tx_frame s s' \<and>
     (e, queue_items (tx_queue s')) =
       (ZEJF_OK, queue_items (tx_queue s) @ [stamped time (text_packet P BROADCAST DATA_DEMAND (show_uint ?v))]))"
    unfolding p_send_demand_def
    by (rule returns_weaken [OF send_text_ok [OF Suc.prems(1,2)]]) (auto simp: broadcast_spec [OF Suc.prems(2) room])
  have go: "returns (if ?p = 0 then Some (ZEJF_OK, s1\<lparr>demand_ptr := ?p\<rparr>) else demand_loop P vs k time (s1\<lparr>demand_ptr := ?p\<rparr>))
     (\<lambda>(e, s'). e = ZEJF_OK \<and> net_ok P s' \<and> tx_frame (s\<lparr>demand_ptr := demand_ptr s'\<rparr>) s' \<and>
       queue_items (tx_queue s') = queue_items (tx_queue s) @ demand_packets P time (take (Suc k) (drop ?i vs)) \<and>
       unat (demand_ptr s') = round_robin (length vs) ?i (Suc k))"
    if s1: "net_ok P s1" "tx_frame s s1" "queue_items (tx_queue s1) =
        queue_items (tx_queue s) @ [stamped time (text_packet P BROADCAST DATA_DEMAND (show_uint ?v))]" for s1
  proof (cases "?p = 0")
    case True
    with zero s1 split tx_frame_ptr(2) [OF s1(2), of 0] show ?thesis by (simp add: demand_packets_def round_robin_def)
  next
    case False
    let ?s = "s1\<lparr>demand_ptr := ?p\<rparr>"
    have up: "unat ?p = Suc ?i" using False pt zero by simp
    have "returns (demand_loop P vs k time ?s) (\<lambda>(e, s'). e = ZEJF_OK \<and> net_ok P s' \<and>
       tx_frame (?s\<lparr>demand_ptr := demand_ptr s'\<rparr>) s' \<and>
       queue_items (tx_queue s') = queue_items (tx_queue ?s) @ demand_packets P time (take k (drop (unat (demand_ptr ?s)) vs)) \<and>
       unat (demand_ptr s') = round_robin (length vs) (unat (demand_ptr ?s)) k)"
      by (rule Suc.IH) (use Suc.prems s1 up zero False tx_frame_simps [OF s1(2)] in auto)
    then have "returns (demand_loop P vs k time ?s) (\<lambda>(e, s'). e = ZEJF_OK \<and> net_ok P s' \<and> tx_frame (s\<lparr>demand_ptr := demand_ptr s'\<rparr>) s' \<and>
       queue_items (tx_queue s') = queue_items (tx_queue s) @ demand_packets P time (take (Suc k) (drop ?i vs)) \<and>
       unat (demand_ptr s') = round_robin (length vs) ?i (Suc k))"
      by (rule returns_weaken)
        (use s1 split up tx_frame_ptr_trans(2) [OF s1(2)] in \<open>auto simp: demand_packets_def round_robin_def\<close>)
    with False show ?thesis by simp
  qed
  show ?case
    unfolding demand_loop.simps arr_get_in [OF Suc.prems(3)] bind.bind_lunit
  proof (rule returns_bindI [OF send], clarsimp simp only: prod.inject split_paired_all prod.case)
    fix s1
    assume s1: "net_ok P s1" "tx_frame s s1" "queue_items (tx_queue s1) =
        queue_items (tx_queue s) @ [stamped time (text_packet P BROADCAST DATA_DEMAND (show_uint ?v))]"
    have "demand_ptr s1 = demand_ptr s" by (rule tx_frame_simps(10) [OF s1(2)])
    with go [OF s1] show "returns (if ZEJF_OK \<noteq> ZEJF_OK then Some (ZEJF_OK, s1)
        else let s = s1\<lparr>demand_ptr := (demand_ptr s1 + 1) mod of_nat (length vs)\<rparr>
          in if demand_ptr s = 0 then Some (ZEJF_OK, s) else demand_loop P vs k time s)
       (\<lambda>(e, s'). e = ZEJF_OK \<and> net_ok P s' \<and> tx_frame (s\<lparr>demand_ptr := demand_ptr s'\<rparr>) s' \<and>
         queue_items (tx_queue s') = queue_items (tx_queue s) @ demand_packets P time (take (Suc k) (drop ?i vs)) \<and>
         unat (demand_ptr s') = round_robin (length vs) ?i (Suc k))"
      by (simp add: Let_def)
  qed
qed


lemma allocate_packet_queue_ok:
  assumes "net_ok P s"
  shows "allocate_packet_queue k s = Some ((TX_QUEUE_SIZE P - length (queue_items (tx_queue s))) div k)"
proof -
  obtain l where l: "tx_queue s = Some l" "list_ok (mem s) l" "capacity l = TX_QUEUE_SIZE P" by (rule net_ok_tx [OF assms])
  with list_ok_count [OF l(2)] list_ok_le [OF l(2)] show ?thesis by (simp add: allocate_packet_queue_def size_sub_def)
qed

text \<open>The position a round of announcements starts from.\<close>

definition start_at :: "u16 \<Rightarrow> nat \<Rightarrow> nat" where
  "start_at p n = (if n \<le> unat p then 0 else unat p)"

lemma start_at_less: "0 < n \<Longrightarrow> start_at p n < n"
  by (simp add: start_at_def)

lemma network_send_provide_info_ok:
  assumes ok: "net_ok P s" and pl: "platform_ok P (interfaces s)" and vs: "get_provided_variables P (world s) = Some vs" "vs \<noteq> []"
  defines "i \<equiv> start_at (provide_ptr s) (length vs)"
    and "k \<equiv> (TX_QUEUE_SIZE P - length (queue_items (tx_queue s))) div PRIORITY_MEDIUM"
  shows "returns (network_send_provide_info P time s) (\<lambda>(e, s'). e = ZEJF_OK \<and> net_ok P s' \<and>
     tx_frame (s\<lparr>provide_ptr := provide_ptr s'\<rparr>) s' \<and>
     queue_items (tx_queue s') = queue_items (tx_queue s) @ provide_packets P time (take k (drop i vs)) \<and>
     unat (provide_ptr s') = round_robin (length vs) i k)"
proof -
  have len: "length vs < 2 ^ 16" using pl vs(1) by (auto simp: platform_ok_def)
  then have n: "unat (of_nat (length vs) :: u16) = length vs" by (simp add: unat_of_nat)
  let ?s = "if of_nat (length vs) \<le> provide_ptr s then s\<lparr>provide_ptr := 0\<rparr> else s"
  have s: "net_ok P ?s" "interfaces ?s = interfaces s" "tx_queue ?s = tx_queue s" "unat (provide_ptr ?s) = i" using ok n
    by (auto simp: i_def start_at_def word_le_nat_alt)
  have i: "i < length vs" using vs(2) by (simp add: i_def start_at_less)
  have "length (queue_items (tx_queue s)) \<le> TX_QUEUE_SIZE P"
    using ll.contents_bound [OF net_okD(4) [OF ok]] net_okD(5) [OF ok] by simp
  then have room: "length (queue_items (tx_queue s)) + k \<le> TX_QUEUE_SIZE P" unfolding k_def by linarith
  have "returns (provide_loop P vs k time ?s) (\<lambda>(e, s'). e = ZEJF_OK \<and> net_ok P s' \<and> tx_frame (?s\<lparr>provide_ptr := provide_ptr s'\<rparr>) s' \<and>
     queue_items (tx_queue s') = queue_items (tx_queue ?s) @ provide_packets P time (take k (drop (unat (provide_ptr ?s)) vs)) \<and>
     unat (provide_ptr s') = round_robin (length vs) (unat (provide_ptr ?s)) k)"
    by (rule provide_loop_ok [OF s(1)]) (use s i len room pl in auto)
  moreover have "?s\<lparr>provide_ptr := x\<rparr> = s\<lparr>provide_ptr := x\<rparr>" for x by simp
  ultimately show ?thesis
    unfolding network_send_provide_info_def vs(1) option.case using vs(2) allocate_packet_queue_ok [OF s(1), of PRIORITY_MEDIUM] s
    by (simp add: Let_def k_def)
qed

lemma network_send_demand_info_ok:
  assumes ok: "net_ok P s" and pl: "platform_ok P (interfaces s)" and vs: "get_demanded_variables P (world s) = Some vs" "vs \<noteq> []"
  defines "i \<equiv> start_at (demand_ptr s) (length vs)"
    and "k \<equiv> (TX_QUEUE_SIZE P - length (queue_items (tx_queue s))) div PRIORITY_MEDIUM"
  shows "returns (network_send_demand_info P time s) (\<lambda>(e, s'). e = ZEJF_OK \<and> net_ok P s' \<and>
     tx_frame (s\<lparr>demand_ptr := demand_ptr s'\<rparr>) s' \<and>
     queue_items (tx_queue s') = queue_items (tx_queue s) @ demand_packets P time (take k (drop i vs)) \<and>
     unat (demand_ptr s') = round_robin (length vs) i k)"
proof -
  have len: "length vs < 2 ^ 16" using pl vs(1) by (auto simp: platform_ok_def)
  then have n: "unat (of_nat (length vs) :: u16) = length vs" by (simp add: unat_of_nat)
  let ?s = "if of_nat (length vs) \<le> demand_ptr s then s\<lparr>demand_ptr := 0\<rparr> else s"
  have s: "net_ok P ?s" "interfaces ?s = interfaces s" "tx_queue ?s = tx_queue s" "unat (demand_ptr ?s) = i" using ok n
    by (auto simp: i_def start_at_def word_le_nat_alt)
  have i: "i < length vs" using vs(2) by (simp add: i_def start_at_less)
  have "length (queue_items (tx_queue s)) \<le> TX_QUEUE_SIZE P"
    using ll.contents_bound [OF net_okD(4) [OF ok]] net_okD(5) [OF ok] by simp
  then have room: "length (queue_items (tx_queue s)) + k \<le> TX_QUEUE_SIZE P" unfolding k_def by linarith
  have "returns (demand_loop P vs k time ?s) (\<lambda>(e, s'). e = ZEJF_OK \<and> net_ok P s' \<and> tx_frame (?s\<lparr>demand_ptr := demand_ptr s'\<rparr>) s' \<and>
     queue_items (tx_queue s') = queue_items (tx_queue ?s) @ demand_packets P time (take k (drop (unat (demand_ptr ?s)) vs)) \<and>
     unat (demand_ptr s') = round_robin (length vs) (unat (demand_ptr ?s)) k)"
    by (rule demand_loop_ok [OF s(1)]) (use s i len room pl in auto)
  moreover have "?s\<lparr>demand_ptr := x\<rparr> = s\<lparr>demand_ptr := x\<rparr>" for x by simp
  ultimately show ?thesis
    unfolding network_send_demand_info_def vs(1) option.case using vs(2) allocate_packet_queue_ok [OF s(1), of PRIORITY_MEDIUM] s
    by (simp add: Let_def k_def)
qed



section \<open>Handling the announcements of others\<close>

definition with_entry :: "u16 \<Rightarrow> (RoutingEntry \<Rightarrow> RoutingEntry) \<Rightarrow> RoutingEntry list \<Rightarrow> RoutingEntry list" where
  "with_entry d f es = map (\<lambda>e. if device_id e = d then f e else e) es"

lemma with_entry_unused: "\<not> used_id s d \<Longrightarrow> with_entry d f (table_entries s) = table_entries s"
  by (auto simp: with_entry_def used_id_def image_iff intro!: map_idI)

lemma find_entry:
  assumes ok: "routing_ok P s"
  shows "(\<not> used_id s d \<and> routing_entry_find d s = Some None) \<or>
    (used_id s d \<and> (\<exists>k e. routing_entry_find d s = Some (Some k) \<and> entry_at s k = Some e \<and> k < length (table_entries s) \<and>
       e = table_entries s ! k \<and> device_id e = d \<and> entry_ok (interfaces s) e))"
proof (cases "used_id s d")
  case False
  with entry_find_used [OF ok, of d] show ?thesis by auto
next
  case True
  note rep = routing_ok_rep [OF ok]
  obtain k where k: "routing_entry_find d s = Some (Some k)" using entry_find_used [OF ok, of d] True by auto
  then have "k < length (table_entries s) \<and> device_id (table_entries s ! k) = d"
    using routing_entry_find_rep [OF rep, of d] find_index_Some [of "\<lambda>e. device_id e = d" "table_entries s" k] by simp
  with k True entry_at_rep [OF rep] ok show ?thesis by (auto simp: routing_ok_def)
qed

lemma set_entry_ok:
  assumes ok: "routing_ok P s" and k: "k < length (table_entries s)" "device_id (table_entries s ! k) = d"
    and f: "entry_ok (interfaces s) (f (table_entries s ! k))" "device_id (f (table_entries s ! k)) = d"
  shows "\<exists>t. set_entry s k (Some (f (table_entries s ! k))) = Some (s\<lparr>rtable := t\<rparr>) \<and> routing_ok P (s\<lparr>rtable := t\<rparr>) \<and>
    table_entries (s\<lparr>rtable := t\<rparr>) = with_entry d f (table_entries s)"
proof -
  let ?es = "table_entries s"
  have all: "\<forall>e\<in>set ?es. entry_ok (interfaces s) e" and dist: "distinct (map device_id ?es)"
    and self: "DEVICE_ID P \<notin> device_id ` set ?es" using ok by (simp_all add: routing_ok_def)
  obtain t where t: "set_entry s k (Some (f (?es ! k))) = Some (s\<lparr>rtable := t\<rparr>)" "table_rep P (s\<lparr>rtable := t\<rparr>) (?es[k := f (?es ! k)])"
    using set_entry_rep [OF routing_ok_rep [OF ok] k(1)] by blast
  have ids: "map device_id (?es[k := f (?es ! k)]) = map device_id ?es"
    using k f(2) by (metis list_update_id map_update nth_map)
  have "routing_ok P (s\<lparr>rtable := t\<rparr>)"
  proof (rule routing_okI [OF t(2)])
    show "\<forall>e\<in>set (?es[k := f (?es ! k)]). entry_ok (interfaces (s\<lparr>rtable := t\<rparr>)) e"
      using all f(1) set_update_subset_insert [of ?es k "f (?es ! k)"] by auto
    show "distinct (map device_id (?es[k := f (?es ! k)]))" using dist ids by simp
    show "DEVICE_ID P \<notin> device_id ` set (?es[k := f (?es ! k)])" using self ids by (metis set_map)
  qed
  with t table_rep_entries [OF t(2)] list_update_map_distinct [OF k(1) dist k(2), of f] show ?thesis
    by (auto simp: with_entry_def)
qed

lemma net_ok_rtable: "net_ok P s \<Longrightarrow> routing_ok P (s\<lparr>rtable := t\<rparr>) \<Longrightarrow> net_ok P (s\<lparr>rtable := t\<rparr>)"
  by (simp add: net_ok_def)

lemma net_frame_rtable [simp]: "net_frame s (t\<lparr>rtable := r\<rparr>) = net_frame s t"
  by (simp add: net_frame_def)

text \<open>What a handler may change: the heap and the table.\<close>

definition table_frame :: "'w zejf \<Rightarrow> 'w zejf \<Rightarrow> bool" where
  "table_frame s s' \<longleftrightarrow> s' = s\<lparr>mem := mem s', rtable := rtable s'\<rparr> \<and> alloc_mono (mem s) (mem s')"

lemma table_frame_refl [simp]: "table_frame s s"
  by (simp add: table_frame_def)

lemma table_frameE:
  assumes "table_frame s s'"
  obtains m t where "s' = s\<lparr>mem := m, rtable := t\<rparr>" "alloc_mono (mem s) m"
  using assms unfolding table_frame_def by metis

lemma table_net_frame: "table_frame s s' \<Longrightarrow> net_frame s s'"
  by (auto elim!: table_frameE simp: net_frame_def)

text \<open>No entry is one short of the largest number of variables its counters can hold.\<close>

definition entries_small :: "'w zejf \<Rightarrow> bool" where
  "entries_small s \<longleftrightarrow>
     (\<forall>e\<in>set (table_entries s). length (provided_variables e) < 65535 \<and> length (demanded_variables e) < 65535)"

lemma handler_update:
  assumes ok: "net_ok P s" and k: "k < length (table_entries s)" "device_id (table_entries s ! k) = d"
    and act: "returns (act (table_entries s ! k) s) (\<lambda>(r, e', s'). entry_ok (interfaces s) e' \<and>
       e' = f (table_entries s ! k) \<and> mem_frame s s' \<and> r = res)"
    and dev: "device_id (f (table_entries s ! k)) = d"
  shows "returns (do { (rv, entry, s) \<leftarrow> act (table_entries s ! k) s; s \<leftarrow> set_entry s k (Some entry); Some (rv, s) })
    (\<lambda>(r, s'). r = res \<and> net_ok P s' \<and> table_frame s s' \<and> table_entries s' = with_entry d f (table_entries s))"
proof (rule returns_bindI [OF act], clarify)
  fix s1
  assume e: "entry_ok (interfaces s) (f (table_entries s ! k))" and m: "mem_frame s s1"
  then obtain m where s1: "s1 = s\<lparr>mem := m\<rparr>" "alloc_mono (mem s) m" by (auto elim: mem_frameD)
  have ok1: "net_ok P s1" using net_ok_mem [OF ok s1(2)] s1(1) by simp
  have same: "table_entries s1 = table_entries s" "interfaces s1 = interfaces s" by (simp_all add: s1)
  from set_entry_ok [OF net_okD(2) [OF ok1], of k d f] k e dev obtain t where
    t: "set_entry s1 k (Some (f (table_entries s ! k))) = Some (s1\<lparr>rtable := t\<rparr>)" "routing_ok P (s1\<lparr>rtable := t\<rparr>)"
      "table_entries (s1\<lparr>rtable := t\<rparr>) = with_entry d f (table_entries s)" by (auto simp: same)
  have "table_frame s (s1\<lparr>rtable := t\<rparr>)" using s1 by (simp add: table_frame_def)
  with t net_ok_rtable [OF ok1 t(2)] show "returns (do { s \<leftarrow> set_entry s1 k (Some (f (table_entries s ! k))); Some (res, s) })
    (\<lambda>(r, s'). r = res \<and> net_ok P s' \<and> table_frame s s' \<and> table_entries s' = with_entry d f (table_entries s))"
    by simp
qed

lemma process_data_demand_ok:
  assumes ok: "net_ok P s" and small: "entries_small s"
  shows "returns (process_data_demand p s) (\<lambda>(r, s'). net_ok P s' \<and> table_frame s s' \<and>
     table_entries s' = (case message p of None \<Rightarrow> table_entries s | Some t \<Rightarrow>
       (case demand_decode t of None \<Rightarrow> table_entries s | Some v \<Rightarrow> with_entry (pkt_from p) (add_demanded v) (table_entries s))))"
proof -
  note r = net_okD(2) [OF ok]
  note none = with_entry_unused [of s "pkt_from p"]
  have hit: "returns (do { entry \<leftarrow> entry_at s k; (rv, entry, s) \<leftarrow> routing_entry_add_demanded_variable entry v s;
        s \<leftarrow> set_entry s k (Some entry); Some (rv, s) })
      (\<lambda>(r, s'). net_ok P s' \<and> table_frame s s' \<and> table_entries s' = with_entry (pkt_from p) (add_demanded v) (table_entries s))"
    if "entry_at s k = Some (table_entries s ! k)" "k < length (table_entries s)" "device_id (table_entries s ! k) = pkt_from p"
      "entry_ok (interfaces s) (table_entries s ! k)" for k v
  proof -
    have "length (demanded_variables (table_entries s ! k)) < 65535" using small that(2) by (simp add: entries_small_def)
    note act = add_demanded_variable_ok [OF that(4) net_okD(1) [OF ok] this, of v]
    have dev: "device_id (add_demanded v (table_entries s ! k)) = pkt_from p" using that(3) by simp
    show ?thesis unfolding that(1) bind.bind_lunit
      by (rule returns_weaken [OF handler_update [where act = "\<lambda>e. routing_entry_add_demanded_variable e v" and f = "add_demanded v", OF ok that(2,3) act dev]]) auto
  qed
  from find_entry [OF r, of "pkt_from p"] hit none ok show ?thesis
    by (auto simp: process_data_demand_def split: option.splits)
qed

lemma process_data_provide_ok:
  assumes ok: "net_ok P s" and small: "entries_small s"
  shows "returns (process_data_provide p s) (\<lambda>(r, s'). net_ok P s' \<and> table_frame s s' \<and>
     table_entries s' = (case message p of None \<Rightarrow> table_entries s | Some t \<Rightarrow>
       (case provide_decode t of None \<Rightarrow> table_entries s | Some v \<Rightarrow> with_entry (pkt_from p) (add_provided v) (table_entries s))))"
proof -
  note r = net_okD(2) [OF ok]
  note none = with_entry_unused [of s "pkt_from p"]
  have hit: "returns (do { entry \<leftarrow> entry_at s k; (rv, entry, s) \<leftarrow> routing_entry_add_provided_variable entry v s;
        s \<leftarrow> set_entry s k (Some entry); Some (rv, s) })
      (\<lambda>(r, s'). net_ok P s' \<and> table_frame s s' \<and> table_entries s' = with_entry (pkt_from p) (add_provided v) (table_entries s))"
    if "entry_at s k = Some (table_entries s ! k)" "k < length (table_entries s)" "device_id (table_entries s ! k) = pkt_from p"
      "entry_ok (interfaces s) (table_entries s ! k)" for k v
  proof -
    have "length (provided_variables (table_entries s ! k)) < 65535" using small that(2) by (simp add: entries_small_def)
    note act = add_provided_variable_ok [OF that(4) net_okD(1) [OF ok] this, of v]
    have dev: "device_id (add_provided v (table_entries s ! k)) = pkt_from p" using that(3) by simp
    show ?thesis unfolding that(1) bind.bind_lunit
      by (rule returns_weaken [OF handler_update [where act = "\<lambda>e. routing_entry_add_provided_variable e v" and f = "add_provided v", OF ok that(2,3) act dev]]) auto
  qed
  from find_entry [OF r, of "pkt_from p"] hit none ok show ?thesis
    by (auto simp: process_data_provide_def split: option.splits)
qed

lemma process_data_subscribe_ok:
  assumes ok: "net_ok P s"
  shows "returns (process_data_subscribe p s) (\<lambda>(r, s'). net_ok P s' \<and> table_frame s s' \<and>
     table_entries s' = with_entry (pkt_from p) (\<lambda>e. e\<lparr>subscribed := True\<rparr>) (table_entries s) \<and>
     r = (if used_id s (pkt_from p) then ZEJF_OK else ZEJF_ERR_NULL))"
proof -
  note none = with_entry_unused [of s "pkt_from p"]
  consider (no) "\<not> used_id s (pkt_from p)" "routing_entry_find (pkt_from p) s = Some None"
    | (yes) k where "used_id s (pkt_from p)" "routing_entry_find (pkt_from p) s = Some (Some k)"
        "entry_at s k = Some (table_entries s ! k)" "k < length (table_entries s)" "device_id (table_entries s ! k) = pkt_from p"
        "entry_ok (interfaces s) (table_entries s ! k)"
    using find_entry [OF net_okD(2) [OF ok], of "pkt_from p"] by auto
  then show ?thesis
  proof cases
    case no
    with none ok show ?thesis by (simp add: process_data_subscribe_def)
  next
    case yes
    have e: "entry_ok (interfaces s) ((table_entries s ! k)\<lparr>subscribed := True\<rparr>)" using yes(6) by (simp add: entry_ok_def)
    obtain t where t: "set_entry s k (Some ((table_entries s ! k)\<lparr>subscribed := True\<rparr>)) = Some (s\<lparr>rtable := t\<rparr>)"
        "routing_ok P (s\<lparr>rtable := t\<rparr>)"
        "table_entries (s\<lparr>rtable := t\<rparr>) = with_entry (pkt_from p) (\<lambda>e. e\<lparr>subscribed := True\<rparr>) (table_entries s)"
      using set_entry_ok [OF net_okD(2) [OF ok] yes(4,5), of "\<lambda>e. e\<lparr>subscribed := True\<rparr>"] e yes(5) by auto
    with yes(1-3) net_ok_rtable [OF ok t(2)] show ?thesis by (simp add: process_data_subscribe_def table_frame_def)
  qed
qed


section \<open>The texts as codecs\<close>

lemma provide_decode_text: "provide_decode (provide_text v) = Some v"
proof -
  have "scan_uint 16 (show_uint (var_id v) @ CHR ''@'' # show_uint (samples_per_hour v)) =
      Some (unat (var_id v), CHR ''@'' # show_uint (samples_per_hour v))"
    by (rule scan_uint_show_uint) simp_all
  moreover have "scan_uint 32 (show_uint (samples_per_hour v)) = Some (unat (samples_per_hour v), [])"
    using scan_uint_show_uint [of 32 "[]" "samples_per_hour v"] by simp
  ultimately show ?thesis by (simp add: provide_decode_def provide_text_def)
qed

lemma demand_decode_text: "demand_decode (show_uint v) = Some v"
  using scan_uint_show_uint [of 16 "[]" v] by (simp add: demand_decode_def)

interpretation provide_codec: codec "\<lambda>_. True" provide_text provide_decode
  by unfold_locales (rule provide_decode_text)

interpretation demand_codec: codec "\<lambda>_. True" show_uint demand_decode
  by unfold_locales (rule demand_decode_text)

section \<open>Properties\<close>

text \<open>
  C19: a logged value is announced to exactly the devices that asked for it.  When the queue has room
  for one packet per such device, \<open>network_announce_log\<close> queues one \<open>DATA_LOG\<close> packet for each device of
  the routing table that demands the variable (or all variables), in the order of the table, and
  nothing else changes.
\<close>

theorem announce_log_exact:
  assumes "net_ok P s" and "platform_ok P (interfaces s)"
    and "length (queue_items (tx_queue s)) + length (filter (demands_var (var_id v)) (table_entries s)) \<le> TX_QUEUE_SIZE P"
  shows "returns (network_announce_log P v h n val time s) (\<lambda>(e, s'). e = ZEJF_OK \<and> net_ok P s' \<and> tx_frame s s' \<and>
     queue_items (tx_queue s') = queue_items (tx_queue s) @
       log_packets P v h n val time (filter (demands_var (var_id v)) (table_entries s)))"
proof -
  have "demands v e = Some (demands_var (var_id v) e)" if "e \<in> set (table_entries s)" for e
    using that net_okD(2) [OF assms(1)] by (auto simp: routing_ok_def intro: demands_ok)
  with log_loop_exact [OF assms(1,2), of "[]" "table_entries s" "demands v" "demands_var (var_id v)"] assms(3) show ?thesis
    by (simp add: network_announce_log_def)
qed

definition demander :: RoutingEntry where
  "demander = (new_entry 5 7 1 0)\<lparr>demand_count := 1, demanded_variables := [ALL_VARIABLES]\<rparr>"

text \<open>The network with one known device, which wants everything.\<close>

definition demanded_net :: "unit zejf" where
  "demanded_net = net_state\<lparr>rtable := Some demander # replicate 15 None, routing_table_top := 1\<rparr>"

lemma demanded_net_simps [simp]:
  "table_entries demanded_net = [demander]" "net_ok meteo_settings demanded_net" "queue_items (tx_queue demanded_net) = []"
  "interfaces demanded_net = interfaces net_state" "entries_small demanded_net" "used_id demanded_net 5"
proof -
  show t: "table_entries demanded_net = [demander]" by (simp add: demanded_net_def table_entries_def)
  have "routing_ok meteo_settings demanded_net"
    by (simp add: routing_ok_def t, simp add: demanded_net_def table_rep_def demander_def new_entry_def
        routing_entry_zero_def entry_ok_def)
  then show "net_ok meteo_settings demanded_net"
    using net_state_simps(1) by (simp add: net_ok_def demanded_net_def)
  show "entries_small demanded_net" "used_id demanded_net 5"
    by (simp_all add: entries_small_def used_id_def t demander_def new_entry_def routing_entry_zero_def)
qed (simp_all add: demanded_net_def)

theorem announce_log_exact_witness:
  "returns (network_announce_log meteo_settings \<lparr>samples_per_hour = 60, var_id = 3\<rparr> 1000 7 0x41A40000 5 demanded_net)
     (\<lambda>(e, s'). e = ZEJF_OK \<and> map pkt_to (queue_items (tx_queue s')) = [5])"
  by (rule returns_weaken [OF announce_log_exact])
    (auto simp: demander_def demands_var_def log_packets_def new_entry_def)

text \<open>
  The variables of this device are announced in turn.  \<open>network_send_provide_info\<close> uses at most a quarter
  of the free slots of the queue; it broadcasts the provided variables from where the last call
  stopped, one packet each, in order, and remembers where to go on, starting over after the last
  one.
\<close>

theorem provide_info_round_robin:
  assumes "net_ok P s" and "platform_ok P (interfaces s)" and "get_provided_variables P (world s) = Some vs" and "vs \<noteq> []"
  defines "i \<equiv> start_at (provide_ptr s) (length vs)"
    and "k \<equiv> (TX_QUEUE_SIZE P - length (queue_items (tx_queue s))) div PRIORITY_MEDIUM"
  shows "returns (network_send_provide_info P time s) (\<lambda>(e, s'). e = ZEJF_OK \<and> net_ok P s' \<and>
     tx_frame (s\<lparr>provide_ptr := provide_ptr s'\<rparr>) s' \<and>
     queue_items (tx_queue s') = queue_items (tx_queue s) @ provide_packets P time (take k (drop i vs)) \<and>
     unat (provide_ptr s') = round_robin (length vs) i k)"
  unfolding i_def k_def by (rule network_send_provide_info_ok [OF assms(1-4)])

definition two_variables :: "unit platform" where
  "two_variables = meteo_settings\<lparr>get_provided_variables := (\<lambda>_. Some [\<lparr>samples_per_hour = 60, var_id = 3\<rparr>, \<lparr>samples_per_hour = 12, var_id = 4\<rparr>])\<rparr>"

lemma two_variables_ok [simp]:
  "net_ok two_variables net_state" "platform_ok two_variables ifs" "TX_QUEUE_SIZE two_variables = 16384"
  "get_provided_variables two_variables w = Some [\<lparr>samples_per_hour = 60, var_id = 3\<rparr>, \<lparr>samples_per_hour = 12, var_id = 4\<rparr>]"
  "provide_ptr net_state = 0"
  using net_state_simps(1)
  by (simp_all add: two_variables_def net_ok_def platform_ok_def packet_ok_def routing_ok_def table_rep_def)
    (simp add: net_state_def network_init_def split: prod.splits)

theorem provide_info_round_robin_witness:
  "returns (network_send_provide_info two_variables 5 net_state)
     (\<lambda>(e, s'). e = ZEJF_OK \<and> length (queue_items (tx_queue s')) = 2 \<and> unat (provide_ptr s') = 0)"
  by (rule returns_weaken [OF provide_info_round_robin [OF _ _ two_variables_ok(4)]])
    (auto simp: start_at_def provide_packets_def round_robin_def)

text \<open>
  What a device announces is what the others record.  When the packet of \<open>p_send_provide\<close> for a variable
  (whose text fits the packet) is handled by \<open>process_data_provide\<close> on another device, the routing
  entry of the sender gets exactly that variable, with its id and sample rate, unless it already has one
  with the id; no other entry changes.
\<close>

theorem provide_announcement_recorded:
  assumes "net_ok P s" and "entries_small s" and "message p = message (text_packet Q d DATA_PROVIDE (provide_text v))"
    and "17 \<le> PACKET_MAX_LENGTH Q"
  shows "returns (process_data_provide p s) (\<lambda>(r, s'). net_ok P s' \<and> table_frame s s' \<and>
     table_entries s' = with_entry (pkt_from p) (add_provided v) (table_entries s))"
proof -
  have "length (provide_text v) \<le> 16"
    using length_show_u16 [of "var_id v"] length_show_u32 [of "samples_per_hour v"] by (simp add: provide_text_def)
  then have "message p = Some (provide_text v)" using assms(3,4) by simp
  with process_data_provide_ok [OF assms(1,2), of p] show ?thesis by (simp add: provide_decode_text)
qed

theorem provide_announcement_recorded_witness:
  "returns (process_data_provide ((text_packet (meteo_settings :: unit platform) 1 DATA_PROVIDE (provide_text \<lparr>samples_per_hour = 60, var_id = 3\<rparr>))\<lparr>pkt_from := 5\<rparr>) demanded_net)
     (\<lambda>(r, s'). map provided_variables (table_entries s') = [[\<lparr>samples_per_hour = 60, var_id = 3\<rparr>]])"
  by (rule returns_weaken [OF provide_announcement_recorded [where P = meteo_settings and Q = "meteo_settings :: unit platform"
        and v = "\<lparr>samples_per_hour = 60, var_id = 3\<rparr>" and d = 1]])
    (auto simp: with_entry_def add_provided_def demander_def new_entry_def routing_entry_zero_def)

end
