(* ===== verification/Data_Store.thy ===== *)
theory Data_Store
  imports Data_Info
begin

text \<open>
  The hour cache of \<open>api/zejf_api/src/zejf_data.c\<close> (its second half) and \<open>process_data_log\<close> of
  \<open>data_info.c\<close>: finding an hour in memory, loading and saving it through the
  platform, making room for a new one, reading and logging values.

  \<open>data_queue\<close> holds the addresses of the hours; the hours themselves are in the store \<open>hours\<close>,
  and a freed hour is missing there.
\<close>

section \<open>Operations\<close>

definition data_init :: "'w platform \<Rightarrow> 'w zejf \<Rightarrow> zejf_err \<times> 'w zejf" where
  "data_init P s =
     (case list_create (mem s) (HOUR_BUFFER_SIZE P) of
        (q, m) \<Rightarrow> (if q \<noteq> None then ZEJF_OK else ZEJF_ERR_OUT_OF_MEMORY, s\<lparr>mem := m, data_queue := q\<rparr>))"

text \<open>Freeing an hour through its address.\<close>

definition free_hour :: "addr \<Rightarrow> 'w zejf \<Rightarrow> 'w zejf option" where
  "free_hour a s = do { hour \<leftarrow> hours s a; _ \<leftarrow> hour_destroy hour; Some (s\<lparr>hours := (hours s)(a := None)\<rparr>) }"

primrec free_hours :: "addr list \<Rightarrow> 'w zejf \<Rightarrow> 'w zejf option" where
  "free_hours [] s = Some s"
| "free_hours (a # as) s = do { s \<leftarrow> free_hour a s; free_hours as s }"

definition data_destroy :: "'w zejf \<Rightarrow> 'w zejf option" where
  "data_destroy s =
     do { (items, _) \<leftarrow> list_destroy (data_queue s); s \<leftarrow> free_hours items s; Some (s\<lparr>data_queue := None\<rparr>) }"

text \<open>The loop of \<open>hour_find\<close>: the node and the address of the hour it holds.\<close>

partial_function (option) hour_find_loop :: "u32 \<Rightarrow> addr \<Rightarrow> 'w zejf \<Rightarrow> (addr \<times> addr) option option" where
  "hour_find_loop hour_number node s =
     do {
       q \<leftarrow> data_queue s;
       n \<leftarrow> nodes q node;
       hour \<leftarrow> hours s (node_item n);
       (if hour_id hour = hour_number then Some (Some (node, node_item n))
        else if Some (node_previous n) \<noteq> head q then hour_find_loop hour_number (node_previous n) s
        else Some None)
     }"

definition hour_find :: "u32 \<Rightarrow> 'w zejf \<Rightarrow> (addr option \<times> 'w zejf) option" where
  "hour_find hour_number s =
     do {
       q \<leftarrow> data_queue s;
       (case head q of
          None \<Rightarrow> Some (None, s)
        | Some node \<Rightarrow>
            do {
              r \<leftarrow> hour_find_loop hour_number node s;
              (case r of
                 None \<Rightarrow> Some (None, s)
               | Some (node, a) \<Rightarrow> do { q \<leftarrow> list_prioritise (data_queue s) node; Some (Some a, s\<lparr>data_queue := Some q\<rparr>) })
            })
     }"

text \<open>The new hour is at the address \<open>hour_create\<close> takes, the next one of the heap.\<close>

definition datahour_load :: "'w platform \<Rightarrow> u32 \<Rightarrow> 'w zejf \<Rightarrow> (zejf_err \<times> addr option \<times> 'w zejf) option" where
  "datahour_load P hour_number s =
     (case hour_load P hour_number (world s) of
        ((rv, buffer), w) \<Rightarrow>
          let s = s\<lparr>world := w\<rparr> in
          if rv \<noteq> ZEJF_OK then Some (rv, None, s)
          else do {
            (tmp, m) \<leftarrow> hour_deserialize P buffer (mem s);
            (case tmp of
               None \<Rightarrow> Some (ZEJF_ERR_NULL, None, s\<lparr>mem := m\<rparr>)
             | Some hour \<Rightarrow>
                 Some (ZEJF_OK, Some (next_addr (mem s)),
                       s\<lparr>mem := m, hours := (hours s)(next_addr (mem s) \<mapsto> hour)\<rparr>))
          })"

definition datahour_save :: "'w platform \<Rightarrow> addr \<Rightarrow> 'w zejf \<Rightarrow> (zejf_err \<times> 'w zejf) option" where
  "datahour_save P a s =
     do {
       hour \<leftarrow> hours s a;
       (buffer, hour, m) \<leftarrow> hour_serialize hour (mem s);
       let s = s\<lparr>mem := m, hours := (hours s)(a \<mapsto> hour)\<rparr>;
       (case buffer of
          None \<Rightarrow> Some (ZEJF_ERR_NULL, s)
        | Some bs \<Rightarrow>
            (case hour_save P (hour_id hour) bs (world s) of (result, w) \<Rightarrow> Some (result, s\<lparr>world := w\<rparr>)))
     }"

definition hour_add :: "'w platform \<Rightarrow> addr \<Rightarrow> 'w zejf \<Rightarrow> (zejf_err \<times> 'w zejf) option" where
  "hour_add P a s =
     do {
       q \<leftarrow> data_queue s;
       (go, s) \<leftarrow>
         (if list_is_full q
          then do {
            (old, q) \<leftarrow> list_pop (data_queue s);
            let s = s\<lparr>data_queue := q\<rparr>;
            (case old of
               None \<Rightarrow> Some (False, s)
             | Some b \<Rightarrow> do { (_, s) \<leftarrow> datahour_save P b s; s \<leftarrow> free_hour b s; Some (True, s) })
          }
          else Some (True, s));
       (if \<not> go then Some (ZEJF_ERR_NULL, s)
        else do {
          (ok, q, m) \<leftarrow> list_push (mem s) (data_queue s) a;
          Some (if ok then ZEJF_OK else ZEJF_ERR_GENERIC, s\<lparr>mem := m, data_queue := q\<rparr>)
        })
     }"

text \<open>
  The end of \<open>datahour_get\<close>: an hour that was not loaded is created if the caller wants that, and a
  loaded or created hour (the flag \<open>add\<close> is set exactly then) is put into the cache.
\<close>

definition datahour_add :: "'w platform \<Rightarrow> u32 \<Rightarrow> bool \<Rightarrow> addr option \<Rightarrow> 'w zejf \<Rightarrow> (addr option \<times> 'w zejf) option" where
  "datahour_add P hour_number create result s =
     (case (if result = None \<and> create
            then (case hour_create hour_number (mem s) of
                    (None, m) \<Rightarrow> (None, s\<lparr>mem := m\<rparr>)
                  | (Some hour, m) \<Rightarrow>
                      (Some (next_addr (mem s)),
                       s\<lparr>mem := m, hours := (hours s)(next_addr (mem s) \<mapsto> hour)\<rparr>))
            else (result, s)) of
        (None, s) \<Rightarrow> Some (None, s)
      | (Some a, s) \<Rightarrow>
          do {
            (rv, s) \<leftarrow> hour_add P a s;
            (if rv \<noteq> ZEJF_OK then do { s \<leftarrow> free_hour a s; Some (None, s) } else Some (Some a, s))
          })"

definition datahour_get :: "'w platform \<Rightarrow> u32 \<Rightarrow> bool \<Rightarrow> bool \<Rightarrow> 'w zejf \<Rightarrow> (addr option \<times> 'w zejf) option" where
  "datahour_get P hour_number load create s =
     do {
       (found, s) \<leftarrow> hour_find hour_number s;
       (if found \<noteq> None then Some (found, s)
        else if load
        then do {
          (rv, result, s) \<leftarrow> datahour_load P hour_number s;
          (if rv = ZEJF_OK
           then do {
             a \<leftarrow> result;
             hour \<leftarrow> hours s a;
             datahour_add P hour_number create result (s\<lparr>hours := (hours s)(a \<mapsto> hour\<lparr>hour_flags := 0\<rparr>)\<rparr>)
           }
           else if rv \<noteq> ZEJF_ERR_FILE_DOESNT_EXIST then Some (None, s)
           else datahour_add P hour_number create None s)
        }
        else datahour_add P hour_number create None s)
     }"

text \<open>The value read, when there is one.\<close>

definition data_get_val ::
  "'w platform \<Rightarrow> VariableInfo \<Rightarrow> u32 \<Rightarrow> u32 \<Rightarrow> bool \<Rightarrow> bool \<Rightarrow> 'w zejf \<Rightarrow> (zejf_err \<times> u32 option \<times> 'w zejf) option"
where
  "data_get_val P variable hour_number log_number load create_new s =
     do {
       (found, s) \<leftarrow> datahour_get P hour_number load create_new s;
       (case found of
          None \<Rightarrow> Some (ZEJF_ERR_NULL, None, s)
        | Some a \<Rightarrow>
            do {
              hour \<leftarrow> hours s a;
              v \<leftarrow> get_variable hour (var_id variable);
              (case v of
                 None \<Rightarrow> Some (ZEJF_ERR_NULL, None, s)
               | Some k \<Rightarrow>
                   do {
                     var \<leftarrow> arr_get (variables hour) k;
                     (if samples_per_hour (variable_info var) \<le> log_number
                      then Some (ZEJF_ERR_LOG_NUMBER, None, s)
                      else do { x \<leftarrow> arr_get (var_data var) (unat log_number); Some (ZEJF_OK, Some x, s) })
                   })
            })
     }"

text \<open>One round of the loop of \<open>data_save\<close>.\<close>

definition data_save_hour :: "'w platform \<Rightarrow> addr \<Rightarrow> 'w zejf \<Rightarrow> 'w zejf option" where
  "data_save_hour P a s =
     do {
       hour \<leftarrow> hours s a;
       (if hour_flags hour AND FLAG_MODIFIED = 0 then Some s
        else do {
          (rv, s) \<leftarrow> datahour_save P a s;
          (if rv \<noteq> ZEJF_OK then Some s
           else do { hour \<leftarrow> hours s a; Some (s\<lparr>hours := (hours s)(a \<mapsto> hour\<lparr>hour_flags := 0\<rparr>)\<rparr>) })
        })
     }"

partial_function (option) data_save_loop :: "'w platform \<Rightarrow> addr \<Rightarrow> 'w zejf \<Rightarrow> 'w zejf option" where
  "data_save_loop P node s =
     do {
       q \<leftarrow> data_queue s;
       n \<leftarrow> nodes q node;
       s \<leftarrow> data_save_hour P (node_item n) s;
       (if Some (node_previous n) \<noteq> head q then data_save_loop P (node_previous n) s else Some s)
     }"

definition data_save :: "'w platform \<Rightarrow> 'w zejf \<Rightarrow> 'w zejf option" where
  "data_save P s =
     do { q \<leftarrow> data_queue s; (case head q of None \<Rightarrow> Some s | Some node \<Rightarrow> data_save_loop P node s) }"

text \<open>\<open>existing_variable->data[sample_number] = value\<close>.\<close>

definition put_sample :: "DataHour \<Rightarrow> nat \<Rightarrow> nat \<Rightarrow> u32 \<Rightarrow> DataHour option" where
  "put_sample hour k i value =
     do {
       var \<leftarrow> arr_get (variables hour) k;
       data \<leftarrow> arr_set (var_data var) i value;
       Some (hour\<lparr>variables := (variables hour)[k := var\<lparr>var_data := data\<rparr>]\<rparr>)
     }"

text \<open>The second half of \<open>data_log\<close>, once the variable (at index \<open>k\<close>) is there.\<close>

definition data_log_value ::
  "'w platform \<Rightarrow> VariableInfo \<Rightarrow> u32 \<Rightarrow> u32 \<Rightarrow> u32 \<Rightarrow> u32 \<Rightarrow> bool \<Rightarrow> addr \<Rightarrow> nat \<Rightarrow> 'w zejf \<Rightarrow> (zejf_err \<times> 'w zejf) option"
where
  "data_log_value P target_variable hour_number sample_number value time announce a k s =
     do {
       hour \<leftarrow> hours s a;
       var \<leftarrow> arr_get (variables hour) k;
       (if samples_per_hour (variable_info var) \<noteq> samples_per_hour target_variable
        then Some (ZEJF_ERR_INVALID_SAMPLE_RATE, s)
        else if samples_per_hour (variable_info var) \<le> sample_number then Some (ZEJF_ERR_LOG_NUMBER, s)
        else do {
          old \<leftarrow> arr_get (var_data var) (unat sample_number);
          (if old \<noteq> VALUE_EMPTY \<and> old \<noteq> VALUE_NOT_MEASURED \<and> (value = VALUE_EMPTY \<or> value = VALUE_NOT_MEASURED)
           then Some (ZEJF_ERR_VALUE, s)
           else do {
             hour \<leftarrow> put_sample hour k (unat sample_number) value;
             let s = s\<lparr>hours := (hours s)(a \<mapsto> hour)\<rparr>;
             s \<leftarrow> (if announce
                   then do { (_, s) \<leftarrow> network_announce_log P target_variable hour_number sample_number value time s; Some s }
                   else Some s);
             (_, s) \<leftarrow> network_broadcast_log P target_variable hour_number sample_number value time s;
             hour \<leftarrow> hours s a;
             Some (ZEJF_OK, s\<lparr>hours := (hours s)(a \<mapsto> hour\<lparr>hour_flags := FLAG_MODIFIED\<rparr>)\<rparr>)
           })
        })
     }"

definition data_log ::
  "'w platform \<Rightarrow> VariableInfo \<Rightarrow> u32 \<Rightarrow> u32 \<Rightarrow> u32 \<Rightarrow> u32 \<Rightarrow> bool \<Rightarrow> 'w zejf \<Rightarrow> (zejf_err \<times> 'w zejf) option"
where
  "data_log P target_variable hour_number sample_number value time announce s =
     do {
       (found, s) \<leftarrow> datahour_get P hour_number True True s;
       (case found of
          None \<Rightarrow> Some (ZEJF_ERR_NULL, s)
        | Some a \<Rightarrow>
            do {
              hour \<leftarrow> hours s a;
              existing \<leftarrow> get_variable hour (var_id target_variable);
              (case existing of
                 Some k \<Rightarrow> data_log_value P target_variable hour_number sample_number value time announce a k s
               | None \<Rightarrow>
                   do {
                     (rv, hour, m) \<leftarrow> hour_add_variable P hour target_variable (mem s);
                     let s = s\<lparr>mem := m, hours := (hours s)(a \<mapsto> hour)\<rparr>;
                     (if rv \<noteq> ZEJF_OK then Some (rv, s)
                      else do {
                        existing \<leftarrow> get_variable hour (var_id target_variable);
                        k \<leftarrow> existing;
                        data_log_value P target_variable hour_number sample_number value time announce a k s
                      })
                   })
            })
     }"

definition variable_info_text :: "VariableInfo \<Rightarrow> u32 \<Rightarrow> string" where
  "variable_info_text info hour_number =
     show_uint (var_id info) @ '','' @ show_uint (samples_per_hour info) @ '','' @ show_uint hour_number"

text \<open>The loop over the variables; the result of \<open>network_send_packet\<close> is ignored.\<close>

partial_function (option) variables_loop ::
  "'w platform \<Rightarrow> u16 \<Rightarrow> u32 \<Rightarrow> u32 \<Rightarrow> addr \<Rightarrow> nat \<Rightarrow> nat \<Rightarrow> 'w zejf \<Rightarrow> (zejf_err \<times> 'w zejf) option"
where
  "variables_loop P dev hour_number time a count i s =
     (if i < count
      then do {
        hour \<leftarrow> hours s a;
        var \<leftarrow> arr_get (variables hour) i;
        (case snprintf (PACKET_MAX_LENGTH P) (variable_info_text (variable_info var) hour_number) of
           (msg, rv) \<Rightarrow>
             if rv \<le> 0 then Some (ZEJF_ERR_GENERIC, s)
             else do {
               (packet, s) \<leftarrow> network_prepare_packet P dev VARIABLE_INFO (Some msg) s;
               (if packet = None then Some (ZEJF_ERR_NULL, s)
                else do {
                  (_, s) \<leftarrow> network_send_packet P packet time s;
                  variables_loop P dev hour_number time a count (Suc i) s
                })
             })
      }
      else Some (ZEJF_OK, s))"

definition variables_request_process ::
  "'w platform \<Rightarrow> u16 \<Rightarrow> u32 \<Rightarrow> u32 \<Rightarrow> 'w zejf \<Rightarrow> (zejf_err \<times> 'w zejf) option"
where
  "variables_request_process P dev hour_number time s =
     do {
       (found, s) \<leftarrow> datahour_get P hour_number True False s;
       (case found of
          None \<Rightarrow> Some (ZEJF_ERR_NULL, s)
        | Some a \<Rightarrow>
            do {
              hour \<leftarrow> hours s a;
              slots \<leftarrow> allocate_packet_queue PRIORITY_MEDIUM s;
              (if slots < unat (variable_count hour) then Some (ZEJF_ERR_QUEUE_FULL, s)
               else variables_loop P dev hour_number time a (unat (variable_count hour)) 0 s)
            })
     }"

text \<open>\<open>sscanf\<close> on a null message is undefined.\<close>

definition variables_request_receive ::
  "'w platform \<Rightarrow> Packet \<Rightarrow> u32 \<Rightarrow> 'w zejf \<Rightarrow> (zejf_err \<times> 'w zejf) option"
where
  "variables_request_receive P packet time s =
     do {
       t \<leftarrow> message packet;
       (case sscanf [U 32] t of
          [UVal hour_number] \<Rightarrow> variables_request_process P (pkt_from packet) (of_nat hour_number) time s
        | _ \<Rightarrow> Some (ZEJF_ERR_GENERIC, s))
     }"

definition log_decode :: "string \<Rightarrow> (VariableInfo \<times> u32 \<times> u32 \<times> u32) option" where
  "log_decode t =
     (case sscanf [U 16, L CHR '','', U 32, L CHR '','', U 32, L CHR '','', U 32, L CHR '','', F] t of
        [UVal i, UVal n, UVal h, UVal k, FVal x] \<Rightarrow>
          Some (\<lparr>samples_per_hour = of_nat n, var_id = of_nat i\<rparr>, of_nat h, of_nat k, x)
      | _ \<Rightarrow> None)"

definition process_data_log :: "'w platform \<Rightarrow> Packet \<Rightarrow> u32 \<Rightarrow> 'w zejf \<Rightarrow> (zejf_err \<times> 'w zejf) option" where
  "process_data_log P packet time s =
     (case message packet of
        None \<Rightarrow> Some (ZEJF_ERR_NULL, s)
      | Some t \<Rightarrow>
          (case log_decode t of
             None \<Rightarrow> Some (ZEJF_ERR_GENERIC, s)
           | Some (variable, hour_number, sample_num, val) \<Rightarrow>
               data_log P variable hour_number sample_num val time False s))"

section \<open>The invariant of the cache\<close>

text \<open>The addresses of the cached hours, from the one that is evicted next to the newest.\<close>

definition cached :: "'w zejf \<Rightarrow> addr list" where
  "cached s = queue_items (data_queue s)"

definition hour_at :: "'w zejf \<Rightarrow> addr \<Rightarrow> DataHour" where
  "hour_at s a = the (hours s a)"

text \<open>
  The hours in memory are exactly the cached ones and the \<open>extra\<close> ones that are about to be added:
  none is lost and none is freed too early.  The cache has room for one hour at least.
\<close>

definition store_rep :: "'w platform \<Rightarrow> 'w zejf \<Rightarrow> addr set \<Rightarrow> bool" where
  "store_rep P s extra \<longleftrightarrow>
     never_fails (mem s) \<and> 0 < HOUR_BUFFER_SIZE P \<and> queue_ok (mem s) (data_queue s) \<and> queue_cap (data_queue s) = HOUR_BUFFER_SIZE P \<and>
     distinct (cached s) \<and> dom (hours s) = set (cached s) \<union> extra \<and> set (cached s) \<inter> extra = {} \<and>
     (\<forall>a\<in>dom (hours s). a < next_addr (mem s)) \<and> (\<forall>a h. hours s a = Some h \<longrightarrow> hour_vars_ok P h)"

definition store_ok :: "'w platform \<Rightarrow> 'w zejf \<Rightarrow> bool" where
  "store_ok P s \<longleftrightarrow> store_rep P s {}"

lemma cached_upd [simp]:
  "cached (s\<lparr>mem := m\<rparr>) = cached s" "cached (s\<lparr>hours := h\<rparr>) = cached s" "cached (s\<lparr>world := w\<rparr>) = cached s"
  "cached (s\<lparr>tx_queue := q\<rparr>) = cached s" "cached (s\<lparr>data_queue := d\<rparr>) = queue_items d"
  "cached (s\<lparr>data_requests_queue := r\<rparr>) = cached s"
  by (simp_all add: cached_def)

lemma hour_at_upd [simp]:
  "hour_at (s\<lparr>mem := m\<rparr>) = hour_at s" "hour_at (s\<lparr>world := w\<rparr>) = hour_at s" "hour_at (s\<lparr>tx_queue := q\<rparr>) = hour_at s"
  "hour_at (s\<lparr>data_queue := d\<rparr>) = hour_at s" "hour_at (s\<lparr>hours := f\<rparr>) = (\<lambda>a. the (f a))"
  "hour_at (s\<lparr>data_requests_queue := r\<rparr>) = hour_at s"
  by (simp_all add: hour_at_def fun_eq_iff)

lemma store_rep_upd [simp]:
  "store_rep P (s\<lparr>world := w\<rparr>) E = store_rep P s E" "store_rep P (s\<lparr>tx_queue := q\<rparr>) E = store_rep P s E"
  "store_rep P (s\<lparr>data_requests_queue := r\<rparr>) E = store_rep P s E"
  by (simp_all add: store_rep_def)

lemma store_rep_mem: "store_rep P s E \<Longrightarrow> alloc_mono (mem s) m \<Longrightarrow> store_rep P (s\<lparr>mem := m\<rparr>) E"
  by (auto simp: store_rep_def queue_ok_mono alloc_mono_never_fails) (auto simp: alloc_mono_def dest!: bspec)

lemma store_repD:
  assumes "store_rep P s E"
  shows "never_fails (mem s)" "queue_ok (mem s) (data_queue s)" "queue_cap (data_queue s) = HOUR_BUFFER_SIZE P"
    "distinct (cached s)" "dom (hours s) = set (cached s) \<union> E" "set (cached s) \<inter> E = {}"
    "\<And>a. a \<in> dom (hours s) \<Longrightarrow> a < next_addr (mem s)" "\<And>a h. hours s a = Some h \<Longrightarrow> hour_vars_ok P h"
  using assms unfolding store_rep_def by blast+

lemma store_rep_hour:
  assumes "store_rep P s E" and "a \<in> set (cached s) \<union> E"
  shows "hours s a = Some (hour_at s a)" "hour_vars_ok P (hour_at s a)"
proof -
  have "a \<in> dom (hours s)" using store_repD(5) [OF assms(1)] assms(2) by simp
  then show "hours s a = Some (hour_at s a)" by (auto simp: hour_at_def)
  then show "hour_vars_ok P (hour_at s a)" by (rule store_repD(8) [OF assms(1)])
qed

text \<open>Writing an hour in place.\<close>

lemma store_rep_write:
  assumes "store_rep P s E" and "a \<in> set (cached s) \<union> E" and "hour_vars_ok P h"
  shows "store_rep P (s\<lparr>hours := (hours s)(a \<mapsto> h)\<rparr>) E"
  using assms by (auto simp: store_rep_def)

text \<open>What the operations of the cache may change.\<close>

definition store_frame :: "'w zejf \<Rightarrow> 'w zejf \<Rightarrow> bool" where
  "store_frame s s' \<longleftrightarrow>
     alloc_mono (mem s) (mem s') \<and> tx_queue s' = tx_queue s \<and> rx_queue s' = rx_queue s \<and> next_packet s' = next_packet s \<and>
     provide_ptr s' = provide_ptr s \<and> demand_ptr s' = demand_ptr s \<and> rtable s' = rtable s \<and>
     routing_table_top s' = routing_table_top s \<and> next_free_id s' = next_free_id s \<and>
     data_requests_queue s' = data_requests_queue s \<and> interfaces s' = interfaces s"

lemma store_frame_refl [simp]: "store_frame s s"
  by (simp add: store_frame_def)

lemma store_frame_trans [trans]: "store_frame a b \<Longrightarrow> store_frame b c \<Longrightarrow> store_frame a c"
  by (auto simp: store_frame_def intro: alloc_mono_trans)

lemma store_frame_upd [simp]:
  "store_frame s (t\<lparr>world := w\<rparr>) = store_frame s t" "store_frame s (t\<lparr>hours := h\<rparr>) = store_frame s t"
  "store_frame s (t\<lparr>data_queue := q\<rparr>) = store_frame s t"
  by (simp_all add: store_frame_def)

lemma store_frame_mem: "store_frame s t \<Longrightarrow> alloc_mono (mem t) m \<Longrightarrow> store_frame s (t\<lparr>mem := m\<rparr>)"
  by (auto simp: store_frame_def intro: alloc_mono_trans)

lemma store_frame_simps:
  assumes "store_frame s s'"
  shows "alloc_mono (mem s) (mem s')" "tx_queue s' = tx_queue s" "rx_queue s' = rx_queue s" "next_packet s' = next_packet s"
    "interfaces s' = interfaces s" "data_requests_queue s' = data_requests_queue s" "table_entries s' = table_entries s"
  using assms by (simp_all add: store_frame_def table_entries_def)

lemma store_frame_net_ok:
  assumes "store_frame s s'" and "net_ok P s"
  shows "net_ok P s'"
proof -
  have "routing_ok P s' = routing_ok P s" using assms(1) by (intro routing_ok_cong) (auto simp: store_frame_def)
  with assms show ?thesis
    by (auto simp: net_ok_def store_frame_def queue_ok_mono alloc_mono_never_fails)
qed

section \<open>Finding an hour\<close>

text \<open>\<open>r\<close> is the last element of \<open>as\<close> with the key \<open>n\<close>, if any.\<close>

definition last_hit :: "('a \<Rightarrow> 'b) \<Rightarrow> 'b \<Rightarrow> 'a list \<Rightarrow> 'a option \<Rightarrow> bool" where
  "last_hit f n as r \<longleftrightarrow>
     (case r of None \<Rightarrow> n \<notin> f ` set as
      | Some a \<Rightarrow> f a = n \<and> (\<exists>us vs. as = us @ a # vs \<and> n \<notin> f ` set vs))"

lemma last_hit_snoc:
  "last_hit f n (as @ [a]) (Some a) \<longleftrightarrow> f a = n" "f a \<noteq> n \<Longrightarrow> last_hit f n as r \<Longrightarrow> last_hit f n (as @ [a]) r"
proof -
  have "\<exists>us vs. as @ [a] = us @ a # vs \<and> n \<notin> f ` set vs" by (intro exI [of _ as] exI [of _ "[]"]) simp
  then show "last_hit f n (as @ [a]) (Some a) \<longleftrightarrow> f a = n" by (simp add: last_hit_def)
  assume "f a \<noteq> n" and "last_hit f n as r"
  moreover have "\<exists>us' vs'. as @ [a] = us' @ b # vs' \<and> n \<notin> f ` set vs'"
    if "as = us @ b # vs" "n \<notin> f ` set vs" for us b vs
    using that \<open>f a \<noteq> n\<close> by (intro exI [of _ us] exI [of _ "vs @ [a]"]) auto
  ultimately show "last_hit f n (as @ [a]) r" by (cases r) (auto simp: last_hit_def)
qed

lemma hour_find_loop_ok:
  assumes "data_queue s = Some l" and rep: "list_rep l as" and "\<forall>b\<in>set as. itm (nodes l) b \<in> dom (hours s)"
  shows "as = xs @ a # ys \<Longrightarrow> returns (hour_find_loop n a s) (\<lambda>r.
     last_hit (\<lambda>b. hour_id (hour_at s (itm (nodes l) b))) n (xs @ [a]) (map_option fst r) \<and>
     (\<forall>node i. r = Some (node, i) \<longrightarrow> i = itm (nodes l) node))"
proof (induction xs arbitrary: a ys rule: rev_induct)
  case Nil
  then have r: "ring (nodes l) (a # ys)" and h: "head l = Some (last (a # ys))" using rep by (simp_all add: list_rep_def)
  obtain nd where nd: "nodes l a = Some nd" using ring_in_dom [OF r, of a] by auto
  have "node_previous nd = last (a # ys)" using ring_previous_hd [OF r] nd by (simp add: prv_def)
  moreover obtain hr where "hours s (node_item nd) = Some hr" using assms(3) Nil nd by (auto simp: itm_def)
  ultimately show ?case using assms(1) nd h
    by (subst hour_find_loop.simps) (auto simp: itm_def hour_at_def last_hit_snoc(1) [of _ _ "[]", simplified] last_hit_def [of _ _ _ None])
next
  case (snoc b xs)
  then have r: "ring (nodes l) (xs @ b # a # ys)" and h: "head l = Some (last (a # ys))" using rep by (simp_all add: list_rep_def)
  obtain nd where nd: "nodes l a = Some nd" using ring_in_dom [OF r, of a] by auto
  have p: "node_previous nd = b" using ring_previous [OF r] nd by (simp add: prv_def)
  have ne: "b \<noteq> last (a # ys)" using ring_distinct [OF r] by (auto split: if_splits)
  obtain hr where hr: "hours s (node_item nd) = Some hr" using assms(3) snoc.prems nd by (auto simp: itm_def)
  have key: "hour_id (hour_at s (itm (nodes l) a)) = hour_id hr" using nd hr by (simp add: itm_def hour_at_def)
  have IH: "returns (hour_find_loop n b s) (\<lambda>r.
     last_hit (\<lambda>b. hour_id (hour_at s (itm (nodes l) b))) n ((xs @ [b]) @ [a]) (map_option fst r) \<and>
     (\<forall>node i. r = Some (node, i) \<longrightarrow> i = itm (nodes l) node))" if "hour_id hr \<noteq> n"
  proof (rule returns_weaken [OF snoc.IH [of b "a # ys"]])
    show "as = xs @ b # a # ys" using snoc.prems by simp
  qed (use last_hit_snoc(2) [where f = "\<lambda>b. hour_id (hour_at s (itm (nodes l) b))" and a = a and as = "xs @ [b]"] key that
      in simp)
  show ?case using assms(1) nd hr h p ne key IH
    by (subst hour_find_loop.simps) (auto simp: itm_def last_hit_snoc(1) [of _ _ "xs @ [b]", simplified])
qed

text \<open>A hit becomes the hour that is evicted next.\<close>

definition find_done :: "'w zejf \<Rightarrow> u32 \<Rightarrow> addr option \<Rightarrow> 'w zejf \<Rightarrow> bool" where
  "find_done s n r s' \<longleftrightarrow> s' = s\<lparr>data_queue := data_queue s'\<rparr> \<and>
     (case r of None \<Rightarrow> s' = s \<and> n \<notin> (\<lambda>a. hour_id (hour_at s a)) ` set (cached s)
      | Some a \<Rightarrow> hour_id (hour_at s a) = n \<and>
          (\<exists>us vs. cached s = us @ a # vs \<and> n \<notin> (\<lambda>a. hour_id (hour_at s a)) ` set vs \<and> cached s' = a # vs @ us))"

lemma hour_find_ok:
  assumes st: "store_rep P s E"
  shows "returns (hour_find n s) (\<lambda>(r, s'). store_rep P s' E \<and> find_done s n r s')"
proof -
  obtain l where l: "data_queue s = Some l" and ok: "list_ok (mem s) l"
    using store_repD(2) [OF st] by (auto simp: queue_ok_def split: option.splits)
  let ?as = "list_addrs l" and ?it = "itm (nodes l)"
  have rep: "list_rep l ?as" and lt: "\<forall>a\<in>set ?as. a < next_addr (mem s)" using ok by (simp_all add: list_ok_rep)
  have items: "cached s = map ?it ?as" by (simp add: cached_def l list_items_def)
  have dom: "\<forall>b\<in>set ?as. ?it b \<in> dom (hours s)" using store_repD(5) [OF st] items by auto
  show ?thesis
  proof (cases ?as rule: rev_cases)
    case Nil
    then have "head l = None" using rep by (simp add: list_rep_def)
    with Nil st show ?thesis by (simp add: hour_find_def l items find_done_def)
  next
    case (snoc xs a)
    then have h: "head l = Some a" using rep by (simp add: list_rep_def)
    have found: "returns (do { q \<leftarrow> list_prioritise (Some l) node; Some (Some (?it node), s\<lparr>data_queue := Some q\<rparr>) })
        (\<lambda>(r, s'). store_rep P s' E \<and> find_done s n r s')"
      if hit: "hour_id (hour_at s (?it node)) = n" "?as = us @ node # vs" "n \<notin> (\<lambda>b. hour_id (hour_at s (?it b))) ` set vs" for node us vs
    proof -
      obtain l' where l': "list_prioritise (Some l) node = Some l'" "list_rep l' (node # vs @ us)" "nodes l' = nodes l" "capacity l' = capacity l"
        using list_prioritise_ok [of l us node vs] rep hit(2) by auto
      have items': "list_items l' = map ?it (node # vs @ us)" using l'(3) by (simp add: list_rep_items [OF l'(2)])
      have "list_ok (mem s) l'" by (rule list_ok_repI [OF l'(2)]) (use lt hit(2) in auto)
      then have "store_rep P (s\<lparr>data_queue := Some l'\<rparr>) E"
        using st l l'(4) items items' hit(2) by (auto simp: store_rep_def)
      moreover have "\<exists>us' vs'. cached s = us' @ ?it node # vs' \<and> n \<notin> (\<lambda>a. hour_id (hour_at s a)) ` set vs' \<and>
          list_items l' = ?it node # vs' @ us'"
        using hit items items' by (intro exI [of _ "map ?it us"] exI [of _ "map ?it vs"]) auto
      ultimately show ?thesis using l l'(1) hit(1) by (simp add: find_done_def)
    qed
    have miss: "store_rep P s E \<and> find_done s n None s" if "n \<notin> (\<lambda>b. hour_id (hour_at s (?it b))) ` set ?as"
      using that st items by (auto simp: find_done_def)
    show ?thesis unfolding hour_find_def l bind.bind_lunit h option.case
      by (rule returns_bindI [OF hour_find_loop_ok [OF l rep dom snoc, of n]])
        (use found miss snoc in \<open>auto simp: last_hit_def split: option.splits\<close>)
  qed
qed

section \<open>Loading, saving and making room\<close>

lemma store_rep_fresh: "store_rep P s E \<Longrightarrow> next_addr (mem s) \<notin> set (cached s) \<union> E"
  using store_repD(5,7) by fastforce

text \<open>A new hour at the next address.\<close>

lemma store_rep_new:
  assumes st: "store_rep P s E" and "alloc_mono (mem s) m" "next_addr (mem s) < next_addr m" "hour_vars_ok P h"
  shows "store_rep P (s\<lparr>mem := m, hours := (hours s)(next_addr (mem s) \<mapsto> h)\<rparr>) (insert (next_addr (mem s)) E)"
proof -
  have "store_rep P (s\<lparr>mem := m\<rparr>) E" by (rule store_rep_mem [OF assms(1,2)])
  with store_rep_fresh [OF st] assms(3,4) show ?thesis by (auto simp: store_rep_def)
qed

lemma store_rep_free:
  assumes st: "store_rep P s (insert a E)" and "a \<notin> E"
  shows "returns (free_hour a s) (\<lambda>s'. s' = s\<lparr>hours := (hours s)(a := None)\<rparr> \<and> store_rep P s' E)"
proof -
  have "hours s a = Some (hour_at s a)" "hour_vars_ok P (hour_at s a)" using store_rep_hour [OF st] by auto
  moreover have "store_rep P (s\<lparr>hours := (hours s)(a := None)\<rparr>) E" using st assms(2) by (auto simp: store_rep_def)
  ultimately show ?thesis by (simp add: free_hour_def)
qed

lemma datahour_load_ok:
  assumes st: "store_rep P s E"
  shows "returns (datahour_load P n s) (\<lambda>(rv, r, s'). store_frame s s' \<and> cached s' = cached s \<and> data_queue s' = data_queue s \<and>
     world s' = snd (hour_load P n (world s)) \<and>
     (case r of None \<Rightarrow> rv \<noteq> ZEJF_OK \<and> store_rep P s' E \<and> hours s' = hours s \<and>
          (case fst (hour_load P n (world s)) of (rv0, bs) \<Rightarrow>
             if rv0 = ZEJF_OK then rv = ZEJF_ERR_NULL \<and> (\<exists>m. hour_deserialize P bs (mem s) = Some (None, m)) else rv = rv0)
      | Some a \<Rightarrow> rv = ZEJF_OK \<and> a = next_addr (mem s) \<and> store_rep P s' (insert a E) \<and>
          (\<exists>h bs m. fst (hour_load P n (world s)) = (ZEJF_OK, bs) \<and>
             hour_deserialize P bs (mem s) = Some (Some h, m) \<and> hours s' = (hours s)(a \<mapsto> h))))"
proof -
  obtain rv buffer w where ld: "hour_load P n (world s) = ((rv, buffer), w)" by (metis prod.collapse)
  note safe = hour_deserialize_safe [OF store_repD(1) [OF st], of P buffer]
  show ?thesis
  proof (cases "rv = ZEJF_OK")
    case False
    with st show ?thesis by (simp add: datahour_load_def ld)
  next
    case True
    from safe obtain r m where d: "hour_deserialize P buffer (mem s) = Some (r, m)" "alloc_mono (mem s) m"
      "\<And>h. r = Some h \<Longrightarrow> hour_vars_ok P h" "\<And>h. r = Some h \<Longrightarrow> next_addr (mem s) < next_addr m" unfolding returns_iff by auto
    show ?thesis
    proof (cases r)
      case None
      with True d store_rep_mem [of P "s\<lparr>world := w\<rparr>"] st show ?thesis by (simp add: datahour_load_def ld store_frame_mem Let_def)
    next
      case (Some h)
      from store_rep_new [of P "s\<lparr>world := w\<rparr>" E m h] st d(2) d(4) [OF Some] d(3) [OF Some] True d Some show ?thesis
        by (simp add: datahour_load_def ld store_frame_mem Let_def)
    qed
  qed
qed

text \<open>Saving writes the checksum into the hour and hands its encoding to the platform.\<close>

definition summed :: "DataHour \<Rightarrow> DataHour" where
  "summed h = h\<lparr>hour_checksum := hour_sum h\<rparr>"

lemma datahour_save_ok:
  assumes st: "store_rep P s E" and a: "a \<in> set (cached s) \<union> E"
  shows "returns (datahour_save P a s) (\<lambda>(rv, s'). store_rep P s' E \<and> store_frame s s' \<and> data_queue s' = data_queue s \<and>
     hours s' = (hours s)(a \<mapsto> summed (hour_at s a)) \<and>
     (rv, world s') = hour_save P (hour_id (hour_at s a)) (hour_encoding (summed (hour_at s a))) (world s))"
proof -
  note h = store_rep_hour [OF st a]
  obtain m where m: "hour_serialize (hour_at s a) (mem s) = Some (Some (hour_encoding (summed (hour_at s a))), summed (hour_at s a), m)"
    "alloc_mono (mem s) m"
    using hour_serialize_ok [OF h(2) store_repD(1) [OF st]] unfolding returns_iff summed_def by auto
  have "store_rep P (s\<lparr>mem := m, hours := (hours s)(a \<mapsto> summed (hour_at s a))\<rparr>) E"
    using store_rep_write [OF store_rep_mem [OF st m(2)], of a "summed (hour_at s a)"] a h(2) by (simp add: summed_def)
  with m h(1) show ?thesis
    by (auto simp: datahour_save_def store_frame_mem Let_def summed_def split: prod.split)
qed

text \<open>Adding an hour to a full cache saves and frees the one that is first.\<close>

definition evicts :: "'w platform \<Rightarrow> 'w zejf \<Rightarrow> bool" where
  "evicts P s \<longleftrightarrow> length (cached s) = HOUR_BUFFER_SIZE P"

definition add_done :: "'w platform \<Rightarrow> addr \<Rightarrow> 'w zejf \<Rightarrow> 'w zejf \<Rightarrow> bool" where
  "add_done P a s s' \<longleftrightarrow>
     cached s' = (if evicts P s then tl (cached s) else cached s) @ [a] \<and>
     hours s' = (if evicts P s then (hours s)(hd (cached s) := None) else hours s) \<and>
     world s' = (if evicts P s
       then snd (hour_save P (hour_id (hour_at s (hd (cached s)))) (hour_encoding (summed (hour_at s (hd (cached s))))) (world s))
       else world s)"

lemma store_push_ok:
  assumes st: "store_rep P s (insert a E)" and "a \<notin> E" and "length (cached s) < HOUR_BUFFER_SIZE P"
  shows "returns (list_push (mem s) (data_queue s) a) (\<lambda>(ok, q, m). ok \<and> alloc_mono (mem s) m \<and>
     store_rep P (s\<lparr>mem := m, data_queue := q\<rparr>) E \<and> queue_items q = cached s @ [a])"
proof -
  obtain l where l: "data_queue s = Some l" "list_ok (mem s) l" "capacity l = HOUR_BUFFER_SIZE P"
    using store_repD(2,3) [OF st] by (auto simp: queue_ok_def queue_cap_def split: option.splits)
  have "\<not> list_is_full l" using list_ok_full [OF l(2)] assms(3) l by (simp add: cached_def)
  moreover have "alloc_ok (mem s) (next_addr (mem s))" using store_repD(1) [OF st] by (simp add: never_fails_def)
  moreover have "store_rep P (s\<lparr>mem := m, data_queue := Some l'\<rparr>) E"
    if "list_ok m l'" "capacity l' = capacity l" "alloc_mono (mem s) m" "list_items l' = list_items l @ [a]" for l' m
    using that store_rep_mem [OF st that(3)] l assms(2) by (auto simp: store_rep_def cached_def)
  ultimately show ?thesis
    using l by (auto intro!: returns_weaken [OF list_push_returns [OF l(2), of a]] simp: cached_def)
qed

lemma store_pop_ok:
  assumes st: "store_rep P s E" and "cached s = b # bs"
  shows "returns (list_pop (data_queue s)) (\<lambda>(r, q). r = Some b \<and> store_rep P (s\<lparr>data_queue := q\<rparr>) (insert b E) \<and> queue_items q = bs)"
proof -
  have "returns (list_pop (data_queue s)) (\<lambda>(r, q). queue_ok (mem s) q \<and> queue_cap q = queue_cap (data_queue s) \<and>
      r = (if cached s = [] then None else Some (hd (cached s))) \<and> queue_items q = tl (cached s))"
    unfolding cached_def by (rule ll.pop_spec [OF store_repD(2) [OF st]])
  then show ?thesis using assms by (auto elim!: returns_weaken simp: store_rep_def)
qed

lemma hour_add_ok:
  assumes st: "store_rep P s (insert a E)" and a: "a \<notin> E"
  shows "returns (hour_add P a s) (\<lambda>(rv, s'). rv = ZEJF_OK \<and> store_rep P s' E \<and> store_frame s s' \<and> add_done P a s s')"
proof -
  obtain l where l: "data_queue s = Some l" "list_ok (mem s) l" "capacity l = HOUR_BUFFER_SIZE P"
    using store_repD(2,3) [OF st] by (auto simp: queue_ok_def queue_cap_def split: option.splits)
  have full: "list_is_full l \<longleftrightarrow> evicts P s" and le: "length (cached s) \<le> HOUR_BUFFER_SIZE P"
    using list_ok_full [OF l(2)] list_ok_le [OF l(2)] l by (simp_all add: evicts_def cached_def)
  have push: "returns (do { (ok, q, m) \<leftarrow> list_push (mem t) (data_queue t) a;
        Some (if ok then ZEJF_OK else ZEJF_ERR_GENERIC, t\<lparr>mem := m, data_queue := q\<rparr>) })
      (\<lambda>(rv, s'). rv = ZEJF_OK \<and> store_rep P s' E \<and> store_frame t s' \<and> cached s' = cached t @ [a] \<and> hours s' = hours t \<and> world s' = world t)"
    if "store_rep P t (insert a E)" "length (cached t) < HOUR_BUFFER_SIZE P" for t
    by (rule returns_bindI [OF store_push_ok [OF that(1) a that(2)]]) (auto intro!: store_frame_mem)
  show ?thesis
  proof (cases "evicts P s")
    case False
    with le have "length (cached s) < HOUR_BUFFER_SIZE P" by (simp add: evicts_def)
    from push [OF st this] False show ?thesis
      by (auto simp: hour_add_def l full add_done_def elim!: returns_weaken)
  next
    case True
    with st obtain b bs where b: "cached s = b # bs" by (cases "cached s") (auto simp: evicts_def store_rep_def)
    obtain q where q: "list_pop (data_queue s) = Some (Some b, q)" "store_rep P (s\<lparr>data_queue := q\<rparr>) (insert b (insert a E))" "queue_items q = bs"
      using store_pop_ok [OF st b] unfolding returns_iff by auto
    have dist: "b \<notin> insert a E" using store_repD(6) [OF st] b by auto
    let ?s1 = "s\<lparr>data_queue := q\<rparr>"
    obtain rv s2 where s2: "datahour_save P b ?s1 = Some (rv, s2)" "store_rep P s2 (insert b (insert a E))" "store_frame ?s1 s2"
        "data_queue s2 = q" "hours s2 = (hours s)(b \<mapsto> summed (hour_at s b))"
        "world s2 = snd (hour_save P (hour_id (hour_at s b)) (hour_encoding (summed (hour_at s b))) (world s))"
    proof -
      have "b \<in> set (cached ?s1) \<union> insert b (insert a E)" by simp
      from datahour_save_ok [OF q(2) this] obtain rv s2 where "datahour_save P b ?s1 = Some (rv, s2)"
        "store_rep P s2 (insert b (insert a E))" "store_frame ?s1 s2" "data_queue s2 = q"
        "hours s2 = (hours s)(b \<mapsto> summed (hour_at s b))"
        "(rv, world s2) = hour_save P (hour_id (hour_at s b)) (hour_encoding (summed (hour_at s b))) (world s)"
        unfolding returns_iff by force
      from this(1-5) arg_cong [OF this(6), of snd] show thesis by (intro that) simp_all
    qed
    obtain s3 where s3: "free_hour b s2 = Some s3" "s3 = s2\<lparr>hours := (hours s2)(b := None)\<rparr>" "store_rep P s3 (insert a E)"
      using store_rep_free [OF s2(2) dist] unfolding returns_iff by auto
    have c3: "cached s3 = bs" using s3 s2(4) q(3) by (simp add: cached_def)
    have "length bs < HOUR_BUFFER_SIZE P" using True b by (auto simp: evicts_def)
    from push [OF s3(3)] this c3 have pushed: "returns (do { (ok, q, m) \<leftarrow> list_push (mem s3) (data_queue s3) a;
        Some (if ok then ZEJF_OK else ZEJF_ERR_GENERIC, s3\<lparr>mem := m, data_queue := q\<rparr>) })
      (\<lambda>(rv, s'). rv = ZEJF_OK \<and> store_rep P s' E \<and> store_frame s3 s' \<and> cached s' = bs @ [a] \<and> hours s' = hours s3 \<and> world s' = world s3)"
      by simp
    have fr: "store_frame s s3" using s2(3) s3(2) by (simp add: store_frame_def)
    have "returns (do { (ok, q, m) \<leftarrow> list_push (mem s3) (data_queue s3) a;
        Some (if ok then ZEJF_OK else ZEJF_ERR_GENERIC, s3\<lparr>mem := m, data_queue := q\<rparr>) })
      (\<lambda>(rv, s'). rv = ZEJF_OK \<and> store_rep P s' E \<and> store_frame s s' \<and> add_done P a s s')"
      by (rule returns_weaken [OF pushed]) (use True b s2(5,6) s3(2) store_frame_trans [OF fr] in \<open>auto simp: add_done_def\<close>)
    moreover have "list_pop (Some l) = Some (Some b, q)" using q(1) l(1) by simp
    ultimately show ?thesis using True by (simp add: hour_add_def l(1) full s2(1) s3(1))
  qed
qed

section \<open>Getting an hour\<close>

definition new_hour :: "u32 \<Rightarrow> DataHour" where
  "new_hour n = \<lparr>hour_id = n, hour_checksum = 0, variable_count = 0, hour_flags = 0, variables = []\<rparr>"

lemma new_hour_ok [simp]: "hour_vars_ok P (new_hour n)"
  by (simp add: hour_vars_ok_def new_hour_def)

lemma hour_create_ok: "never_fails m \<Longrightarrow> hour_create n m = (Some (new_hour n), m\<lparr>next_addr := Suc (next_addr m)\<rparr>)"
  by (simp add: hour_create_def new_hour_def)

text \<open>
  What \<open>datahour_get\<close> does in each case.  \<open>fetched\<close>: an hour that was not in the cache, read from
  storage or new, is added to it, at the address \<open>a\<close> that was free.
\<close>

definition fetched :: "'w platform \<Rightarrow> 'w zejf \<Rightarrow> DataHour \<Rightarrow> 'w \<Rightarrow> addr \<Rightarrow> 'w zejf \<Rightarrow> bool" where
  "fetched P s h w a s' \<longleftrightarrow> a \<notin> dom (hours s) \<and>
     (\<exists>t. add_done P a t s' \<and> cached t = cached s \<and> hours t = (hours s)(a \<mapsto> h) \<and> world t = w)"

definition get_done :: "'w platform \<Rightarrow> u32 \<Rightarrow> bool \<Rightarrow> bool \<Rightarrow> 'w zejf \<Rightarrow> addr option \<Rightarrow> 'w zejf \<Rightarrow> bool" where
  "get_done P n load create s r s' \<longleftrightarrow>
     (if n \<in> (\<lambda>a. hour_id (hour_at s a)) ` set (cached s) then r \<noteq> None \<and> find_done s n r s'
      else
        (let lr = (if load then hour_load P n (world s) else ((ZEJF_ERR_FILE_DOESNT_EXIST, None), world s)) in
         case r of
           Some a \<Rightarrow>
             (case fst lr of (rv, bs) \<Rightarrow>
                (rv = ZEJF_OK \<and> (\<exists>m h m'. never_fails m \<and> hour_deserialize P bs m = Some (Some h, m') \<and>
                   fetched P s (h\<lparr>hour_flags := 0\<rparr>) (snd lr) a s')) \<or>
                (rv = ZEJF_ERR_FILE_DOESNT_EXIST \<and> create \<and> fetched P s (new_hour n) (snd lr) a s'))
         | None \<Rightarrow>
             cached s' = cached s \<and> hours s' = hours s \<and> world s' = snd lr \<and>
             (case fst lr of (rv, bs) \<Rightarrow>
                (rv = ZEJF_OK \<and> (\<exists>m m'. never_fails m \<and> hour_deserialize P bs m = Some (None, m'))) \<or>
                (rv \<noteq> ZEJF_OK \<and> (rv = ZEJF_ERR_FILE_DOESNT_EXIST \<longrightarrow> \<not> create)))))"

lemma add_fetched:
  assumes t: "store_rep P t {a}" "a \<notin> dom (hours s)" "cached t = cached s" "hours t = (hours s)(a \<mapsto> h)"
    and fr: "store_frame s t"
  shows "returns (datahour_add P n create (Some a) t)
    (\<lambda>(r, s'). r = Some a \<and> store_ok P s' \<and> store_frame s s' \<and> fetched P s h (world t) a s')"
proof -
  have "returns (do { (rv, s) \<leftarrow> hour_add P a t;
      (if rv \<noteq> ZEJF_OK then do { s \<leftarrow> free_hour a s; Some (None, s) } else Some (Some a, s)) })
    (\<lambda>(r, s'). r = Some a \<and> store_ok P s' \<and> store_frame s s' \<and> fetched P s h (world t) a s')"
    by (rule returns_bindI [OF hour_add_ok [where E = "{}"]])
      (use t fr store_frame_trans [OF fr] in \<open>auto simp: store_ok_def fetched_def\<close>)
  then show ?thesis by (simp add: datahour_add_def)
qed

lemma datahour_create_ok:
  assumes t: "store_ok P t" "store_frame s t" "hours t = hours s" "cached t = cached s"
  shows "returns (datahour_add P n create None t) (\<lambda>(r, s'). store_ok P s' \<and> store_frame s s' \<and>
       (case r of None \<Rightarrow> \<not> create \<and> s' = t | Some a \<Rightarrow> create \<and> fetched P s (new_hour n) (world t) a s'))"
proof (cases create)
  case False
  with t show ?thesis by (simp add: datahour_add_def)
next
  case True
  let ?m = "(mem t)\<lparr>next_addr := Suc (next_addr (mem t))\<rparr>" and ?a = "next_addr (mem t)"
  let ?t = "t\<lparr>mem := ?m, hours := (hours t)(?a \<mapsto> new_hour n)\<rparr>"
  have rep: "store_rep P t {}" and nf: "never_fails (mem t)" using t(1) store_repD(1) by (auto simp: store_ok_def)
  have "store_rep P ?t {?a}" by (rule store_rep_new [OF rep]) simp_all
  moreover have "?a \<notin> dom (hours s)" using store_rep_fresh [OF rep] store_repD(5) [OF rep] t(3) by simp
  moreover have "store_frame s ?t" using t(2) by (simp add: store_frame_mem)
  ultimately have "returns (datahour_add P n create (Some ?a) ?t)
    (\<lambda>(r, s'). r = Some ?a \<and> store_ok P s' \<and> store_frame s s' \<and> fetched P s (new_hour n) (world ?t) ?a s')"
    using t(3,4) by (intro add_fetched) simp_all
  moreover have "datahour_add P n create None t = datahour_add P n create (Some ?a) ?t"
    using True by (simp add: datahour_add_def hour_create_ok [OF nf])
  ultimately show ?thesis using True by (auto elim!: returns_weaken)
qed

lemma datahour_loaded_ok:
  assumes st: "store_ok P s" and t: "store_frame s t" "store_rep P t {a}" "hours t = (hours s)(a \<mapsto> h)" "cached t = cached s" "a = next_addr (mem s)"
  shows "returns (datahour_add P n create (Some a) (t\<lparr>hours := (hours t)(a \<mapsto> h\<lparr>hour_flags := 0\<rparr>)\<rparr>))
    (\<lambda>(r, s'). r = Some a \<and> store_ok P s' \<and> store_frame s s' \<and> fetched P s (h\<lparr>hour_flags := 0\<rparr>) (world t) a s')"
proof -
  let ?t = "t\<lparr>hours := (hours t)(a \<mapsto> h\<lparr>hour_flags := 0\<rparr>)\<rparr>"
  have rep: "store_rep P s {}" using st by (simp add: store_ok_def)
  have h: "hours t a = Some h" using t(3) by simp
  have "store_rep P ?t {a}" by (rule store_rep_write [OF t(2)]) (use store_repD(8) [OF t(2) h] in auto)
  moreover have "a \<notin> dom (hours s)" using store_rep_fresh [OF rep] store_repD(5) [OF rep] t(5) by simp
  moreover have "hours ?t = (hours s)(a \<mapsto> h\<lparr>hour_flags := 0\<rparr>)" using t(3) by simp
  ultimately have "returns (datahour_add P n create (Some a) ?t)
    (\<lambda>(r, s'). r = Some a \<and> store_ok P s' \<and> store_frame s s' \<and> fetched P s (h\<lparr>hour_flags := 0\<rparr>) (world ?t) a s')"
    using t(1,4) by (intro add_fetched) simp_all
  then show ?thesis by simp
qed

lemma datahour_get_ok:
  assumes st: "store_ok P s"
  shows "returns (datahour_get P n load create s) (\<lambda>(r, s'). store_ok P s' \<and> store_frame s s' \<and> get_done P n load create s r s')"
proof -
  have rep: "store_rep P s {}" using st by (simp add: store_ok_def)
  obtain r1 s1 where f: "hour_find n s = Some (r1, s1)" "store_rep P s1 {}" "find_done s n r1 s1"
    using hour_find_ok [OF rep, of n] unfolding returns_iff by auto
  obtain rv bs w where lr: "hour_load P n (world s) = ((rv, bs), w)" by (metis prod.collapse)
  consider (hit) a where "r1 = Some a" | (miss) "r1 = None" "\<not> load" | (load) "r1 = None" "load" by (cases r1; cases load) auto
  then show ?thesis
  proof cases
    case hit
    then have "n \<in> (\<lambda>a. hour_id (hour_at s a)) ` set (cached s)" using f(3) by (auto simp: find_done_def)
    moreover have "store_frame s s1" using f(3) by (simp add: find_done_def) (metis store_frame_refl store_frame_upd(3))
    ultimately show ?thesis using hit f by (simp add: datahour_get_def store_ok_def get_done_def)
  next
    case miss
    with f have "s1 = s" "n \<notin> (\<lambda>a. hour_id (hour_at s a)) ` set (cached s)" by (auto simp: find_done_def)
    with miss f(1) show ?thesis
      by (auto simp: datahour_get_def get_done_def split: option.splits
          intro!: returns_weaken [OF datahour_create_ok [OF st store_frame_refl, of n create]])
  next
    case load
    with f have s1: "s1 = s" and none: "n \<notin> (\<lambda>a. hour_id (hour_at s a)) ` set (cached s)" by (auto simp: find_done_def)
    obtain rv' r t where l: "datahour_load P n s = Some (rv', r, t)" "store_frame s t" "cached t = cached s" "world t = w"
        "r = None \<Longrightarrow> rv' \<noteq> ZEJF_OK \<and> store_rep P t {} \<and> hours t = hours s \<and>
          (if rv = ZEJF_OK then rv' = ZEJF_ERR_NULL \<and> (\<exists>m. hour_deserialize P bs (mem s) = Some (None, m)) else rv' = rv)"
        "\<And>a. r = Some a \<Longrightarrow> rv' = ZEJF_OK \<and> a = next_addr (mem s) \<and> store_rep P t {a} \<and> rv = ZEJF_OK \<and>
          (\<exists>h m. hour_deserialize P bs (mem s) = Some (Some h, m) \<and> hours t = (hours s)(a \<mapsto> h))"
      using datahour_load_ok [OF rep, of n] unfolding returns_iff lr by (auto split: option.splits)
    have nf: "never_fails (mem s)" by (rule store_repD(1) [OF rep])
    have get: "datahour_get P n load create s =
        (if rv' = ZEJF_OK
         then do { a \<leftarrow> r; hour \<leftarrow> hours t a; datahour_add P n create r (t\<lparr>hours := (hours t)(a \<mapsto> hour\<lparr>hour_flags := 0\<rparr>)\<rparr>) }
         else if rv' \<noteq> ZEJF_ERR_FILE_DOESNT_EXIST then Some (None, t) else datahour_add P n create None t)"
      using load f(1) s1 l(1) by (simp add: datahour_get_def)
    show ?thesis
    proof (cases r)
      case None
      then have t: "store_ok P t" "hours t = hours s" "rv' \<noteq> ZEJF_OK" using l(5) by (simp_all add: store_ok_def)
      show ?thesis unfolding get using t l(2-5) None load nf
        by (auto simp: get_done_def none lr split: option.splits if_splits
            intro!: returns_weaken [OF datahour_create_ok [OF t(1) l(2) t(2) l(3), of n create]])
    next
      case (Some a)
      with l(6) obtain h m where h: "rv' = ZEJF_OK" "a = next_addr (mem s)" "store_rep P t {a}" "rv = ZEJF_OK"
        "hour_deserialize P bs (mem s) = Some (Some h, m)" "hours t = (hours s)(a \<mapsto> h)" by blast
      have "get_done P n load create s (Some a) s'" if "fetched P s (h\<lparr>hour_flags := 0\<rparr>) (world t) a s'" for s'
        using that h(4,5) nf load l(4) by (auto simp: get_done_def none lr)
      then have "returns (datahour_add P n create (Some a) (t\<lparr>hours := (hours t)(a \<mapsto> h\<lparr>hour_flags := 0\<rparr>)\<rparr>))
          (\<lambda>(r, s'). store_ok P s' \<and> store_frame s s' \<and> get_done P n load create s r s')"
        by (intro returns_weaken [OF datahour_loaded_ok [OF st l(2) h(3,6) l(3) h(2), of n create]]) auto
      with Some h(1,6) show ?thesis unfolding get by simp
    qed
  qed
qed

text \<open>The hour returned is in the cache.\<close>

lemma get_done_cached:
  assumes "get_done P n load create s (Some a) s'" and "store_ok P s'"
  shows "a \<in> set (cached s')" "hours s' a = Some (hour_at s' a)" "hour_vars_ok P (hour_at s' a)"
proof -
  show a: "a \<in> set (cached s')"
    using assms(1) by (auto simp: get_done_def find_done_def fetched_def add_done_def Let_def split: if_splits)
  with assms(2) store_rep_hour [of P s' "{}" a] show "hours s' a = Some (hour_at s' a)" "hour_vars_ok P (hour_at s' a)"
    by (simp_all add: store_ok_def)
qed

end
