(* ===== verification/Data_Values.thy ===== *)
theory Data_Values
  imports Data_Store
begin

text \<open>
  Reading and logging values through the hour cache: \<open>data_get_val\<close>, \<open>data_log\<close>, \<open>data_save\<close> and
  \<open>variables_request_process\<close> of \<open>zejf_data.c\<close> and \<open>process_data_log\<close> of \<open>data_info.c\<close> against
  functions on a single hour, and the persistence of logged values across evictions.
\<close>

section \<open>Values of an hour\<close>

definition find_var :: "DataHour \<Rightarrow> u16 \<Rightarrow> Variable option" where
  "find_var h vid = find (\<lambda>v. var_id (variable_info v) = vid) (variables h)"

definition read_hour :: "DataHour option \<Rightarrow> u16 \<Rightarrow> u32 \<Rightarrow> zejf_err \<times> u32 option" where
  "read_hour hour vid n =
     (case hour of
        None \<Rightarrow> (ZEJF_ERR_NULL, None)
      | Some h \<Rightarrow>
          (case find_var h vid of
             None \<Rightarrow> (ZEJF_ERR_NULL, None)
           | Some v \<Rightarrow>
               if samples_per_hour (variable_info v) \<le> n then (ZEJF_ERR_LOG_NUMBER, None)
               else (ZEJF_OK, Some (var_data v ! unat n))))"

definition set_sample :: "u16 \<Rightarrow> u32 \<Rightarrow> u32 \<Rightarrow> DataHour \<Rightarrow> DataHour" where
  "set_sample vid n x h =
     h\<lparr>variables := map (\<lambda>v. if var_id (variable_info v) = vid then v\<lparr>var_data := (var_data v)[unat n := x]\<rparr> else v) (variables h)\<rparr>"

text \<open>A measured value is not replaced by one of the markers.\<close>

definition overwrites :: "u32 \<Rightarrow> u32 \<Rightarrow> bool" where
  "overwrites old x \<longleftrightarrow> old \<noteq> VALUE_EMPTY \<and> old \<noteq> VALUE_NOT_MEASURED \<and> (x = VALUE_EMPTY \<or> x = VALUE_NOT_MEASURED)"

definition log_known :: "VariableInfo \<Rightarrow> u32 \<Rightarrow> u32 \<Rightarrow> DataHour \<Rightarrow> zejf_err" where
  "log_known info n x h =
     (case find_var h (var_id info) of
        None \<Rightarrow> ZEJF_ERR_NULL
      | Some v \<Rightarrow>
          if samples_per_hour (variable_info v) \<noteq> samples_per_hour info then ZEJF_ERR_INVALID_SAMPLE_RATE
          else if samples_per_hour (variable_info v) \<le> n then ZEJF_ERR_LOG_NUMBER
          else if overwrites (var_data v ! unat n) x then ZEJF_ERR_VALUE else ZEJF_OK)"

definition log_hour :: "'w platform \<Rightarrow> VariableInfo \<Rightarrow> u32 \<Rightarrow> u32 \<Rightarrow> DataHour \<Rightarrow> zejf_err \<times> DataHour" where
  "log_hour P info n x h =
     (if \<not> has_variable h (var_id info) \<and> add_variable_err P h info \<noteq> ZEJF_OK then (add_variable_err P h info, h)
      else
        let h = (if has_variable h (var_id info) then h else add_variable info h); e = log_known info n x h in
        (e, if e = ZEJF_OK then (set_sample (var_id info) n x h)\<lparr>hour_flags := FLAG_MODIFIED\<rparr> else h))"

lemma find_var_None: "find_var h vid = None \<longleftrightarrow> \<not> has_variable h vid"
  by (auto simp: find_var_def has_variable_def find_None_iff)

lemma find_var_at:
  assumes ok: "hour_vars_ok P h" and k: "k < length (variables h)" "var_id (variable_info (variables h ! k)) = vid"
  shows "find_var h vid = Some (variables h ! k)"
proof -
  have d: "distinct (map (\<lambda>v. var_id (variable_info v)) (variables h))" using ok by (simp add: hour_vars_ok_def)
  obtain v where v: "find_var h vid = Some v" using k find_var_None [of h vid] by (auto simp: has_variable_def)
  then obtain i where i: "i < length (variables h)" "v = variables h ! i" "var_id (variable_info v) = vid"
    by (auto simp: find_var_def find_Some_iff)
  with k d have "i = k" by (auto simp: distinct_conv_nth)
  with v i show ?thesis by simp
qed

lemma get_variable_find:
  assumes "hour_vars_ok P h"
  shows "returns (get_variable h vid) (\<lambda>r. find_var h vid = map_option ((!) (variables h)) r \<and>
     (\<forall>k. r = Some k \<longrightarrow> k < length (variables h) \<and> var_id (variable_info (variables h ! k)) = vid))"
proof (rule returns_weaken [OF get_variable_ok [OF assms]])
  fix r
  assume r: "(r = None \<longleftrightarrow> \<not> has_variable h vid) \<and>
     (\<forall>k. r = Some k \<longrightarrow> k < length (variables h) \<and> var_id (variable_info (variables h ! k)) = vid)"
  then show "find_var h vid = map_option ((!) (variables h)) r \<and>
     (\<forall>k. r = Some k \<longrightarrow> k < length (variables h) \<and> var_id (variable_info (variables h ! k)) = vid)"
    using find_var_at [OF assms] find_var_None [of h vid] by (cases r) auto
qed

lemma find_var_ok:
  assumes "hour_vars_ok P h" and "find_var h vid = Some v"
  shows "variable_ok P v" "v \<in> set (variables h)" "var_id (variable_info v) = vid"
  using assms by (auto simp: find_var_def find_Some_iff hour_vars_ok_def)

lemma sample_in_range: "variable_ok P v \<Longrightarrow> \<not> samples_per_hour (variable_info v) \<le> n \<Longrightarrow> unat n < length (var_data v)"
  by (simp add: variable_ok_def word_less_nat_alt not_le)

lemma set_sample_ok: "hour_vars_ok P h \<Longrightarrow> hour_vars_ok P (set_sample vid n x h)"
  by (auto simp: hour_vars_ok_def set_sample_def variable_ok_def comp_def if_distrib [of "\<lambda>v. var_id (variable_info v)"] cong: if_cong)

lemma log_hour_ok:
  assumes "hour_vars_ok P h"
  shows "hour_vars_ok P (snd (log_hour P info n x h))"
  using assms add_variable_ok [OF assms, of info] by (auto simp: log_hour_def Let_def set_sample_ok)

lemma put_sample_ok:
  assumes ok: "hour_vars_ok P h" and k: "k < length (variables h)" "var_id (variable_info (variables h ! k)) = vid"
    and n: "\<not> samples_per_hour (variable_info (variables h ! k)) \<le> n"
  shows "put_sample h k (unat n) x = Some (set_sample vid n x h)"
proof -
  have "distinct (map (\<lambda>v. var_id (variable_info v)) (variables h))" and v: "variable_ok P (variables h ! k)"
    using ok k by (auto simp: hour_vars_ok_def)
  then have "(variables h)[k := (variables h ! k)\<lparr>var_data := (var_data (variables h ! k))[unat n := x]\<rparr>] =
      map (\<lambda>v. if var_id (variable_info v) = vid then v\<lparr>var_data := (var_data v)[unat n := x]\<rparr> else v) (variables h)"
    using k by (intro list_update_map_distinct)
  with k(1) sample_in_range [OF v n] show ?thesis by (simp add: put_sample_def set_sample_def)
qed

section \<open>Reading\<close>

lemma data_get_val_ok:
  assumes st: "store_ok P s"
  shows "returns (data_get_val P info hn n load create s) (\<lambda>(e, v, s'). store_ok P s' \<and> store_frame s s' \<and>
     (\<exists>r. get_done P hn load create s r s' \<and> (e, v) = read_hour (map_option (hour_at s') r) (var_id info) n))"
  unfolding data_get_val_def
proof (rule returns_bindI [OF datahour_get_ok [OF st]], clarify)
  fix r s'
  assume s': "store_ok P s'" "store_frame s s'" "get_done P hn load create s r s'"
  show "returns (case r of None \<Rightarrow> Some (ZEJF_ERR_NULL, None, s')
        | Some a \<Rightarrow> do { hour \<leftarrow> hours s' a; v \<leftarrow> get_variable hour (var_id info);
              (case v of None \<Rightarrow> Some (ZEJF_ERR_NULL, None, s')
               | Some k \<Rightarrow> do { var \<leftarrow> arr_get (variables hour) k;
                     (if samples_per_hour (variable_info var) \<le> n then Some (ZEJF_ERR_LOG_NUMBER, None, s')
                      else do { x \<leftarrow> arr_get (var_data var) (unat n); Some (ZEJF_OK, Some x, s') }) }) })
     (\<lambda>(e, v, s'). store_ok P s' \<and> store_frame s s' \<and>
       (\<exists>r. get_done P hn load create s r s' \<and> (e, v) = read_hour (map_option (hour_at s') r) (var_id info) n))"
  proof (cases r)
    case None
    with s' show ?thesis by (auto simp: read_hour_def intro!: exI [of _ None])
  next
    case (Some a)
    note a = get_done_cached [OF s'(3) [unfolded Some] s'(1)]
    have v: "variable_ok P (variables (hour_at s' a) ! k)" if "k < length (variables (hour_at s' a))" for k
      using a(3) that by (simp add: hour_vars_ok_def)
    have read: "returns (do { v \<leftarrow> get_variable (hour_at s' a) (var_id info);
              (case v of None \<Rightarrow> Some (ZEJF_ERR_NULL, None, s')
               | Some k \<Rightarrow> do { var \<leftarrow> arr_get (variables (hour_at s' a)) k;
                     (if samples_per_hour (variable_info var) \<le> n then Some (ZEJF_ERR_LOG_NUMBER, None, s')
                      else do { x \<leftarrow> arr_get (var_data var) (unat n); Some (ZEJF_OK, Some x, s') }) }) })
       (\<lambda>(e, v, t). t = s' \<and> (e, v) = read_hour (Some (hour_at s' a)) (var_id info) n)"
      by (rule returns_bindI [OF get_variable_find [OF a(3)]])
        (use sample_in_range [OF v] in \<open>auto simp: read_hour_def split: option.splits\<close>)
    show ?thesis unfolding Some option.case a(2) bind.bind_lunit
      by (rule returns_weaken [OF read]) (use s' Some in \<open>auto intro!: exI [of _ "Some a"]\<close>)
  qed
qed

section \<open>Logging\<close>

lemma store_ok_tx:
  assumes "tx_frame s s'" and "store_ok P s"
  shows "store_ok P s'" "cached s' = cached s" "hour_at s' = hour_at s"
proof -
  obtain m q where s': "s' = s\<lparr>mem := m, tx_queue := q\<rparr>" "alloc_mono (mem s) m" by (rule tx_frameE [OF assms(1)])
  show "store_ok P s'" using store_rep_mem [of P s "{}" m] assms(2) s' by (simp add: store_ok_def)
  show "cached s' = cached s" "hour_at s' = hour_at s" by (simp_all add: s')
qed

text \<open>What the operations on values may change: the cache, the storage and the end of the transmit queue.\<close>

definition data_frame :: "'w zejf \<Rightarrow> 'w zejf \<Rightarrow> bool" where
  "data_frame s s' \<longleftrightarrow>
     alloc_mono (mem s) (mem s') \<and> rx_queue s' = rx_queue s \<and> next_packet s' = next_packet s \<and>
     provide_ptr s' = provide_ptr s \<and> demand_ptr s' = demand_ptr s \<and> rtable s' = rtable s \<and>
     routing_table_top s' = routing_table_top s \<and> next_free_id s' = next_free_id s \<and>
     data_requests_queue s' = data_requests_queue s \<and> interfaces s' = interfaces s"

lemma data_frame_refl [simp]: "data_frame s s"
  by (simp add: data_frame_def)

lemma data_frame_trans [trans]: "data_frame a b \<Longrightarrow> data_frame b c \<Longrightarrow> data_frame a c"
  by (auto simp: data_frame_def intro: alloc_mono_trans)

lemma store_data_frame: "store_frame s s' \<Longrightarrow> data_frame s s'"
  by (simp add: data_frame_def store_frame_def)

lemma tx_data_frame: "tx_frame s s' \<Longrightarrow> data_frame s s'"
  by (auto elim!: tx_frameE simp: data_frame_def)

lemma data_frame_upd [simp]:
  "data_frame s (t\<lparr>hours := h\<rparr>) = data_frame s t" "data_frame (s\<lparr>hours := h\<rparr>) t = data_frame s t"
  by (simp_all add: data_frame_def)

lemma data_frame_mem: "data_frame s t \<Longrightarrow> alloc_mono (mem t) m \<Longrightarrow> data_frame s (t\<lparr>mem := m\<rparr>)"
  by (auto simp: data_frame_def intro: alloc_mono_trans)

lemma data_frame_simps:
  assumes "data_frame s s'"
  shows "interfaces s' = interfaces s" "rx_queue s' = rx_queue s" "data_requests_queue s' = data_requests_queue s"
    "table_entries s' = table_entries s" "alloc_mono (mem s) (mem s')"
  using assms by (simp_all add: data_frame_def table_entries_def)

lemma announce_log_safe:
  assumes ok: "net_ok P s" and pl: "platform_ok P (interfaces s)"
  shows "returns (network_announce_log P info hn n x time s) (\<lambda>(e, s'). net_ok P s' \<and> tx_frame s s')"
    "returns (network_broadcast_log P info hn n x time s) (\<lambda>(e, s'). net_ok P s' \<and> tx_frame s s')"
proof -
  have "\<exists>b. demands info e = Some b" if "e \<in> set (table_entries s)" for e
    using demands_ok [of "interfaces s" e info] net_okD(2) [OF ok] that by (auto simp: routing_ok_def)
  then show "returns (network_announce_log P info hn n x time s) (\<lambda>(e, s'). net_ok P s' \<and> tx_frame s s')"
    using log_loop_safe [OF ok pl, of "[]"] by (simp add: network_announce_log_def)
  show "returns (network_broadcast_log P info hn n x time s) (\<lambda>(e, s'). net_ok P s' \<and> tx_frame s s')"
    using log_loop_safe [OF ok pl, of "[]"] by (simp add: network_broadcast_log_def)
qed

text \<open>The effect of an operation on the hour at the address \<open>a\<close>.\<close>

definition hour_written :: "'w platform \<Rightarrow> addr \<Rightarrow> DataHour \<Rightarrow> 'w zejf \<Rightarrow> 'w zejf \<Rightarrow> bool" where
  "hour_written P a h s s' \<longleftrightarrow> net_ok P s' \<and> store_ok P s' \<and> data_frame s s' \<and>
     cached s' = cached s \<and> hours s' = (hours s)(a \<mapsto> h) \<and> world s' = world s"

lemma hour_written_same:
  assumes "net_ok P s" "store_ok P s" "hours s a = Some h"
  shows "hour_written P a h s s"
  using assms by (simp add: hour_written_def fun_upd_idem)

lemma hour_writtenI:
  assumes "net_ok P s" "store_ok P s" "a \<in> set (cached s)" "hour_vars_ok P h"
  shows "hour_written P a h s (s\<lparr>hours := (hours s)(a \<mapsto> h)\<rparr>)"
  using assms store_rep_write [of P s "{}" a h] by (simp add: hour_written_def store_ok_def)

lemma log_tail_ok:
  assumes ok: "net_ok P s" and st: "store_ok P s" and pl: "platform_ok P (interfaces s)"
    and a: "a \<in> set (cached s)" "hours s a = Some h" "hour_vars_ok P h"
  shows "returns (do {
      s \<leftarrow> (if announce then do { (_, s) \<leftarrow> network_announce_log P info hn n x time s; Some s } else Some s);
      (_, s) \<leftarrow> network_broadcast_log P info hn n x time s;
      hour \<leftarrow> hours s a;
      Some (ZEJF_OK, s\<lparr>hours := (hours s)(a \<mapsto> hour\<lparr>hour_flags := FLAG_MODIFIED\<rparr>)\<rparr>) })
    (\<lambda>(e, s'). e = ZEJF_OK \<and> hour_written P a (h\<lparr>hour_flags := FLAG_MODIFIED\<rparr>) s s')"
proof -
  let ?mid = "\<lambda>t. net_ok P t \<and> tx_frame s t"
  have first: "returns (if announce then do { (_, s) \<leftarrow> network_announce_log P info hn n x time s; Some s } else Some s) ?mid"
    using ok by (auto intro!: returns_bindI [OF announce_log_safe(1) [OF ok pl]])
  have second: "returns (do { (_, s) \<leftarrow> network_broadcast_log P info hn n x time t; hour \<leftarrow> hours s a;
      Some (ZEJF_OK, s\<lparr>hours := (hours s)(a \<mapsto> hour\<lparr>hour_flags := FLAG_MODIFIED\<rparr>)\<rparr>) })
    (\<lambda>(e, s'). e = ZEJF_OK \<and> hour_written P a (h\<lparr>hour_flags := FLAG_MODIFIED\<rparr>) s s')" if t: "net_ok P t" "tx_frame s t" for t
  proof (rule returns_bindI [OF announce_log_safe(2) [OF t(1)]])
    show "platform_ok P (interfaces t)" using pl tx_frame_simps [OF t(2)] by simp
  next
    fix r :: "zejf_err \<times> 'a zejf"
    assume "case r of (e, s') \<Rightarrow> net_ok P s' \<and> tx_frame t s'"
    then obtain e u where r: "r = (e, u)" "net_ok P u" "tx_frame s u" using tx_frame_trans [OF t(2)] by (cases r) auto
    note D = store_ok_tx [OF r(3) st] tx_frame_simps [OF r(3)]
    have "hour_written P a (h\<lparr>hour_flags := FLAG_MODIFIED\<rparr>) u (u\<lparr>hours := (hours u)(a \<mapsto> h\<lparr>hour_flags := FLAG_MODIFIED\<rparr>)\<rparr>)"
      by (rule hour_writtenI [OF r(2) D(1)]) (use a D in auto)
    then show "returns (case r of (_, s) \<Rightarrow> do { hour \<leftarrow> hours s a;
        Some (ZEJF_OK, s\<lparr>hours := (hours s)(a \<mapsto> hour\<lparr>hour_flags := FLAG_MODIFIED\<rparr>)\<rparr>) })
      (\<lambda>(e, s'). e = ZEJF_OK \<and> hour_written P a (h\<lparr>hour_flags := FLAG_MODIFIED\<rparr>) s s')"
      using a(2) D tx_data_frame [OF r(3)] r by (auto simp: hour_written_def intro: data_frame_trans)
  qed
  show ?thesis by (rule returns_bindI [OF first]) (use second in auto)
qed

lemma data_log_value_ok:
  assumes ok: "net_ok P s" and st: "store_ok P s" and pl: "platform_ok P (interfaces s)"
    and a: "a \<in> set (cached s)" "hours s a = Some h"
    and k: "k < length (variables h)" "var_id (variable_info (variables h ! k)) = var_id info"
  shows "returns (data_log_value P info hn n x time announce a k s) (\<lambda>(e, s'). e = log_known info n x h \<and>
     hour_written P a (if e = ZEJF_OK then (set_sample (var_id info) n x h)\<lparr>hour_flags := FLAG_MODIFIED\<rparr> else h) s s')"
proof -
  have h: "hour_vars_ok P h" using store_repD(8) [of P s "{}" a h] st a(2) by (simp add: store_ok_def)
  note fv = find_var_at [OF h k]
  have v: "variable_ok P (variables h ! k)" using h k(1) by (simp add: hour_vars_ok_def)
  note same = hour_written_same [OF ok st a(2)]
  show ?thesis
  proof (cases "log_known info n x h = ZEJF_OK")
    case False
    with same sample_in_range [OF v, of n] a(2) k(1) fv show ?thesis
      by (auto simp: data_log_value_def log_known_def overwrites_def split: if_splits)
  next
    case True
    then have rate: "samples_per_hour (variable_info (variables h ! k)) = samples_per_hour info"
      and n: "\<not> samples_per_hour (variable_info (variables h ! k)) \<le> n" and ov: "\<not> overwrites (var_data (variables h ! k) ! unat n) x"
      using fv by (auto simp: log_known_def split: if_splits)
    let ?h = "set_sample (var_id info) n x h" and ?s = "s\<lparr>hours := (hours s)(a \<mapsto> set_sample (var_id info) n x h)\<rparr>"
    have w: "hour_written P a ?h s ?s" by (rule hour_writtenI [OF ok st a(1) set_sample_ok [OF h]])
    have "returns (do {
      s \<leftarrow> (if announce then do { (_, s) \<leftarrow> network_announce_log P info hn n x time ?s; Some s } else Some ?s);
      (_, s) \<leftarrow> network_broadcast_log P info hn n x time s;
      hour \<leftarrow> hours s a;
      Some (ZEJF_OK, s\<lparr>hours := (hours s)(a \<mapsto> hour\<lparr>hour_flags := FLAG_MODIFIED\<rparr>)\<rparr>) })
    (\<lambda>(e, s'). e = ZEJF_OK \<and> hour_written P a (?h\<lparr>hour_flags := FLAG_MODIFIED\<rparr>) ?s s')"
      by (rule log_tail_ok) (use w pl a(1) set_sample_ok [OF h] in \<open>auto simp: hour_written_def\<close>)
    then have "returns (do {
      s \<leftarrow> (if announce then do { (_, s) \<leftarrow> network_announce_log P info hn n x time ?s; Some s } else Some ?s);
      (_, s) \<leftarrow> network_broadcast_log P info hn n x time s;
      hour \<leftarrow> hours s a;
      Some (ZEJF_OK, s\<lparr>hours := (hours s)(a \<mapsto> hour\<lparr>hour_flags := FLAG_MODIFIED\<rparr>)\<rparr>) })
    (\<lambda>(e, s'). e = log_known info n x h \<and> hour_written P a (if e = ZEJF_OK then ?h\<lparr>hour_flags := FLAG_MODIFIED\<rparr> else h) s s')"
      by (rule returns_weaken) (use w True in \<open>auto simp: hour_written_def intro: data_frame_trans\<close>)
    with True show ?thesis
      using a(2) k(1) rate n ov put_sample_ok [OF h k n, of x] sample_in_range [OF v n]
      by (cases announce) (simp_all add: data_log_value_def overwrites_def Let_def)
  qed
qed

lemma data_log_add_ok:
  assumes ok: "net_ok P s" and st: "store_ok P s" and pl: "platform_ok P (interfaces s)"
    and a: "a \<in> set (cached s)" "hours s a = Some h" and new: "\<not> has_variable h (var_id info)"
  shows "returns (do {
       (rv, hour, m) \<leftarrow> hour_add_variable P h info (mem s);
       let s = s\<lparr>mem := m, hours := (hours s)(a \<mapsto> hour)\<rparr>;
       (if rv \<noteq> ZEJF_OK then Some (rv, s)
        else do {
          existing \<leftarrow> get_variable hour (var_id info);
          k \<leftarrow> existing;
          data_log_value P info hn n x time announce a k s
        }) }) (\<lambda>(e, s'). e = fst (log_hour P info n x h) \<and> hour_written P a (snd (log_hour P info n x h)) s s')"
proof -
  have rep: "store_rep P s {}" using st by (simp add: store_ok_def)
  have h: "hour_vars_ok P h" by (rule store_repD(8) [OF rep a(2)])
  obtain e h' m where m: "hour_add_variable P h info (mem s) = Some (e, h', m)" "e = add_variable_err P h info" "alloc_mono (mem s) m"
    "h' = (if e = ZEJF_OK then add_variable info h else h)" "hour_vars_ok P h'"
    using hour_add_variable_ok [OF h store_repD(1) [OF rep], of info] unfolding returns_iff by auto
  let ?s = "s\<lparr>mem := m, hours := (hours s)(a \<mapsto> h')\<rparr>"
  have w: "net_ok P ?s" "store_ok P ?s" "data_frame s ?s"
    using net_ok_mem [OF ok m(3)] store_rep_write [OF store_rep_mem [OF rep m(3)] _ m(5), of a] a(1) data_frame_mem [OF data_frame_refl m(3)]
    by (simp_all add: store_ok_def)
  have "returns (if e \<noteq> ZEJF_OK then Some (e, ?s)
      else do { existing \<leftarrow> get_variable h' (var_id info); k \<leftarrow> existing; data_log_value P info hn n x time announce a k ?s })
    (\<lambda>(e, s'). e = fst (log_hour P info n x h) \<and> hour_written P a (snd (log_hour P info n x h)) s s')"
  proof (cases "e = ZEJF_OK")
    case False
    with m w new show ?thesis by (auto simp: log_hour_def hour_written_def)
  next
    case True
    then have h': "h' = add_variable info h" using m(4) by simp
    have "has_variable h' (var_id info)" by (simp add: h' has_variable_def add_variable_def empty_variable_def)
    then have "\<exists>v. find_var h' (var_id info) = Some v" using find_var_None [of h' "var_id info"] by auto
    then obtain k where k: "get_variable h' (var_id info) = Some (Some k)" "k < length (variables h')"
      "var_id (variable_info (variables h' ! k)) = var_id info"
      using get_variable_find [OF m(5), of "var_id info"] unfolding returns_iff by auto
    have "returns (data_log_value P info hn n x time announce a k ?s) (\<lambda>(e, s'). e = log_known info n x h' \<and>
        hour_written P a (if e = ZEJF_OK then (set_sample (var_id info) n x h')\<lparr>hour_flags := FLAG_MODIFIED\<rparr> else h') ?s s')"
      by (rule data_log_value_ok) (use w pl a k in auto)
    then have "returns (data_log_value P info hn n x time announce a k ?s)
        (\<lambda>(e, s'). e = fst (log_hour P info n x h) \<and> hour_written P a (snd (log_hour P info n x h)) s s')"
      by (rule returns_weaken) (use w(3) True m(2) h' new data_frame_trans in \<open>auto simp: log_hour_def Let_def hour_written_def\<close>)
    with True k(1) show ?thesis by simp
  qed
  then show ?thesis by (simp add: m(1) Let_def)
qed

lemma data_log_found_ok:
  assumes ok: "net_ok P s" and st: "store_ok P s" and pl: "platform_ok P (interfaces s)"
    and a: "a \<in> set (cached s)" "hours s a = Some h"
  shows "returns (do {
       existing \<leftarrow> get_variable h (var_id info);
       (case existing of
          Some k \<Rightarrow> data_log_value P info hn n x time announce a k s
        | None \<Rightarrow> do {
              (rv, hour, m) \<leftarrow> hour_add_variable P h info (mem s);
              let s = s\<lparr>mem := m, hours := (hours s)(a \<mapsto> hour)\<rparr>;
              (if rv \<noteq> ZEJF_OK then Some (rv, s)
               else do { existing \<leftarrow> get_variable hour (var_id info); k \<leftarrow> existing;
                         data_log_value P info hn n x time announce a k s }) }) })
     (\<lambda>(e, s'). e = fst (log_hour P info n x h) \<and> hour_written P a (snd (log_hour P info n x h)) s s')"
proof -
  have h: "hour_vars_ok P h" using store_repD(8) [of P s "{}" a h] st a(2) by (simp add: store_ok_def)
  obtain r where r: "get_variable h (var_id info) = Some r" "find_var h (var_id info) = map_option ((!) (variables h)) r"
    "\<And>k. r = Some k \<Longrightarrow> k < length (variables h) \<and> var_id (variable_info (variables h ! k)) = var_id info"
    using get_variable_find [OF h, of "var_id info"] unfolding returns_iff by auto
  show ?thesis
  proof (cases r)
    case None
    then have "\<not> has_variable h (var_id info)" using r(2) find_var_None by fastforce
    from data_log_add_ok [OF ok st pl a this] None r(1) show ?thesis by simp
  next
    case (Some k)
    then have has: "has_variable h (var_id info)" using r(2) find_var_None [of h] by force
    have "returns (data_log_value P info hn n x time announce a k s)
        (\<lambda>(e, s'). e = fst (log_hour P info n x h) \<and> hour_written P a (snd (log_hour P info n x h)) s s')"
      by (rule returns_weaken [OF data_log_value_ok [OF ok st pl a, of k info]])
        (use Some r(3) has in \<open>auto simp: log_hour_def Let_def\<close>)
    with Some r(1) show ?thesis by simp
  qed
qed

lemma data_log_ok:
  assumes ok: "net_ok P s" and st: "store_ok P s" and pl: "platform_ok P (interfaces s)"
  shows "returns (data_log P info hn n x time announce s) (\<lambda>(e, s'). net_ok P s' \<and> store_ok P s' \<and> data_frame s s' \<and>
     (\<exists>r t. get_done P hn True True s r t \<and> store_ok P t \<and>
       (case r of None \<Rightarrow> e = ZEJF_ERR_NULL \<and> s' = t
        | Some a \<Rightarrow> e = fst (log_hour P info n x (hour_at t a)) \<and> hour_written P a (snd (log_hour P info n x (hour_at t a))) t s')))"
proof -
  obtain r t where g: "datahour_get P hn True True s = Some (r, t)" and t: "store_ok P t" "store_frame s t" "get_done P hn True True s r t"
    using datahour_get_ok [OF st, of hn True True] unfolding returns_iff by auto
  note tok = store_frame_net_ok [OF t(2) ok]
  have pl': "platform_ok P (interfaces t)" using pl store_frame_simps(5) [OF t(2)] by simp
  note fr = store_data_frame [OF t(2)]
  show ?thesis
  proof (cases r)
    case None
    with t tok fr show ?thesis by (auto simp: data_log_def g intro!: exI [of _ None])
  next
    case (Some a)
    note a = get_done_cached [OF t(3) [unfolded Some] t(1)]
    have post: "net_ok P s' \<and> store_ok P s' \<and> data_frame s s' \<and> (\<exists>r t. get_done P hn True True s r t \<and> store_ok P t \<and>
       (case r of None \<Rightarrow> e = ZEJF_ERR_NULL \<and> s' = t
        | Some a \<Rightarrow> e = fst (log_hour P info n x (hour_at t a)) \<and> hour_written P a (snd (log_hour P info n x (hour_at t a))) t s'))"
      if "e = fst (log_hour P info n x (hour_at t a))" "hour_written P a (snd (log_hour P info n x (hour_at t a))) t s'" for e s'
      using that t Some data_frame_trans [OF fr] by (auto simp: hour_written_def intro!: exI [of _ "Some a"] exI [of _ t])
    show ?thesis unfolding data_log_def g bind.bind_lunit prod.case Some option.case a(2)
      by (rule returns_weaken [OF data_log_found_ok [OF tok t(1) pl' a(1,2)]]) (use post in auto)
  qed
qed

section \<open>Saving\<close>

text \<open>Saving one hour: only a modified one is written, and its flag is cleared only when that worked.\<close>

definition save_one :: "'w platform \<Rightarrow> DataHour \<Rightarrow> 'w \<Rightarrow> DataHour \<times> 'w" where
  "save_one P h w =
     (if hour_flags h AND FLAG_MODIFIED = 0 then (h, w)
      else
        (case hour_save P (hour_id h) (hour_encoding (summed h)) w of
           (rv, w) \<Rightarrow> (if rv = ZEJF_OK then (summed h)\<lparr>hour_flags := 0\<rparr> else summed h, w)))"

primrec save_seq :: "'w platform \<Rightarrow> DataHour list \<Rightarrow> 'w \<Rightarrow> DataHour list \<times> 'w" where
  "save_seq P [] w = ([], w)"
| "save_seq P (h # hs) w = (case save_one P h w of (h, w) \<Rightarrow> (case save_seq P hs w of (hs, w) \<Rightarrow> (h # hs, w)))"

lemma save_step_ok:
  assumes st: "store_rep P s {}" and a: "a \<in> set (cached s)"
  shows "returns (data_save_hour P a s)
     (\<lambda>s'. store_rep P s' {} \<and> store_frame s s' \<and> data_queue s' = data_queue s \<and>
       hours s' = (hours s)(a \<mapsto> fst (save_one P (hour_at s a) (world s))) \<and> world s' = snd (save_one P (hour_at s a) (world s)))"
proof -
  note h = store_rep_hour [OF st, of a]
  have ha: "hours s a = Some (hour_at s a)" "hour_vars_ok P (hour_at s a)" using a h by auto
  obtain rv t where t: "datahour_save P a s = Some (rv, t)" "store_rep P t {}" "store_frame s t" "data_queue t = data_queue s"
      "hours t = (hours s)(a \<mapsto> summed (hour_at s a))"
      "(rv, world t) = hour_save P (hour_id (hour_at s a)) (hour_encoding (summed (hour_at s a))) (world s)"
    using datahour_save_ok [OF st, of a] a unfolding returns_iff by auto
  have w: "store_rep P (t\<lparr>hours := (hours t)(a \<mapsto> (summed (hour_at s a))\<lparr>hour_flags := 0\<rparr>)\<rparr>) {}"
    by (rule store_rep_write [OF t(2)]) (use t(4) a ha(2) in \<open>auto simp: cached_def summed_def\<close>)
  show ?thesis
    using st ha t w by (auto simp: data_save_hour_def save_one_def t(6) [symmetric] fun_upd_idem)
qed

lemma map_hour_at_other:
  "x \<notin> set xs \<Longrightarrow> hours s' = (hours s)(x \<mapsto> h) \<Longrightarrow> map (hour_at s') xs = map (hour_at s) xs"
  by (auto simp: hour_at_def)

lemma data_save_loop_ok:
  assumes "store_rep P s {}" and "data_queue s = Some l" and "list_rep l as" and "as = xs @ a # ys"
  shows "returns (data_save_loop P a s) (\<lambda>s'. store_rep P s' {} \<and> store_frame s s' \<and> data_queue s' = data_queue s \<and>
     (map (hour_at s') (rev (map (itm (nodes l)) (xs @ [a]))), world s') =
       save_seq P (map (hour_at s) (rev (map (itm (nodes l)) (xs @ [a])))) (world s) \<and>
     (\<forall>b. b \<notin> set (map (itm (nodes l)) (xs @ [a])) \<longrightarrow> hours s' b = hours s b))"
  using assms
proof (induction xs arbitrary: a ys s rule: rev_induct)
  case Nil
  let ?b = "itm (nodes l) a"
  have r: "ring (nodes l) (a # ys)" and h: "head l = Some (last (a # ys))" using Nil by (simp_all add: list_rep_def)
  obtain nd where nd: "nodes l a = Some nd" using ring_in_dom [OF r, of a] by auto
  have p: "node_previous nd = last (a # ys)" using ring_previous_hd [OF r] nd by (simp add: prv_def)
  have i: "node_item nd = ?b" using nd by (simp add: itm_def)
  have "?b \<in> set (cached s)" using Nil by (simp add: cached_def list_rep_items)
  note step = save_step_ok [OF Nil(1) this]
  have "returns (do { s \<leftarrow> data_save_hour P ?b s; Some s }) (\<lambda>s'. store_rep P s' {} \<and> store_frame s s' \<and> data_queue s' = data_queue s \<and>
     ([hour_at s' ?b], world s') = save_seq P [hour_at s ?b] (world s) \<and> (\<forall>b. b \<noteq> ?b \<longrightarrow> hours s' b = hours s b))"
    by (rule returns_bindI [OF step]) (auto simp: hour_at_def split: prod.splits)
  then show ?case using Nil(2) nd p h i by (subst data_save_loop.simps) simp
next
  case (snoc b xs)
  let ?it = "itm (nodes l)"
  let ?a = "?it a" and ?rest = "rev (map ?it (xs @ [b]))"
  have rep: "list_rep l (xs @ b # a # ys)" using snoc.prems by simp
  then have r: "ring (nodes l) (xs @ b # a # ys)" and h: "head l = Some (last (a # ys))" by (simp_all add: list_rep_def)
  obtain nd where nd: "nodes l a = Some nd" using ring_in_dom [OF r, of a] by auto
  have p: "node_previous nd = b" using ring_previous [OF r] nd by (simp add: prv_def)
  have ne: "b \<noteq> last (a # ys)" using ring_distinct [OF r] by (auto split: if_splits)
  have i: "node_item nd = ?a" using nd by (simp add: itm_def)
  have c: "cached s = map ?it (xs @ b # a # ys)" using snoc.prems(2) list_rep_items [OF rep] by (simp add: cached_def)
  have fresh: "?a \<notin> set ?rest" using store_repD(4) [OF snoc.prems(1)] unfolding c by auto
  have "?a \<in> set (cached s)" by (simp add: c)
  note step = save_step_ok [OF snoc.prems(1) this]
  have "returns (do { s \<leftarrow> data_save_hour P ?a s; data_save_loop P b s }) (\<lambda>s'. store_rep P s' {} \<and> store_frame s s' \<and> data_queue s' = data_queue s \<and>
     (hour_at s' ?a # map (hour_at s') ?rest, world s') = save_seq P (hour_at s ?a # map (hour_at s) ?rest) (world s) \<and>
     (\<forall>c. c \<notin> insert ?a (set ?rest) \<longrightarrow> hours s' c = hours s c))"
  proof (rule returns_bindI [OF step])
    fix t
    assume t: "store_rep P t {} \<and> store_frame s t \<and> data_queue t = data_queue s \<and>
      hours t = (hours s)(?a \<mapsto> fst (save_one P (hour_at s ?a) (world s))) \<and> world t = snd (save_one P (hour_at s ?a) (world s))"
    have same: "map (hour_at t) ?rest = map (hour_at s) ?rest" by (rule map_hour_at_other [OF fresh]) (use t in simp)
    have at: "hours t ?a = Some (fst (save_one P (hour_at s ?a) (world s)))" using t by simp
    have IH: "returns (data_save_loop P b t) (\<lambda>s'. store_rep P s' {} \<and> store_frame t s' \<and> data_queue s' = data_queue t \<and>
       (map (hour_at s') ?rest, world s') = save_seq P (map (hour_at t) ?rest) (world t) \<and>
       (\<forall>c. c \<notin> set (map ?it (xs @ [b])) \<longrightarrow> hours s' c = hours t c))"
      by (rule snoc.IH) (use t snoc.prems in auto)
    show "returns (data_save_loop P b t) (\<lambda>s'. store_rep P s' {} \<and> store_frame s s' \<and> data_queue s' = data_queue s \<and>
       (hour_at s' ?a # map (hour_at s') ?rest, world s') = save_seq P (hour_at s ?a # map (hour_at s) ?rest) (world s) \<and>
       (\<forall>c. c \<notin> insert ?a (set ?rest) \<longrightarrow> hours s' c = hours s c))"
    proof (rule returns_weaken [OF IH], elim conjE, intro conjI)
      fix s'
      assume s': "store_frame t s'" "data_queue s' = data_queue t" "store_rep P s' {}"
        and eq: "(map (hour_at s') ?rest, world s') = save_seq P (map (hour_at t) ?rest) (world t)"
        and fr: "\<forall>c. c \<notin> set (map ?it (xs @ [b])) \<longrightarrow> hours s' c = hours t c"
      show "store_frame s s'" "data_queue s' = data_queue s" "store_rep P s' {}" using s' t store_frame_trans by auto
      have "hours s' ?a = hours t ?a" using fr fresh by auto
      with at have "hour_at s' ?a = fst (save_one P (hour_at s ?a) (world s))" by (simp add: hour_at_def)
      moreover have "save_seq P (map (hour_at s) ?rest) (snd (save_one P (hour_at s ?a) (world s))) = (map (hour_at s') ?rest, world s')"
        using eq same t by metis
      ultimately show "(hour_at s' ?a # map (hour_at s') ?rest, world s') = save_seq P (hour_at s ?a # map (hour_at s) ?rest) (world s)"
        by (simp only: save_seq.simps split_beta fst_conv snd_conv)
      show "\<forall>c. c \<notin> insert ?a (set ?rest) \<longrightarrow> hours s' c = hours s c" using fr t by auto
    qed
  qed
  moreover have "data_save_loop P a s = do { s \<leftarrow> data_save_hour P ?a s; data_save_loop P b s }"
    using snoc.prems(2) nd p h ne i by (subst data_save_loop.simps) simp
  moreover have "rev (map ?it ((xs @ [b]) @ [a])) = ?a # ?rest" by simp
  ultimately show ?case by (auto simp del: save_seq.simps elim!: returns_weaken)
qed

lemma data_save_ok:
  assumes st: "store_ok P s"
  shows "returns (data_save P s) (\<lambda>s'. store_ok P s' \<and> store_frame s s' \<and> cached s' = cached s \<and>
     (map (hour_at s') (rev (cached s)), world s') = save_seq P (map (hour_at s) (rev (cached s))) (world s))"
proof -
  have rep: "store_rep P s {}" using st by (simp add: store_ok_def)
  obtain l where l: "data_queue s = Some l" "list_ok (mem s) l"
    using store_repD(2) [OF rep] by (auto simp: queue_ok_def split: option.splits)
  then have lr: "list_rep l (list_addrs l)" by (simp add: list_ok_rep)
  have c: "cached s = map (itm (nodes l)) (list_addrs l)" by (simp add: cached_def l list_items_def)
  show ?thesis
  proof (cases "list_addrs l" rule: rev_cases)
    case Nil
    then have "head l = None" using lr by (simp add: list_rep_def)
    with Nil st c show ?thesis by (simp add: data_save_def l)
  next
    case (snoc xs a)
    then have h: "head l = Some a" using lr by (simp add: list_rep_def)
    show ?thesis unfolding data_save_def l bind.bind_lunit h option.case
      by (rule returns_weaken [OF data_save_loop_ok [OF rep l(1) lr snoc]])
        (use c snoc in \<open>auto simp: store_ok_def cached_def\<close>)
  qed
qed

lemma save_seq_written:
  assumes "\<And>n bs w. fst (hour_save P n bs w) = ZEJF_OK"
  shows "\<forall>h\<in>set (fst (save_seq P hs w)). hour_flags h AND FLAG_MODIFIED = 0"
proof (induction hs arbitrary: w)
  case (Cons h hs)
  have "hour_flags (fst (save_one P h w)) AND FLAG_MODIFIED = 0"
    using assms by (auto simp: save_one_def split: prod.splits) (metis fst_conv)
  with Cons show ?case by (auto split: prod.splits) (metis fst_conv)+
qed simp

end
