(* ===== verification/Hour_Storage.thy ===== *)
theory Hour_Storage
  imports Data_Values
begin

text \<open>
  The interface between the hour cache and the storage of the device (\<open>hour_load\<close> and
  \<open>hour_save\<close> of \<open>zejf_api.h\<close>): what is saved under an hour number is loaded from it again.  On a
  storage with this contract the cache is transparent: which hours are in memory and which are on
  disk makes no difference to what \<open>data_get_val\<close> reads and to what \<open>data_log\<close> does.
\<close>

section \<open>The hours of a device\<close>

text \<open>An hour without what does not belong to its contents.\<close>

definition hour_core :: "DataHour \<Rightarrow> DataHour" where
  "hour_core h = h\<lparr>hour_checksum := 0, hour_flags := 0\<rparr>"

definition stored_view :: "'w platform \<Rightarrow> ('w \<Rightarrow> u32 \<Rightarrow> u8 list option) \<Rightarrow> 'w \<Rightarrow> u32 \<Rightarrow> DataHour option" where
  "stored_view P files w n =
     (case files w n of None \<Rightarrow> None | Some bs \<Rightarrow> map_option hour_core (hour_decode P bs))"

definition cache_entries :: "'w zejf \<Rightarrow> (u32 \<times> DataHour) list" where
  "cache_entries s = map (\<lambda>a. (hour_id (hour_at s a), hour_core (hour_at s a))) (cached s)"

text \<open>The contents of every hour: from the cache if it is there, from storage otherwise.\<close>

definition view :: "'w platform \<Rightarrow> ('w \<Rightarrow> u32 \<Rightarrow> u8 list option) \<Rightarrow> 'w zejf \<Rightarrow> u32 \<Rightarrow> DataHour option" where
  "view P files s = stored_view P files (world s) ++ map_of (cache_entries s)"

definition files_ok :: "'w platform \<Rightarrow> ('w \<Rightarrow> u32 \<Rightarrow> u8 list option) \<Rightarrow> 'w \<Rightarrow> bool" where
  "files_ok P files w \<longleftrightarrow>
     (\<forall>n bs. files w n = Some bs \<longrightarrow> (\<exists>h. stored_hour P h \<and> hour_id h = n \<and> bs = hour_encoding h))"

definition coherent :: "'w platform \<Rightarrow> ('w \<Rightarrow> u32 \<Rightarrow> u8 list option) \<Rightarrow> 'w zejf \<Rightarrow> bool" where
  "coherent P files s \<longleftrightarrow> distinct (map fst (cache_entries s)) \<and> files_ok P files (world s)"

lemma hour_core_simps [simp]:
  "hour_id (hour_core h) = hour_id h" "variables (hour_core h) = variables h"
  "variable_count (hour_core h) = variable_count h" "hour_core (hour_core h) = hour_core h"
  "hour_core (h\<lparr>hour_flags := f\<rparr>) = hour_core h" "hour_core (summed h) = hour_core h" "hour_core (new_hour n) = new_hour n"
  by (simp_all add: hour_core_def summed_def new_hour_def)

lemma hour_id_new [simp]: "hour_id (new_hour n) = n"
  by (simp add: new_hour_def)

lemma fst_cache_entries: "fst ` set (cache_entries s) = (\<lambda>a. hour_id (hour_at s a)) ` set (cached s)"
  by (simp add: cache_entries_def image_image)

lemma map_of_snoc: "k \<notin> fst ` set xs \<Longrightarrow> map_of (xs @ [(k, v)]) = (map_of xs)(k \<mapsto> v)"
  by (induction xs) (auto simp: fun_eq_iff)

lemma map_of_update:
  "distinct (map k as) \<Longrightarrow> a \<in> set as \<Longrightarrow>
   map_of (map (\<lambda>b. (k b, (f(a := v)) b)) as) = (map_of (map (\<lambda>b. (k b, f b)) as))(k a \<mapsto> v)"
proof (induction as)
  case (Cons b as)
  show ?case
  proof (cases "a = b")
    case True
    then have "a \<notin> set as" using Cons.prems(1) by auto
    then have "map (\<lambda>b. (k b, (f(a := v)) b)) as = map (\<lambda>b. (k b, f b)) as" by auto
    then show ?thesis using True by (auto simp del: map_eq_conv simp: fun_eq_iff)
  next
    case False
    then have a: "a \<in> set as" using Cons.prems by simp
    with Cons.prems have ne: "k a \<noteq> k b" by (metis distinct.simps(2) image_eqI list.simps(9) set_map)
    have "map_of (map (\<lambda>b. (k b, (f(a := v)) b)) as) = (map_of (map (\<lambda>b. (k b, f b)) as))(k a \<mapsto> v)"
      by (rule Cons.IH) (use Cons.prems a in auto)
    then show ?thesis using False ne by (auto simp: fun_eq_iff)
  qed
qed simp

lemma cache_entries_same:
  assumes "cached s' = cached s" and "\<And>a. a \<in> set (cached s) \<Longrightarrow> hour_id (hour_at s' a) = hour_id (hour_at s a) \<and>
    hour_core (hour_at s' a) = hour_core (hour_at s a)"
  shows "cache_entries s' = cache_entries s"
  using assms by (simp add: cache_entries_def)

lemma summed_stored: "hour_vars_ok P h \<Longrightarrow> stored_hour P (summed h)"
  by (simp add: stored_hour_def summed_def hour_sum_def)

lemma files_ok_write:
  assumes "files_ok P files w" and "files w' = (files w)(hour_id h \<mapsto> hour_encoding (summed h))" and "hour_vars_ok P h"
  shows "files_ok P files w'" "stored_view P files w' = (stored_view P files w)(hour_id h \<mapsto> hour_core h)"
proof -
  note s = summed_stored [OF assms(3)]
  show "files_ok P files w'" unfolding files_ok_def
  proof (intro allI impI)
    fix n bs
    assume "files w' n = Some bs"
    with assms(1,2) s show "\<exists>h. stored_hour P h \<and> hour_id h = n \<and> bs = hour_encoding h"
      by (cases "n = hour_id h") (auto simp: files_ok_def summed_def)
  qed
  show "stored_view P files w' = (stored_view P files w)(hour_id h \<mapsto> hour_core h)"
    using assms(2) hour_decode_encoding [OF s] by (auto simp: stored_view_def fun_eq_iff)
qed

lemma stored_view_file:
  assumes "files_ok P files w" and "files w n = Some bs" and "never_fails m" and "hour_deserialize P (Some bs) m = Some (r, m')"
  shows "\<exists>h. r = Some h \<and> hour_id h = n \<and> stored_view P files w n = Some (hour_core h)"
proof -
  obtain h where h: "stored_hour P h" "hour_id h = n" "bs = hour_encoding h" using assms(1,2) by (auto simp: files_ok_def)
  have "returns (hour_deserialize P (Some (hour_encoding h)) m) (\<lambda>(r, m'). r = Some h \<and> alloc_mono m m')"
    by (rule hour_deserialize_encoding) (use h assms(3) in \<open>auto simp: stored_hour_def\<close>)
  with assms(4) h(3) have "r = Some h" by simp
  with h assms(2) hour_decode_encoding [OF h(1)] show ?thesis by (simp add: stored_view_def)
qed

text \<open>Reading and logging depend on the contents only.\<close>

definition view_hour :: "u32 \<Rightarrow> DataHour option \<Rightarrow> DataHour" where
  "view_hour n v = (case v of None \<Rightarrow> new_hour n | Some h \<Rightarrow> h)"

lemma view_hour_simps [simp]: "view_hour n None = new_hour n" "view_hour n (Some h) = h"
  by (simp_all add: view_hour_def)

lemma find_var_core [simp]: "find_var (hour_core h) vid = find_var h vid"
  by (simp add: find_var_def)

lemma read_hour_core: "read_hour (Some (hour_core h)) vid n = read_hour (Some h) vid n"
  by (simp add: read_hour_def)

lemma log_hour_core:
  "fst (log_hour P info n x (hour_core h)) = fst (log_hour P info n x h)"
  "hour_core (snd (log_hour P info n x (hour_core h))) = hour_core (snd (log_hour P info n x h))"
proof -
  have core: "has_variable (hour_core h) vid = has_variable h vid" "add_variable_err P (hour_core h) info = add_variable_err P h info"
    "log_known info n x (hour_core h) = log_known info n x h" "hour_core (add_variable info h) = add_variable info (hour_core h)"
    "hour_core (set_sample vid n x h) = set_sample vid n x (hour_core h)" for vid h
    by (simp_all add: has_variable_def add_variable_err_def log_known_def add_variable_def set_sample_def hour_core_def find_var_def)
  show "fst (log_hour P info n x (hour_core h)) = fst (log_hour P info n x h)"
    using core(3) [of "add_variable info h"] by (simp add: log_hour_def core Let_def)
  show "hour_core (snd (log_hour P info n x (hour_core h))) = hour_core (snd (log_hour P info n x h))"
    using core(3) [of "add_variable info h"] by (simp add: log_hour_def core Let_def)
qed

lemma log_hour_id [simp]: "hour_id (snd (log_hour P info n x h)) = hour_id h"
  by (simp add: log_hour_def Let_def add_variable_def set_sample_def)

lemma log_hour_read:
  assumes ok: "hour_vars_ok P h" and e: "fst (log_hour P info n x h) = ZEJF_OK"
  shows "read_hour (Some (snd (log_hour P info n x h))) (var_id info) n = (ZEJF_OK, Some x)"
proof -
  let ?h = "if has_variable h (var_id info) then h else add_variable info h"
  have okh: "hour_vars_ok P ?h" using ok e add_variable_ok [OF ok, of info] by (auto simp: log_hour_def split: if_splits)
  have k: "log_known info n x ?h = ZEJF_OK" and l: "snd (log_hour P info n x h) = (set_sample (var_id info) n x ?h)\<lparr>hour_flags := FLAG_MODIFIED\<rparr>"
    using e by (auto simp: log_hour_def Let_def split: if_splits)
  then obtain v where v: "find_var ?h (var_id info) = Some v" "\<not> samples_per_hour (variable_info v) \<le> n"
    by (auto simp: log_known_def split: option.splits if_splits)
  note fv = find_var_ok [OF okh v(1)]
  have find_map: "find Q (map f xs) = map_option f (find Q xs)" if "\<And>x. Q (f x) = Q x" for Q and f :: "Variable \<Rightarrow> Variable" and xs
    using that by (induction xs) auto
  have "find_var (snd (log_hour P info n x h)) (var_id info) = Some (v\<lparr>var_data := (var_data v)[unat n := x]\<rparr>)"
    using v(1) fv(3) unfolding l by (simp add: find_var_def set_sample_def find_map)
  with v(2) sample_in_range [OF fv(1) v(2)] show ?thesis by (simp add: read_hour_def)
qed

lemma view_ok:
  assumes "store_ok P s" and "files_ok P files (world s)" and "view P files s n = Some h"
  shows "hour_vars_ok P h"
proof -
  from assms(3) consider "map_of (cache_entries s) n = Some h" | "stored_view P files (world s) n = Some h"
    by (auto simp: view_def)
  then show ?thesis
  proof cases
    case 1
    then obtain a where "a \<in> set (cached s)" "h = hour_core (hour_at s a)" by (auto simp: cache_entries_def dest!: map_of_SomeD)
    then show ?thesis using store_rep_hour(2) [of P s "{}" a] assms(1) by (simp add: store_ok_def hour_core_def)
  next
    case 2
    then obtain bs where bs: "files (world s) n = Some bs" "map_option hour_core (hour_decode P bs) = Some h"
      by (auto simp: stored_view_def split: option.splits)
    then obtain h0 where h0: "stored_hour P h0" "bs = hour_encoding h0" using assms(2) by (auto simp: files_ok_def)
    with bs(2) hour_decode_encoding [OF h0(1)] show ?thesis by (auto simp: stored_hour_def hour_core_def)
  qed
qed

text \<open>Overwriting one cached hour.\<close>

lemma view_written:
  assumes co: "coherent P files t" and "a \<in> set (cached t)" and w: "hour_written P a h t s'" and id: "hour_id h = hour_id (hour_at t a)"
    and st: "store_ok P t"
  shows "coherent P files s'" "view P files s' = (view P files t)(hour_id h \<mapsto> hour_core h)"
proof -
  have s': "cached s' = cached t" "hours s' = (hours t)(a \<mapsto> h)" "world s' = world t" using w by (simp_all add: hour_written_def)
  have keys: "map fst (cache_entries s') = map fst (cache_entries t)" using s' id by (simp add: cache_entries_def hour_at_def)
  with co s'(3) show "coherent P files s'" by (simp add: coherent_def)
  have "cache_entries s' = map (\<lambda>b. (hour_id (hour_at t b), ((\<lambda>b. hour_core (hour_at t b))(a := hour_core h)) b)) (cached t)"
    using s' id by (auto simp: cache_entries_def hour_at_def)
  moreover have "distinct (map (\<lambda>b. hour_id (hour_at t b)) (cached t))" using co by (simp add: coherent_def cache_entries_def comp_def)
  ultimately have "map_of (cache_entries s') = (map_of (cache_entries t))(hour_id h \<mapsto> hour_core h)"
    using map_of_update [of "\<lambda>b. hour_id (hour_at t b)" "cached t" a "\<lambda>b. hour_core (hour_at t b)" "hour_core h"] assms(2) id
    by (simp add: cache_entries_def)
  then show "view P files s' = (view P files t)(hour_id h \<mapsto> hour_core h)" by (simp add: view_def s'(3))
qed

text \<open>The state a device with a working storage is in.\<close>

definition sound :: "'w platform \<Rightarrow> ('w \<Rightarrow> u32 \<Rightarrow> u8 list option) \<Rightarrow> ('w \<Rightarrow> bool) \<Rightarrow> 'w zejf \<Rightarrow> bool" where
  "sound P files works s \<longleftrightarrow> store_ok P s \<and> coherent P files s \<and> works (world s)"

text \<open>A sequence of accesses to hours.\<close>

primrec access_all :: "'w platform \<Rightarrow> (u32 \<times> bool) list \<Rightarrow> 'w zejf \<Rightarrow> 'w zejf option" where
  "access_all P [] s = Some s"
| "access_all P (x # xs) s = do { (_, s) \<leftarrow> datahour_get P (fst x) True (snd x) s; access_all P xs s }"

section \<open>The contract of the storage\<close>

locale hour_storage =
  fixes P :: "'w platform"
    and files :: "'w \<Rightarrow> u32 \<Rightarrow> u8 list option"
    and works :: "'w \<Rightarrow> bool"
    and fits :: "u8 list \<Rightarrow> bool"
  assumes load_missing: "works w \<Longrightarrow> files w n = None \<Longrightarrow>
      fst (fst (hour_load P n w)) = ZEJF_ERR_FILE_DOESNT_EXIST \<and> works (snd (hour_load P n w)) \<and>
      files (snd (hour_load P n w)) = files w"
    and load_stored: "works w \<Longrightarrow> files w n = Some bs \<Longrightarrow> fits bs \<Longrightarrow>
      fst (hour_load P n w) = (ZEJF_OK, Some bs) \<and> works (snd (hour_load P n w)) \<and> files (snd (hour_load P n w)) = files w"
    and save_stores: "works w \<Longrightarrow> fits bs \<Longrightarrow>
      fst (hour_save P n bs w) = ZEJF_OK \<and> works (snd (hour_save P n bs w)) \<and>
      files (snd (hour_save P n bs w)) = (files w)(n \<mapsto> bs)"
    and encoding_fits: "hour_vars_ok P h \<Longrightarrow> fits (hour_encoding h)"
begin

lemma save_view:
  assumes "works w" and "files_ok P files w" and "hour_vars_ok P h"
  defines "w' \<equiv> snd (hour_save P (hour_id h) (hour_encoding (summed h)) w)"
  shows "fst (hour_save P (hour_id h) (hour_encoding (summed h)) w) = ZEJF_OK" "works w'" "files_ok P files w'"
    "stored_view P files w' = (stored_view P files w)(hour_id h \<mapsto> hour_core h)"
proof -
  have "fits (hour_encoding (summed h))" by (rule encoding_fits) (use assms(3) in \<open>simp add: summed_def\<close>)
  note s = save_stores [OF assms(1) this, of "hour_id h"]
  then show "fst (hour_save P (hour_id h) (hour_encoding (summed h)) w) = ZEJF_OK" "works w'" by (simp_all add: w'_def)
  from s have f: "files w' = (files w)(hour_id h \<mapsto> hour_encoding (summed h))" by (simp add: w'_def)
  show "files_ok P files w'" "stored_view P files w' = (stored_view P files w)(hour_id h \<mapsto> hour_core h)"
    using files_ok_write [OF assms(2) f assms(3)] by simp_all
qed

text \<open>Putting a hour with a new id into the cache.\<close>

lemma fetched_view:
  assumes st: "store_ok P s" and co: "coherent P files s" and w: "works w" "files w = files (world s)"
    and new: "hour_id h \<notin> fst ` set (cache_entries s)" and f: "fetched P s h w a s'"
  shows "works (world s') \<and> coherent P files s' \<and> a \<in> set (cached s') \<and> hour_at s' a = h \<and>
    view P files s' = (view P files s)(hour_id h \<mapsto> hour_core h)"
proof -
  obtain t where t: "a \<notin> dom (hours s)" "add_done P a t s'" "cached t = cached s" "hours t = (hours s)(a \<mapsto> h)" "world t = w"
    using f by (auto simp: fetched_def)
  have rep: "store_rep P s {}" using st by (simp add: store_ok_def)
  have notin: "a \<notin> set (cached s)" using t(1) store_repD(5) [OF rep] by auto
  have at: "hour_at t b = hour_at s b" if "b \<in> set (cached s)" for b using that notin t(4) by (auto simp: hour_at_def)
  have ha: "hour_at t a = h" by (simp add: hour_at_def t(4))
  have fo: "files_ok P files w" "stored_view P files w = stored_view P files (world s)"
    using co w(2) by (simp_all add: coherent_def files_ok_def stored_view_def fun_eq_iff)
  show ?thesis
  proof (cases "evicts P t")
    case False
    with t have s': "cached s' = cached s @ [a]" "hours s' = hours t" "world s' = w" by (auto simp: add_done_def)
    have "cache_entries s' = cache_entries s @ [(hour_id h, hour_core h)]"
      using s' at ha by (simp add: cache_entries_def hour_at_def)
    moreover have "hour_at s' a = h" using s'(2) ha by (simp add: hour_at_def)
    ultimately show ?thesis using co new w(1) fo s' by (auto simp: coherent_def view_def map_add_upd_left dom_map_of_conv_image_fst)
  next
    case True
    with rep t(3) obtain b bs where b: "cached s = b # bs" by (cases "cached s") (auto simp: evicts_def store_rep_def)
    let ?h = "hour_at s b"
    have hb: "hour_vars_ok P ?h" using store_rep_hour(2) [OF rep, of b] b by simp
    have bt: "hour_at t b = ?h" using at b by simp
    from True t b bt have s': "cached s' = bs @ [a]" "hours s' = (hours t)(b := None)"
      "world s' = snd (hour_save P (hour_id ?h) (hour_encoding (summed ?h)) w)" by (auto simp: add_done_def)
    note sv = save_view [OF w(1) fo(1) hb, folded s'(3)]
    have "b \<noteq> a" "b \<notin> set bs" using notin b store_repD(4) [OF rep] by auto
    then have at': "hour_at s' c = hour_at s c" if "c \<in> set bs" for c using that at [of c] b s'(2) by (auto simp: hour_at_def)
    have ha': "hour_at s' a = h" using s'(2) ha \<open>b \<noteq> a\<close> by (simp add: hour_at_def)
    obtain es where e: "cache_entries s = (hour_id ?h, hour_core ?h) # es" and e': "cache_entries s' = es @ [(hour_id h, hour_core h)]"
      using s'(1) at' ha' by (simp add: cache_entries_def b)
    have "distinct (map fst (cache_entries s'))" using co new by (auto simp: coherent_def e e')
    moreover have "view P files s' = (view P files s)(hour_id h \<mapsto> hour_core h)"
      using co new by (simp add: view_def sv(4) e' e coherent_def fo(2) map_of_snoc map_add_upd_left dom_map_of_conv_image_fst)
    ultimately show ?thesis using sv(2,3) s'(1) ha' by (simp add: coherent_def)
  qed
qed

lemma get_view:
  assumes st: "store_ok P s" and co: "coherent P files s" and w: "works (world s)" and g: "get_done P n True create s r s'"
  shows "works (world s') \<and> coherent P files s' \<and>
    (case r of
       None \<Rightarrow> \<not> create \<and> view P files s n = None \<and> view P files s' = view P files s
     | Some a \<Rightarrow> a \<in> set (cached s') \<and> (create \<or> view P files s n \<noteq> None) \<and> hour_id (hour_at s' a) = n \<and>
         hour_core (hour_at s' a) = view_hour n (view P files s n) \<and>
         view P files s' = (view P files s)(n \<mapsto> hour_core (hour_at s' a)))"
proof (cases "n \<in> fst ` set (cache_entries s)")
  case True
  then obtain a us vs where r: "r = Some a" "s' = s\<lparr>data_queue := data_queue s'\<rparr>" "hour_id (hour_at s a) = n"
      "cached s = us @ a # vs" "cached s' = a # vs @ us"
    using g unfolding get_done_def fst_cache_entries by (auto simp: find_done_def)
  have same: "hour_at s' = hour_at s" "world s' = world s" using arg_cong [OF r(2), of hours] arg_cong [OF r(2), of world] by (simp_all add: hour_at_def fun_eq_iff)
  have set: "set (cache_entries s') = set (cache_entries s)" using r(4,5) same by (auto simp: cache_entries_def)
  have d: "distinct (map fst (cache_entries s'))" using co r(4,5) same by (auto simp: coherent_def cache_entries_def)
  have m: "map_of (cache_entries s') = map_of (cache_entries s)"
    by (rule map_of_inject_set [THEN iffD2, OF d]) (use co set in \<open>auto simp: coherent_def\<close>)
  have "(n, hour_core (hour_at s a)) \<in> set (cache_entries s)" using r(3,4) by (auto simp: cache_entries_def)
  then have "map_of (cache_entries s) n = Some (hour_core (hour_at s a))" using co by (simp add: coherent_def)
  then have v: "view P files s n = Some (hour_core (hour_at s a))" by (simp add: view_def)
  moreover have "view P files s' = view P files s" by (simp add: view_def m same)
  ultimately show ?thesis using w co d r(1,3,5) same by (auto simp: coherent_def fun_upd_idem)
next
  case False
  then have miss: "n \<notin> (\<lambda>a. hour_id (hour_at s a)) ` set (cached s)" by (simp add: fst_cache_entries)
  have fo: "files_ok P files (world s)" using co by (simp add: coherent_def)
  have vn: "view P files s n = stored_view P files (world s) n"
    using False by (simp add: view_def map_add_def map_of_eq_None_iff [THEN iffD2])
  show ?thesis
  proof (cases "files (world s) n")
    case None
    note l = load_missing [OF w None]
    have none: "view P files s n = None" using None by (simp add: vn stored_view_def)
    obtain bs w' where lr: "hour_load P n (world s) = ((ZEJF_ERR_FILE_DOESNT_EXIST, bs), w')" using l by (metis prod.collapse)
    show ?thesis
    proof (cases r)
      case None
      with g miss lr have s': "cached s' = cached s" "hours s' = hours s" "world s' = w'" "\<not> create" by (auto simp: get_done_def)
      have "cache_entries s' = cache_entries s" using s' by (simp add: cache_entries_def hour_at_def)
      moreover have "stored_view P files w' = stored_view P files (world s)" "files_ok P files w'"
        using l lr fo by (simp_all add: stored_view_def files_ok_def fun_eq_iff)
      ultimately show ?thesis using None none s' l lr co by (simp add: coherent_def view_def)
    next
      case (Some a)
      with g miss lr have "fetched P s (new_hour n) w' a s'" "create" by (auto simp: get_done_def)
      from fetched_view [OF st co _ _ _ this(1)] l lr False this(2) Some none show ?thesis by auto
    qed
  next
    case (Some bs)
    obtain h0 where h0: "stored_hour P h0" "bs = hour_encoding h0" using fo Some by (auto simp: files_ok_def)
    have "fits bs" using encoding_fits h0 by (simp add: stored_hour_def)
    note l = load_stored [OF w Some this]
    obtain w' where lr: "hour_load P n (world s) = ((ZEJF_OK, Some bs), w')" "works w'" "files w' = files (world s)" using l by (metis prod.collapse)
    note decoded = stored_view_file [OF fo Some]
    obtain a where r: "r = Some a" using g miss lr(1) decoded by (cases r) (fastforce simp: get_done_def)+
    with g miss lr(1) obtain m h m' where h: "never_fails m" "hour_deserialize P (Some bs) m = Some (Some h, m')"
      "fetched P s (h\<lparr>hour_flags := 0\<rparr>) w' a s'" by (auto simp: get_done_def)
    from decoded [OF h(1,2)] have "hour_id h = n" "view P files s n = Some (hour_core h)" by (auto simp: vn)
    with fetched_view [OF st co lr(2,3) _ h(3)] False r show ?thesis by auto
  qed
qed

lemma datahour_get_sound:
  assumes so: "sound P files works s"
  shows "returns (datahour_get P n True create s) (\<lambda>(r, s'). sound P files works s' \<and> store_frame s s' \<and>
     get_done P n True create s r s' \<and>
     (case r of
        None \<Rightarrow> \<not> create \<and> view P files s n = None \<and> view P files s' = view P files s
      | Some a \<Rightarrow> a \<in> set (cached s') \<and> (create \<or> view P files s n \<noteq> None) \<and> hour_id (hour_at s' a) = n \<and>
          hour_core (hour_at s' a) = view_hour n (view P files s n) \<and>
          view P files s' = (view P files s)(n \<mapsto> hour_core (hour_at s' a))))"
proof -
  have s: "store_ok P s" "coherent P files s" "works (world s)" using so by (simp_all add: sound_def)
  show ?thesis
    by (rule returns_weaken [OF datahour_get_ok [OF s(1)]], clarify) (frule get_view [OF s], simp add: sound_def)
qed

lemma data_get_val_sound:
  assumes so: "sound P files works s"
  shows "returns (data_get_val P info hn n True False s) (\<lambda>(e, v, s'). sound P files works s' \<and> view P files s' = view P files s \<and>
     (e, v) = read_hour (view P files s hn) (var_id info) n)"
proof -
  have s: "store_ok P s" "coherent P files s" "works (world s)" using so by (simp_all add: sound_def)
  show ?thesis
  proof (rule returns_weaken [OF data_get_val_ok [OF s(1)]], clarify)
    fix e v s' r
    assume s': "store_ok P s'" "get_done P hn True False s r s'" "(e, v) = read_hour (map_option (hour_at s') r) (var_id info) n"
    note g = get_view [OF s s'(2)]
    show "sound P files works s' \<and> view P files s' = view P files s \<and> (e, v) = read_hour (view P files s hn) (var_id info) n"
    proof (cases r)
      case None
      with g s' show ?thesis by (auto simp: sound_def)
    next
      case (Some a)
      with g have "view P files s hn = Some (hour_core (hour_at s' a))" by (auto split: option.splits)
      with g Some s' show ?thesis by (auto simp: sound_def read_hour_core fun_upd_idem)
    qed
  qed
qed

lemma data_log_sound:
  assumes so: "sound P files works s" and ok: "net_ok P s" and pl: "platform_ok P (interfaces s)"
  shows "returns (data_log P info hn n x time announce s) (\<lambda>(e, s'). sound P files works s' \<and> net_ok P s' \<and> data_frame s s' \<and>
     e = fst (log_hour P info n x (view_hour hn (view P files s hn))) \<and>
     view P files s' = (view P files s)(hn \<mapsto> hour_core (snd (log_hour P info n x (view_hour hn (view P files s hn))))))"
proof -
  have s: "store_ok P s" "coherent P files s" "works (world s)" using so by (simp_all add: sound_def)
  show ?thesis
  proof (rule returns_weaken [OF data_log_ok [OF ok s(1) pl]], clarify)
    fix e s' r t
    assume s': "net_ok P s'" "store_ok P s'" "data_frame s s'" and t: "get_done P hn True True s r t" "store_ok P t"
      and eff: "case r of None \<Rightarrow> e = ZEJF_ERR_NULL \<and> s' = t
        | Some a \<Rightarrow> e = fst (log_hour P info n x (hour_at t a)) \<and> hour_written P a (snd (log_hour P info n x (hour_at t a))) t s'"
    note g = get_view [OF s t(1)]
    then obtain a where a: "r = Some a" by (cases r) auto
    let ?h = "view_hour hn (view P files s hn)" and ?l = "snd (log_hour P info n x (hour_at t a))"
    have c: "hour_core (hour_at t a) = ?h" "hour_id (hour_at t a) = hn" "a \<in> set (cached t)" "coherent P files t" "works (world t)"
      "view P files t = (view P files s)(hn \<mapsto> hour_core (hour_at t a))" using g a by simp_all
    have w: "hour_written P a ?l t s'" and e: "e = fst (log_hour P info n x (hour_at t a))" using eff a by simp_all
    note v = view_written [OF c(4,3) w _ t(2)]
    have "e = fst (log_hour P info n x ?h)" "hour_core (snd (log_hour P info n x ?h)) = hour_core ?l"
      using log_hour_core [of P info n x "hour_at t a"] e by (simp_all add: c(1))
    with v c s' w show "sound P files works s' \<and> net_ok P s' \<and> data_frame s s' \<and> e = fst (log_hour P info n x ?h) \<and>
        view P files s' = (view P files s)(hn \<mapsto> hour_core (snd (log_hour P info n x ?h)))"
      by (auto simp: sound_def hour_written_def)
  qed
qed

lemma access_all_sound:
  "sound P files works s \<Longrightarrow> returns (access_all P xs s) (\<lambda>s'. sound P files works s' \<and> store_frame s s' \<and>
     (\<forall>n. view P files s n \<noteq> None \<longrightarrow> view P files s' n = view P files s n))"
proof (induction xs arbitrary: s)
  case Nil
  then show ?case by simp
next
  case (Cons x xs)
  show ?case unfolding access_all.simps
  proof (rule returns_bindI [OF datahour_get_sound [OF Cons.prems]], clarify)
    fix r t
    assume t: "sound P files works t" "store_frame s t" and v: "case r of
        None \<Rightarrow> \<not> snd x \<and> view P files s (fst x) = None \<and> view P files t = view P files s
      | Some a \<Rightarrow> a \<in> set (cached t) \<and> (snd x \<or> view P files s (fst x) \<noteq> None) \<and> hour_id (hour_at t a) = fst x \<and>
          hour_core (hour_at t a) = view_hour (fst x) (view P files s (fst x)) \<and>
          view P files t = (view P files s)(fst x \<mapsto> hour_core (hour_at t a))"
    have "view P files t n = view P files s n" if "view P files s n \<noteq> None" for n
      using v that by (auto simp: view_hour_def split: option.splits if_splits)
    then show "returns (access_all P xs t) (\<lambda>s'. sound P files works s' \<and> store_frame s s' \<and>
        (\<forall>n. view P files s n \<noteq> None \<longrightarrow> view P files s' n = view P files s n))"
      using store_frame_trans [OF t(2)] by (intro returns_weaken [OF Cons.IH [OF t(1)]]) auto
  qed
qed

text \<open>A value that was logged is read back, whichever hours were used in between.\<close>

lemma log_then_read:
  assumes so: "sound P files works s" and ok: "net_ok P s" and pl: "platform_ok P (interfaces s)"
    and e: "fst (log_hour P info n x (view_hour hn (view P files s hn))) = ZEJF_OK"
  shows "returns (do {
       (e1, s) \<leftarrow> data_log P info hn n x time announce s;
       s \<leftarrow> access_all P xs s;
       (e2, v, s) \<leftarrow> data_get_val P info hn n True False s;
       Some (e1, e2, v)
     }) (\<lambda>(e1, e2, v). e1 = ZEJF_OK \<and> e2 = ZEJF_OK \<and> v = Some x)"
proof (rule returns_bindI [OF data_log_sound [OF so ok pl]], clarify)
  fix e1 s1
  let ?h = "view_hour hn (view P files s hn)"
  let ?c = "hour_core (snd (log_hour P info n x ?h))"
  assume s1: "sound P files works s1" "view P files s1 = (view P files s)(hn \<mapsto> ?c)"
  have "hour_vars_ok P ?h"
    using view_ok [of P s files hn] so by (cases "view P files s hn") (auto simp: sound_def coherent_def)
  note r = log_hour_read [OF this e]
  show "returns (do { s \<leftarrow> access_all P xs s1; (e2, v, s) \<leftarrow> data_get_val P info hn n True False s;
      Some (fst (log_hour P info n x ?h), e2, v) }) (\<lambda>(e1, e2, v). e1 = ZEJF_OK \<and> e2 = ZEJF_OK \<and> v = Some x)"
  proof (rule returns_bindI [OF access_all_sound [OF s1(1)]], elim conjE)
    fix s2
    assume s2: "sound P files works s2" "\<forall>n. view P files s1 n \<noteq> None \<longrightarrow> view P files s2 n = view P files s1 n"
    then have v: "view P files s2 hn = Some ?c" using s1(2) by simp
    show "returns (do { (e2, v, s) \<leftarrow> data_get_val P info hn n True False s2;
        Some (fst (log_hour P info n x ?h), e2, v) }) (\<lambda>(e1, e2, v). e1 = ZEJF_OK \<and> e2 = ZEJF_OK \<and> v = Some x)"
      by (rule returns_bindI [OF data_get_val_sound [OF s2(1)]]) (auto simp: v read_hour_core r e)
  qed
qed

end

end
