(* ===== verification/Data_Request.thy ===== *)
theory Data_Request
  imports Hour_Storage
begin

text \<open>
  The requests for stored values of \<open>api/zejf_api/src/data_request.c\<close>: a queue of requests of other
  devices, each served value by value with \<open>DATA_LOG\<close> packets, as far as the transmit queue has
  room.  A request is owned by the queue, so the queue holds the records themselves and a change to a
  request is written back to its node.
\<close>

section \<open>Operations\<close>

definition data_requests_init :: "'w platform \<Rightarrow> 'w zejf \<Rightarrow> zejf_err \<times> 'w zejf" where
  "data_requests_init P s =
     (case list_create (mem s) (DATA_REQUEST_QUEUE_SIZE P) of
        (q, m) \<Rightarrow> (if q \<noteq> None then ZEJF_OK else ZEJF_ERR_OUT_OF_MEMORY, s\<lparr>mem := m, data_requests_queue := q\<rparr>))"

definition data_request_create :: "'w zejf \<Rightarrow> DataRequest option \<times> 'w zejf" where
  "data_request_create s =
     (case zmalloc s of
        (None, s) \<Rightarrow> (None, s)
      | (Some _, s) \<Rightarrow>
          (Some \<lparr>req_variable = \<lparr>samples_per_hour = 0, var_id = 0\<rparr>, target_device = 0, req_hour_number = 0,
                  start_log = 0, end_log = 0, current_log = 0, req_errors = 0\<rparr>, s))"

definition data_requests_destroy :: "'w zejf \<Rightarrow> 'w zejf option" where
  "data_requests_destroy s = do { _ \<leftarrow> list_destroy (data_requests_queue s); Some (s\<lparr>data_requests_queue := None\<rparr>) }"

definition same_request :: "u16 \<Rightarrow> VariableInfo \<Rightarrow> u32 \<Rightarrow> DataRequest \<Rightarrow> bool" where
  "same_request to' variable hour_number request \<longleftrightarrow>
     target_device request = to' \<and> req_hour_number request = hour_number \<and> var_id (req_variable request) = var_id variable"

partial_function (option) request_exists_loop :: "(DataRequest \<Rightarrow> bool) \<Rightarrow> DataRequest linked_list \<Rightarrow> addr \<Rightarrow> bool option" where
  "request_exists_loop test q node =
     do {
       n \<leftarrow> nodes q node;
       (if test (node_item n) then Some True
        else if Some (node_next n) = tail q then Some False
        else request_exists_loop test q (node_next n))
     }"

definition request_already_exists :: "u16 \<Rightarrow> VariableInfo \<Rightarrow> u32 \<Rightarrow> 'w zejf \<Rightarrow> bool option" where
  "request_already_exists to' variable hour_number s =
     do {
       q \<leftarrow> data_requests_queue s;
       (case tail q of None \<Rightarrow> Some False | Some node \<Rightarrow> request_exists_loop (same_request to' variable hour_number) q node)
     }"

definition data_request_add ::
  "u16 \<Rightarrow> VariableInfo \<Rightarrow> u32 \<Rightarrow> u32 \<Rightarrow> u32 \<Rightarrow> 'w zejf \<Rightarrow> (zejf_err \<times> 'w zejf) option"
where
  "data_request_add to' variable hour_number from' to_log s =
     do {
       known \<leftarrow> request_already_exists to' variable hour_number s;
       (if known then Some (ZEJF_ERR_REQUEST_ALREADY_EXISTS, s)
        else
          (case data_request_create s of
             (None, s) \<Rightarrow> Some (ZEJF_ERR_NULL, s)
           | (Some request, s) \<Rightarrow>
               do {
                 let request = request\<lparr>req_hour_number := hour_number, current_log := from', start_log := from',
                   end_log := to_log, target_device := to', req_variable := variable, req_errors := 0\<rparr>;
                 (ok, q, m) \<leftarrow> list_push (mem s) (data_requests_queue s) request;
                 Some (if ok then ZEJF_OK else ZEJF_ERR_GENERIC, s\<lparr>mem := m, data_requests_queue := q\<rparr>)
               }))
     }"

definition numbers_text :: "VariableInfo \<Rightarrow> u32 \<Rightarrow> u32 \<Rightarrow> u32 \<Rightarrow> string" where
  "numbers_text variable a b c =
     show_uint (var_id variable) @ '','' @ show_uint (samples_per_hour variable) @ '','' @
     show_uint a @ '','' @ show_uint b @ '','' @ show_uint c"

definition numbers_decode :: "string \<Rightarrow> (VariableInfo \<times> u32 \<times> u32 \<times> u32) option" where
  "numbers_decode t =
     (case sscanf [U 16, L CHR '','', U 32, L CHR '','', U 32, L CHR '','', U 32, L CHR '','', U 32] t of
        [UVal i, UVal n, UVal a, UVal b, UVal c] \<Rightarrow>
          Some (\<lparr>samples_per_hour = of_nat n, var_id = of_nat i\<rparr>, of_nat a, of_nat b, of_nat c)
      | _ \<Rightarrow> None)"

definition data_request_send ::
  "'w platform \<Rightarrow> u16 \<Rightarrow> VariableInfo \<Rightarrow> u32 \<Rightarrow> u32 \<Rightarrow> u32 \<Rightarrow> u32 \<Rightarrow> 'w zejf \<Rightarrow> (zejf_err \<times> 'w zejf) option"
where
  "data_request_send P to' variable hour_number from' to_log time s =
     send_text P ZEJF_ERR_GENERIC ZEJF_ERR_GENERIC to' DATA_REQUEST (numbers_text variable hour_number from' to_log) time s"

text \<open>\<open>sscanf\<close> on a null message is undefined.\<close>

definition data_request_receive :: "Packet \<Rightarrow> 'w zejf \<Rightarrow> (zejf_err \<times> 'w zejf) option" where
  "data_request_receive packet s =
     do {
       t \<leftarrow> message packet;
       (case numbers_decode t of
          None \<Rightarrow> Some (ZEJF_ERR_GENERIC, s)
        | Some (variable, hour_number, from', to_log) \<Rightarrow> data_request_add (pkt_from packet) variable hour_number from' to_log s)
     }"

definition data_requests_ready :: "'w zejf \<Rightarrow> bool option" where
  "data_requests_ready s = do { q \<leftarrow> data_requests_queue s; Some (\<not> list_is_empty q) }"

definition request_finished :: "DataRequest \<Rightarrow> bool" where
  "request_finished request \<longleftrightarrow> end_log request < current_log request"

text \<open>\<open>data_get_val (...) == ZEJF_OK && data_send_log (...) == ZEJF_OK\<close>.\<close>

definition request_step :: "'w platform \<Rightarrow> DataRequest \<Rightarrow> u32 \<Rightarrow> 'w zejf \<Rightarrow> (bool \<times> 'w zejf) option" where
  "request_step P request time s =
     do {
       (e, v, s) \<leftarrow> data_get_val P (req_variable request) (req_hour_number request) (current_log request) True False s;
       (if e \<noteq> ZEJF_OK then Some (False, s)
        else do {
          val \<leftarrow> v;
          (e, s) \<leftarrow> data_send_log P (target_device request) (req_variable request) (req_hour_number request)
                      (current_log request) val time s;
          Some (e = ZEJF_OK, s)
        })
     }"

text \<open>Overwriting the request in a node.\<close>

definition set_request :: "addr \<Rightarrow> DataRequest \<Rightarrow> 'w zejf \<Rightarrow> 'w zejf option" where
  "set_request a request s =
     do { q \<leftarrow> data_requests_queue s; q \<leftarrow> set_item q a request; Some (s\<lparr>data_requests_queue := Some q\<rparr>) }"

partial_function (option) requests_loop :: "'w platform \<Rightarrow> u32 \<Rightarrow> nat \<Rightarrow> nat \<Rightarrow> 'w zejf \<Rightarrow> 'w zejf option" where
  "requests_loop P time remaining_slots request_count s =
     do {
       q \<leftarrow> data_requests_queue s;
       (if 0 < remaining_slots \<and> \<not> list_is_empty q
        then do {
          a \<leftarrow> list_peek (data_requests_queue s);
          n \<leftarrow> nodes q a;
          let request = node_item n;
          (if request_finished request \<or> 50 < req_errors request
           then do {
             (_, q) \<leftarrow> list_pop (data_requests_queue s);
             let s = s\<lparr>data_requests_queue := q\<rparr>;
             (if Suc request_count = 3 then Some s
              else requests_loop P time (remaining_slots - 1) (Suc request_count) s)
           }
           else do {
             (success, s) \<leftarrow> request_step P request time s;
             (if \<not> success then set_request a (request\<lparr>req_errors := req_errors request + 1\<rparr>) s
              else do {
                s \<leftarrow> set_request a (request\<lparr>current_log := current_log request + 1\<rparr>) s;
                requests_loop P time (remaining_slots - 1) request_count s
              })
           })
        }
        else Some s)
     }"

definition data_requests_process :: "'w platform \<Rightarrow> u32 \<Rightarrow> 'w zejf \<Rightarrow> 'w zejf option" where
  "data_requests_process P time s =
     do { remaining_slots \<leftarrow> allocate_packet_queue PRIORITY_HIGH s; requests_loop P time remaining_slots 1 s }"

section \<open>The invariant\<close>

definition requests :: "'w zejf \<Rightarrow> DataRequest list" where
  "requests s = queue_items (data_requests_queue s)"

definition requests_ok :: "'w platform \<Rightarrow> 'w zejf \<Rightarrow> bool" where
  "requests_ok P s \<longleftrightarrow>
     queue_ok (mem s) (data_requests_queue s) \<and> queue_cap (data_requests_queue s) = DATA_REQUEST_QUEUE_SIZE P"

text \<open>The invariant of the whole library.\<close>

definition zejf_ok :: "'w platform \<Rightarrow> 'w zejf \<Rightarrow> bool" where
  "zejf_ok P s \<longleftrightarrow> net_ok P s \<and> store_ok P s \<and> requests_ok P s"

lemma requests_ok_frame: "requests_ok P s \<Longrightarrow> data_frame s s' \<Longrightarrow> requests_ok P s' \<and> requests s' = requests s"
  by (auto simp: requests_ok_def requests_def data_frame_def queue_ok_mono)

lemma requests_queue:
  assumes "requests_ok P s"
  obtains l where "data_requests_queue s = Some l" "list_ok (mem s) l" "capacity l = DATA_REQUEST_QUEUE_SIZE P" "requests s = list_items l"
  using assms by (auto simp: requests_ok_def requests_def queue_ok_def queue_cap_def split: option.splits)

lemma store_ok_upd [simp]: "store_ok P (s\<lparr>data_requests_queue := q\<rparr>) = store_ok P s"
  by (simp add: store_ok_def)

lemma request_exists_loop_ok:
  assumes "list_rep l as"
  shows "as = xs @ a # ys \<Longrightarrow> request_exists_loop test l a = Some (\<exists>b\<in>set (a # ys). test (itm (nodes l) b))"
proof (induction ys arbitrary: xs a)
  case Nil
  then have r: "ring (nodes l) (xs @ [a])" and t: "tail l = Some (hd (xs @ [a]))" using assms by (simp_all add: list_rep_def)
  obtain nd where nd: "nodes l a = Some nd" using ring_in_dom [OF r, of a] by auto
  have "node_next nd = hd (xs @ [a])" using ring_next_last [OF r] nd by (simp add: nxt_def)
  with nd t show ?case by (subst request_exists_loop.simps) (simp add: itm_def)
next
  case (Cons b ys)
  then have r: "ring (nodes l) (xs @ a # b # ys)" and t: "tail l = Some (hd (xs @ a # b # ys))" using assms by (simp_all add: list_rep_def)
  obtain nd where nd: "nodes l a = Some nd" using ring_in_dom [OF r, of a] by auto
  have p: "node_next nd = b" using ring_next [OF r] nd by (simp add: nxt_def)
  have ne: "b \<noteq> hd (xs @ a # b # ys)" using ring_distinct [OF r] by (cases xs) auto
  have "request_exists_loop test l b = Some (\<exists>c\<in>set (b # ys). test (itm (nodes l) c))"
    using Cons.IH [of "xs @ [a]" b] Cons.prems by simp
  with nd t p ne show ?case by (subst request_exists_loop.simps) (simp add: itm_def)
qed

lemma request_already_exists_ok:
  assumes "requests_ok P s"
  shows "request_already_exists d v h s = Some (\<exists>r\<in>set (requests s). same_request d v h r)"
proof -
  obtain l where l: "data_requests_queue s = Some l" "list_ok (mem s) l" "requests s = list_items l" by (rule requests_queue [OF assms])
  then have rep: "list_rep l (list_addrs l)" by (simp add: list_ok_rep)
  show ?thesis
  proof (cases "list_addrs l")
    case Nil
    with rep l show ?thesis by (simp add: request_already_exists_def list_rep_def list_items_def)
  next
    case (Cons a ys)
    with rep l request_exists_loop_ok [OF rep, of "[]" a ys] show ?thesis
      by (simp add: request_already_exists_def list_rep_def list_items_def)
  qed
qed

section \<open>Adding a request\<close>

definition new_request :: "u16 \<Rightarrow> VariableInfo \<Rightarrow> u32 \<Rightarrow> u32 \<Rightarrow> u32 \<Rightarrow> DataRequest" where
  "new_request d v h a b =
     \<lparr>req_variable = v, target_device = d, req_hour_number = h, start_log = a, end_log = b, current_log = a, req_errors = 0\<rparr>"

definition add_request :: "nat \<Rightarrow> u16 \<Rightarrow> VariableInfo \<Rightarrow> u32 \<Rightarrow> u32 \<Rightarrow> u32 \<Rightarrow> DataRequest list \<Rightarrow> zejf_err \<times> DataRequest list" where
  "add_request cap d v h a b rs =
     (if \<exists>r\<in>set rs. same_request d v h r then (ZEJF_ERR_REQUEST_ALREADY_EXISTS, rs)
      else if length rs < cap then (ZEJF_OK, rs @ [new_request d v h a b])
      else (ZEJF_ERR_GENERIC, rs))"

definition request_frame :: "'w zejf \<Rightarrow> 'w zejf \<Rightarrow> bool" where
  "request_frame s s' \<longleftrightarrow> s' = s\<lparr>mem := mem s', data_requests_queue := data_requests_queue s'\<rparr> \<and> alloc_mono (mem s) (mem s')"

lemma request_frame_refl [simp]: "request_frame s s"
  by (simp add: request_frame_def)

lemma request_frameE:
  assumes "request_frame s s'"
  obtains m q where "s' = s\<lparr>mem := m, data_requests_queue := q\<rparr>" "alloc_mono (mem s) m"
  using assms unfolding request_frame_def by metis

lemma request_frame_ok:
  assumes "request_frame s s'"
  shows "net_ok P s \<Longrightarrow> net_ok P s'" "store_ok P s \<Longrightarrow> store_ok P s'"
  using assms by (auto elim!: request_frameE simp: net_ok_mem store_ok_def store_rep_mem)

lemma data_request_add_ok:
  assumes ok: "requests_ok P s" and nf: "never_fails (mem s)"
  shows "returns (data_request_add d v h a b s) (\<lambda>(e, s'). requests_ok P s' \<and> request_frame s s' \<and>
     (e, requests s') = add_request (DATA_REQUEST_QUEUE_SIZE P) d v h a b (requests s))"
proof (cases "\<exists>r\<in>set (requests s). same_request d v h r")
  case True
  with ok show ?thesis by (simp add: data_request_add_def request_already_exists_ok [OF ok] add_request_def)
next
  case False
  obtain l where l: "data_requests_queue s = Some l" "list_ok (mem s) l" "capacity l = DATA_REQUEST_QUEUE_SIZE P" "requests s = list_items l"
    by (rule requests_queue [OF ok])
  let ?m = "(mem s)\<lparr>next_addr := Suc (next_addr (mem s))\<rparr>"
  have ok1: "list_ok ?m l" by (rule list_ok_mono [OF l(2)]) simp
  have full: "list_is_full l \<longleftrightarrow> \<not> length (list_items l) < DATA_REQUEST_QUEUE_SIZE P"
    using list_ok_full [OF l(2)] list_ok_le [OF l(2)] l(3) by auto
  have "alloc_ok ?m n" for n using nf by (simp add: never_fails_def)
  with False full l(3,4) have "returns (list_push ?m (Some l) (new_request d v h a b)) (\<lambda>(ok, q, m). requests_ok P (s\<lparr>mem := m, data_requests_queue := q\<rparr>) \<and>
      request_frame s (s\<lparr>mem := m, data_requests_queue := q\<rparr>) \<and>
      (if ok then ZEJF_OK else ZEJF_ERR_GENERIC, queue_items q) = add_request (DATA_REQUEST_QUEUE_SIZE P) d v h a b (requests s))"
    by (intro returns_weaken [OF list_push_returns [OF ok1]])
      (auto simp: requests_ok_def request_frame_def add_request_def alloc_mono_def)
  then have "returns (do { (ok, q, m) \<leftarrow> list_push ?m (Some l) (new_request d v h a b);
        Some (if ok then ZEJF_OK else ZEJF_ERR_GENERIC, s\<lparr>mem := m, data_requests_queue := q\<rparr>) })
      (\<lambda>(e, s'). requests_ok P s' \<and> request_frame s s' \<and> (e, requests s') = add_request (DATA_REQUEST_QUEUE_SIZE P) d v h a b (requests s))"
    by (rule returns_bindI) (auto simp: requests_def)
  with False nf show ?thesis
    by (simp add: data_request_add_def request_already_exists_ok [OF ok] data_request_create_def l(1) new_request_def Let_def)
qed

lemma data_request_receive_ok:
  assumes "requests_ok P s" and "never_fails (mem s)" and "message p = Some t"
  shows "returns (data_request_receive p s) (\<lambda>(e, s'). requests_ok P s' \<and> request_frame s s' \<and>
     (e, requests s') = (case numbers_decode t of None \<Rightarrow> (ZEJF_ERR_GENERIC, requests s)
       | Some (v, h, a, b) \<Rightarrow> add_request (DATA_REQUEST_QUEUE_SIZE P) (pkt_from p) v h a b (requests s)))"
  using assms by (auto simp: data_request_receive_def split: option.splits intro!: returns_weaken [OF data_request_add_ok])

section \<open>Serving requests\<close>

lemma request_step_ok:
  assumes ok: "net_ok P s" and st: "store_ok P s" and pl: "platform_ok P (interfaces s)"
  shows "returns (request_step P r time s) (\<lambda>(b, s'). net_ok P s' \<and> store_ok P s' \<and> data_frame s s')"
  unfolding request_step_def
proof (rule returns_bindI [OF data_get_val_ok [OF st]], clarify)
  fix e v t h
  assume t: "store_ok P t" "store_frame s t" and r: "(e, v) = read_hour (map_option (hour_at t) h) (var_id (req_variable r)) (current_log r)"
  have v: "\<exists>x. v = Some x" if "e = ZEJF_OK" using r that by (auto simp: read_hour_def split: option.splits if_splits)
  have tok: "net_ok P t" and pl': "platform_ok P (interfaces t)"
    using store_frame_net_ok [OF t(2) ok] pl store_frame_simps(5) [OF t(2)] by simp_all
  have "returns (do { (e, s) \<leftarrow> data_send_log P (target_device r) (req_variable r) (req_hour_number r) (current_log r) x time t;
      Some (e = ZEJF_OK, s) }) (\<lambda>(b, s'). net_ok P s' \<and> store_ok P s' \<and> data_frame s s')" for x
    by (rule returns_bindI [OF data_send_log_ok [OF tok pl']])
      (auto intro: store_ok_tx(1) [OF _ t(1)] data_frame_trans [OF store_data_frame [OF t(2)] tx_data_frame])
  with v tok t show "returns (if e \<noteq> ZEJF_OK then Some (False, t)
      else do { val \<leftarrow> v; (e, s) \<leftarrow> data_send_log P (target_device r) (req_variable r) (req_hour_number r) (current_log r) val time t;
           Some (e = ZEJF_OK, s) }) (\<lambda>(b, s'). net_ok P s' \<and> store_ok P s' \<and> data_frame s s')"
    by (auto simp: store_data_frame)
qed

text \<open>What serving may change: also the queue of requests.\<close>

definition serve_frame :: "'w zejf \<Rightarrow> 'w zejf \<Rightarrow> bool" where
  "serve_frame s s' \<longleftrightarrow>
     alloc_mono (mem s) (mem s') \<and> rx_queue s' = rx_queue s \<and> rtable s' = rtable s \<and>
     routing_table_top s' = routing_table_top s \<and> next_free_id s' = next_free_id s \<and> interfaces s' = interfaces s"

lemma serve_frame_refl [simp]: "serve_frame s s"
  by (simp add: serve_frame_def)

lemma serve_frame_trans [trans]: "serve_frame a b \<Longrightarrow> serve_frame b c \<Longrightarrow> serve_frame a c"
  by (auto simp: serve_frame_def intro: alloc_mono_trans)

lemma data_serve_frame: "data_frame s s' \<Longrightarrow> serve_frame s s'"
  by (simp add: serve_frame_def data_frame_def)

lemma serve_frame_upd [simp]:
  "serve_frame s (t\<lparr>data_requests_queue := q\<rparr>) = serve_frame s t" "serve_frame (s\<lparr>data_requests_queue := q\<rparr>) t = serve_frame s t"
  by (simp_all add: serve_frame_def)

lemma set_request_ok:
  assumes ok: "requests_ok P s" and "requests s = r0 # rs" and "list_peek (data_requests_queue s) = Some a"
  shows "returns (set_request a r s) (\<lambda>s'. \<exists>q. s' = s\<lparr>data_requests_queue := q\<rparr> \<and> requests_ok P s' \<and> requests s' = r # rs)"
proof -
  obtain l where l: "data_requests_queue s = Some l" "list_ok (mem s) l" "capacity l = DATA_REQUEST_QUEUE_SIZE P" "requests s = list_items l"
    by (rule requests_queue [OF ok])
  then have rep: "list_rep l (list_addrs l)" and lt: "\<forall>a\<in>set (list_addrs l). a < next_addr (mem s)" by (simp_all add: list_ok_rep)
  obtain as where as: "list_addrs l = a # as"
    using assms(2,3) l rep by (cases "list_addrs l") (auto simp: list_items_def list_peek_def list_rep_def)
  then obtain l' where l': "set_item l a r = Some l'" "list_rep l' (a # as)" "itm (nodes l') = (itm (nodes l))(a := r)" "capacity l' = capacity l"
    using set_item_ok [OF rep, of a r] by auto
  have d: "a \<notin> set as" using rep as by (auto simp: list_rep_def ring_def)
  have "list_items l' = r # rs"
    using assms(2) l(4) d as l'(3) by (auto simp: list_rep_items [OF l'(2)] list_rep_items [OF rep])
  moreover have "list_ok (mem s) l'" by (rule list_ok_repI [OF l'(2)]) (use lt as in simp)
  ultimately show ?thesis using l l' by (auto simp: set_request_def requests_ok_def requests_def)
qed

lemma requests_head:
  assumes ok: "requests_ok P s" and "requests s = r # rs"
  obtains l a n where "data_requests_queue s = Some l" "\<not> list_is_empty l" "list_peek (data_requests_queue s) = Some a"
    "nodes l a = Some n" "node_item n = r"
proof -
  obtain l where l: "data_requests_queue s = Some l" "list_ok (mem s) l" "requests s = list_items l" by (rule requests_queue [OF ok])
  then have rep: "list_rep l (list_addrs l)" by (simp add: list_ok_rep)
  obtain a as where as: "list_addrs l = a # as" using assms(2) l(3) by (cases "list_addrs l") (auto simp: list_items_def)
  then obtain n where "nodes l a = Some n" using rep ring_in_dom [of "nodes l" "a # as" a] by (auto simp: list_rep_def)
  with that [of l a n] l as rep assms(2) list_ok_empty [OF l(2)] show thesis
    by (auto simp: list_items_def itm_def list_peek_def list_rep_def)
qed

lemma requests_pop_ok:
  assumes ok: "requests_ok P s"
  shows "returns (list_pop (data_requests_queue s)) (\<lambda>(r, q). requests_ok P (s\<lparr>data_requests_queue := q\<rparr>) \<and> queue_items q = tl (requests s))"
  using ok unfolding requests_ok_def requests_def by (intro returns_weaken [OF ll.pop_spec]) auto

lemma requests_loop_empty:
  assumes ok: "requests_ok P s" and "requests s = [] \<or> k = 0"
  shows "requests_loop P time k c s = Some s"
proof -
  obtain l where "data_requests_queue s = Some l" "list_ok (mem s) l" "requests s = list_items l" by (rule requests_queue [OF ok])
  with assms(2) show ?thesis by (subst requests_loop.simps) (auto simp: list_ok_empty)
qed

lemma requests_loop_Suc:
  assumes "data_requests_queue s = Some l" "\<not> list_is_empty l" "list_peek (data_requests_queue s) = Some a" "nodes l a = Some n" "node_item n = r"
  shows "requests_loop P time (Suc k) c s =
    (if request_finished r \<or> 50 < req_errors r
     then do { (_, q) \<leftarrow> list_pop (data_requests_queue s); let s = s\<lparr>data_requests_queue := q\<rparr>;
        (if Suc c = 3 then Some s else requests_loop P time k (Suc c) s) }
     else do { (success, s) \<leftarrow> request_step P r time s;
        (if \<not> success then set_request a (r\<lparr>req_errors := req_errors r + 1\<rparr>) s
         else do { s \<leftarrow> set_request a (r\<lparr>current_log := current_log r + 1\<rparr>) s; requests_loop P time k c s }) })"
  using assms unfolding requests_loop.simps [of P time "Suc k" c s] diff_Suc_1 by simp

lemma requests_loop_ok:
  "zejf_ok P s \<Longrightarrow> platform_ok P (interfaces s) \<Longrightarrow>
   returns (requests_loop P time k c s) (\<lambda>s'. zejf_ok P s' \<and> serve_frame s s')"
proof (induction k arbitrary: s c)
  case 0
  then show ?case by (simp add: requests_loop_empty [of P] zejf_ok_def)
next
  case (Suc k)
  have ok: "net_ok P s" "store_ok P s" "requests_ok P s" using Suc.prems(1) by (simp_all add: zejf_ok_def)
  show ?case
  proof (cases "requests s")
    case Nil
    with Suc.prems show ?thesis by (simp add: requests_loop_empty [OF ok(3)])
  next
    case (Cons r rs)
    obtain l a n where h: "data_requests_queue s = Some l" "\<not> list_is_empty l" "list_peek (data_requests_queue s) = Some a"
      "nodes l a = Some n" "node_item n = r" by (rule requests_head [OF ok(3) Cons])
    have pop: "returns (do { (_, q) \<leftarrow> list_pop (data_requests_queue s); let s = s\<lparr>data_requests_queue := q\<rparr>;
        (if Suc c = 3 then Some s else requests_loop P time k (Suc c) s) }) (\<lambda>s'. zejf_ok P s' \<and> serve_frame s s')"
      by (rule returns_bindI [OF requests_pop_ok [OF ok(3)]])
        (use ok Suc.prems in \<open>auto simp: zejf_ok_def Let_def intro!: returns_weaken [OF Suc.IH]
          elim: serve_frame_trans [rotated]\<close>)
    have step: "returns (do { (success, s) \<leftarrow> request_step P r time s;
          (if \<not> success then set_request a (r\<lparr>req_errors := req_errors r + 1\<rparr>) s
           else do { s \<leftarrow> set_request a (r\<lparr>current_log := current_log r + 1\<rparr>) s; requests_loop P time k c s }) })
        (\<lambda>s'. zejf_ok P s' \<and> serve_frame s s')"
    proof (rule returns_bindI [OF request_step_ok [OF ok(1,2) Suc.prems(2)]], clarify)
      fix b t
      assume t: "net_ok P t" "store_ok P t" "data_frame s t"
      have t': "requests_ok P t" "requests t = r # rs" "list_peek (data_requests_queue t) = Some a" "platform_ok P (interfaces t)"
        using requests_ok_frame [OF ok(3) t(3)] Cons h(3) Suc.prems(2) data_frame_simps [OF t(3)] by auto
      note set' = set_request_ok [OF t'(1-3)]
      have "returns (do { s \<leftarrow> set_request a (r\<lparr>current_log := current_log r + 1\<rparr>) t; requests_loop P time k c s })
          (\<lambda>s'. zejf_ok P s' \<and> serve_frame s s')"
        by (rule returns_bindI [OF set'])
          (use t t'(4) data_serve_frame [OF t(3)] in \<open>auto simp: zejf_ok_def intro!: returns_weaken [OF Suc.IH] elim: serve_frame_trans [rotated]\<close>)
      moreover have "returns (set_request a (r\<lparr>req_errors := req_errors r + 1\<rparr>) t) (\<lambda>s'. zejf_ok P s' \<and> serve_frame s s')"
        by (rule returns_weaken [OF set']) (use t data_serve_frame [OF t(3)] in \<open>auto simp: zejf_ok_def\<close>)
      ultimately show "returns (if \<not> b then set_request a (r\<lparr>req_errors := req_errors r + 1\<rparr>) t
           else do { s \<leftarrow> set_request a (r\<lparr>current_log := current_log r + 1\<rparr>) t; requests_loop P time k c s })
        (\<lambda>s'. zejf_ok P s' \<and> serve_frame s s')" by simp
    qed
    show ?thesis using pop step by (simp add: requests_loop_Suc [OF h])
  qed
qed

lemma data_requests_process_ok:
  assumes "zejf_ok P s" and "platform_ok P (interfaces s)"
  shows "returns (data_requests_process P time s) (\<lambda>s'. zejf_ok P s' \<and> serve_frame s s')"
  using requests_loop_ok [OF assms] assms(1)
  by (auto simp: data_requests_process_def allocate_packet_queue_def zejf_ok_def elim!: net_ok_tx)

section \<open>What is served\<close>

text \<open>The packet that answers a request with the value \<open>x\<close> of its sample \<open>n\<close>.\<close>

definition answer :: "'w platform \<Rightarrow> u32 \<Rightarrow> DataRequest \<Rightarrow> u32 \<Rightarrow> u32 \<Rightarrow> Packet" where
  "answer P time r n x =
     stamped time (text_packet P (target_device r) DATA_LOG (log_text (req_variable r) (req_hour_number r) n x))"

lemma answer_upd [simp]: "answer P time (r\<lparr>current_log := z\<rparr>) n x = answer P time r n x"
  by (simp add: answer_def)

text \<open>The samples of a request that remain to be sent.\<close>

definition remaining :: "DataRequest \<Rightarrow> nat" where
  "remaining r = unat (end_log r) + 1 - unat (current_log r)"

definition reachable_device :: "'w platform \<Rightarrow> 'w zejf \<Rightarrow> u16 \<Rightarrow> bool" where
  "reachable_device P s d \<longleftrightarrow> d \<noteq> DEVICE_ID P \<and> used_id s d"

lemma tx_view:
  assumes "tx_frame s s'" and "store_ok P s"
  shows "view P files s' = view P files s" "sound P files works s' = sound P files works s"
proof -
  note D = store_ok_tx [OF assms] tx_frame_simps [OF assms(1)]
  show "view P files s' = view P files s" by (simp add: view_def cache_entries_def D)
  show "sound P files works s' = sound P files works s" using assms(2) by (simp add: sound_def coherent_def cache_entries_def D)
qed

lemma view_requests [simp]:
  "view P files (s\<lparr>data_requests_queue := q\<rparr>) = view P files s"
  "sound P files works (s\<lparr>data_requests_queue := q\<rparr>) = sound P files works s"
  by (simp_all add: view_def sound_def coherent_def cache_entries_def)

context hour_storage
begin

lemma request_step_served:
  assumes so: "sound P files works s" and ok: "net_ok P s" and pl: "platform_ok P (interfaces s)"
    and x: "read_hour (view P files s (req_hour_number r)) (var_id (req_variable r)) (current_log r) = (ZEJF_OK, Some x)"
    and d: "reachable_device P s (target_device r)" and room: "length (queue_items (tx_queue s)) < TX_QUEUE_SIZE P"
  shows "returns (request_step P r time s) (\<lambda>(b, s'). b \<and> net_ok P s' \<and> sound P files works s' \<and> view P files s' = view P files s \<and>
     data_frame s s' \<and> queue_items (tx_queue s') = queue_items (tx_queue s) @ [answer P time r (current_log r) x])"
proof -
  have st: "store_ok P s" using so by (simp add: sound_def)
  obtain e v t where g: "data_get_val P (req_variable r) (req_hour_number r) (current_log r) True False s = Some (e, v, t)"
    "sound P files works t" "view P files t = view P files s" "e = ZEJF_OK" "v = Some x" "store_frame s t" "store_ok P t"
    using returns_conj [OF data_get_val_sound [OF so, of "req_variable r" "req_hour_number r" "current_log r"]
        data_get_val_ok [OF st, of "req_variable r" "req_hour_number r" "current_log r" True False]] x
    unfolding returns_iff by auto
  have tok: "net_ok P t" "platform_ok P (interfaces t)" "table_entries t = table_entries s" "tx_queue t = tx_queue s"
    using store_frame_net_ok [OF g(6) ok] pl store_frame_simps [OF g(6)] by simp_all
  have spec: "send_spec P (text_packet P (target_device r) DATA_LOG tt) time t =
      (ZEJF_OK, queue_items (tx_queue s) @ [stamped time (text_packet P (target_device r) DATA_LOG tt)])" for tt
    using d room tok(3,4) by (auto simp: send_spec_def text_packet_def stamped_def reachable_device_def used_id_def)
  have "returns (do { (e, s) \<leftarrow> data_send_log P (target_device r) (req_variable r) (req_hour_number r) (current_log r) x time t; Some (e = ZEJF_OK, s) })
     (\<lambda>(b, s'). b \<and> net_ok P s' \<and> sound P files works s' \<and> view P files s' = view P files s \<and>
     data_frame s s' \<and> queue_items (tx_queue s') = queue_items (tx_queue s) @ [answer P time r (current_log r) x])"
  proof (rule returns_bindI [OF data_send_log_ok [OF tok(1,2)]], clarify)
    fix e u
    assume u: "net_ok P u" "tx_frame t u"
      "(e, queue_items (tx_queue u)) = send_spec P (text_packet P (target_device r) DATA_LOG (log_text (req_variable r) (req_hour_number r) (current_log r) x)) time t"
    note v = tx_view [OF u(2) g(7)]
    have "data_frame s u" by (rule data_frame_trans [OF store_data_frame [OF g(6)] tx_data_frame [OF u(2)]])
    with u(1,3) v g(2,3) show "returns (Some (e = ZEJF_OK, u)) (\<lambda>(b, s'). b \<and> net_ok P s' \<and> sound P files works s' \<and> view P files s' = view P files s \<and>
     data_frame s s' \<and> queue_items (tx_queue s') = queue_items (tx_queue s) @ [answer P time r (current_log r) x])"
      by (simp add: spec answer_def)
  qed
  then show ?thesis by (simp add: request_step_def g(1,4,5))
qed

lemma requests_loop_served:
  assumes "sound P files works s" and "zejf_ok P s" and "platform_ok P (interfaces s)" and "requests s = r # rs" and "\<not> 50 < req_errors r"
    and "\<And>i. i < n \<Longrightarrow> \<not> end_log r < current_log r + of_nat i"
    and "\<And>i. i < n \<Longrightarrow> read_hour (view P files s (req_hour_number r)) (var_id (req_variable r)) (current_log r + of_nat i) = (ZEJF_OK, Some (x i))"
    and "reachable_device P s (target_device r)" and "length (queue_items (tx_queue s)) + n \<le> TX_QUEUE_SIZE P"
    and "\<And>s'. zejf_ok P s' \<Longrightarrow> requests s' = r\<lparr>current_log := current_log r + of_nat n\<rparr> # rs \<Longrightarrow>
       queue_items (tx_queue s') = queue_items (tx_queue s) @ map (\<lambda>i. answer P time r (current_log r + of_nat i) (x i)) [0..<n] \<Longrightarrow>
       returns (requests_loop P time k c s') Q"
  shows "returns (requests_loop P time (n + k) c s) Q"
  using assms
proof (induction n arbitrary: s r x)
  case 0
  then show ?case using "0.prems"(10) [of s] by simp
next
  case (Suc n)
  have ok: "net_ok P s" "store_ok P s" "requests_ok P s" using Suc.prems(2) by (simp_all add: zejf_ok_def)
  obtain l a nd where h: "data_requests_queue s = Some l" "\<not> list_is_empty l" "list_peek (data_requests_queue s) = Some a"
    "nodes l a = Some nd" "node_item nd = r" by (rule requests_head [OF ok(3) Suc.prems(4)])
  let ?r = "r\<lparr>current_log := current_log r + 1\<rparr>"
  have x0: "read_hour (view P files s (req_hour_number r)) (var_id (req_variable r)) (current_log r) = (ZEJF_OK, Some (x 0))"
    using Suc.prems(7) [of 0] by simp
  have room: "length (queue_items (tx_queue s)) < TX_QUEUE_SIZE P" using Suc.prems(9) by simp
  have list: "answer P time r (current_log r) (x 0) # map (\<lambda>i. answer P time r (current_log r + 1 + of_nat i) (x (Suc i))) [0..<n] =
      map (\<lambda>i. answer P time r (current_log r + of_nat i) (x i)) [0..<Suc n]"
    by (simp add: upt_conv_Cons map_Suc_upt [symmetric] comp_def algebra_simps del: upt_Suc)
  have "returns (do { (success, s) \<leftarrow> request_step P r time s;
        (if \<not> success then set_request a (r\<lparr>req_errors := req_errors r + 1\<rparr>) s
         else do { s \<leftarrow> set_request a ?r s; requests_loop P time (n + k) c s }) }) Q"
  proof (rule returns_bindI [OF request_step_served [OF Suc.prems(1) ok(1) Suc.prems(3) x0 Suc.prems(8) room]], clarify)
    fix b t
    assume b and t: "net_ok P t" "sound P files works t" "view P files t = view P files s" "data_frame s t"
      "queue_items (tx_queue t) = queue_items (tx_queue s) @ [answer P time r (current_log r) (x 0)]"
    note D = requests_ok_frame [OF ok(3) t(4)] data_frame_simps [OF t(4)]
    have "returns (do { s \<leftarrow> set_request a ?r t; requests_loop P time (n + k) c s }) Q"
    proof (rule returns_bindI [OF set_request_ok [of P t r rs a ?r]])
      show "requests_ok P t" "requests t = r # rs" "list_peek (data_requests_queue t) = Some a" using D Suc.prems(4) h(3) by auto
      fix u
      assume "\<exists>q. u = t\<lparr>data_requests_queue := q\<rparr> \<and> requests_ok P u \<and> requests u = ?r # rs"
      then obtain q where u: "u = t\<lparr>data_requests_queue := q\<rparr>" "requests_ok P u" "requests u = ?r # rs" by blast
      have st: "store_ok P t" using t(2) by (simp add: sound_def)
      show "returns (requests_loop P time (n + k) c u) Q"
      proof (rule Suc.IH [where r = ?r and x = "\<lambda>i. x (Suc i)"])
        show "sound P files works u" "zejf_ok P u" "platform_ok P (interfaces u)" "requests u = ?r # rs" "\<not> 50 < req_errors ?r"
          using u t st Suc.prems(3,5) D by (simp_all add: zejf_ok_def)
        show "reachable_device P u (target_device ?r)" using Suc.prems(8) D u(1) by (simp add: reachable_device_def used_id_def)
        show "length (queue_items (tx_queue u)) + n \<le> TX_QUEUE_SIZE P" using Suc.prems(9) t(5) u(1) by simp
        show "\<not> end_log ?r < current_log ?r + of_nat i" if "i < n" for i using Suc.prems(6) [of "Suc i"] that by (simp add: algebra_simps)
        show "read_hour (view P files u (req_hour_number ?r)) (var_id (req_variable ?r)) (current_log ?r + of_nat i) = (ZEJF_OK, Some (x (Suc i)))"
          if "i < n" for i using Suc.prems(7) [of "Suc i"] that t(3) u(1) by (simp add: algebra_simps)
        fix s'
        assume "zejf_ok P s'" "requests s' = ?r\<lparr>current_log := current_log ?r + of_nat n\<rparr> # rs"
          "queue_items (tx_queue s') = queue_items (tx_queue u) @ map (\<lambda>i. answer P time ?r (current_log ?r + of_nat i) (x (Suc i))) [0..<n]"
        then show "returns (requests_loop P time k c s') Q"
          using Suc.prems(10) [of s'] u(1) t(5) list by (simp add: algebra_simps del: upt_Suc)
      qed
    qed
    with \<open>b\<close> show "returns (if \<not> b then set_request a (r\<lparr>req_errors := req_errors r + 1\<rparr>) t
         else do { s \<leftarrow> set_request a ?r t; requests_loop P time (n + k) c s }) Q" by simp
  qed
  with Suc.prems(5) Suc.prems(6) [of 0] show ?case by (simp add: requests_loop_Suc [OF h] request_finished_def)
qed

lemma read_hour_bound: "read_hour v vid n = (ZEJF_OK, Some x) \<Longrightarrow> unat n < 2 ^ 32 - 1"
proof -
  assume "read_hour v vid n = (ZEJF_OK, Some x)"
  then obtain m :: u32 where "n < m" by (auto simp: read_hour_def not_le split: option.splits if_splits)
  then have "unat n < unat m" by (simp add: word_less_nat_alt)
  with unat_bound [of m] show ?thesis by simp
qed

lemma sample_before_end:
  fixes r :: DataRequest
  assumes "i < remaining r"
  shows "unat (current_log r + of_nat i) = unat (current_log r) + i" "\<not> end_log r < current_log r + of_nat i"
proof -
  have "unat (current_log r) + i \<le> unat (end_log r)" using assms by (simp add: remaining_def)
  moreover have "unat (end_log r) < 2 ^ 32" using unat_bound [of "end_log r"] by simp
  ultimately show "unat (current_log r + of_nat i) = unat (current_log r) + i" by (simp add: unat_word_ariths unat_of_nat)
  with \<open>unat (current_log r) + i \<le> unat (end_log r)\<close> show "\<not> end_log r < current_log r + of_nat i"
    by (simp add: word_less_nat_alt)
qed

lemma data_requests_served:
  assumes so: "sound P files works s" and ok: "zejf_ok P s" and pl: "platform_ok P (interfaces s)"
    and r: "requests s = [r]" "\<not> 50 < req_errors r" "current_log r \<le> end_log r" and d: "reachable_device P s (target_device r)"
  defines "slots \<equiv> (TX_QUEUE_SIZE P - length (queue_items (tx_queue s))) div 2"
  defines "n \<equiv> min slots (remaining r)"
  assumes x: "\<And>i. i < n \<Longrightarrow>
      read_hour (view P files s (req_hour_number r)) (var_id (req_variable r)) (current_log r + of_nat i) = (ZEJF_OK, Some (x i))"
  shows "returns (data_requests_process P time s) (\<lambda>s'. zejf_ok P s' \<and>
     queue_items (tx_queue s') = queue_items (tx_queue s) @ map (\<lambda>i. answer P time r (current_log r + of_nat i) (x i)) [0..<n] \<and>
     requests s' = (if remaining r < slots then [] else [r\<lparr>current_log := current_log r + of_nat n\<rparr>]))"
proof -
  obtain l where l: "tx_queue s = Some l" "list_ok (mem s) l" "capacity l = TX_QUEUE_SIZE P" using ok net_ok_tx by (auto simp: zejf_ok_def)
  have le: "length (queue_items (tx_queue s)) \<le> TX_QUEUE_SIZE P" using list_ok_le [OF l(2)] l by simp
  have alloc: "allocate_packet_queue PRIORITY_HIGH s = Some slots"
    using l le list_ok_count [OF l(2)] by (simp add: allocate_packet_queue_def size_sub_def slots_def)
  let ?Q = "\<lambda>s'. zejf_ok P s' \<and>
     queue_items (tx_queue s') = queue_items (tx_queue s) @ map (\<lambda>i. answer P time r (current_log r + of_nat i) (x i)) [0..<n] \<and>
     requests s' = (if remaining r < slots then [] else [r\<lparr>current_log := current_log r + of_nat n\<rparr>])"
  have "returns (requests_loop P time (n + (slots - n)) 1 s) ?Q"
  proof (rule requests_loop_served [OF so ok pl r(1,2) _ x d])
    show "\<not> end_log r < current_log r + of_nat i" if "i < n" for i using sample_before_end(2) [of i r] that by (simp add: n_def)
    have "n \<le> slots" "2 * slots \<le> TX_QUEUE_SIZE P - length (queue_items (tx_queue s))" by (simp_all add: n_def slots_def)
    then show "length (queue_items (tx_queue s)) + n \<le> TX_QUEUE_SIZE P" using le by linarith
    fix t
    assume t: "zejf_ok P t" "requests t = [r\<lparr>current_log := current_log r + of_nat n\<rparr>]"
      "queue_items (tx_queue t) = queue_items (tx_queue s) @ map (\<lambda>i. answer P time r (current_log r + of_nat i) (x i)) [0..<n]"
    have req: "requests_ok P t" using t(1) by (simp add: zejf_ok_def)
    show "returns (requests_loop P time (slots - n) 1 t) ?Q"
    proof (cases "remaining r < slots")
      case False
      then have "slots - n = 0" by (simp add: n_def)
      with False t req show ?thesis by (simp add: requests_loop_empty [OF req])
    next
      case True
      then have n: "n = remaining r" "0 < n" using r(3) by (simp_all add: n_def remaining_def word_le_nat_alt)
      have last: "unat (current_log r) + (n - 1) = unat (end_log r)" using n by (simp add: remaining_def)
      have "unat (current_log r + of_nat (n - 1)) < 2 ^ 32 - 1" by (rule read_hour_bound [OF x]) (use n in simp)
      then have "unat (current_log r) + n < 2 ^ 32" using sample_before_end(1) [of "n - 1" r] n by simp
      then have "unat (current_log r + of_nat n) = unat (current_log r) + n" by (simp add: unat_word_ariths unat_of_nat)
      then have fin: "request_finished (r\<lparr>current_log := current_log r + of_nat n\<rparr>)"
        using last n by (simp add: request_finished_def word_less_nat_alt)
      obtain k where k: "slots - n = Suc k" using True n by (cases "slots - n") auto
      obtain l a nd where h: "data_requests_queue t = Some l" "\<not> list_is_empty l" "list_peek (data_requests_queue t) = Some a"
        "nodes l a = Some nd" "node_item nd = r\<lparr>current_log := current_log r + of_nat n\<rparr>" by (rule requests_head [OF req t(2)])
      have "returns (do { (_, q) \<leftarrow> list_pop (data_requests_queue t); requests_loop P time k 2 (t\<lparr>data_requests_queue := q\<rparr>) }) ?Q"
        by (rule returns_bindI [OF requests_pop_ok [OF req]])
          (use t True in \<open>auto simp: requests_loop_empty [of P] requests_def zejf_ok_def\<close>)
      then show ?thesis by (simp add: k requests_loop_Suc [OF h] fin Let_def numeral_2_eq_2)
    qed
  qed
  moreover have "n + (slots - n) = slots" by (simp add: n_def)
  ultimately show ?thesis by (simp add: data_requests_process_def alloc)
qed

end

end
