(* ===== verification/Data_Check.thy ===== *)
theory Data_Check
  imports Data_Request
begin

text \<open>
  The data checks of \<open>api/zejf_api/src/data_check.c\<close>: a device tells another how many values of an hour
  it has, and the other queues a request for itself when it has more.
\<close>

section \<open>Numbers of five fields\<close>

lemma numbers_decode_text: "numbers_decode (numbers_text v a b c) = Some (v, a, b, c)"
proof -
  have u16: "scan_uint 16 (show_uint (var_id v) @ CHR '','' # r) = Some (unat (var_id v), CHR '','' # r)" for r
    by (rule scan_uint_show_uint) simp_all
  have u32: "scan_uint 32 (show_uint x @ CHR '','' # r) = Some (unat x, CHR '','' # r)" for x :: u32 and r
    by (rule scan_uint_show_uint) simp_all
  have last: "scan_uint 32 (show_uint c) = Some (unat c, [])" using scan_uint_show_uint [of 32 "[]" c] by simp
  show ?thesis by (simp add: numbers_decode_def numbers_text_def u16 u32 last)
qed

interpretation numbers_codec: codec "\<lambda>_. True" "\<lambda>(v, a, b, c). numbers_text v a b c" numbers_decode
  by unfold_locales (auto simp: numbers_decode_text)

section \<open>Operations\<close>

text \<open>The platform reports no variables with a null pointer and the count 0.\<close>

definition is_provided :: "'w platform \<Rightarrow> VariableInfo \<Rightarrow> 'w zejf \<Rightarrow> bool" where
  "is_provided P variable s =
     (case get_provided_variables P (world s) of
        None \<Rightarrow> False
      | Some vs \<Rightarrow> \<exists>v\<in>set vs. var_id v = var_id variable)"

text \<open>The loop of \<open>calculate_data_check\<close> over the samples.\<close>

partial_function (option) check_loop ::
  "bool \<Rightarrow> u32 \<Rightarrow> u32 \<Rightarrow> u32 \<Rightarrow> u32 \<Rightarrow> u32 list \<Rightarrow> (u32 \<times> u32 list) option"
where
  "check_loop is_prov rate log_num log values data =
     (if log \<le> log_num
      then
        (if rate \<le> log then Some (values, data)
         else do {
           val \<leftarrow> arr_get data (unat log);
           (if val \<noteq> VALUE_EMPTY then check_loop is_prov rate log_num (log + 1) (values + 1) data
            else if is_prov
            then do {
              data \<leftarrow> arr_set data (unat log) VALUE_NOT_MEASURED;
              check_loop is_prov rate log_num (log + 1) (values + 1) data
            }
            else check_loop is_prov rate log_num (log + 1) values data)
         })
      else Some (values, data))"

text \<open>The result is the error and, without error, the number of values.\<close>

definition calculate_data_check ::
  "'w platform \<Rightarrow> VariableInfo \<Rightarrow> u32 \<Rightarrow> u32 \<Rightarrow> 'w zejf \<Rightarrow> (zejf_err \<times> u32 option \<times> 'w zejf) option"
where
  "calculate_data_check P variable hour_num log_num s =
     do {
       (found, s) \<leftarrow> datahour_get P hour_num True False s;
       (case found of
          None \<Rightarrow> Some (ZEJF_ERR_NULL, None, s)
        | Some a \<Rightarrow>
            do {
              hour \<leftarrow> hours s a;
              current \<leftarrow> get_variable hour (var_id variable);
              (case current of
                 None \<Rightarrow> Some (ZEJF_ERR_NULL, None, s)
               | Some k \<Rightarrow>
                   do {
                     var \<leftarrow> arr_get (variables hour) k;
                     (if samples_per_hour variable \<noteq> samples_per_hour (variable_info var)
                      then Some (ZEJF_ERR_INVALID_SAMPLE_RATE, None, s)
                      else do {
                        (values, data) \<leftarrow> check_loop (is_provided P variable s) (samples_per_hour variable) log_num 0 0 (var_data var);
                        let hour = hour\<lparr>variables := (variables hour)[k := var\<lparr>var_data := data\<rparr>]\<rparr>;
                        Some (ZEJF_OK, Some values, s\<lparr>hours := (hours s)(a \<mapsto> hour)\<rparr>)
                      })
                   })
            })
     }"

text \<open>Without a result \<open>check_number\<close> keeps its initial value 0 and is compared all the same.\<close>

definition data_check_send ::
  "'w platform \<Rightarrow> u16 \<Rightarrow> VariableInfo \<Rightarrow> u32 \<Rightarrow> u32 \<Rightarrow> u32 \<Rightarrow> 'w zejf \<Rightarrow> (zejf_err \<times> 'w zejf) option"
where
  "data_check_send P to' variable hour_num log_num time s =
     do {
       (rv, result, s) \<leftarrow> calculate_data_check P variable hour_num log_num s;
       let check_number = (case result of None \<Rightarrow> 0 | Some c \<Rightarrow> c);
       (if check_number = samples_per_hour variable then Some (ZEJF_OK, s)
        else if rv \<noteq> ZEJF_OK then Some (rv, s)
        else send_text P ZEJF_ERR_GENERIC ZEJF_ERR_NULL to' DATA_CHECK (numbers_text variable hour_num log_num check_number) time s)
     }"

definition data_check_receive :: "'w platform \<Rightarrow> Packet \<Rightarrow> 'w zejf \<Rightarrow> (zejf_err \<times> 'w zejf) option" where
  "data_check_receive P packet s =
     do {
       t \<leftarrow> message packet;
       (case numbers_decode t of
          None \<Rightarrow> Some (ZEJF_ERR_GENERIC, s)
        | Some (variable, hour_num, log_num, check_number) \<Rightarrow>
            do {
              (rv, result, s) \<leftarrow> calculate_data_check P variable hour_num log_num s;
              (if rv \<noteq> ZEJF_OK then Some (rv, s)
               else do {
                 our_check_number \<leftarrow> result;
                 (if check_number < our_check_number
                  then data_request_add (pkt_from packet) variable hour_num 0 log_num s
                  else Some (ZEJF_OK, s))
               })
            })
     }"

subsection \<open>The current sample\<close>

text \<open>
  \<open>(uint32_t) (((double) current_millis_in_hour / HOUR) * (samples_per_hour - 1.0))\<close>.  A double is a
  pair of a natural number and the negated exponent of two it is scaled by; the quotient and the product are
  rounded to 53 bits, ties to even.  A number that does not fit 32 bits is undefined, as is a
  negative one from \<open>-1\<close> on; \<open>samples_per_hour\<close> 0 makes the second factor \<open>-1\<close>.
\<close>

function double_scale :: "nat \<Rightarrow> nat \<Rightarrow> nat \<Rightarrow> nat" where
  "double_scale num den k =
     (if 2 ^ 52 \<le> num * 2 ^ k div den \<or> 200 \<le> k then k else double_scale num den (Suc k))"
  by pat_completeness auto
termination
  by (relation "measure (\<lambda>(num, den, k). 200 - k)") auto

declare double_scale.simps [simp del]

definition double_of_ratio :: "nat \<Rightarrow> nat \<Rightarrow> nat \<times> nat" where
  "double_of_ratio num den =
     (if num = 0 then (0, 0)
      else let k = double_scale num den 0 in (round_half_even (num * 2 ^ k) den, k))"

definition current_sample :: "u32 \<Rightarrow> u32 \<Rightarrow> u32 option" where
  "current_sample millis rate =
     (case double_of_ratio (unat millis) HOUR of
        (q, k) \<Rightarrow>
          if rate = 0 then (if q < 2 ^ k then Some 0 else None)
          else
            (case double_of_ratio (q * (unat rate - 1)) (2 ^ k) of
               (p, j) \<Rightarrow> if p div 2 ^ j < 2 ^ 32 then Some (of_nat (p div 2 ^ j)) else None))"

subsection \<open>Running the checks\<close>

abbreviation (input) DATA_CHECK_DELAY :: u32 where "DATA_CHECK_DELAY \<equiv> 2"

definition is_wanted :: "u16 list option \<Rightarrow> u16 \<Rightarrow> bool" where
  "is_wanted demanded vid = (case demanded of None \<Rightarrow> False | Some vs \<Rightarrow> \<exists>v\<in>set vs. v = ALL_VARIABLES \<or> v = vid)"

text \<open>One round of the innermost loop; \<open>False\<close> is the early return.\<close>

definition check_variable ::
  "'w platform \<Rightarrow> u16 list option \<Rightarrow> u32 \<Rightarrow> u32 \<Rightarrow> u32 \<Rightarrow> u32 \<Rightarrow> u16 \<Rightarrow> VariableInfo \<Rightarrow> 'w zejf \<Rightarrow> (bool \<times> 'w zejf) option"
where
  "check_variable P demanded current_hour_num millis hour_num time dev variable s =
     do {
       log_num \<leftarrow> current_sample millis (samples_per_hour variable);
       (if hour_num = current_hour_num \<and> log_num < DATA_CHECK_DELAY then Some (True, s)
        else
          let log_num = (if hour_num = current_hour_num then log_num - DATA_CHECK_DELAY else log_num) in
          if \<not> is_wanted demanded (var_id variable) then Some (True, s)
          else do {
            (rv, s) \<leftarrow> data_check_send P dev variable hour_num
                        (if hour_num = current_hour_num then log_num else samples_per_hour variable - 1) time s;
            Some (rv = ZEJF_OK, s)
          })
     }"

partial_function (option) check_variables ::
  "'w platform \<Rightarrow> u16 list option \<Rightarrow> u32 \<Rightarrow> u32 \<Rightarrow> u32 \<Rightarrow> u32 \<Rightarrow> nat \<Rightarrow> nat \<Rightarrow> 'w zejf \<Rightarrow> (bool \<times> 'w zejf) option"
where
  "check_variables P demanded current_hour_num millis hour_num time i j s =
     do {
       entry \<leftarrow> entry_at s i;
       (if j < unat (provided_count entry)
        then do {
          variable \<leftarrow> arr_get (provided_variables entry) j;
          (go, s) \<leftarrow> check_variable P demanded current_hour_num millis hour_num time (device_id entry) variable s;
          (if go then check_variables P demanded current_hour_num millis hour_num time i (Suc j) s else Some (False, s))
        }
        else Some (True, s))
     }"

partial_function (option) check_devices ::
  "'w platform \<Rightarrow> u16 list option \<Rightarrow> u32 \<Rightarrow> u32 \<Rightarrow> u32 \<Rightarrow> u32 \<Rightarrow> nat \<Rightarrow> 'w zejf \<Rightarrow> (bool \<times> 'w zejf) option"
where
  "check_devices P demanded current_hour_num millis hour_num time i s =
     (if i < routing_table_top s
      then do {
        (go, s) \<leftarrow> check_variables P demanded current_hour_num millis hour_num time i 0 s;
        (if go then check_devices P demanded current_hour_num millis hour_num time (Suc i) s else Some (False, s))
      }
      else Some (True, s))"

partial_function (option) check_hours ::
  "'w platform \<Rightarrow> u16 list option \<Rightarrow> u32 \<Rightarrow> u32 \<Rightarrow> u32 \<Rightarrow> u32 \<Rightarrow> u32 \<Rightarrow> 'w zejf \<Rightarrow> 'w zejf option"
where
  "check_hours P demanded current_hour_num millis hours' time hour_num s =
     (if current_hour_num - hours' < hour_num
      then do {
        (go, s) \<leftarrow> check_devices P demanded current_hour_num millis hour_num time 0 s;
        (if go then check_hours P demanded current_hour_num millis hours' time (hour_num - 1) s else Some s)
      }
      else Some s)"

definition run_data_check :: "'w platform \<Rightarrow> u32 \<Rightarrow> u32 \<Rightarrow> u32 \<Rightarrow> u32 \<Rightarrow> 'w zejf \<Rightarrow> 'w zejf option" where
  "run_data_check P current_hour_num millis hours' time s =
     check_hours P (get_demanded_variables P (world s)) current_hour_num millis
       (if 24 * 5 < hours' then 24 * 5 else hours') time current_hour_num s"

section \<open>Counting the values\<close>

text \<open>A provider marks its empty samples as not measured.\<close>

definition marked :: "bool \<Rightarrow> u32 \<Rightarrow> u32" where
  "marked prov v = (if prov \<and> v = VALUE_EMPTY then VALUE_NOT_MEASURED else v)"

definition mark_data :: "bool \<Rightarrow> nat \<Rightarrow> u32 list \<Rightarrow> u32 list" where
  "mark_data prov m data = map (marked prov) (take m data) @ drop m data"

definition count_values :: "bool \<Rightarrow> nat \<Rightarrow> u32 list \<Rightarrow> nat" where
  "count_values prov m data = length (filter (\<lambda>v. prov \<or> v \<noteq> VALUE_EMPTY) (take m data))"

lemma length_mark_data [simp]: "length (mark_data prov m data) = length data"
  by (simp add: mark_data_def)

lemma nth_mark_data: "i < length data \<Longrightarrow> mark_data prov m data ! i = (if i < m then marked prov (data ! i) else data ! i)"
  by (auto simp: mark_data_def nth_append)

lemma mark_data_step:
  "m < length data \<Longrightarrow> mark_data prov (Suc m) data = (mark_data prov m data)[m := marked prov (data ! m)]"
  by (rule nth_equalityI) (auto simp: nth_mark_data nth_list_update less_Suc_eq)

lemma count_values_step:
  "m < length data \<Longrightarrow> count_values prov (Suc m) data = count_values prov m data + (if prov \<or> data ! m \<noteq> VALUE_EMPTY then 1 else 0)"
  by (simp add: count_values_def take_Suc_conv_app_nth)

lemma check_loop_ok:
  fixes data :: "u32 list" and rate log_num :: u32
  assumes len: "length data = unat rate"
  defines "M \<equiv> min (Suc (unat log_num)) (unat rate)"
  shows "m \<le> M \<Longrightarrow>
    check_loop prov rate log_num (of_nat m) (of_nat (count_values prov m data)) (mark_data prov m data) =
      Some (of_nat (count_values prov M data), mark_data prov M data)"
proof (induction "M - m" arbitrary: m)
  case 0
  then have "m = M" by simp
  have "m \<le> unat rate" using 0 by (simp add: M_def)
  then have u: "unat (of_nat m :: u32) = m" using unat_bound [of rate] by (simp add: unat_of_nat)
  have "\<not> m \<le> unat log_num \<or> unat rate \<le> m" using \<open>m = M\<close> by (auto simp: M_def)
  then have "\<not> (of_nat m :: u32) \<le> log_num \<or> rate \<le> of_nat m" by (simp add: word_le_nat_alt u)
  with \<open>m = M\<close> show ?case by (subst check_loop.simps) auto
next
  case (Suc x)
  then have mM: "m < M" by simp
  then have m: "m < unat rate" "m \<le> unat log_num" by (simp_all add: M_def)
  then have u: "unat (of_nat m :: u32) = m" using unat_bound [of rate] by (simp add: unat_of_nat)
  have c: "(of_nat m :: u32) \<le> log_num" "\<not> rate \<le> of_nat m" using m by (simp_all add: word_le_nat_alt u)
  have v: "mark_data prov m data ! m = data ! m" using m len by (simp add: nth_mark_data)
  have IH: "check_loop prov rate log_num (of_nat (Suc m)) (of_nat (count_values prov (Suc m) data)) (mark_data prov (Suc m) data) =
      Some (of_nat (count_values prov M data), mark_data prov M data)" by (rule Suc.hyps(1)) (use Suc.hyps(2) mM in auto)
  have same: "x = data ! m \<Longrightarrow> (mark_data p m data)[m := x] = mark_data p m data" for p x
    using m len nth_mark_data [of m data p m] by (metis less_irrefl list_update_id)
  show ?case using c m len v IH
    by (subst check_loop.simps) (auto simp: u mark_data_step count_values_step marked_def same algebra_simps)
qed

definition check_hour :: "bool \<Rightarrow> VariableInfo \<Rightarrow> u32 \<Rightarrow> DataHour \<Rightarrow> zejf_err \<times> u32 option \<times> DataHour" where
  "check_hour prov info n h =
     (case find_var h (var_id info) of
        None \<Rightarrow> (ZEJF_ERR_NULL, None, h)
      | Some v \<Rightarrow>
          if samples_per_hour info \<noteq> samples_per_hour (variable_info v) then (ZEJF_ERR_INVALID_SAMPLE_RATE, None, h)
          else
            let m = min (Suc (unat n)) (unat (samples_per_hour info)) in
            (ZEJF_OK, Some (of_nat (count_values prov m (var_data v))),
             h\<lparr>variables := map (\<lambda>v. if var_id (variable_info v) = var_id info then v\<lparr>var_data := mark_data prov m (var_data v)\<rparr> else v)
                               (variables h)\<rparr>))"

lemma check_hour_ok: "hour_vars_ok P h \<Longrightarrow> hour_vars_ok P (snd (snd (check_hour prov info n h)))"
  by (auto simp: check_hour_def Let_def hour_vars_ok_def variable_ok_def comp_def
      if_distrib [of "\<lambda>v. var_id (variable_info v)"] split: option.splits cong: if_cong)

lemma check_found_ok:
  assumes h: "hour_vars_ok P h"
  shows "returns (do {
       current \<leftarrow> get_variable h (var_id info);
       (case current of
          None \<Rightarrow> Some (ZEJF_ERR_NULL, None, s)
        | Some k \<Rightarrow> do {
            var \<leftarrow> arr_get (variables h) k;
            (if samples_per_hour info \<noteq> samples_per_hour (variable_info var)
             then Some (ZEJF_ERR_INVALID_SAMPLE_RATE, None, s)
             else do {
               (values, data) \<leftarrow> check_loop prov (samples_per_hour info) n 0 0 (var_data var);
               let hour = h\<lparr>variables := (variables h)[k := var\<lparr>var_data := data\<rparr>]\<rparr>;
               Some (ZEJF_OK, Some values, s\<lparr>hours := (hours s)(a \<mapsto> hour)\<rparr>)
             }) }) })
     (\<lambda>(e, r, s'). \<exists>h'. (e, r, h') = check_hour prov info n h \<and> s' = (if e = ZEJF_OK then s\<lparr>hours := (hours s)(a \<mapsto> h')\<rparr> else s))"
proof (rule returns_bindI [OF get_variable_find [OF h]], elim conjE)
  fix r
  assume fv: "find_var h (var_id info) = map_option ((!) (variables h)) r"
    and k: "\<forall>k. r = Some k \<longrightarrow> k < length (variables h) \<and> var_id (variable_info (variables h ! k)) = var_id info"
  show "returns (case r of None \<Rightarrow> Some (ZEJF_ERR_NULL, None, s)
        | Some k \<Rightarrow> do {
            var \<leftarrow> arr_get (variables h) k;
            (if samples_per_hour info \<noteq> samples_per_hour (variable_info var)
             then Some (ZEJF_ERR_INVALID_SAMPLE_RATE, None, s)
             else do {
               (values, data) \<leftarrow> check_loop prov (samples_per_hour info) n 0 0 (var_data var);
               let hour = h\<lparr>variables := (variables h)[k := var\<lparr>var_data := data\<rparr>]\<rparr>;
               Some (ZEJF_OK, Some values, s\<lparr>hours := (hours s)(a \<mapsto> hour)\<rparr>)
             }) })
     (\<lambda>(e, r, s'). \<exists>h'. (e, r, h') = check_hour prov info n h \<and> s' = (if e = ZEJF_OK then s\<lparr>hours := (hours s)(a \<mapsto> h')\<rparr> else s))"
  proof (cases r)
    case None
    with fv show ?thesis by (simp add: check_hour_def)
  next
    case (Some k0)
    with k have k0: "k0 < length (variables h)" "var_id (variable_info (variables h ! k0)) = var_id info" by auto
    have v: "variable_ok P (variables h ! k0)" using h k0 by (simp add: hour_vars_ok_def)
    let ?rate = "samples_per_hour (variable_info (variables h ! k0))"
    let ?m = "min (Suc (unat n)) (unat ?rate)"
    have loop: "check_loop prov ?rate n 0 0 (var_data (variables h ! k0)) =
        Some (of_nat (count_values prov ?m (var_data (variables h ! k0))), mark_data prov ?m (var_data (variables h ! k0)))"
      using check_loop_ok [of "var_data (variables h ! k0)" ?rate 0 n prov] v
      by (simp add: variable_ok_def count_values_def mark_data_def)
    have "distinct (map (\<lambda>v. var_id (variable_info v)) (variables h))" using h by (simp add: hour_vars_ok_def)
    then have "(variables h)[k0 := (variables h ! k0)\<lparr>var_data := mark_data prov ?m (var_data (variables h ! k0))\<rparr>] =
        map (\<lambda>v. if var_id (variable_info v) = var_id info then v\<lparr>var_data := mark_data prov ?m (var_data v)\<rparr> else v) (variables h)"
      using k0 by (intro list_update_map_distinct)
    with Some fv k0 loop show ?thesis by (auto simp: check_hour_def Let_def)
  qed
qed

lemma calculate_data_check_ok:
  assumes st: "store_ok P s"
  shows "returns (calculate_data_check P info hn n s) (\<lambda>(e, r, s'). store_ok P s' \<and> store_frame s s' \<and> (e = ZEJF_OK \<longrightarrow> r \<noteq> None) \<and>
     (\<exists>g t. get_done P hn True False s g t \<and>
       (case g of None \<Rightarrow> e = ZEJF_ERR_NULL \<and> r = None \<and> s' = t
        | Some a \<Rightarrow> \<exists>h'. (e, r, h') = check_hour (is_provided P info t) info n (hour_at t a) \<and>
            s' = (if e = ZEJF_OK then t\<lparr>hours := (hours t)(a \<mapsto> h')\<rparr> else t))))"
proof -
  obtain g t where g: "datahour_get P hn True False s = Some (g, t)" and t: "store_ok P t" "store_frame s t" "get_done P hn True False s g t"
    using datahour_get_ok [OF st, of hn True False] unfolding returns_iff by auto
  show ?thesis
  proof (cases g)
    case None
    with t show ?thesis by (auto simp: calculate_data_check_def g intro!: exI [of _ None])
  next
    case (Some a)
    note a = get_done_cached [OF t(3) [unfolded Some] t(1)]
    show ?thesis unfolding calculate_data_check_def g bind.bind_lunit prod.case Some option.case a(2)
    proof (rule returns_weaken [OF check_found_ok [OF a(3)]], clarify)
      fix e r h'
      assume c: "(e, r, h') = check_hour (is_provided P info t) info n (hour_at t a)"
      have "hour_vars_ok P h'" using check_hour_ok [OF a(3), of "is_provided P info t" info n] by (simp add: c [symmetric])
      then have "store_ok P (t\<lparr>hours := (hours t)(a \<mapsto> h')\<rparr>)" using store_rep_write [of P t "{}" a h'] t(1) a(1) by (simp add: store_ok_def)
      moreover have "e = ZEJF_OK \<Longrightarrow> r \<noteq> None" using c by (auto simp: check_hour_def Let_def split: option.splits if_splits)
      ultimately show "store_ok P (if e = ZEJF_OK then t\<lparr>hours := (hours t)(a \<mapsto> h')\<rparr> else t) \<and>
         store_frame s (if e = ZEJF_OK then t\<lparr>hours := (hours t)(a \<mapsto> h')\<rparr> else t) \<and> (e = ZEJF_OK \<longrightarrow> r \<noteq> None) \<and>
         (\<exists>g u. get_done P hn True False s g u \<and>
           (case g of None \<Rightarrow> e = ZEJF_ERR_NULL \<and> r = None \<and> (if e = ZEJF_OK then t\<lparr>hours := (hours t)(a \<mapsto> h')\<rparr> else t) = u
            | Some b \<Rightarrow> \<exists>h''. (e, r, h'') = check_hour (is_provided P info u) info n (hour_at u b) \<and>
                (if e = ZEJF_OK then t\<lparr>hours := (hours t)(a \<mapsto> h')\<rparr> else t) = (if e = ZEJF_OK then u\<lparr>hours := (hours u)(b \<mapsto> h'')\<rparr> else u)))"
        using t Some c by (auto intro!: exI [of _ "Some a"] exI [of _ t])
    qed
  qed
qed

section \<open>The current sample is one of the hour\<close>

lemma round_half_even_le: "a \<le> c * b \<Longrightarrow> round_half_even a b \<le> c"
proof (cases "b = 0")
  case False
  assume a: "a \<le> c * b"
  then have "a div b \<le> c" using False by (metis div_le_mono div_mult_self_is_m gr0I)
  moreover have "a div b \<noteq> c" if "0 < a mod b"
    using that a by (metis add_le_same_cancel1 div_mult_mod_eq leD)
  ultimately show ?thesis using False by (auto simp: round_half_even_def Let_def)
qed (auto simp: round_half_even_def)

lemma round_half_even_less:
  assumes "2 * a + b < 2 * b * c"
  shows "round_half_even a b < c"
proof -
  have a: "a = b * (a div b) + a mod b" by simp
  have "a div b < c" using assms by (metis add_lessD1 div_less_iff_less_mult gr0I mult.assoc mult.commute mult_0 nat_mult_less_cancel_disj not_less0)
  moreover have "Suc (a div b) < c" if "b \<le> 2 * (a mod b)"
  proof -
    have "2 * b * Suc (a div b) = 2 * (b * (a div b)) + 2 * b" by simp
    also have "\<dots> \<le> 2 * a + b" using a that by linarith
    finally have "2 * b * Suc (a div b) < 2 * b * c" using assms by linarith
    then show ?thesis by (simp only: nat_mult_less_cancel_disj)
  qed
  ultimately show ?thesis by (auto simp: round_half_even_def Let_def)
qed

lemma double_of_ratio_le:
  assumes "num \<le> c * den" and "double_of_ratio num den = (q, k)"
  shows "q \<le> c * 2 ^ k"
proof (cases "num = 0")
  case False
  with assms(2) have "q = round_half_even (num * 2 ^ k) den" by (auto simp: double_of_ratio_def Let_def)
  moreover have "num * 2 ^ k \<le> c * 2 ^ k * den" using assms(1) by (simp add: algebra_simps)
  ultimately show ?thesis by (simp add: round_half_even_le)
qed (use assms in \<open>simp add: double_of_ratio_def\<close>)

lemma double_scale_done: "2 ^ 52 \<le> num * 2 ^ double_scale num den k div den \<or> 200 \<le> double_scale num den k"
  by (induction num den k rule: double_scale.induct) (subst (1 2) double_scale.simps, auto)

lemma double_of_ratio_below:
  assumes n: "num < den" "den \<le> 2 ^ 51" and "double_of_ratio num den = (q, k)"
  shows "q < 2 ^ k"
proof (cases "num = 0")
  case False
  with assms(3) have q: "q = round_half_even (num * 2 ^ k) den" "k = double_scale num den 0" by (auto simp: double_of_ratio_def Let_def)
  have "num * 2 ^ k div den \<le> 2 ^ k" using n by (intro less_imp_le_nat) (simp add: div_less_iff_less_mult mult_ac)
  then have "(2::nat) ^ 52 \<le> 2 ^ k \<or> 52 \<le> k" using double_scale_done [of num den 0] unfolding q(2) by linarith
  then have k: "(2::nat) ^ 52 \<le> 2 ^ k" by (elim disjE) (simp_all only: power_increasing_iff one_less_numeral_iff semiring_norm)
  have "(num + 1) * 2 ^ k \<le> den * 2 ^ k" using n by (intro mult_le_mono1) simp
  then have "2 * (num * 2 ^ k) + 2 * 2 ^ k \<le> 2 * (den * 2 ^ k)" by (simp add: algebra_simps)
  moreover have "den < 2 * 2 ^ k" using k n by simp
  ultimately show ?thesis unfolding q(1) by (intro round_half_even_less) (simp add: algebra_simps)
qed (use assms in \<open>simp add: double_of_ratio_def\<close>)

lemma current_sample_ok:
  assumes "unat millis < HOUR"
  shows "\<exists>n. current_sample millis rate = Some n \<and> unat n \<le> unat rate - 1"
proof -
  obtain q k where q: "double_of_ratio (unat millis) HOUR = (q, k)" by fastforce
  have qk: "q < 2 ^ k" by (rule double_of_ratio_below [OF assms _ q]) simp
  show ?thesis
  proof (cases "rate = 0")
    case True
    with q qk show ?thesis by (simp add: current_sample_def)
  next
    case False
    obtain p j where p: "double_of_ratio (q * (unat rate - 1)) (2 ^ k) = (p, j)" by fastforce
    have "p \<le> (unat rate - 1) * 2 ^ j" by (rule double_of_ratio_le [OF _ p]) (use qk in \<open>simp add: mult.commute\<close>)
    then have le: "p div 2 ^ j \<le> unat rate - 1" by (metis div_le_mono div_mult_self_is_m zero_less_numeral zero_less_power)
    have "unat rate < 2 ^ 32" using unat_bound [of rate] by simp
    with le have lt: "p div 2 ^ j < 2 ^ 32" by simp
    then have "unat (of_nat (p div 2 ^ j) :: u32) = p div 2 ^ j" by (simp add: unat_of_nat)
    with lt le False q p show ?thesis by (simp add: current_sample_def)
  qed
qed

section \<open>Sending and receiving a check\<close>

lemma zejf_ok_frame:
  assumes "zejf_ok P s" and "data_frame s s'" and "net_ok P s'" and "store_ok P s'"
  shows "zejf_ok P s'"
  using assms requests_ok_frame [of P s s'] by (simp add: zejf_ok_def)

lemma calculate_data_check_safe:
  assumes "zejf_ok P s"
  shows "returns (calculate_data_check P v hn n s) (\<lambda>(e, r, s'). zejf_ok P s' \<and> store_frame s s' \<and> (e = ZEJF_OK \<longrightarrow> r \<noteq> None))"
  using assms
  by (intro returns_weaken [OF calculate_data_check_ok])
    (auto simp: zejf_ok_def intro: store_frame_net_ok dest: requests_ok_frame [OF _ store_data_frame])

lemma numbers_text_not_Nil [simp]: "numbers_text v a b c \<noteq> []"
  by (simp add: numbers_text_def)

lemma data_check_send_ok:
  assumes ok: "zejf_ok P s" and pl: "platform_ok P (interfaces s)"
  shows "returns (data_check_send P d v hn n time s) (\<lambda>(e, s'). zejf_ok P s' \<and> data_frame s s')"
  unfolding data_check_send_def
proof (rule returns_bindI [OF calculate_data_check_safe [OF ok]], clarify)
  fix rv r t
  assume t: "zejf_ok P t" "store_frame s t"
  have pl': "platform_ok P (interfaces t)" using pl store_frame_simps(5) [OF t(2)] by simp
  have tok: "net_ok P t" "store_ok P t" using t(1) by (simp_all add: zejf_ok_def)
  have "returns (send_text P e1 e2 d DATA_CHECK (numbers_text v hn n c) time t) (\<lambda>(e, s'). zejf_ok P s' \<and> data_frame s s')" for e1 e2 c
    by (rule returns_weaken [OF send_text_ok [OF tok(1) pl']])
      (auto intro: store_ok_tx(1) [OF _ tok(2)] data_frame_trans [OF store_data_frame [OF t(2)] tx_data_frame]
        zejf_ok_frame [OF t(1) tx_data_frame])
  with t store_data_frame [OF t(2)]
  show "returns (let check_number = (case r of None \<Rightarrow> 0 | Some c \<Rightarrow> c)
      in if check_number = samples_per_hour v then Some (ZEJF_OK, t) else if rv \<noteq> ZEJF_OK then Some (rv, t)
         else send_text P ZEJF_ERR_GENERIC ZEJF_ERR_NULL d DATA_CHECK (numbers_text v hn n check_number) time t)
      (\<lambda>(e, s'). zejf_ok P s' \<and> data_frame s s')" by (simp add: Let_def)
qed

text \<open>A check is answered by a request to oneself only when this device has more values.\<close>

lemma data_check_receive_ok:
  fixes s :: "'w zejf"
  assumes ok: "zejf_ok P s" and msg: "message p = Some t"
  shows "returns (data_check_receive P p s) (\<lambda>(e, s'). zejf_ok P s' \<and> serve_frame s s' \<and> tx_queue s' = tx_queue s \<and>
     (requests s' \<noteq> requests s \<longrightarrow> (\<exists>v h n c. numbers_decode t = Some (v, h, n, c) \<and>
        requests s' = requests s @ [new_request (pkt_from p) v h 0 n])))"
proof (cases "numbers_decode t")
  case None
  with assms show ?thesis by (simp add: data_check_receive_def)
next
  case (Some x)
  obtain v h n c where x: "x = (v, h, n, c)" by (metis prod.exhaust)
  let ?Q = "\<lambda>s'. zejf_ok P s' \<and> serve_frame s s' \<and> tx_queue s' = tx_queue s \<and>
     (requests s' \<noteq> requests s \<longrightarrow> requests s' = requests s @ [new_request (pkt_from p) v h 0 n])"
  have "returns (do { (rv, result, s) \<leftarrow> calculate_data_check P v h n s;
      (if rv \<noteq> ZEJF_OK then Some (rv, s)
       else do { our \<leftarrow> result; (if c < our then data_request_add (pkt_from p) v h 0 n s else Some (ZEJF_OK, s)) }) })
     (\<lambda>(e, s'). ?Q s')"
  proof (rule returns_bindI [OF calculate_data_check_safe [OF ok]], clarify)
    fix rv :: zejf_err and r :: "u32 option" and u :: "'w zejf"
    assume u: "zejf_ok P u" "store_frame s u" and r: "rv = ZEJF_OK \<longrightarrow> r \<noteq> None"
    have uok: "net_ok P u" "store_ok P u" "requests_ok P u" using u(1) by (simp_all add: zejf_ok_def)
    have same: "requests u = requests s" "tx_queue u = tx_queue s" and fr: "serve_frame s u"
      using u(2) by (simp_all add: requests_def store_frame_def serve_frame_def)
    have "returns (data_request_add (pkt_from p) v h 0 n u) (\<lambda>(e, s'). ?Q s')"
    proof (rule returns_weaken [OF data_request_add_ok [OF uok(3) net_okD(1) [OF uok(1)]]], clarify)
      fix e s'
      assume s': "requests_ok P s'" "request_frame u s'" "(e, requests s') = add_request (DATA_REQUEST_QUEUE_SIZE P) (pkt_from p) v h 0 n (requests u)"
      have "serve_frame u s'" "tx_queue s' = tx_queue u" using s'(2) by (auto elim!: request_frameE simp: serve_frame_def)
      moreover have "zejf_ok P s'" using request_frame_ok [OF s'(2)] uok s'(1) by (simp add: zejf_ok_def)
      ultimately show "?Q s'" using s'(3) fr same by (auto simp: add_request_def split: if_splits intro: serve_frame_trans)
    qed
    with r u(1) fr same show "returns (if rv \<noteq> ZEJF_OK then Some (rv, u)
       else do { our \<leftarrow> r; (if c < our then data_request_add (pkt_from p) v h 0 n u else Some (ZEJF_OK, u)) }) (\<lambda>(e, s'). ?Q s')"
      by auto
  qed
  then show ?thesis by (simp add: data_check_receive_def msg Some x)
qed

section \<open>Running the checks\<close>

abbreviation (input) safe_step :: "'w platform \<Rightarrow> 'w zejf \<Rightarrow> 'w zejf \<Rightarrow> bool" where
  "safe_step P s s' \<equiv> zejf_ok P s' \<and> data_frame s s'"

lemma check_variable_ok:
  assumes ok: "zejf_ok P s" and pl: "platform_ok P (interfaces s)" and m: "unat millis < HOUR"
  shows "returns (check_variable P dem cur millis hn time d v s) (\<lambda>(go, s'). safe_step P s s')"
proof -
  obtain n where n: "current_sample millis (samples_per_hour v) = Some n" using current_sample_ok [OF m] by blast
  have "returns (do { (rv, s) \<leftarrow> data_check_send P d v hn k time s; Some (rv = ZEJF_OK, s) }) (\<lambda>(go, s'). safe_step P s s')" for k
    by (rule returns_bindI [OF data_check_send_ok [OF ok pl]]) auto
  with ok show ?thesis by (simp add: check_variable_def n Let_def)
qed

lemma entry_at_table:
  assumes "zejf_ok P s" and "i < routing_table_top s"
  shows "entry_at s i = Some (table_entries s ! i)"
    "unat (provided_count (table_entries s ! i)) = length (provided_variables (table_entries s ! i))"
proof -
  have r: "routing_ok P s" using assms(1) by (simp add: zejf_ok_def net_ok_def)
  then have rep: "table_rep P s (table_entries s)" by (rule routing_ok_rep)
  then have i: "i < length (table_entries s)" using assms(2) by (simp add: table_rep_def)
  show "entry_at s i = Some (table_entries s ! i)" by (rule entry_at_rep [OF rep i])
  show "unat (provided_count (table_entries s ! i)) = length (provided_variables (table_entries s ! i))"
    using r i by (auto simp: routing_ok_def entry_ok_def)
qed

lemma check_variables_ok:
  "\<lbrakk>zejf_ok P s; platform_ok P (interfaces s); unat millis < HOUR; i < routing_table_top s;
    j \<le> length (provided_variables (table_entries s ! i))\<rbrakk> \<Longrightarrow>
   returns (check_variables P dem cur millis hn time i j s) (\<lambda>(go, s'). safe_step P s s')"
proof (induction "length (provided_variables (table_entries s ! i)) - j" arbitrary: s j)
  case 0
  with 0 entry_at_table [of P s i] show ?case by (subst check_variables.simps) simp
next
  case (Suc x)
  let ?e = "table_entries s ! i"
  note i = entry_at_table [OF Suc.prems(1,4)]
  from i(2) Suc.hyps(2) have j: "j < unat (provided_count ?e)" "j < length (provided_variables ?e)" by simp_all
  have "returns (do { (go, s) \<leftarrow> check_variable P dem cur millis hn time (device_id ?e) (provided_variables ?e ! j) s;
      (if go then check_variables P dem cur millis hn time i (Suc j) s else Some (False, s)) }) (\<lambda>(go, s'). safe_step P s s')"
  proof (rule returns_bindI [OF check_variable_ok [OF Suc.prems(1-3)]], clarify)
    fix go t
    assume t: "zejf_ok P t" "data_frame s t"
    have "returns (check_variables P dem cur millis hn time i (Suc j) t) (\<lambda>(go, s'). safe_step P t s')"
      by (rule Suc.hyps(1)) (use Suc.hyps(2) Suc.prems t j data_frame_simps [OF t(2)] in \<open>auto simp: data_frame_def\<close>)
    then show "returns (if go then check_variables P dem cur millis hn time i (Suc j) t else Some (False, t)) (\<lambda>(go, s'). safe_step P s s')"
      using t by (auto elim!: returns_weaken intro: data_frame_trans)
  qed
  with i j show ?case by (subst check_variables.simps) simp
qed

lemma check_devices_ok:
  "\<lbrakk>zejf_ok P s; platform_ok P (interfaces s); unat millis < HOUR\<rbrakk> \<Longrightarrow>
   returns (check_devices P dem cur millis hn time i s) (\<lambda>(go, s'). safe_step P s s')"
proof (induction "routing_table_top s - i" arbitrary: s i)
  case 0
  then show ?case by (subst check_devices.simps) simp
next
  case (Suc x)
  then have i: "i < routing_table_top s" by simp
  have "returns (do { (go, s) \<leftarrow> check_variables P dem cur millis hn time i 0 s;
      (if go then check_devices P dem cur millis hn time (Suc i) s else Some (False, s)) }) (\<lambda>(go, s'). safe_step P s s')"
  proof (rule returns_bindI [OF check_variables_ok [OF Suc.prems i]], simp, clarify)
    fix go t
    assume t: "zejf_ok P t" "data_frame s t"
    have "returns (check_devices P dem cur millis hn time (Suc i) t) (\<lambda>(go, s'). safe_step P t s')"
      by (rule Suc.hyps(1)) (use Suc.hyps(2) Suc.prems t in \<open>auto simp: data_frame_def\<close>)
    then show "returns (if go then check_devices P dem cur millis hn time (Suc i) t else Some (False, t)) (\<lambda>(go, s'). safe_step P s s')"
      using t by (auto elim!: returns_weaken intro: data_frame_trans)
  qed
  with i show ?case by (subst check_devices.simps) simp
qed

text \<open>The loop over the hours counts down and stops above a bound, so it ends even when the bound wraps.\<close>

lemma check_hours_ok:
  "\<lbrakk>zejf_ok P s; platform_ok P (interfaces s); unat millis < HOUR\<rbrakk> \<Longrightarrow>
   returns (check_hours P dem cur millis hs time hn s) (safe_step P s)"
proof (induction "unat hn" arbitrary: s hn)
  case 0
  then have "hn = 0" by (simp add: unat_eq_zero)
  with 0 show ?case by (subst check_hours.simps) simp
next
  case (Suc x)
  have x: "x = unat (hn - 1)" using Suc.hyps(2) by (simp add: unat_minus_one unat_eq_zero [symmetric])
  have "returns (do { (go, s) \<leftarrow> check_devices P dem cur millis hn time 0 s;
      (if go then check_hours P dem cur millis hs time (hn - 1) s else Some s) }) (safe_step P s)"
  proof (rule returns_bindI [OF check_devices_ok [OF Suc.prems]], clarify)
    fix go t
    assume t: "zejf_ok P t" "data_frame s t"
    have "returns (check_hours P dem cur millis hs time (hn - 1) t) (safe_step P t)"
      by (rule Suc.hyps(1) [OF x]) (use Suc.prems t data_frame_simps [OF t(2)] in auto)
    then show "returns (if go then check_hours P dem cur millis hs time (hn - 1) t else Some t) (safe_step P s)"
      using t by (auto elim!: returns_weaken intro: data_frame_trans)
  qed
  with Suc.prems(1) show ?case by (subst check_hours.simps) simp
qed

lemma run_data_check_ok:
  assumes "zejf_ok P s" and "platform_ok P (interfaces s)" and "unat millis < HOUR"
  shows "returns (run_data_check P cur millis hs time s) (safe_step P s)"
  unfolding run_data_check_def by (rule check_hours_ok [OF assms])

end
