(* ===== verification/Zejf_Api.thy ===== *)
theory Zejf_Api
  imports Data_Check
begin

text \<open>
  The library as a whole: \<open>zejf_init\<close> and \<open>zejf_destroy\<close> of \<open>api/zejf_api/src/zejf_api.c\<close>, and the
  functions of \<open>zejf_network.c\<close> that hand a received packet to the data components.  The calls a
  device may make are collected in a step relation, whose reachable states all satisfy the invariant
  \<open>zejf_ok\<close>; in each of them every call returns.
\<close>

section \<open>Operations\<close>

definition network_catch_packet :: "'w platform \<Rightarrow> Packet \<Rightarrow> u32 \<Rightarrow> 'w zejf \<Rightarrow> (bool \<times> 'w zejf) option" where
  "network_catch_packet P packet time s =
     (if command packet = DATA_DEMAND then do { (_, s) \<leftarrow> process_data_demand packet s; Some (True, s) }
      else if command packet = DATA_PROVIDE then do { (_, s) \<leftarrow> process_data_provide packet s; Some (True, s) }
      else if command packet = DATA_LOG then do { (_, s) \<leftarrow> process_data_log P packet time s; Some (True, s) }
      else if command packet = DATA_REQUEST then do { (_, s) \<leftarrow> data_request_receive packet s; Some (True, s) }
      else if command packet = DATA_CHECK then do { (_, s) \<leftarrow> data_check_receive P packet s; Some (True, s) }
      else if command packet = VARIABLES_REQUEST then do { (_, s) \<leftarrow> variables_request_receive P packet time s; Some (True, s) }
      else if command packet = DATA_SUBSCRIBE then do { (_, s) \<leftarrow> process_data_subscribe packet s; Some (True, s) }
      else Some (False, s))"

text \<open>\<open>handle\<close> is \<open>network_process_packet\<close>, which the device defines.\<close>

definition network_process_rx ::
  "'w platform \<Rightarrow> (Packet \<Rightarrow> 'w zejf \<Rightarrow> 'w zejf option) \<Rightarrow> u32 \<Rightarrow> 'w zejf \<Rightarrow> 'w zejf option"
where
  "network_process_rx P handle time s =
     do {
       (item, q) \<leftarrow> list_pop (rx_queue s);
       let s = s\<lparr>rx_queue := q\<rparr>;
       (case item of
          None \<Rightarrow> Some s
        | Some packet \<Rightarrow>
            do { (caught, s) \<leftarrow> network_catch_packet P packet time s; (if caught then Some s else handle packet s) })
     }"

definition network_process_packets ::
  "'w platform \<Rightarrow> (Packet \<Rightarrow> 'w zejf \<Rightarrow> 'w zejf option) \<Rightarrow> u32 \<Rightarrow> 'w zejf \<Rightarrow> 'w zejf option"
where
  "network_process_packets P handle time s =
     do { s \<leftarrow> network_process_rx P handle time s; network_send_tx P time s }"

definition zejf_init :: "'w platform \<Rightarrow> 'w zejf \<Rightarrow> zejf_err \<times> 'w zejf" where
  "zejf_init P s =
     (case data_init P s of
        (rv, s) \<Rightarrow> if rv \<noteq> ZEJF_OK then (rv, s)
          else (case data_requests_init P s of
            (rv, s) \<Rightarrow> if rv \<noteq> ZEJF_OK then (rv, s)
              else (case routing_init P s of
                (rv, s) \<Rightarrow> if rv \<noteq> ZEJF_OK then (rv, s) else network_init P s)))"

definition zejf_destroy :: "'w platform \<Rightarrow> 'w zejf \<Rightarrow> 'w zejf option" where
  "zejf_destroy P s =
     do {
       s \<leftarrow> data_save P s;
       s \<leftarrow> network_destroy s;
       s \<leftarrow> routing_destroy s;
       s \<leftarrow> data_requests_destroy s;
       data_destroy s
     }"

section \<open>What a step of the library keeps\<close>

definition lib_step :: "'w platform \<Rightarrow> 'w zejf \<Rightarrow> 'w zejf \<Rightarrow> bool" where
  "lib_step P s s' \<longleftrightarrow> zejf_ok P s' \<and> dom (interfaces s') = dom (interfaces s) \<and> alloc_mono (mem s) (mem s')"

lemma lib_step_refl: "zejf_ok P s \<Longrightarrow> lib_step P s s"
  by (simp add: lib_step_def)

lemma lib_step_trans [trans]: "lib_step P a b \<Longrightarrow> lib_step P b c \<Longrightarrow> lib_step P a c"
  by (auto simp: lib_step_def intro: alloc_mono_trans)

lemma lib_step_ok: "lib_step P s s' \<Longrightarrow> zejf_ok P s'"
  by (simp add: lib_step_def)

lemma lib_step_platform: "lib_step P s s' \<Longrightarrow> platform_ok P (interfaces s) \<Longrightarrow> platform_ok P (interfaces s')"
  using platform_ok_dom [of "interfaces s'" "interfaces s" P] by (simp add: lib_step_def)

lemma net_lib_step:
  assumes ok: "zejf_ok P s" and "net_ok P s'" and fr: "net_frame s s'"
  shows "lib_step P s s'"
proof -
  have same: "data_queue s' = data_queue s" "hours s' = hours s" "data_requests_queue s' = data_requests_queue s" "alloc_mono (mem s) (mem s')"
    using fr by (simp_all add: net_frame_def)
  have "store_rep P (s\<lparr>mem := mem s'\<rparr>) {}" using ok same(4) by (intro store_rep_mem) (simp_all add: zejf_ok_def store_ok_def)
  then have "store_ok P s'" using same by (simp add: store_ok_def store_rep_def cached_def)
  moreover have "requests_ok P s'" using ok queue_ok_mono [of "mem s" "data_requests_queue s", OF _ same(4)] by (simp add: zejf_ok_def requests_ok_def same(3))
  ultimately show ?thesis using assms(2) fr by (simp add: lib_step_def zejf_ok_def net_frame_def)
qed

lemma data_lib_step:
  assumes "zejf_ok P s" and "data_frame s s'" and "net_ok P s'" and "store_ok P s'"
  shows "lib_step P s s'"
  using zejf_ok_frame [OF assms] assms(2) by (simp add: lib_step_def data_frame_def)

lemma serve_lib_step: "zejf_ok P s' \<Longrightarrow> serve_frame s s' \<Longrightarrow> lib_step P s s'"
  by (simp add: lib_step_def serve_frame_def)

lemma request_lib_step:
  assumes "zejf_ok P s" and "requests_ok P s'" and "request_frame s s'"
  shows "lib_step P s s'"
  using assms(1,2) request_frame_ok [OF assms(3)] assms(3)
  by (auto simp: lib_step_def zejf_ok_def elim!: request_frameE)

section \<open>The variables of an hour\<close>

lemma text_sent:
  assumes ok: "net_ok P s" and pl: "platform_ok P (interfaces s)" and "t \<noteq> []" and c: "cmd \<noteq> RIP" "cmd \<noteq> ID_REQUEST"
  obtains msg rv p s1 where "snprintf (PACKET_MAX_LENGTH P) t = (msg, rv)" "0 < rv"
    "network_prepare_packet P d cmd (Some msg) s = Some (Some p, s1)"
    "returns (network_send_packet P (Some p) time s1) (\<lambda>(e, s'). net_ok P s' \<and> tx_frame s s')"
proof -
  let ?msg = "take (PACKET_MAX_LENGTH P - 1) t"
  have len: "length ?msg < 2 ^ 16" using pl by (auto simp: platform_ok_def)
  have sn: "snprintf (PACKET_MAX_LENGTH P) t = (?msg, int (length t))" by (simp add: snprintf_def)
  obtain s1 where s1: "network_prepare_packet P d cmd (Some ?msg) s = Some (Some (own_packet P d cmd (Some ?msg)), s1)"
    using network_prepare_packet_ok [OF net_okD(1) [OF ok], of "Some ?msg" P d cmd] len unfolding returns_iff by auto
  have "returns (send_text P ZEJF_OK ZEJF_OK d cmd t time s) (\<lambda>(e, s'). net_ok P s' \<and> tx_frame s s')"
    by (rule returns_weaken [OF send_text_ok [OF assms]]) auto
  then have "returns (network_send_packet P (Some (own_packet P d cmd (Some ?msg))) time s1) (\<lambda>(e, s'). net_ok P s' \<and> tx_frame s s')"
    using assms(3) by (simp add: send_text_def sn s1 del: diff_Suc_1 One_nat_def)
  with that [OF sn _ s1] assms(3) show thesis by simp
qed

lemma variable_info_text_not_Nil [simp]: "variable_info_text v h \<noteq> []"
  by (simp add: variable_info_text_def)

lemma variables_loop_ok:
  assumes "net_ok P s" and "store_ok P s" and "platform_ok P (interfaces s)" and "a \<in> set (cached s)"
    and "i \<le> length (variables (hour_at s a))"
  shows "returns (variables_loop P d hn time a (length (variables (hour_at s a))) i s)
    (\<lambda>(e, s'). e = ZEJF_OK \<and> net_ok P s' \<and> tx_frame s s')"
  using assms
proof (induction "length (variables (hour_at s a)) - i" arbitrary: i s)
  case 0
  then show ?case by (subst variables_loop.simps) simp
next
  case (Suc x)
  let ?vs = "variables (hour_at s a)"
  have i: "i < length ?vs" using Suc.hyps(2) by simp
  have h: "hours s a = Some (hour_at s a)"
    using store_rep_hour(1) [of P s "{}" a] Suc.prems by (simp add: store_ok_def)
  obtain msg rv p s1 where send: "snprintf (PACKET_MAX_LENGTH P) (variable_info_text (variable_info (?vs ! i)) hn) = (msg, rv)" "0 < rv"
    "network_prepare_packet P d VARIABLE_INFO (Some msg) s = Some (Some p, s1)"
    "returns (network_send_packet P (Some p) time s1) (\<lambda>(e, s'). net_ok P s' \<and> tx_frame s s')"
    by (rule text_sent [OF Suc.prems(1,3), of "variable_info_text (variable_info (?vs ! i)) hn" VARIABLE_INFO d time]) simp_all
  have "returns (do { (e, s) \<leftarrow> network_send_packet P (Some p) time s1;
        variables_loop P d hn time a (length ?vs) (Suc i) s }) (\<lambda>(e, s'). e = ZEJF_OK \<and> net_ok P s' \<and> tx_frame s s')"
  proof (rule returns_bindI [OF send(4)], clarify)
    fix e t
    assume t: "net_ok P t" "tx_frame s t"
    note st = store_ok_tx [OF t(2) Suc.prems(2)]
    have "returns (variables_loop P d hn time a (length (variables (hour_at t a))) (Suc i) t) (\<lambda>(e, s'). e = ZEJF_OK \<and> net_ok P s' \<and> tx_frame t s')"
      by (rule Suc.hyps(1)) (use Suc.hyps(2) Suc.prems t st i tx_frame_simps [OF t(2)] in auto)
    then show "returns (variables_loop P d hn time a (length ?vs) (Suc i) t) (\<lambda>(e, s'). e = ZEJF_OK \<and> net_ok P s' \<and> tx_frame s s')"
      using t st by (auto elim!: returns_weaken intro: tx_frame_trans)
  qed
  with i h send show ?case by (subst variables_loop.simps) simp
qed

lemma variables_request_process_ok:
  assumes ok: "zejf_ok P s" and pl: "platform_ok P (interfaces s)"
  shows "returns (variables_request_process P d hn time s) (\<lambda>(e, s'). lib_step P s s' \<and> table_entries s' = table_entries s)"
proof -
  have st: "store_ok P s" using ok by (simp add: zejf_ok_def)
  show ?thesis unfolding variables_request_process_def
  proof (rule returns_bindI [OF datahour_get_ok [OF st]], clarify)
    fix g t
    assume t: "store_ok P t" "store_frame s t" "get_done P hn True False s g t"
    have net: "net_ok P t" using store_frame_net_ok [OF t(2)] ok by (simp add: zejf_ok_def)
    have step1: "lib_step P s t" by (rule data_lib_step [OF ok store_data_frame [OF t(2)] net t(1)])
    have table: "table_entries t = table_entries s" by (rule store_frame_simps(7) [OF t(2)])
    have pl': "platform_ok P (interfaces t)" by (rule lib_step_platform [OF step1 pl])
    show "returns (case g of None \<Rightarrow> Some (ZEJF_ERR_NULL, t)
        | Some a \<Rightarrow> do { hour \<leftarrow> hours t a; slots \<leftarrow> allocate_packet_queue PRIORITY_MEDIUM t;
            (if slots < unat (variable_count hour) then Some (ZEJF_ERR_QUEUE_FULL, t)
             else variables_loop P d hn time a (unat (variable_count hour)) 0 t) }) (\<lambda>(e, s'). lib_step P s s' \<and> table_entries s' = table_entries s)"
    proof (cases g)
      case None
      with step1 table show ?thesis by simp
    next
      case (Some a)
      note a = get_done_cached [OF t(3) [unfolded Some] t(1)]
      have n: "unat (variable_count (hour_at t a)) = length (variables (hour_at t a))" using a(3) by (simp add: hour_vars_ok_def)
      have step: "lib_step P s s'" if "net_ok P s'" "tx_frame t s'" for s'
        using lib_step_trans [OF step1 data_lib_step [OF lib_step_ok [OF step1] tx_data_frame [OF that(2)] that(1) store_ok_tx(1) [OF that(2) t(1)]]] .
      have "returns (variables_loop P d hn time a (length (variables (hour_at t a))) 0 t) (\<lambda>(e, s'). lib_step P s s' \<and> table_entries s' = table_entries s)"
        by (rule returns_weaken [OF variables_loop_ok [OF net t(1) pl' a(1)]]) (auto simp: table intro: step dest: tx_frame_simps)
      with Some a(2) step1 table show ?thesis by (simp add: n allocate_packet_queue_ok [OF net])
    qed
  qed
qed

lemma variables_request_receive_ok:
  assumes ok: "zejf_ok P s" and pl: "platform_ok P (interfaces s)" and "message p = Some t"
  shows "returns (variables_request_receive P p time s) (\<lambda>(e, s'). lib_step P s s' \<and> table_entries s' = table_entries s)"
  using assms variables_request_process_ok [OF ok pl] lib_step_refl [OF ok]
  by (simp add: variables_request_receive_def split: list.split scanned.split)

section \<open>Receiving\<close>

lemma process_data_log_ok:
  assumes ok: "zejf_ok P s" and pl: "platform_ok P (interfaces s)"
  shows "returns (process_data_log P p time s) (\<lambda>(e, s'). lib_step P s s' \<and> table_entries s' = table_entries s)"
proof -
  have "net_ok P s" "store_ok P s" using ok by (simp_all add: zejf_ok_def)
  then have "returns (data_log P v hn n x time a s) (\<lambda>(e, s'). lib_step P s s' \<and> table_entries s' = table_entries s)" for v hn n x a
    by (rule returns_weaken [OF data_log_ok [OF _ _ pl]]) (auto intro: data_lib_step [OF ok] dest: data_frame_simps)
  with lib_step_refl [OF ok] show ?thesis by (simp add: process_data_log_def split: option.split)
qed

lemma table_lib_step: "zejf_ok P s \<Longrightarrow> net_ok P s' \<Longrightarrow> table_frame s s' \<Longrightarrow> lib_step P s s'"
  by (rule net_lib_step [OF _ _ table_net_frame])

text \<open>The largest number of variables a device has announced; a packet adds at most one.\<close>

definition vars_within :: "nat \<Rightarrow> 'w zejf \<Rightarrow> bool" where
  "vars_within k s \<longleftrightarrow>
     (\<forall>e\<in>set (table_entries s). length (provided_variables e) \<le> k \<and> length (demanded_variables e) \<le> k)"

lemma vars_within_small: "vars_within k s \<Longrightarrow> k < 65535 \<Longrightarrow> entries_small s"
  by (auto simp: vars_within_def entries_small_def)

lemma vars_within_mono: "vars_within k s \<Longrightarrow> table_entries s' = table_entries s \<Longrightarrow> k \<le> k' \<Longrightarrow> vars_within k' s'"
  by (auto simp: vars_within_def)

definition grows :: "'w zejf \<Rightarrow> 'w zejf \<Rightarrow> bool" where
  "grows s s' \<longleftrightarrow> (\<forall>k. vars_within k s \<longrightarrow> vars_within (Suc k) s')"

lemma grows_same: "table_entries s' = table_entries s \<Longrightarrow> grows s s'"
  by (auto simp: grows_def vars_within_def)

lemma grows_trans: "grows s t \<Longrightarrow> table_entries t' = table_entries t \<Longrightarrow> grows s t'"
  by (auto simp: grows_def vars_within_def)

lemma grows_from: "grows s t \<Longrightarrow> table_entries s = table_entries s0 \<Longrightarrow> grows s0 t"
  by (auto simp: grows_def vars_within_def)

lemma grows_with_entry:
  assumes "table_entries s' = with_entry d f (table_entries s)"
    and "\<And>e. length (provided_variables (f e)) \<le> Suc (length (provided_variables e)) \<and> length (demanded_variables (f e)) \<le> Suc (length (demanded_variables e))"
  shows "grows s s'"
  unfolding grows_def vars_within_def assms(1) with_entry_def using assms(2) by (auto intro: le_trans)

lemma caught:
  "returns m (\<lambda>(e, s'). Q s') \<Longrightarrow> returns (do { (_, s) \<leftarrow> m; Some (True, s) }) (\<lambda>(b, s'). b \<and> Q s')"
  by (erule returns_bindI) auto

lemma network_catch_packet_ok:
  assumes ok: "zejf_ok P s" and pl: "platform_ok P (interfaces s)" and small: "entries_small s" and msg: "message p = Some t"
  shows "returns (network_catch_packet P p time s) (\<lambda>(b, s'). lib_step P s s' \<and> grows s s' \<and>
    (b \<longleftrightarrow> command p \<in> {DATA_DEMAND, DATA_PROVIDE, DATA_LOG, DATA_REQUEST, DATA_CHECK, VARIABLES_REQUEST, DATA_SUBSCRIBE}))"
proof -
  have okD: "net_ok P s" "requests_ok P s" using ok by (simp_all add: zejf_ok_def)
  note table = table_lib_step [OF ok]
  have dem: "grows s s'" if "table_entries s' = with_entry (pkt_from p) (add_demanded v) (table_entries s)" for s' v
    by (rule grows_with_entry [OF that]) (simp add: add_demanded_def)
  have prov: "grows s s'" if "table_entries s' = with_entry (pkt_from p) (add_provided v) (table_entries s)" for s' v
    by (rule grows_with_entry [OF that]) (simp add: add_provided_def)
  have subs: "grows s s'" if "table_entries s' = with_entry (pkt_from p) (\<lambda>e. e\<lparr>subscribed := True\<rparr>) (table_entries s)" for s'
    by (rule grows_with_entry [OF that]) simp
  have 1: "returns (process_data_demand p s) (\<lambda>(e, s'). lib_step P s s' \<and> grows s s')"
    by (rule returns_weaken [OF process_data_demand_ok [OF okD(1) small]]) (auto split: option.splits intro: table dem grows_same)
  have 2: "returns (process_data_provide p s) (\<lambda>(e, s'). lib_step P s s' \<and> grows s s')"
    by (rule returns_weaken [OF process_data_provide_ok [OF okD(1) small]]) (auto split: option.splits intro: table prov grows_same)
  have 3: "returns (process_data_subscribe p s) (\<lambda>(e, s'). lib_step P s s' \<and> grows s s')"
    by (rule returns_weaken [OF process_data_subscribe_ok [OF okD(1)]]) (auto intro: table subs)
  have req: "table_entries s' = table_entries s" if "request_frame s s'" for s'
    using that by (auto elim!: request_frameE simp: table_entries_def)
  have 4: "returns (data_request_receive p s) (\<lambda>(e, s'). lib_step P s s' \<and> grows s s')"
    by (rule returns_weaken [OF data_request_receive_ok [OF okD(2) net_okD(1) [OF okD(1)] msg]])
      (auto intro: request_lib_step [OF ok] grows_same [OF req])
  have 5: "returns (data_check_receive P p s) (\<lambda>(e, s'). lib_step P s s' \<and> grows s s')"
    by (rule returns_weaken [OF data_check_receive_ok [OF ok msg]]) (auto intro!: serve_lib_step grows_same simp: serve_frame_def table_entries_def)
  have 6: "returns (process_data_log P p time s) (\<lambda>(e, s'). lib_step P s s' \<and> grows s s')"
    by (rule returns_weaken [OF process_data_log_ok [OF ok pl]]) (auto intro: grows_same)
  have 7: "returns (variables_request_receive P p time s) (\<lambda>(e, s'). lib_step P s s' \<and> grows s s')"
    by (rule returns_weaken [OF variables_request_receive_ok [OF ok pl msg]]) (auto intro: grows_same)
  note handlers = caught [OF 1] caught [OF 2] caught [OF 3] caught [OF 4] caught [OF 5] caught [OF 6] caught [OF 7]
  show ?thesis unfolding network_catch_packet_def returns_if
    using lib_step_refl [OF ok] grows_same [of s s] by (intro conjI impI) (rule returns_weaken [OF handlers(1)] returns_weaken [OF handlers(2)]
      returns_weaken [OF handlers(6)] returns_weaken [OF handlers(4)] returns_weaken [OF handlers(5)]
      returns_weaken [OF handlers(7)] returns_weaken [OF handlers(3)] | force)+
qed

text \<open>What the library relies on in the device's own handler.\<close>

locale packet_handler =
  fixes P :: "'w platform" and handle :: "Packet \<Rightarrow> 'w zejf \<Rightarrow> 'w zejf option"
  assumes handle_ok: "zejf_ok P s \<Longrightarrow> platform_ok P (interfaces s) \<Longrightarrow> message p = Some t \<Longrightarrow>
      returns (handle p s) (\<lambda>s'. lib_step P s s' \<and> table_entries s' = table_entries s)"
begin

lemma network_process_rx_ok:
  assumes ok: "zejf_ok P s" and pl: "platform_ok P (interfaces s)" and small: "entries_small s"
  shows "returns (network_process_rx P handle time s) (\<lambda>s'. lib_step P s s' \<and> grows s s')"
proof -
  have rx: "queue_ok (mem s) (rx_queue s)" "queue_cap (rx_queue s) = RX_QUEUE_SIZE P" using ok by (simp_all add: zejf_ok_def net_ok_def)
  obtain item q where pop: "list_pop (rx_queue s) = Some (item, q)" and q: "queue_ok (mem s) q" "queue_cap q = RX_QUEUE_SIZE P"
    "queue_items q = tl (queue_items (rx_queue s))"
    "item = (if queue_items (rx_queue s) = [] then None else Some (hd (queue_items (rx_queue s))))"
    using ll.pop_spec [OF rx(1)] rx(2) unfolding returns_iff by auto
  let ?s = "s\<lparr>rx_queue := q\<rparr>"
  have "set (tl (queue_items (rx_queue s))) \<subseteq> set (queue_items (rx_queue s))" by (cases "queue_items (rx_queue s)") auto
  then have net: "net_ok P ?s" using ok q by (auto simp: zejf_ok_def net_ok_def)
  have st: "lib_step P s ?s" by (rule net_lib_step [OF ok net]) simp
  note sok = lib_step_ok [OF st] and pl' = lib_step_platform [OF st pl]
  have small': "entries_small ?s" using small by (simp add: entries_small_def)
  show ?thesis
  proof (cases item)
    case None
    with st show ?thesis by (simp add: network_process_rx_def pop grows_same)
  next
    case (Some p)
    then have "p \<in> set (queue_items (rx_queue s))" using q(4) by (auto split: if_splits)
    then obtain t where t: "message p = Some t" using ok by (auto simp: zejf_ok_def net_ok_def)
    have "returns (do { (caught, s) \<leftarrow> network_catch_packet P p time ?s; (if caught then Some s else handle p s) }) (\<lambda>s'. lib_step P s s' \<and> grows s s')"
    proof (rule returns_bindI [OF network_catch_packet_ok [OF sok pl' small' t]], clarify)
      fix b u
      assume u: "lib_step P ?s u" "grows ?s u"
      have su: "lib_step P s u" by (rule lib_step_trans [OF st u(1)])
      have g: "grows s u" by (rule grows_from [OF u(2)]) simp
      have "returns (handle p u) (\<lambda>s'. lib_step P s s' \<and> grows s s')"
        by (rule returns_weaken [OF handle_ok [OF lib_step_ok [OF u(1)] lib_step_platform [OF u(1) pl'] t]])
          (auto intro: lib_step_trans [OF su] grows_trans [OF g])
      with su g show "returns (if b then Some u else handle p u) (\<lambda>s'. lib_step P s s' \<and> grows s s')" by simp
    qed
    with Some show ?thesis by (simp add: network_process_rx_def pop)
  qed
qed

lemma network_process_packets_ok:
  assumes ok: "zejf_ok P s" and pl: "platform_ok P (interfaces s)" and small: "entries_small s"
  shows "returns (network_process_packets P handle time s) (\<lambda>s'. lib_step P s s' \<and> grows s s')"
  unfolding network_process_packets_def
proof (rule returns_bindI [OF network_process_rx_ok [OF assms]])
  fix u
  assume "lib_step P s u \<and> grows s u"
  then have u: "lib_step P s u" "grows s u" by simp_all
  then have "net_ok P u" by (simp add: lib_step_def zejf_ok_def)
  then show "returns (network_send_tx P time u) (\<lambda>s'. lib_step P s s' \<and> grows s s')"
    by (rule returns_weaken [OF network_send_tx_returns [OF _ lib_step_platform [OF u(1) pl]]])
      (auto intro: lib_step_trans [OF u(1) net_lib_step [OF lib_step_ok [OF u(1)]]] grows_trans [OF u(2)])
qed

end

section \<open>Announcing\<close>

lemma ptr_net_frame:
  assumes "tx_frame (s\<lparr>provide_ptr := x\<rparr>) s' \<or> tx_frame (s\<lparr>demand_ptr := x\<rparr>) s'" and "zejf_ok P s" and "net_ok P s'"
  shows "lib_step P s s'"
proof -
  have "zejf_ok P (s\<lparr>provide_ptr := x\<rparr>)" "zejf_ok P (s\<lparr>demand_ptr := x\<rparr>)"
    using assms(2) by (simp_all add: zejf_ok_def store_ok_def store_rep_def requests_ok_def cached_def)
  then have "lib_step P (s\<lparr>provide_ptr := x\<rparr>) s' \<or> lib_step P (s\<lparr>demand_ptr := x\<rparr>) s'"
    using assms(1,3) by (auto intro: net_lib_step tx_net_frame)
  then show ?thesis by (auto simp: lib_step_def)
qed

lemma network_send_provide_info_safe:
  assumes ok: "zejf_ok P s" and pl: "platform_ok P (interfaces s)"
  shows "returns (network_send_provide_info P time s) (\<lambda>(e, s'). lib_step P s s')"
proof (cases "\<exists>vs. get_provided_variables P (world s) = Some vs \<and> vs \<noteq> []")
  case True
  then obtain vs where vs: "get_provided_variables P (world s) = Some vs" "vs \<noteq> []" by blast
  have "net_ok P s" using ok by (simp add: zejf_ok_def)
  then show ?thesis
    by (rule returns_weaken [OF network_send_provide_info_ok [OF _ pl vs]]) (auto intro: ptr_net_frame [OF _ ok])
next
  case False
  with lib_step_refl [OF ok] show ?thesis by (auto simp: network_send_provide_info_def split: option.split)
qed

lemma network_send_demand_info_safe:
  assumes ok: "zejf_ok P s" and pl: "platform_ok P (interfaces s)"
  shows "returns (network_send_demand_info P time s) (\<lambda>(e, s'). lib_step P s s')"
proof (cases "\<exists>vs. get_demanded_variables P (world s) = Some vs \<and> vs \<noteq> []")
  case True
  then obtain vs where vs: "get_demanded_variables P (world s) = Some vs" "vs \<noteq> []" by blast
  have "net_ok P s" using ok by (simp add: zejf_ok_def)
  then show ?thesis
    by (rule returns_weaken [OF network_send_demand_info_ok [OF _ pl vs]]) (auto intro: ptr_net_frame [OF _ ok])
next
  case False
  with lib_step_refl [OF ok] show ?thesis by (auto simp: network_send_demand_info_def split: option.split)
qed

section \<open>Start and end\<close>

lemma list_createE:
  assumes "never_fails m"
  obtains l :: "'a linked_list" and m' where "list_create m cap = (Some l, m')" "list_ok m' l" "list_items l = []" "capacity l = cap" "alloc_mono m m'" "never_fails m'"
proof -
  obtain l :: "'a linked_list" and m' where l: "list_create m cap = (Some l, m')" "m' = m\<lparr>next_addr := Suc (next_addr m)\<rparr>"
    using assms by (simp add: list_create_def)
  with assms that [OF l(1)] list_create_ok [OF l(1)] show thesis by (simp add: alloc_mono_def)
qed

lemma zejf_init_ok:
  assumes nf: "never_fails (mem s)" and "hours s = Map.empty" and "0 < HOUR_BUFFER_SIZE P"
  shows "\<exists>s'. zejf_init P s = (ZEJF_OK, s') \<and> zejf_ok P s' \<and> interfaces s' = interfaces s \<and> world s' = world s \<and>
    cached s' = [] \<and> requests s' = [] \<and> table_entries s' = [] \<and> queue_items (rx_queue s') = [] \<and> queue_items (tx_queue s') = []"
proof -
  obtain d m1 where d: "list_create (mem s) (HOUR_BUFFER_SIZE P) = (Some (d :: addr linked_list), m1)" "list_ok m1 d" "list_items d = []"
    "capacity d = HOUR_BUFFER_SIZE P" "alloc_mono (mem s) m1" "never_fails m1" by (rule list_createE [OF nf])
  obtain r m2 where r: "list_create m1 (DATA_REQUEST_QUEUE_SIZE P) = (Some (r :: DataRequest linked_list), m2)" "list_ok m2 r" "list_items r = []"
    "capacity r = DATA_REQUEST_QUEUE_SIZE P" "alloc_mono m1 m2" "never_fails m2" by (rule list_createE [OF d(6)])
  let ?s = "s\<lparr>data_queue := Some d, mem := m2, data_requests_queue := Some r, routing_table_top := 0, rtable := replicate (ROUTING_TABLE_SIZE P) None\<rparr>"
  have rep: "table_rep P ?s []" by (simp add: table_rep_def)
  then have rok: "routing_ok P ?s" by (rule routing_okI) simp_all
  have nf': "never_fails (mem ?s)" using r(6) by simp
  obtain m3 rx tx where n: "network_init P ?s = (ZEJF_OK, ?s\<lparr>mem := m3, rx_queue := Some rx, tx_queue := Some tx,
      next_packet := None, provide_ptr := 0, demand_ptr := 0\<rparr>)" "alloc_mono (mem ?s) m3" "list_items rx = []" "list_items tx = []"
    "net_ok P (?s\<lparr>mem := m3, rx_queue := Some rx, tx_queue := Some tx, next_packet := None, provide_ptr := 0, demand_ptr := 0\<rparr>)"
    by (rule network_init_ok [OF nf' rok])
  let ?t = "?s\<lparr>mem := m3, rx_queue := Some rx, tx_queue := Some tx, next_packet := None, provide_ptr := 0, demand_ptr := 0\<rparr>"
  have q: "queue_ok m3 (Some d)" "queue_ok m3 (Some r)"
    using list_ok_mono [OF list_ok_mono [OF d(2) r(5)], of m3] list_ok_mono [OF r(2), of m3] n(2) by (simp_all add: queue_ok_def)
  have "store_ok P ?t" using assms(2,3) q d(3,4) net_okD(1) [OF n(5)] by (simp add: store_ok_def store_rep_def cached_def)
  moreover have "requests_ok P ?t" using q r(4) by (simp add: requests_ok_def)
  ultimately have "zejf_ok P ?t" using n(5) by (simp add: zejf_ok_def)
  moreover have "zejf_init P s = (ZEJF_OK, ?t)"
    using n(1) by (simp add: zejf_init_def data_init_def data_requests_init_def routing_init_def d(1) r(1))
  moreover have "table_entries ?t = []" by (simp add: table_entries_def)
  ultimately show ?thesis using d(3) r(3) n(3,4) by (simp add: cached_def requests_def)
qed

lemma free_hours_ok:
  "distinct as \<Longrightarrow> set as \<subseteq> dom (hours s) \<Longrightarrow> (\<And>a h. hours s a = Some h \<Longrightarrow> hour_vars_ok P h) \<Longrightarrow>
   free_hours as s = Some (s\<lparr>hours := hours s |` (- set as)\<rparr>)"
proof (induction as arbitrary: s)
  case Nil
  then show ?case by simp
next
  case (Cons a as)
  then obtain h where h: "hours s a = Some h" "hour_vars_ok P h" by auto
  have free: "free_hour a s = Some (s\<lparr>hours := (hours s)(a := None)\<rparr>)" using h by (simp add: free_hour_def hour_destroy_def hour_vars_ok_def)
  let ?s = "s\<lparr>hours := (hours s)(a := None)\<rparr>"
  have "free_hours as ?s = Some (?s\<lparr>hours := hours ?s |` (- set as)\<rparr>)"
    by (rule Cons.IH) (use Cons.prems in \<open>auto split: if_splits\<close>)
  then have "free_hours as ?s = Some (s\<lparr>hours := ((hours s)(a := None)) |` (- set as)\<rparr>)" by simp
  moreover have "((hours s)(a := None)) |` (- set as) = hours s |` (- set (a # as))" by (auto simp: restrict_map_def fun_eq_iff)
  ultimately show ?case by (simp add: free)
qed

text \<open>At the end every modified hour has been written and nothing is left in memory.\<close>

lemma zejf_destroy_ok:
  assumes ok: "zejf_ok P s"
  shows "returns (zejf_destroy P s) (\<lambda>s'. hours s' = Map.empty \<and> data_queue s' = None \<and> rx_queue s' = None \<and> tx_queue s' = None \<and>
    data_requests_queue s' = None \<and> rtable s' = replicate (ROUTING_TABLE_SIZE P) None \<and>
    world s' = snd (save_seq P (map (hour_at s) (rev (cached s))) (world s)))"
proof -
  have okD: "net_ok P s" "store_ok P s" "requests_ok P s" using ok by (simp_all add: zejf_ok_def)
  obtain t where t: "data_save P s = Some t" "store_ok P t" "store_frame s t" "cached t = cached s"
    "world t = snd (save_seq P (map (hour_at s) (rev (cached s))) (world s))"
    using data_save_ok [OF okD(2)] unfolding returns_iff by (metis snd_conv)
  have tok: "net_ok P t" "requests_ok P t"
    using store_frame_net_ok [OF t(3) okD(1)] requests_ok_frame [OF okD(3) store_data_frame [OF t(3)]] by simp_all
  obtain rx where rx: "rx_queue t = Some rx" "list_ok (mem t) rx" by (rule net_ok_rx [OF tok(1)])
  obtain tx where tx: "tx_queue t = Some tx" "list_ok (mem t) tx" by (rule net_ok_tx [OF tok(1)])
  obtain r where r: "data_requests_queue t = Some r" "list_ok (mem t) r" by (rule requests_queue [OF tok(2)])
  have rep: "store_rep P t {}" using t(2) by (simp add: store_ok_def)
  obtain d where d: "data_queue t = Some d" "list_ok (mem t) d" using store_repD(2) [OF rep] by (auto simp: queue_ok_def split: option.splits)
  note destroy = list_destroy_ok [of _ "list_addrs _", folded list_items_def]
  have table: "table_rep P t (table_entries t)" using net_okD(2) [OF tok(1)] by (rule routing_ok_rep)
  then have top: "routing_table_top t \<le> length (rtable t)"
    "replicate (routing_table_top t) None @ drop (routing_table_top t) (rtable t) = replicate (ROUTING_TABLE_SIZE P) None"
    by (simp_all add: table_rep_def replicate_add [symmetric])
  have free: "free_hours (list_items d) u = Some (u\<lparr>hours := Map.empty\<rparr>)" if "hours u = hours t" for u :: "'a zejf"
  proof -
    have c: "cached t = list_items d" using d(1) by (simp add: cached_def)
    have "free_hours (list_items d) u = Some (u\<lparr>hours := hours u |` (- set (list_items d))\<rparr>)"
      by (rule free_hours_ok [where P = P]) (use store_repD [OF rep] c that in auto)
    moreover have "hours u |` (- set (list_items d)) = Map.empty"
      using store_repD(5) [OF rep] c that by (auto simp: restrict_map_def fun_eq_iff)
    ultimately show ?thesis by simp
  qed
  have l: "list_destroy (rx_queue t) = Some (list_items rx, Map.empty)" "list_destroy (tx_queue t) = Some (list_items tx, Map.empty)"
    "list_destroy (data_requests_queue t) = Some (list_items r, Map.empty)" "list_destroy (data_queue t) = Some (list_items d, Map.empty)"
    using rx tx r d by (simp_all add: list_destroy_ok list_items_def list_ok_rep)
  show ?thesis
    by (simp add: zejf_destroy_def t(1) network_destroy_def l(1,2) routing_destroy_def top data_requests_destroy_def l(3) data_destroy_def l(4) free t(5))
qed

section \<open>The calls of a device\<close>

datatype api_call =
    Accept string addr
  | Process_Packets
  | Send_Routing_Info
  | Send_Provide_Info
  | Send_Demand_Info
  | Table_Check
  | Interface_Removed addr
  | Send_Text u16 u8 string
  | Log_Value VariableInfo u32 u32 u32 bool
  | Get_Value VariableInfo u32 u32 bool bool
  | Request_Add u16 VariableInfo u32 u32 u32
  | Process_Requests
  | Run_Check u32 u32 u32
  | Save

text \<open>\<open>Send_Text\<close> is the pair \<open>network_prepare_packet\<close>, \<open>network_send_packet\<close> with which a device sends a message.\<close>

primrec api_run ::
  "'w platform \<Rightarrow> (Packet \<Rightarrow> 'w zejf \<Rightarrow> 'w zejf option) \<Rightarrow> api_call \<Rightarrow> u32 \<Rightarrow> 'w zejf \<Rightarrow> 'w zejf option"
where
  "api_run P handle (Accept msg a) time s = map_option snd (network_accept P msg (Some a) time s)"
| "api_run P handle Process_Packets time s = network_process_packets P handle time s"
| "api_run P handle Send_Routing_Info time s = map_option snd (network_send_routing_info P time s)"
| "api_run P handle Send_Provide_Info time s = map_option snd (network_send_provide_info P time s)"
| "api_run P handle Send_Demand_Info time s = map_option snd (network_send_demand_info P time s)"
| "api_run P handle Table_Check time s = routing_table_check P time s"
| "api_run P handle (Interface_Removed a) time s = interface_removed a s"
| "api_run P handle (Send_Text d cmd t) time s = map_option snd (send_text P ZEJF_ERR_GENERIC ZEJF_ERR_NULL d cmd t time s)"
| "api_run P handle (Log_Value v hn n x announce) time s = map_option snd (data_log P v hn n x time announce s)"
| "api_run P handle (Get_Value v hn n load create) time s = map_option (snd \<circ> snd) (data_get_val P v hn n load create s)"
| "api_run P handle (Request_Add d v hn a b) time s = map_option snd (data_request_add d v hn a b s)"
| "api_run P handle Process_Requests time s = data_requests_process P time s"
| "api_run P handle (Run_Check hn millis hs) time s = run_data_check P hn millis hs time s"
| "api_run P handle Save time s = data_save P s"

text \<open>
  What a call asks of its arguments and of the state.  An interface is live; no device has announced
  the 65535 variables its 16-bit counter can hold; the removed interface is not that of the packet at
  the front of the transmit queue.
\<close>

primrec api_allowed :: "api_call \<Rightarrow> 'w zejf \<Rightarrow> bool" where
  "api_allowed (Accept msg a) s \<longleftrightarrow> interfaces s a \<noteq> None"
| "api_allowed Process_Packets s \<longleftrightarrow> entries_small s"
| "api_allowed Send_Routing_Info s \<longleftrightarrow> True"
| "api_allowed Send_Provide_Info s \<longleftrightarrow> True"
| "api_allowed Send_Demand_Info s \<longleftrightarrow> True"
| "api_allowed Table_Check s \<longleftrightarrow> True"
| "api_allowed (Interface_Removed a) s \<longleftrightarrow>
     interfaces s a \<noteq> None \<and> (case queue_items (tx_queue s) of [] \<Rightarrow> True | p # _ \<Rightarrow> \<not> uses_interface a p)"
| "api_allowed (Send_Text d cmd t) s \<longleftrightarrow> t \<noteq> [] \<and> cmd \<noteq> RIP \<and> cmd \<noteq> ID_REQUEST"
| "api_allowed (Log_Value v hn n x announce) s \<longleftrightarrow> True"
| "api_allowed (Get_Value v hn n load create) s \<longleftrightarrow> True"
| "api_allowed (Request_Add d v hn a b) s \<longleftrightarrow> True"
| "api_allowed Process_Requests s \<longleftrightarrow> True"
| "api_allowed (Run_Check hn millis hs) s \<longleftrightarrow> unat millis < HOUR"
| "api_allowed Save s \<longleftrightarrow> True"

text \<open>
  The states of a device: it starts the library, makes calls at arbitrary times, and the world
  around it changes in any way in between.
\<close>

inductive reachable ::
  "'w platform \<Rightarrow> (Packet \<Rightarrow> 'w zejf \<Rightarrow> 'w zejf option) \<Rightarrow> (addr \<Rightarrow> Interface option) \<Rightarrow> 'w zejf \<Rightarrow> bool"
  for P handle ifs
where
  start: "reachable P handle ifs (snd (zejf_init P ((zejf_start P w)\<lparr>interfaces := ifs\<rparr>)))"
| call: "reachable P handle ifs s \<Longrightarrow> api_allowed c s \<Longrightarrow> api_run P handle c time s = Some s' \<Longrightarrow> reachable P handle ifs s'"
| outside: "reachable P handle ifs s \<Longrightarrow> reachable P handle ifs (s\<lparr>world := w\<rparr>)"

lemma lib_step_map: "returns m (\<lambda>(e, s'). lib_step P s s') \<Longrightarrow> returns (map_option snd m) (lib_step P s)"
  by (cases m) auto

context packet_handler
begin

lemma api_run_ok:
  assumes ok: "zejf_ok P s" and pl: "platform_ok P (interfaces s)" and al: "api_allowed c s"
  shows "returns (api_run P handle c time s) (lib_step P s)"
proof -
  have okD: "net_ok P s" "store_ok P s" "requests_ok P s" using ok by (simp_all add: zejf_ok_def)
  note net = net_lib_step [OF ok] and data = data_lib_step [OF ok]
  show ?thesis
  proof (cases c)
    case (Accept msg a)
    then have "a \<in> dom (interfaces s)" using al by auto
    then show ?thesis unfolding Accept api_run.simps
      by (intro lib_step_map returns_weaken [OF network_accept_ok [OF okD(1) pl]]) (auto intro: net)
  next
    case Process_Packets
    with al show ?thesis by (auto intro!: returns_weaken [OF network_process_packets_ok [OF ok pl]])
  next
    case Send_Routing_Info
    show ?thesis unfolding Send_Routing_Info api_run.simps
    proof (intro lib_step_map returns_weaken [OF network_send_routing_info_ok [OF okD(1) pl]], clarify)
      fix s'
      assume s': "net_ok P s'" "s' = s\<lparr>mem := mem s', world := world s'\<rparr>" "alloc_mono (mem s) (mem s')"
      have "net_frame s (s\<lparr>mem := mem s', world := world s'\<rparr>)" using s'(3) by (simp add: net_frame_mem)
      then show "lib_step P s s'" using s'(1,2) net [of s'] by simp
    qed
  next
    case Send_Provide_Info
    show ?thesis unfolding Send_Provide_Info api_run.simps by (intro lib_step_map network_send_provide_info_safe [OF ok pl])
  next
    case Send_Demand_Info
    show ?thesis unfolding Send_Demand_Info api_run.simps by (intro lib_step_map network_send_demand_info_safe [OF ok pl])
  next
    case Table_Check
    show ?thesis unfolding Table_Check api_run.simps
      by (rule returns_weaken [OF routing_table_check_ok [OF net_okD(2) [OF okD(1)]]])
        (use okD(1) in \<open>auto simp: net_ok_def net_frame_def intro!: net\<close>)
  next
    case (Interface_Removed a)
    then obtain f where "interfaces s a = Some f" "\<And>p ps. queue_items (tx_queue s) = p # ps \<Longrightarrow> \<not> uses_interface a p"
      using al by (auto split: list.splits)
    from interface_removed_ok [OF okD(1) this] show ?thesis unfolding Interface_Removed api_run.simps
      by (rule returns_weaken) (auto intro: net)
  next
    case (Send_Text d cmd t)
    then have "t \<noteq> []" "cmd \<noteq> RIP" "cmd \<noteq> ID_REQUEST" using al by simp_all
    then show ?thesis unfolding Send_Text api_run.simps
      by (intro lib_step_map returns_weaken [OF send_text_ok [OF okD(1) pl]]) (auto intro: net tx_net_frame)
  next
    case (Log_Value v hn n x announce)
    show ?thesis unfolding Log_Value api_run.simps
      by (intro lib_step_map returns_weaken [OF data_log_ok [OF okD(1,2) pl]]) (auto intro: data)
  next
    case (Get_Value v hn n load create)
    have "returns (data_get_val P v hn n load create s) (\<lambda>(e, r, s'). lib_step P s s')"
      by (rule returns_weaken [OF data_get_val_ok [OF okD(2)]])
        (auto intro!: data store_data_frame store_frame_net_ok [OF _ okD(1)])
    then show ?thesis unfolding Get_Value api_run.simps by (cases "data_get_val P v hn n load create s") auto
  next
    case (Request_Add d v hn a b)
    show ?thesis unfolding Request_Add api_run.simps
      by (intro lib_step_map returns_weaken [OF data_request_add_ok [OF okD(3) net_okD(1) [OF okD(1)]]]) (auto intro: request_lib_step [OF ok])
  next
    case Process_Requests
    show ?thesis unfolding Process_Requests api_run.simps
      by (rule returns_weaken [OF data_requests_process_ok [OF ok pl]]) (auto intro: serve_lib_step)
  next
    case (Run_Check hn millis hs)
    show ?thesis unfolding Run_Check api_run.simps
      by (rule returns_weaken [OF run_data_check_ok [OF ok pl]]) (use al Run_Check in \<open>auto intro: serve_lib_step data_serve_frame\<close>)
  next
    case Save
    show ?thesis unfolding Save api_run.simps
      by (rule returns_weaken [OF data_save_ok [OF okD(2)]]) (auto intro!: data store_data_frame store_frame_net_ok [OF _ okD(1)])
  qed
qed

text \<open>The calls of a device in the middle of a sequence that started in \<open>s\<close>.\<close>

lemma run_after:
  assumes "lib_step P s u" and "platform_ok P (interfaces s)" and "api_allowed c u"
  shows "returns (api_run P handle c time u) (lib_step P s)"
  by (rule returns_weaken [OF api_run_ok [OF lib_step_ok [OF assms(1)] lib_step_platform [OF assms(1,2)] assms(3)]])
    (rule lib_step_trans [OF assms(1)])

lemma calls_after:
  assumes "lib_step P s u" and "platform_ok P (interfaces s)"
  shows "returns (map_option snd (data_log P v hn n x time announce u)) (lib_step P s)"
    "returns (map_option snd (network_send_routing_info P time u)) (lib_step P s)"
    "returns (map_option snd (network_send_provide_info P time u)) (lib_step P s)"
    "returns (data_requests_process P time u) (lib_step P s)"
    "returns (routing_table_check P time u) (lib_step P s)"
    "returns (data_save P u) (lib_step P s)"
    "a \<in> dom (interfaces s) \<Longrightarrow> returns (map_option snd (network_accept P msg (Some a) time u)) (lib_step P s)"
    "entries_small u \<Longrightarrow> returns (network_process_packets P handle time u) (lib_step P s)"
proof -
  have "interfaces u a \<noteq> None" if "a \<in> dom (interfaces s)" using assms(1) that by (auto simp: lib_step_def)
  then show "a \<in> dom (interfaces s) \<Longrightarrow> returns (map_option snd (network_accept P msg (Some a) time u)) (lib_step P s)"
    using run_after [OF assms, of "Accept msg a" time] by simp
qed (use run_after [OF assms, of "Log_Value v hn n x announce" time] run_after [OF assms, of Send_Routing_Info time]
    run_after [OF assms, of Send_Provide_Info time] run_after [OF assms, of Process_Requests time]
    run_after [OF assms, of Table_Check time] run_after [OF assms, of Save time] run_after [OF assms, of Process_Packets time] in simp_all)

lemma reachable_ok:
  assumes "reachable P handle ifs s" and pl: "platform_ok P ifs" and "0 < HOUR_BUFFER_SIZE P"
  shows "zejf_ok P s \<and> dom (interfaces s) = dom ifs"
  using assms(1)
proof induction
  case (start w)
  let ?s = "(zejf_start P w)\<lparr>interfaces := ifs\<rparr>"
  have "never_fails (mem ?s)" "hours ?s = Map.empty" by (simp_all add: zejf_start_def never_fails_def)
  from zejf_init_ok [OF this assms(3)] show ?case by auto
next
  case (call s c time s')
  then have "platform_ok P (interfaces s)" using pl platform_ok_dom by blast
  with call api_run_ok [of s c time] show ?case by (simp add: lib_step_def)
next
  case (outside s w)
  then show ?case by (simp add: zejf_ok_def store_ok_def requests_ok_def)
qed

lemma reachable_returns:
  assumes r: "reachable P handle ifs s" and pl: "platform_ok P ifs" and "0 < HOUR_BUFFER_SIZE P" and al: "api_allowed c s"
  shows "\<exists>s'. api_run P handle c time s = Some s' \<and> reachable P handle ifs s' \<and> zejf_ok P s'"
proof -
  have s: "zejf_ok P s" "dom (interfaces s) = dom ifs" using reachable_ok [OF assms(1-3)] by auto
  then have "platform_ok P (interfaces s)" using pl platform_ok_dom by blast
  then obtain s' where s': "api_run P handle c time s = Some s'" "lib_step P s s'"
    using api_run_ok [OF s(1) _ al, of time] unfolding returns_iff by auto
  then show ?thesis using reachable.call [OF r al s'(1)] lib_step_ok by blast
qed

end

end
