(* ===== verification/Data_Loader.thy ===== *)
theory Data_Loader
  imports Hour_Storage
begin

text \<open>
  The storage of the server, \<open>devices/ZejfMeteo/src/zejf_data_loader.c\<close>: one file per hour, in a
  directory per month, named after the local time of the hour.  The file system is a record of
  directories and files, which the record of a device may extend; every system call may fail.
  \<open>localtime\<close> is a parameter.
\<close>

section \<open>The file system\<close>

text \<open>
  \<open>disk_fault n\<close> is \<^term>\<open>None\<close> when the \<open>n\<close>-th call is served.  A call that fails does nothing, except a
  write, which may have written that many bytes.
\<close>

record disk =
  disk_dirs :: "string list"
  disk_files :: "string \<Rightarrow> u8 list option"
  disk_calls :: nat
  disk_fault :: "nat \<Rightarrow> nat option"

definition fault :: "'z disk_scheme \<Rightarrow> nat option" where
  "fault d = disk_fault d (disk_calls d)"

definition tick :: "'z disk_scheme \<Rightarrow> 'z disk_scheme" where
  "tick d = d\<lparr>disk_calls := Suc (disk_calls d)\<rparr>"

text \<open>The part of a path before its last slash.\<close>

definition dir_of :: "string \<Rightarrow> string" where
  "dir_of path = rev (tl (dropWhile (\<lambda>c. c \<noteq> CHR ''/'') (rev path)))"

datatype mkdir_result = Made | Exists | Failed

definition mkdir :: "string \<Rightarrow> 'z disk_scheme \<Rightarrow> mkdir_result \<times> 'z disk_scheme" where
  "mkdir path d =
     (if fault d \<noteq> None then (Failed, tick d)
      else if path \<in> set (disk_dirs d) \<or> disk_files d path \<noteq> None then (Exists, tick d)
      else if dir_of path \<notin> set (disk_dirs d) then (Failed, tick d)
      else (Made, (tick d)\<lparr>disk_dirs := path # disk_dirs d\<rparr>))"

text \<open>\<open>stat\<close> on a path that ends with a slash: is it a directory?\<close>

definition stat_dir :: "string \<Rightarrow> 'z disk_scheme \<Rightarrow> bool \<times> 'z disk_scheme" where
  "stat_dir path d = (fault d = None \<and> butlast path \<in> set (disk_dirs d), tick d)"

definition access :: "string \<Rightarrow> 'z disk_scheme \<Rightarrow> bool \<times> 'z disk_scheme" where
  "access path d = (fault d = None \<and> disk_files d path \<noteq> None, tick d)"

definition fopen_wb :: "string \<Rightarrow> 'z disk_scheme \<Rightarrow> bool \<times> 'z disk_scheme" where
  "fopen_wb path d =
     (if fault d \<noteq> None \<or> dir_of path \<notin> set (disk_dirs d) \<or> path \<in> set (disk_dirs d) then (False, tick d)
      else (True, (tick d)\<lparr>disk_files := (disk_files d)(path \<mapsto> [])\<rparr>))"

definition fwrite :: "string \<Rightarrow> u8 list \<Rightarrow> 'z disk_scheme \<Rightarrow> bool \<times> 'z disk_scheme" where
  "fwrite path bs d =
     (case fault d of
        None \<Rightarrow> (bs \<noteq> [], (tick d)\<lparr>disk_files := (disk_files d)(path \<mapsto> bs)\<rparr>)
      | Some k \<Rightarrow> (False, (tick d)\<lparr>disk_files := (disk_files d)(path \<mapsto> take k bs)\<rparr>))"

text \<open>The contents of a file opened for reading.\<close>

definition fopen_rb :: "string \<Rightarrow> 'z disk_scheme \<Rightarrow> u8 list option \<times> 'z disk_scheme" where
  "fopen_rb path d = (if fault d = None then disk_files d path else None, tick d)"

text \<open>\<open>fread\<close> of a whole file, and the \<open>malloc\<close> before it.\<close>

definition served :: "'z disk_scheme \<Rightarrow> bool \<times> 'z disk_scheme" where
  "served d = (fault d = None, tick d)"

section \<open>Paths\<close>

record tm =
  tm_year :: nat
  tm_mon :: nat
  tm_mday :: nat
  tm_hour :: nat

definition months :: "string list" where
  "months = [''January'', ''February'', ''March'', ''April'', ''May'', ''June'', ''July'', ''August'',
     ''September'', ''October'', ''November'', ''December'']"

definition two_digits :: "nat \<Rightarrow> string" where
  "two_digits n = (if n < 10 then ''0'' else []) @ show_nat n"

definition MAIN_FOLDER :: string where
  "MAIN_FOLDER = ''./ZejfMeteo/''"

text \<open>\<open>localtime\<close> takes the seconds since the epoch.  \<open>str_append\<close> is concatenation.\<close>

definition zejf_day_path :: "(nat \<Rightarrow> tm) \<Rightarrow> u32 \<Rightarrow> string option" where
  "zejf_day_path localtime hour_number =
     do {
       let t = localtime (unat hour_number * 60 * 60);
       month \<leftarrow> arr_get months (tm_mon t);
       Some (MAIN_FOLDER @ ''data/'' @ show_nat (tm_year t) @ ''/'' @ month @
             ''/'' @ two_digits (tm_mday t) @ ''_'' @ two_digits (tm_hour t) @ ''H.dat'')
     }"

text \<open>The walk of \<open>mkpath\<close> from slash to slash.\<close>

fun mkpath_loop :: "string \<Rightarrow> string \<Rightarrow> 'z disk_scheme \<Rightarrow> bool \<times> 'z disk_scheme" where
  "mkpath_loop acc [] d = (True, d)"
| "mkpath_loop acc (c # cs) d =
     (if c = CHR ''/''
      then (case mkdir acc d of
              (Failed, d) \<Rightarrow> (False, d)
            | (_, d) \<Rightarrow> mkpath_loop (acc @ [c]) cs d)
      else mkpath_loop (acc @ [c]) cs d)"

definition mkpath :: "string \<Rightarrow> 'z disk_scheme \<Rightarrow> bool \<times> 'z disk_scheme" where
  "mkpath file_path d = mkpath_loop (take 1 file_path) (drop 1 file_path) d"

section \<open>Saving and loading\<close>

definition HOUR_FILE_MAX_SIZE :: nat where
  "HOUR_FILE_MAX_SIZE = 1024 * 1024 * 8"

definition disk_hour_save :: "(nat \<Rightarrow> tm) \<Rightarrow> u32 \<Rightarrow> u8 list \<Rightarrow> 'z disk_scheme \<Rightarrow> (zejf_err \<times> 'z disk_scheme) option" where
  "disk_hour_save localtime hour_number buffer d =
     do {
       path <- zejf_day_path localtime hour_number;
       let path_only = dir_of path @ ''/'';
       (case (case stat_dir path_only d of
                (True, d) \<Rightarrow> (True, d)
              | (False, d) \<Rightarrow> mkpath path_only d) of
          (False, d) \<Rightarrow> Some (ZEJF_ERR_IO, d)
        | (True, d) \<Rightarrow>
            (case fopen_wb path d of
               (False, d) \<Rightarrow> Some (ZEJF_ERR_IO, d)
             | (True, d) \<Rightarrow>
                 (case fwrite path buffer d of (result, d) \<Rightarrow> Some (if result then ZEJF_OK else ZEJF_ERR_IO, d))))
     }"

definition disk_hour_load :: "(nat \<Rightarrow> tm) \<Rightarrow> u32 \<Rightarrow> 'z disk_scheme \<Rightarrow> ((zejf_err \<times> u8 list option) \<times> 'z disk_scheme) option" where
  "disk_hour_load localtime hour_number d =
     do {
       path <- zejf_day_path localtime hour_number;
       (case access path d of
          (False, d) \<Rightarrow> Some ((ZEJF_ERR_FILE_DOESNT_EXIST, None), d)
        | (True, d) \<Rightarrow>
            (case fopen_rb path d of
               (None, d) \<Rightarrow> Some ((ZEJF_ERR_IO, None), d)
             | (Some bs, d) \<Rightarrow>
                 if HOUR_FILE_MAX_SIZE < length bs then Some ((ZEJF_ERR_IO, None), d)
                 else
                   (case served d of
                      (False, d) \<Rightarrow> Some ((ZEJF_ERR_IO, None), d)
                    | (True, d) \<Rightarrow>
                        (case served d of
                           (False, d) \<Rightarrow> Some ((ZEJF_ERR_IO, None), d)
                         | (True, d) \<Rightarrow>
                             if bs = [] then Some ((ZEJF_ERR_IO, None), d) else Some ((ZEJF_OK, Some bs), d)))))
     }"

text \<open>The platform of the server, with this storage.\<close>

definition disk_platform :: "(nat \<Rightarrow> tm) \<Rightarrow> 'z disk_scheme platform \<Rightarrow> 'z disk_scheme platform" where
  "disk_platform localtime P =
     P\<lparr>hour_load := (\<lambda>n d. case disk_hour_load localtime n d of Some r \<Rightarrow> r | None \<Rightarrow> ((ZEJF_ERR_GENERIC, None), d)),
       hour_save := (\<lambda>n bs d. case disk_hour_save localtime n bs d of Some r \<Rightarrow> r | None \<Rightarrow> (ZEJF_ERR_GENERIC, d))\<rparr>"

lemma disk_platform_simps [simp]:
  "HOUR_BUFFER_SIZE (disk_platform lt P) = HOUR_BUFFER_SIZE P" "SAMPLE_RATE_MAX (disk_platform lt P) = SAMPLE_RATE_MAX P"
  "VARIABLES_MAX (disk_platform lt P) = VARIABLES_MAX P"
  "hour_load (disk_platform lt P) n d = (case disk_hour_load lt n d of Some r \<Rightarrow> r | None \<Rightarrow> ((ZEJF_ERR_GENERIC, None), d))"
  "hour_save (disk_platform lt P) n bs d = (case disk_hour_save lt n bs d of Some r \<Rightarrow> r | None \<Rightarrow> (ZEJF_ERR_GENERIC, d))"
  by (simp_all add: disk_platform_def)

lemma hour_vars_ok_disk [simp]: "hour_vars_ok (disk_platform lt P) h = hour_vars_ok P h"
  by (simp add: hour_vars_ok_def variable_ok_def)

section \<open>Paths of different hours\<close>

text \<open>
  What the code relies on in \<open>localtime\<close>: the documented ranges of its fields, and that no two
  hours have the same local time, which is the case in a time zone without clock changes.
\<close>

definition clock_ok :: "(nat \<Rightarrow> tm) \<Rightarrow> bool" where
  "clock_ok lt \<longleftrightarrow> (\<forall>t. tm_mon (lt t) < 12 \<and> tm_mday (lt t) \<le> 31 \<and> tm_hour (lt t) < 24)"

definition clock_distinct :: "(nat \<Rightarrow> tm) \<Rightarrow> bool" where
  "clock_distinct lt \<longleftrightarrow> (\<forall>m n :: u32. lt (unat m * 60 * 60) = lt (unat n * 60 * 60) \<longrightarrow> m = n)"

definition path_text :: "tm \<Rightarrow> string" where
  "path_text t = MAIN_FOLDER @ ''data/'' @ show_nat (tm_year t) @ ''/'' @ (months ! tm_mon t) @
     ''/'' @ two_digits (tm_mday t) @ ''_'' @ two_digits (tm_hour t) @ ''H.dat''"

lemma length_months [simp]: "length months = 12"
  by (simp add: months_def)

lemma day_path: "clock_ok lt \<Longrightarrow> zejf_day_path lt n = Some (path_text (lt (unat n * 60 * 60)))"
  by (simp add: zejf_day_path_def path_text_def clock_ok_def Let_def)

lemma split_at: "c \<notin> set a \<Longrightarrow> c \<notin> set b \<Longrightarrow> a @ c # x = b @ c # y \<longleftrightarrow> a = b \<and> x = y"
proof (induction a arbitrary: b)
  case Nil
  then show ?case by (cases b) auto
next
  case (Cons a as)
  then show ?case by (cases b) auto
qed

lemma not_digit_slash [simp]: "\<not> is_digit CHR ''/''" "\<not> is_digit CHR ''_''" "\<not> is_digit CHR ''H''"
  by (simp_all add: is_digit_def char_code_def)

lemma digits_free:
  "\<not> is_digit c \<Longrightarrow> c \<notin> set (show_nat n)" "\<not> is_digit c \<Longrightarrow> c \<notin> set (two_digits n)"
proof -
  have "is_digit CHR ''0''" by (simp add: is_digit_def char_code_def)
  then show "\<not> is_digit c \<Longrightarrow> c \<notin> set (show_nat n)" "\<not> is_digit c \<Longrightarrow> c \<notin> set (two_digits n)"
    using show_nat_digits [of c n] by (auto simp: two_digits_def split: if_splits)
qed

lemma show_nat_inj: "show_nat m = show_nat n \<Longrightarrow> m = n"
  by (metis scan_digits_show_nat_fst)

lemma two_digits_inj: "two_digits m = two_digits n \<Longrightarrow> m = n"
proof -
  have "fst (scan_digits 0 (two_digits k)) = k" for k
    using scan_digits_show_nat_fst [of k] by (auto simp: two_digits_def is_digit_def char_code_def)
  then show "two_digits m = two_digits n \<Longrightarrow> m = n" by metis
qed

lemma months_free: "m < 12 \<Longrightarrow> CHR ''/'' \<notin> set (months ! m)"
proof -
  have "\<forall>x\<in>set months. CHR ''/'' \<notin> set x" by (simp add: months_def)
  then show "m < 12 \<Longrightarrow> CHR ''/'' \<notin> set (months ! m)" by simp
qed

lemma months_inj: "m < 12 \<Longrightarrow> n < 12 \<Longrightarrow> months ! m = months ! n \<Longrightarrow> m = n"
proof -
  have "distinct months" by (simp add: months_def)
  then show "m < 12 \<Longrightarrow> n < 12 \<Longrightarrow> months ! m = months ! n \<Longrightarrow> m = n" by (simp add: nth_eq_iff_index_eq)
qed

lemma path_text_inj:
  assumes "path_text t = path_text u" and "tm_mon t < 12" and "tm_mon u < 12"
  shows "t = u"
proof -
  note free = digits_free(1) [OF not_digit_slash(1)] digits_free(2) [OF not_digit_slash(2)] digits_free(2) [OF not_digit_slash(3)]
  from assms(1) have "tm_year t = tm_year u" "months ! tm_mon t = months ! tm_mon u" "two_digits (tm_mday t) = two_digits (tm_mday u)"
    "two_digits (tm_hour t) = two_digits (tm_hour u)"
    using free assms(2,3) by (auto simp: path_text_def split_at months_free dest!: show_nat_inj)
  then show ?thesis using months_inj [OF assms(2,3)] by (auto dest: two_digits_inj intro!: tm.equality)
qed

lemma path_inj:
  assumes "clock_ok lt" and "clock_distinct lt" and "zejf_day_path lt m = zejf_day_path lt n"
  shows "m = n"
proof -
  have "lt (unat m * 60 * 60) = lt (unat n * 60 * 60)"
    using assms(1,3) by (intro path_text_inj) (auto simp: day_path [OF assms(1)] clock_ok_def)
  with assms(2) show ?thesis by (simp add: clock_distinct_def)
qed

lemma count_free: "c \<notin> set xs \<Longrightarrow> count_list xs c = 0"
  by (simp add: count_list_0_iff)

lemma path_slashes: "tm_mon t < 12 \<Longrightarrow> count_list (path_text t) CHR ''/'' = 5"
  by (simp add: path_text_def MAIN_FOLDER_def count_free digits_free months_free)

lemma path_dir:
  assumes "tm_mon t < 12"
  shows "dir_of (path_text t) = MAIN_FOLDER @ ''data/'' @ show_nat (tm_year t) @ ''/'' @ (months ! tm_mon t)"
proof -
  have "dropWhile (\<lambda>c. c \<noteq> CHR ''/'') (rev x @ CHR ''/'' # y) = CHR ''/'' # y" if "CHR ''/'' \<notin> set x" for x y
    using that by (subst dropWhile_append2) auto
  from this [of "two_digits (tm_mday t) @ ''_'' @ two_digits (tm_hour t) @ ''H.dat''"] show ?thesis
    by (simp add: path_text_def dir_of_def digits_free)
qed

section \<open>A disk that works\<close>

definition disk_works :: "'z disk_scheme \<Rightarrow> bool" where
  "disk_works d \<longleftrightarrow> (\<forall>n. disk_fault d n = None) \<and> ''.'' \<in> set (disk_dirs d) \<and>
     (\<forall>p. disk_files d p \<noteq> None \<longrightarrow> count_list p CHR ''/'' = 5) \<and> (\<forall>p\<in>set (disk_dirs d). count_list p CHR ''/'' < 5)"

definition disk_hours :: "(nat \<Rightarrow> tm) \<Rightarrow> 'z disk_scheme \<Rightarrow> u32 \<Rightarrow> u8 list option" where
  "disk_hours lt d n = (case zejf_day_path lt n of None \<Rightarrow> None | Some p \<Rightarrow> disk_files d p)"

lemma disk_works_tick [simp]: "disk_works (tick d) = disk_works d" "disk_files (tick d) = disk_files d" "disk_dirs (tick d) = disk_dirs d"
  by (simp_all add: disk_works_def tick_def)

lemma disk_works_fault: "disk_works d \<Longrightarrow> fault d = None"
  by (simp add: disk_works_def fault_def)

lemma dir_of_snoc: "dir_of (p @ [CHR ''/'']) = p" "c \<noteq> CHR ''/'' \<Longrightarrow> dir_of (p @ [c]) = dir_of p"
  by (simp_all add: dir_of_def)

lemma mkdir_ok:
  assumes w: "disk_works d" and room: "count_list p CHR ''/'' < 5" and "p \<in> set (disk_dirs d) \<or> dir_of p \<in> set (disk_dirs d)"
    and "disk_files d p = None"
  shows "\<exists>r d'. mkdir p d = (r, d') \<and> r \<noteq> Failed \<and> disk_works d' \<and> disk_files d' = disk_files d \<and>
    set (disk_dirs d') = insert p (set (disk_dirs d))"
proof (cases "p \<in> set (disk_dirs d)")
  case True
  with w show ?thesis by (auto simp: mkdir_def disk_works_fault)
next
  case False
  have "disk_works ((tick d)\<lparr>disk_dirs := p # disk_dirs d\<rparr>)" using w room by (auto simp: disk_works_def tick_def)
  with False assms show ?thesis by (simp add: mkdir_def disk_works_fault)
qed

text \<open>\<open>mkpath\<close> makes every directory on the way.\<close>

lemma mkpath_loop_ok:
  assumes "disk_works d" and "count_list (acc @ rest) CHR ''/'' \<le> 5"
    and "acc \<in> set (disk_dirs d) \<and> rest \<noteq> [] \<and> hd rest = CHR ''/'' \<or> dir_of acc \<in> set (disk_dirs d)"
  shows "\<exists>d'. mkpath_loop acc rest d = (True, d') \<and> disk_works d' \<and> disk_files d' = disk_files d \<and>
    set (disk_dirs d) \<subseteq> set (disk_dirs d') \<and> (\<forall>p q. acc @ rest = p @ CHR ''/'' # q \<and> length acc \<le> length p \<longrightarrow> p \<in> set (disk_dirs d'))"
  using assms
proof (induction rest arbitrary: acc d)
  case Nil
  then show ?case by auto
next
  case (Cons c cs)
  show ?case
  proof (cases "c = CHR ''/''")
    case False
    then have "dir_of (acc @ [c]) \<in> set (disk_dirs d)" using Cons.prems(3) by (auto simp: dir_of_snoc)
    from Cons.IH [OF Cons.prems(1), of "acc @ [c]"] this Cons.prems(2) obtain d' where d': "mkpath_loop (acc @ [c]) cs d = (True, d')"
      "disk_works d'" "disk_files d' = disk_files d" "set (disk_dirs d) \<subseteq> set (disk_dirs d')"
      "\<forall>p q. (acc @ [c]) @ cs = p @ CHR ''/'' # q \<and> length (acc @ [c]) \<le> length p \<longrightarrow> p \<in> set (disk_dirs d')" by auto
    have "length (acc @ [c]) \<le> length p" if "acc @ c # cs = p @ CHR ''/'' # q" "length acc \<le> length p" for p q
      using that False by (cases "length acc = length p") auto
    with d' False show ?thesis by auto
  next
    case True
    have room: "count_list acc CHR ''/'' < 5" using Cons.prems(2) True by simp
    then have "disk_files d acc = None" using Cons.prems(1) by (auto simp: disk_works_def)
    then obtain r d1 where m: "mkdir acc d = (r, d1)" "r \<noteq> Failed" "disk_works d1"
      "disk_files d1 = disk_files d" "set (disk_dirs d1) = insert acc (set (disk_dirs d))"
      using mkdir_ok [OF Cons.prems(1) room] Cons.prems(3) by blast
    have "dir_of (acc @ [c]) \<in> set (disk_dirs d1)" using m(5) True by (simp add: dir_of_snoc)
    from Cons.IH [OF m(3), of "acc @ [c]"] this Cons.prems(2) obtain d' where d': "mkpath_loop (acc @ [c]) cs d1 = (True, d')"
      "disk_works d'" "disk_files d' = disk_files d1" "set (disk_dirs d1) \<subseteq> set (disk_dirs d')"
      "\<forall>p q. (acc @ [c]) @ cs = p @ CHR ''/'' # q \<and> length (acc @ [c]) \<le> length p \<longrightarrow> p \<in> set (disk_dirs d')" by auto
    have "p \<in> set (disk_dirs d')" if "acc @ c # cs = p @ CHR ''/'' # q" "length acc \<le> length p" for p q
      using that d'(4,5) m(5) by (cases "length acc = length p") auto
    with d' m True show ?thesis by (auto split: mkdir_result.splits)
  qed
qed

lemma save_path_ok:
  assumes w: "disk_works d" and t: "tm_mon t < 12"
  shows "\<exists>d'. (case stat_dir (dir_of (path_text t) @ ''/'') d of (True, d) \<Rightarrow> (True, d) | (False, d) \<Rightarrow> mkpath (dir_of (path_text t) @ ''/'') d) = (True, d') \<and>
    disk_works d' \<and> disk_files d' = disk_files d \<and> dir_of (path_text t) \<in> set (disk_dirs d')"
proof (cases "dir_of (path_text t) \<in> set (disk_dirs d)")
  case True
  with w show ?thesis by (simp add: stat_dir_def disk_works_fault)
next
  case False
  let ?p = "dir_of (path_text t) @ ''/''"
  have p: "?p = ''.'' @ drop 1 ?p" "hd (drop 1 ?p) = CHR ''/''" "drop 1 ?p \<noteq> []" "take 1 ?p = ''.''"
    using path_dir [OF t] by (simp_all add: MAIN_FOLDER_def)
  have "count_list ?p CHR ''/'' = 5" unfolding path_dir [OF t] by (simp add: MAIN_FOLDER_def count_free digits_free months_free [OF t])
  with p(1) have "count_list (''.'' @ drop 1 ?p) CHR ''/'' \<le> 5" by simp
  moreover have "''.'' \<in> set (disk_dirs (tick d))" using w by (simp add: disk_works_def)
  ultimately obtain d' where d': "mkpath_loop ''.'' (drop 1 ?p) (tick d) = (True, d')" "disk_works d'" "disk_files d' = disk_files d"
    "\<forall>q r. ''.'' @ drop 1 ?p = q @ CHR ''/'' # r \<and> length ''.'' \<le> length q \<longrightarrow> q \<in> set (disk_dirs d')"
    using mkpath_loop_ok [of "tick d" "''.''" "drop 1 ?p"] w p by auto
  have "dir_of (path_text t) \<in> set (disk_dirs d')"
    using d'(4) p(1) path_dir [OF t] by (auto simp: MAIN_FOLDER_def)
  moreover have "mkpath ?p (tick d) = (True, d')" unfolding mkpath_def p(4) by (rule d'(1))
  ultimately show ?thesis using d' False by (simp add: stat_dir_def)
qed

lemma disk_save_files:
  assumes w: "disk_works d" and lt: "clock_ok lt" and bs: "bs \<noteq> []"
  shows "\<exists>d'. disk_hour_save lt n bs d = Some (ZEJF_OK, d') \<and> disk_works d' \<and>
    disk_files d' = (disk_files d)(path_text (lt (unat n * 60 * 60)) \<mapsto> bs)"
proof -
  let ?t = "lt (unat n * 60 * 60)"
  let ?p = "path_text ?t"
  have t: "tm_mon ?t < 12" using lt by (simp add: clock_ok_def)
  obtain d1 where d1: "(case stat_dir (dir_of ?p @ ''/'') d of (True, d) \<Rightarrow> (True, d) | (False, d) \<Rightarrow> mkpath (dir_of ?p @ ''/'') d) = (True, d1)"
    "disk_works d1" "disk_files d1 = disk_files d" "dir_of ?p \<in> set (disk_dirs d1)" using save_path_ok [OF w t] by blast
  have nd: "?p \<notin> set (disk_dirs d1)" using d1(2) path_slashes [OF t] by (auto simp: disk_works_def)
  let ?d2 = "(tick d1)\<lparr>disk_files := (disk_files d)(?p \<mapsto> [])\<rparr>"
  let ?d3 = "(tick ?d2)\<lparr>disk_files := (disk_files d)(?p \<mapsto> bs)\<rparr>"
  have "fopen_wb ?p d1 = (True, ?d2)" using d1 nd by (simp add: fopen_wb_def disk_works_fault)
  moreover have "fault ?d2 = None" using d1(2) by (simp add: fault_def tick_def disk_works_def)
  then have "fwrite ?p bs ?d2 = (True, ?d3)" using bs by (simp add: fwrite_def)
  moreover have "disk_works ?d3" using d1 w path_slashes [OF t] by (auto simp: disk_works_def tick_def)
  ultimately show ?thesis unfolding disk_hour_save_def day_path [OF lt] bind.bind_lunit Let_def d1(1) by simp
qed

lemma disk_save_ok:
  assumes w: "disk_works d" and lt: "clock_ok lt" "clock_distinct lt" and bs: "bs \<noteq> []"
  shows "\<exists>d'. disk_hour_save lt n bs d = Some (ZEJF_OK, d') \<and> disk_works d' \<and> disk_hours lt d' = (disk_hours lt d)(n \<mapsto> bs)"
  using disk_save_files [OF w lt(1) bs, of n] path_inj [OF lt] by (auto simp: disk_hours_def day_path [OF lt(1)] fun_eq_iff)

lemma disk_load_ok:
  assumes w: "disk_works d" and lt: "clock_ok lt"
  shows "\<exists>r d'. disk_hour_load lt n d = Some (r, d') \<and> disk_works d' \<and> disk_files d' = disk_files d \<and>
    (case disk_hours lt d n of
       None \<Rightarrow> r = (ZEJF_ERR_FILE_DOESNT_EXIST, None)
     | Some bs \<Rightarrow> bs \<noteq> [] \<and> length bs \<le> HOUR_FILE_MAX_SIZE \<longrightarrow> r = (ZEJF_OK, Some bs))"
proof -
  have nf: "fault e = None" if "disk_works e" for e using that by (rule disk_works_fault)
  show ?thesis using w
    by (cases "disk_files d (path_text (lt (unat n * 60 * 60)))")
      (simp_all add: disk_hour_load_def day_path [OF lt] disk_hours_def access_def fopen_rb_def served_def nf)
qed

section \<open>The disk as the storage of the cache\<close>

text \<open>The largest hour of the device fits into a file that is read back.\<close>

definition settings_fit :: "'w platform \<Rightarrow> bool" where
  "settings_fit P \<longleftrightarrow> 11 + unat (VARIABLES_MAX P) * (6 + 4 * unat (SAMPLE_RATE_MAX P)) \<le> HOUR_FILE_MAX_SIZE"

lemma hour_encoding_size:
  assumes "hour_vars_ok P h"
  shows "length (hour_encoding h) \<le> 11 + unat (VARIABLES_MAX P) * (6 + 4 * unat (SAMPLE_RATE_MAX P))"
proof -
  let ?m = "6 + 4 * unat (SAMPLE_RATE_MAX P)"
  have v: "length (variable_encoding v) \<le> ?m" if "v \<in> set (variables h)" for v
    using assms that by (auto simp: hour_vars_ok_def variable_ok_def variable_encoding_def word_le_nat_alt)
  have "length (concat (map variable_encoding vs)) \<le> length vs * ?m" if "\<forall>v\<in>set vs. length (variable_encoding v) \<le> ?m" for vs
    using that by (induction vs) auto
  then have "length (concat (map variable_encoding (variables h))) \<le> length (variables h) * ?m" using v by blast
  also have "\<dots> \<le> unat (VARIABLES_MAX P) * ?m"
    using assms by (intro mult_le_mono1) (auto simp: hour_vars_ok_def word_le_nat_alt)
  finally show ?thesis by (simp add: hour_encoding_def)
qed

lemma disk_hour_storage:
  fixes P :: "'z disk_scheme platform"
  assumes "clock_ok lt" and "clock_distinct lt" and "settings_fit P"
  shows "hour_storage (disk_platform lt P) (disk_hours lt) disk_works (\<lambda>bs. bs \<noteq> [] \<and> length bs \<le> HOUR_FILE_MAX_SIZE)"
proof
  fix d :: "'z disk_scheme" and n
  assume "disk_works d" and none: "disk_hours lt d n = None"
  then show "fst (fst (hour_load (disk_platform lt P) n d)) = ZEJF_ERR_FILE_DOESNT_EXIST \<and>
      disk_works (snd (hour_load (disk_platform lt P) n d)) \<and> disk_hours lt (snd (hour_load (disk_platform lt P) n d)) = disk_hours lt d"
    using disk_load_ok [OF _ assms(1), of d n] by (auto simp: disk_hours_def fun_eq_iff split: option.splits)
next
  fix d :: "'z disk_scheme" and n bs
  assume "disk_works d" and "disk_hours lt d n = Some bs" and "bs \<noteq> [] \<and> length bs \<le> HOUR_FILE_MAX_SIZE"
  then show "fst (hour_load (disk_platform lt P) n d) = (ZEJF_OK, Some bs) \<and>
      disk_works (snd (hour_load (disk_platform lt P) n d)) \<and> disk_hours lt (snd (hour_load (disk_platform lt P) n d)) = disk_hours lt d"
    using disk_load_ok [OF _ assms(1), of d n] by (auto simp: disk_hours_def fun_eq_iff split: option.splits)
next
  fix d :: "'z disk_scheme" and n and bs :: "u8 list"
  assume "disk_works d" and "bs \<noteq> [] \<and> length bs \<le> HOUR_FILE_MAX_SIZE"
  then show "fst (hour_save (disk_platform lt P) n bs d) = ZEJF_OK \<and> disk_works (snd (hour_save (disk_platform lt P) n bs d)) \<and>
      disk_hours lt (snd (hour_save (disk_platform lt P) n bs d)) = (disk_hours lt d)(n \<mapsto> bs)"
    using disk_save_ok [OF _ assms(1,2), of d bs n] by auto
next
  fix h
  assume "hour_vars_ok (disk_platform lt P) h"
  then have ok: "hour_vars_ok P h" by simp
  have "hour_encoding h \<noteq> []" by (simp add: hour_encoding_def)
  with hour_encoding_size [OF ok] assms(3) show "hour_encoding h \<noteq> [] \<and> length (hour_encoding h) \<le> HOUR_FILE_MAX_SIZE"
    by (simp add: settings_fit_def)
qed

section \<open>The clock of a device that runs on UTC\<close>

definition leap :: "nat \<Rightarrow> bool" where
  "leap y \<longleftrightarrow> y mod 4 = 0 \<and> (y mod 100 \<noteq> 0 \<or> y mod 400 = 0)"

definition year_days :: "nat \<Rightarrow> nat" where
  "year_days y = (if leap y then 366 else 365)"

definition month_days :: "nat \<Rightarrow> nat \<Rightarrow> nat" where
  "month_days y m = (if m = 1 then (if leap y then 29 else 28) else if m \<in> {3, 5, 8, 10} then 30 else 31)"

function year_loop :: "nat \<Rightarrow> nat \<Rightarrow> nat \<times> nat" where
  "year_loop y d = (if d < year_days y then (y, d) else year_loop (Suc y) (d - year_days y))"
  by pat_completeness auto
termination
  by (relation "measure snd") (auto simp: year_days_def)

function month_loop :: "nat \<Rightarrow> nat \<Rightarrow> nat \<Rightarrow> nat \<times> nat" where
  "month_loop y m d = (if 11 \<le> m \<or> d < month_days y m then (m, d) else month_loop y (Suc m) (d - month_days y m))"
  by pat_completeness auto
termination
  by (relation "measure (\<lambda>(y, m, d). 12 - m)") auto

declare year_loop.simps [simp del] month_loop.simps [simp del]

definition gmtime :: "nat \<Rightarrow> tm" where
  "gmtime t =
     (case year_loop 1970 (t div 86400) of
        (y, d) \<Rightarrow>
          (case month_loop y 0 d of
             (m, d) \<Rightarrow> \<lparr>tm_year = y, tm_mon = m, tm_mday = Suc d, tm_hour = t mod 86400 div 3600\<rparr>))"

lemma year_loop_sum:
  "y0 \<le> y \<Longrightarrow> year_loop y d = (y', d') \<Longrightarrow>
   y0 \<le> y' \<and> d' < year_days y' \<and> (\<Sum>k = y0..<y. year_days k) + d = (\<Sum>k = y0..<y'. year_days k) + d'"
proof (induction y d rule: year_loop.induct)
  case (1 y d)
  then show ?case by (cases "d < year_days y") (auto simp: year_loop.simps [of y d])
qed

lemma month_sum: "(\<Sum>k<12. month_days y k) = year_days y"
  by (simp add: month_days_def year_days_def eval_nat_numeral)

lemma month_loop_sum:
  "m < 12 \<Longrightarrow> month_loop y m d = (m', d') \<Longrightarrow> (\<Sum>k<m. month_days y k) + d < year_days y \<Longrightarrow>
   m' < 12 \<and> d' < month_days y m' \<and> (\<Sum>k<m. month_days y k) + d = (\<Sum>k<m'. month_days y k) + d'"
proof (induction y m d rule: month_loop.induct)
  case (1 y m d)
  show ?case
  proof (cases "11 \<le> m \<or> d < month_days y m")
    case True
    have "d < month_days y m" if "11 \<le> m"
    proof -
      have "m = 11" using 1(2) that by simp
      then show ?thesis using 1(4) month_sum [of y] by (simp add: eval_nat_numeral)
    qed
    then show ?thesis using True 1 by (auto simp: month_loop.simps [of y m d])
  next
    case False
    with 1 show ?thesis by (auto simp: month_loop.simps [of y m d])
  qed
qed

lemma gmtime_days:
  fixes t
  defines "g \<equiv> gmtime t"
  shows "tm_mon g < 12" "1 \<le> tm_mday g" "tm_mday g \<le> 31" "tm_hour g = t mod 86400 div 3600"
    "t div 86400 = (\<Sum>k = 1970..<tm_year g. year_days k) + (\<Sum>k<tm_mon g. month_days (tm_year g) k) + (tm_mday g - 1)"
proof -
  obtain y d where y: "year_loop 1970 (t div 86400) = (y, d)" by (metis prod.collapse)
  obtain m e where m: "month_loop y 0 d = (m, e)" by (metis prod.collapse)
  have g: "g = \<lparr>tm_year = y, tm_mon = m, tm_mday = Suc e, tm_hour = t mod 86400 div 3600\<rparr>" by (simp add: g_def gmtime_def y m)
  note Y = year_loop_sum [OF order_refl y]
  then have "m < 12 \<and> e < month_days y m \<and> d = (\<Sum>k<m. month_days y k) + e" using month_loop_sum [OF _ m] by simp
  moreover have "month_days y m \<le> 31" by (simp add: month_days_def)
  ultimately show "tm_mon g < 12" "1 \<le> tm_mday g" "tm_mday g \<le> 31" "tm_hour g = t mod 86400 div 3600"
    "t div 86400 = (\<Sum>k = 1970..<tm_year g. year_days k) + (\<Sum>k<tm_mon g. month_days (tm_year g) k) + (tm_mday g - 1)"
    using Y by (simp_all add: g)
qed

lemma gmtime_ok: "clock_ok gmtime"
proof -
  have "t mod 86400 div 3600 < 24" for t :: nat by (simp add: div_less_iff_less_mult)
  then show ?thesis using gmtime_days(1,3,4) by (simp add: clock_ok_def)
qed

lemma gmtime_distinct: "clock_distinct gmtime"
  unfolding clock_distinct_def
proof (intro allI impI)
  fix m n :: u32
  assume e: "gmtime (unat m * 60 * 60) = gmtime (unat n * 60 * 60)"
  have "(3600 * a) div 86400 = a div 24" "(3600 * a) mod 86400 div 3600 = a mod 24" for a :: nat
    using div_mult_mult1 [of 3600 a 24] mult_mod_right [of 3600 a 24] by (simp_all)
  then have "unat m div 24 = unat n div 24" "unat m mod 24 = unat n mod 24"
    using e gmtime_days(4,5) [of "unat m * 60 * 60"] gmtime_days(4,5) [of "unat n * 60 * 60"] by (simp_all add: ac_simps)
  then show "m = n" by (metis div_mult_mod_eq word_unat_eq_iff)
qed

interpretation meteo_disk: hour_storage "disk_platform gmtime (meteo_settings :: disk platform)" "disk_hours gmtime" disk_works
  "\<lambda>bs. bs \<noteq> [] \<and> length bs \<le> HOUR_FILE_MAX_SIZE"
  by (rule disk_hour_storage [OF gmtime_ok gmtime_distinct]) (simp add: settings_fit_def HOUR_FILE_MAX_SIZE_def)

section \<open>Properties\<close>

text \<open>
  An hour that the local clock repeats shares its file.  When two hours have the same local time, as
  at the end of daylight saving time, the second one is stored under the path of the first: loading one
  right after saving the other succeeds and gives the bytes of the other hour.
\<close>

theorem repeated_hour_shares_file:
  assumes "clock_ok lt" and "disk_works d" and "lt (unat m * 60 * 60) = lt (unat n * 60 * 60)" and "bs \<noteq> []" and "length bs \<le> HOUR_FILE_MAX_SIZE"
  shows "returns (do { (e1, d) \<leftarrow> disk_hour_save lt m bs d; (r, d) \<leftarrow> disk_hour_load lt n d; Some (e1, r) })
    (\<lambda>(e1, e2, r). e1 = ZEJF_OK \<and> e2 = ZEJF_OK \<and> r = Some bs)"
proof -
  obtain d' where d': "disk_hour_save lt m bs d = Some (ZEJF_OK, d')" "disk_works d'"
    "disk_files d' = (disk_files d)(path_text (lt (unat m * 60 * 60)) \<mapsto> bs)" using disk_save_files [OF assms(2,1,4), of m] by blast
  then have "disk_hours lt d' n = Some bs" using assms(3) by (simp add: disk_hours_def day_path [OF assms(1)])
  with disk_load_ok [OF d'(2) assms(1), of n] d'(1) assms(4,5) show ?thesis by auto
qed

text \<open>Central European time around the end of daylight saving time in 2023.\<close>

definition cet :: "nat \<Rightarrow> tm" where
  "cet t = gmtime (if t < 1698541200 then t + 7200 else t + 3600)"

lemma cet_ok: "clock_ok cet"
  using gmtime_ok by (simp add: clock_ok_def cet_def)

definition empty_disk :: disk where
  "empty_disk = \<lparr>disk_dirs = [''.''], disk_files = Map.empty, disk_calls = 0, disk_fault = (\<lambda>_. None)\<rparr>"

theorem repeated_hour_shares_file_witness:
  "returns (do { (e1, d) \<leftarrow> disk_hour_save cet 471816 [1, 2, 3] empty_disk; (r, d) \<leftarrow> disk_hour_load cet 471817 d; Some (e1, r) })
    (\<lambda>(e1, e2, r). r = Some [1, 2, 3])"
  by (rule returns_weaken [OF repeated_hour_shares_file [OF cet_ok]])
    (auto simp: disk_works_def empty_disk_def cet_def HOUR_FILE_MAX_SIZE_def)

end
