(* ===== verification/Meteo.thy ===== *)
theory Meteo
  imports Zejf_Api Data_Loader
begin


text \<open>
  The server \<open>devices/ZejfMeteo\<close> as the platform of the library: the clock of \<open>time_utils.c\<close>, the
  platform functions of \<open>serial.c\<close> and the interfaces of \<open>interface_manager.c\<close>.
\<close>

section \<open>The world of the server\<close>

text \<open>
  Beside the disk: the clock in microseconds, what has been written to which descriptor, and what has
  been printed.  \<open>write_fault n\<close> is \<^term>\<open>None\<close> when the \<open>n\<close>-th write takes all bytes, otherwise the number of
  bytes it takes; none at all is an error.
\<close>

record meteo_world = disk +
  now :: int
  written :: "(int \<times> string) list"
  write_fault :: "nat \<Rightarrow> nat option"
  printed :: "string list"

definition fd_write :: "int \<Rightarrow> string \<Rightarrow> meteo_world \<Rightarrow> bool \<times> meteo_world" where
  "fd_write fd bytes w =
     (let sent = (case write_fault w (length (written w)) of None \<Rightarrow> bytes | Some k \<Rightarrow> take k bytes)
      in (sent \<noteq> [], w\<lparr>written := written w @ [(fd, sent)]\<rparr>))"

definition print_line :: "string \<Rightarrow> meteo_world \<Rightarrow> meteo_world" where
  "print_line t w = w\<lparr>printed := printed w @ [t]\<rparr>"

text \<open>Time is not negative, so the divisions of C are those of the integers.\<close>

definition current_micros :: "meteo_world \<Rightarrow> int" where
  "current_micros w = now w"

definition current_millis :: "meteo_world \<Rightarrow> int" where
  "current_millis w = current_micros w div 1000"

definition current_seconds :: "meteo_world \<Rightarrow> int" where
  "current_seconds w = current_millis w div 1000"

text \<open>\<open>int32_t\<close>, and passed on as \<open>uint32_t\<close>.\<close>

definition current_hours :: "meteo_world \<Rightarrow> u32" where
  "current_hours w = word_of_int (current_seconds w div 3600)"

section \<open>Platform functions\<close>

abbreviation (input) USB :: nat where "USB \<equiv> 1"
abbreviation (input) TCP :: nat where "TCP \<equiv> 2"
abbreviation (input) STDIN_FILENO :: int where "STDIN_FILENO \<equiv> 0"

definition meteo_send_via :: "string \<Rightarrow> Interface \<Rightarrow> u32 \<Rightarrow> meteo_world \<Rightarrow> zejf_err \<times> meteo_world" where
  "meteo_send_via msg interface time w =
     (if if_type interface = USB \<and> if_handle interface = STDIN_FILENO then (ZEJF_OK, w)
      else if if_type interface = USB \<or> if_type interface = TCP
      then (case fd_write (if_handle interface) (fst (snprintf 128 (msg @ [CHR 0x0a]))) w of
              (ok, w) \<Rightarrow> (if ok then ZEJF_OK else ZEJF_ERR_IO, w))
      else (ZEJF_ERR_SEND_UNABLE, w))"

definition demand :: "u16 list" where
  "demand = [ALL_VARIABLES]"

text \<open>The library between two changes of the list of interfaces.\<close>

definition meteo_platform :: "(nat \<Rightarrow> tm) \<Rightarrow> addr list \<Rightarrow> meteo_world platform" where
  "meteo_platform localtime ifs =
     disk_platform localtime
       (meteo_settings\<lparr>network_send_via := meteo_send_via, get_all_interfaces := (\<lambda>_. ifs),
          get_provided_variables := (\<lambda>_. None), get_demanded_variables := (\<lambda>_. Some demand)\<rparr>)"

definition show_int :: "int \<Rightarrow> string" where
  "show_int i = (if i < 0 then ''-'' @ show_nat (nat (- i)) else show_nat (nat i))"

definition time_request :: "meteo_world platform \<Rightarrow> u16 \<Rightarrow> meteo_world zejf \<Rightarrow> (bool \<times> meteo_world zejf) option" where
  "time_request P to' s =
     (case snprintf 32 (show_int (current_seconds (world s))) of
        (msg, rv) \<Rightarrow>
          if rv < 0 then Some (False, s)
          else do {
            (packet, s) \<leftarrow> network_prepare_packet P to' TIME_CHECK (Some msg) s;
            (if packet = None then Some (False, s)
             else do {
               (rv, s) \<leftarrow> network_send_packet P packet (word_of_int (current_millis (world s))) s;
               Some (rv = ZEJF_OK, s)
             })
          })"

text \<open>\<open>printf\<close> of a null message is undefined; the log output is not modelled.\<close>

definition network_process_packet :: "meteo_world platform \<Rightarrow> Packet \<Rightarrow> meteo_world zejf \<Rightarrow> meteo_world zejf option" where
  "network_process_packet P packet s =
     (if command packet = TIME_REQUEST then do { (_, s) \<leftarrow> time_request P (pkt_from packet) s; Some s }
      else if command packet = MESSAGE then do { t \<leftarrow> message packet; Some (s\<lparr>world := print_line t (world s)\<rparr>) }
      else Some s)"

section \<open>The interfaces\<close>

abbreviation (input) INTERFACES_MAX :: nat where "INTERFACES_MAX \<equiv> 32"

text \<open>The static \<open>usb_interface_1\<close> is at address 0, below the heap.\<close>

definition usb_interface_1 :: addr where
  "usb_interface_1 = 0"

record meteo =
  lib :: "meteo_world zejf"
  all_interfaces :: "addr option list"
  interface_count :: nat
  next_uid :: int

definition meteo_interfaces :: "'z meteo_scheme \<Rightarrow> addr list" where
  "meteo_interfaces m = map the (take (interface_count m) (all_interfaces m))"

text \<open>An \<open>int\<close> that overflows is undefined.\<close>

definition interface_add :: "addr \<Rightarrow> 'z meteo_scheme \<Rightarrow> (bool \<times> 'z meteo_scheme) option" where
  "interface_add a m =
     (if INTERFACES_MAX \<le> interface_count m then Some (False, m)
      else do {
        interface \<leftarrow> interfaces (lib m) a;
        (if next_uid m = 2 ^ 31 - 1 then None
         else do {
           arr \<leftarrow> arr_set (all_interfaces m) (interface_count m) (Some a);
           Some (True, m\<lparr>lib := (lib m)\<lparr>interfaces := (interfaces (lib m))(a \<mapsto> interface\<lparr>if_uid := next_uid m\<rparr>)\<rparr>,
                         next_uid := next_uid m + 1, all_interfaces := arr, interface_count := Suc (interface_count m)\<rparr>)
         })
      })"

definition interfaces_init :: "'z meteo_scheme \<Rightarrow> 'z meteo_scheme option" where
  "interfaces_init m =
     do { (_, m) \<leftarrow> interface_add usb_interface_1 (m\<lparr>interface_count := 0, next_uid := 0\<rparr>); Some m }"

definition interfaces_destroy :: "'z meteo_scheme \<Rightarrow> 'z meteo_scheme" where
  "interfaces_destroy m =
     m\<lparr>all_interfaces := replicate (interface_count m) None @ drop (interface_count m) (all_interfaces m)\<rparr>"

text \<open>One round of the loop of \<open>interface_remove\<close>, and the loop.\<close>

definition remove_step :: "int \<Rightarrow> nat \<Rightarrow> bool \<Rightarrow> 'z meteo_scheme \<Rightarrow> (bool \<times> 'z meteo_scheme) option" where
  "remove_step uid i found m =
     do {
       slot \<leftarrow> arr_get (all_interfaces m) i;
       a \<leftarrow> slot;
       interface \<leftarrow> interfaces (lib m) a;
       (found, m) \<leftarrow> (if if_uid interface = uid
                      then do { s \<leftarrow> interface_removed a (lib m); Some (True, m\<lparr>lib := s\<rparr>) }
                      else Some (found, m));
       (if found \<and> i < interface_count m - 1
        then do {
          following \<leftarrow> arr_get (all_interfaces m) (Suc i);
          arr \<leftarrow> arr_set (all_interfaces m) i following;
          Some (found, m\<lparr>all_interfaces := arr\<rparr>)
        }
        else Some (found, m))
     }"

partial_function (option) remove_loop :: "int \<Rightarrow> nat \<Rightarrow> bool \<Rightarrow> 'z meteo_scheme \<Rightarrow> (bool \<times> 'z meteo_scheme) option" where
  "remove_loop uid i found m =
     (if i < interface_count m
      then do { (found, m) \<leftarrow> remove_step uid i found m; remove_loop uid (Suc i) found m }
      else Some (found, m))"

text \<open>The result is always \<open>false\<close>.\<close>

definition interface_remove :: "int \<Rightarrow> 'z meteo_scheme \<Rightarrow> (bool \<times> 'z meteo_scheme) option" where
  "interface_remove uid m =
     do {
       (found, m) \<leftarrow> remove_loop uid 0 False m;
       (if found
        then do {
          let m = m\<lparr>interface_count := interface_count m - 1\<rparr>;
          arr \<leftarrow> arr_set (all_interfaces m) (interface_count m) None;
          Some (False, m\<lparr>all_interfaces := arr\<rparr>)
        }
        else Some (False, m))
     }"


section \<open>The server as a platform\<close>

lemma meteo_platform_simps [simp]:
  "DEVICE_ID (meteo_platform lt ifs) = 1" "PACKET_MAX_LENGTH (meteo_platform lt ifs) = 128" "PACKET_MAX_TTL (meteo_platform lt ifs) = 8"
  "RX_QUEUE_SIZE (meteo_platform lt ifs) = 16384" "TX_QUEUE_SIZE (meteo_platform lt ifs) = 16384"
  "ROUTING_TABLE_SIZE (meteo_platform lt ifs) = 16" "HOUR_BUFFER_SIZE (meteo_platform lt ifs) = 128"
  "SAMPLE_RATE_MAX (meteo_platform lt ifs) = 720" "VARIABLES_MAX (meteo_platform lt ifs) = 128"
  "DATA_REQUEST_QUEUE_SIZE (meteo_platform lt ifs) = 32768" "network_send_via (meteo_platform lt ifs) = meteo_send_via"
  "get_all_interfaces (meteo_platform lt ifs) w = ifs" "get_provided_variables (meteo_platform lt ifs) w = None"
  "get_demanded_variables (meteo_platform lt ifs) w = Some demand"
  by (simp_all add: meteo_platform_def disk_platform_def)

lemma platform_ok_meteo_platform [simp]: "platform_ok (meteo_platform lt ifs) f \<longleftrightarrow> set ifs \<subseteq> dom f"
  by (simp add: platform_ok_def demand_def)

text \<open>The invariant does not depend on the clock and on the interfaces that are listed.\<close>

lemma zejf_ok_meteo: "zejf_ok (meteo_platform lt ifs) s \<longleftrightarrow> zejf_ok (meteo_platform lt' ifs') s"
proof -
  have "hour_vars_ok (meteo_platform lt ifs) = hour_vars_ok (meteo_platform lt' ifs')"
    by (simp add: fun_eq_iff hour_vars_ok_def variable_ok_def)
  moreover have "packet_ok (meteo_platform lt ifs) = packet_ok (meteo_platform lt' ifs')" by (simp add: fun_eq_iff packet_ok_def)
  ultimately show ?thesis
    by (simp add: zejf_ok_def net_ok_def routing_ok_def table_rep_def store_ok_def store_rep_def requests_ok_def)
qed

lemma show_int_not_Nil [simp]: "show_int i \<noteq> []"
  by (simp add: show_int_def)

lemma time_request_ok:
  assumes ok: "zejf_ok P s" and pl: "platform_ok P (interfaces s)"
  shows "returns (time_request P d s) (\<lambda>(b, s'). lib_step P s s' \<and> table_entries s' = table_entries s)"
proof -
  let ?t = "take 31 (show_int (current_seconds (world s)))"
  have net: "net_ok P s" using ok by (simp add: zejf_ok_def)
  have len: "length ?t < 2 ^ 16" by simp
  obtain s1 where s1: "network_prepare_packet P d TIME_CHECK (Some ?t) s = Some (Some (own_packet P d TIME_CHECK (Some ?t)), s1)" "mem_frame s s1"
    using network_prepare_packet_ok [OF net_okD(1) [OF net], of "Some ?t" P d TIME_CHECK] len unfolding returns_iff by auto
  have net1: "net_ok P s1" "interfaces s1 = interfaces s" using s1(2) net_ok_mem [OF net] by (auto elim!: mem_frameD)
  have "packet_ok P (interfaces s1) (own_packet P d TIME_CHECK (Some ?t))" by (rule packet_ok_own [OF pl]) (use len in auto)
  then have send: "returns (network_send_packet P (Some (own_packet P d TIME_CHECK (Some ?t))) time s1) (\<lambda>(e, s'). lib_step P s s' \<and> table_entries s' = table_entries s)" for time
    by (rule returns_weaken [OF send_own_ok [OF net1(1)]])
      (auto intro!: net_lib_step [OF ok] tx_net_frame [OF tx_frame_trans [OF mem_tx_frame [OF s1(2)]]]
        dest: tx_frame_simps(1) [OF tx_frame_trans [OF mem_tx_frame [OF s1(2)]]])
  have "returns (do { (rv, s) \<leftarrow> network_send_packet P (Some (own_packet P d TIME_CHECK (Some ?t))) time s1; Some (rv = ZEJF_OK, s) })
     (\<lambda>(b, s'). lib_step P s s' \<and> table_entries s' = table_entries s)" for time
    by (rule returns_bindI [OF send]) auto
  then show ?thesis by (simp add: time_request_def snprintf_def s1(1) del: One_nat_def)
qed

interpretation meteo_handler: packet_handler "meteo_platform lt ifs" "network_process_packet (meteo_platform lt ifs)" for lt ifs
proof
  fix s and p :: Packet and t :: string
  assume ok: "zejf_ok (meteo_platform lt ifs) s" and pl: "platform_ok (meteo_platform lt ifs) (interfaces s)" and t: "message p = Some t"
  let ?P = "meteo_platform lt ifs"
  have "returns (do { (_, s) \<leftarrow> time_request ?P (pkt_from p) s; Some s }) (\<lambda>s'. lib_step ?P s s' \<and> table_entries s' = table_entries s)"
    by (rule returns_bindI [OF time_request_ok [OF ok pl]]) auto
  moreover have "lib_step ?P s (s\<lparr>world := w\<rparr>)" for w using ok by (simp add: lib_step_def zejf_ok_def store_ok_def requests_ok_def)
  ultimately show "returns (network_process_packet ?P p s) (\<lambda>s'. lib_step ?P s s' \<and> table_entries s' = table_entries s)"
    using lib_step_refl [OF ok] t by (simp add: network_process_packet_def)
qed

section \<open>The list of interfaces\<close>

definition uid_of :: "'z meteo_scheme \<Rightarrow> addr \<Rightarrow> int" where
  "uid_of m a = if_uid (the (interfaces (lib m) a))"

definition ifs_rep :: "'z meteo_scheme \<Rightarrow> addr list \<Rightarrow> bool" where
  "ifs_rep m as \<longleftrightarrow>
     (\<exists>rest. all_interfaces m = map Some as @ rest \<and> length as + length rest = INTERFACES_MAX) \<and> interface_count m = length as"

text \<open>Every listed interface is alive and has a number of its own, below \<open>next_uid\<close>.\<close>

definition ifs_ok :: "'z meteo_scheme \<Rightarrow> addr list \<Rightarrow> bool" where
  "ifs_ok m as \<longleftrightarrow> ifs_rep m as \<and> set as \<subseteq> dom (interfaces (lib m)) \<and> distinct (map (uid_of m) as) \<and> (\<forall>a\<in>set as. uid_of m a < next_uid m)"

lemma ifs_rep_interfaces: "ifs_rep m as \<Longrightarrow> meteo_interfaces m = as"
  by (auto simp: ifs_rep_def meteo_interfaces_def)

lemma ifs_ok_distinct: "ifs_ok m as \<Longrightarrow> distinct as"
  by (simp add: ifs_ok_def distinct_map)

text \<open>What the functions of the list may change, in the server this record is a part of.\<close>

definition meteo_frame :: "'z meteo_scheme \<Rightarrow> 'z meteo_scheme \<Rightarrow> bool" where
  "meteo_frame m m' \<longleftrightarrow>
     m' = m\<lparr>lib := lib m', all_interfaces := all_interfaces m', interface_count := interface_count m', next_uid := next_uid m'\<rparr>"

lemma interface_add_ok:
  assumes ok: "ifs_ok m as" and a: "interfaces (lib m) a = Some i" "a \<notin> set as" and uid: "next_uid m < 2 ^ 31 - 1"
  shows "\<exists>m'. interface_add a m = Some (length as < INTERFACES_MAX, m') \<and> meteo_frame m m' \<and>
     (if length as < INTERFACES_MAX
      then ifs_ok m' (as @ [a]) \<and> lib m' = (lib m)\<lparr>interfaces := (interfaces (lib m))(a \<mapsto> i\<lparr>if_uid := next_uid m\<rparr>)\<rparr> \<and> next_uid m' = next_uid m + 1
      else m' = m)"
proof (cases "length as < INTERFACES_MAX")
  case True
  obtain rest where rest: "all_interfaces m = map Some as @ rest" "length as + length rest = INTERFACES_MAX" "interface_count m = length as"
    using ok by (auto simp: ifs_ok_def ifs_rep_def)
  then obtain x xs where x: "rest = x # xs" using True by (cases rest) auto
  have arr: "arr_set (all_interfaces m) (interface_count m) (Some a) = Some (map Some as @ Some a # xs)"
    using rest x by (simp add: list_update_append)
  let ?m = "m\<lparr>lib := (lib m)\<lparr>interfaces := (interfaces (lib m))(a \<mapsto> i\<lparr>if_uid := next_uid m\<rparr>)\<rparr>,
     next_uid := next_uid m + 1, all_interfaces := map Some as @ Some a # xs, interface_count := Suc (interface_count m)\<rparr>"
  have same: "uid_of ?m b = uid_of m b" if "b \<in> set as" for b using that a(2) by (auto simp: uid_of_def)
  have new: "uid_of ?m a = next_uid m" by (simp add: uid_of_def)
  have old: "set as \<subseteq> dom (interfaces (lib m))" "distinct (map (uid_of m) as)" "\<And>b. b \<in> set as \<Longrightarrow> uid_of m b < next_uid m"
    using ok by (simp_all add: ifs_ok_def)
  have "map (uid_of ?m) as = map (uid_of m) as" using same by (rule map_cong [OF refl])
  then have "distinct (map (uid_of ?m) (as @ [a]))" using old(2,3) new by (simp only: map_append distinct_append) force
  moreover have "uid_of ?m b < next_uid ?m" if "b \<in> set (as @ [a])" for b using that old(3) [of b] same [of b] new by fastforce
  moreover have "ifs_rep ?m (as @ [a])" using rest x by (auto simp: ifs_rep_def)
  moreover have "set (as @ [a]) \<subseteq> dom (interfaces (lib ?m))" using old(1) by auto
  ultimately have "ifs_ok ?m (as @ [a])" unfolding ifs_ok_def by blast
  moreover have "meteo_frame m ?m" unfolding meteo_frame_def by (rule meteo.equality) simp_all
  ultimately show ?thesis using True rest(3) a(1) uid arr by (auto simp: interface_add_def)
next
  case False
  then show ?thesis using ok by (auto simp: interface_add_def ifs_ok_def ifs_rep_def meteo_frame_def)
qed

subsection \<open>Removing\<close>

lemma remove_step_skip:
  assumes "all_interfaces m ! i = Some b" and "i < length (all_interfaces m)" and "b \<in> dom (interfaces (lib m))" and "uid_of m b \<noteq> uid"
  shows "remove_step uid i found m = (if found \<and> i < interface_count m - 1
     then do { following \<leftarrow> arr_get (all_interfaces m) (Suc i); arr \<leftarrow> arr_set (all_interfaces m) i following; Some (found, m\<lparr>all_interfaces := arr\<rparr>) }
     else Some (found, m))"
  using assms by (auto simp: remove_step_def uid_of_def)

lemma remove_loop_before:
  assumes rep: "ifs_rep m (xs @ ys)" and live: "set xs \<subseteq> dom (interfaces (lib m))" and uid: "uid \<notin> uid_of m ` set xs"
  shows "i \<le> length xs \<Longrightarrow> remove_loop uid i False m = remove_loop uid (length xs) False m"
proof (induction "length xs - i" arbitrary: i)
  case 0
  then show ?case by simp
next
  case (Suc x)
  then have i: "i < length xs" by simp
  then have "all_interfaces m ! i = Some (xs ! i)" "i < length (all_interfaces m)" "i < interface_count m"
    using rep by (auto simp: ifs_rep_def nth_append)
  moreover have "xs ! i \<in> dom (interfaces (lib m))" "uid_of m (xs ! i) \<noteq> uid" using nth_mem [OF i] live uid by auto
  ultimately have "remove_step uid i False m = Some (False, m)" "i < interface_count m" by (simp_all add: remove_step_skip)
  then have "remove_loop uid i False m = remove_loop uid (Suc i) False m" by (subst remove_loop.simps) simp
  also have "\<dots> = remove_loop uid (length xs) False m" by (rule Suc.hyps(1)) (use Suc.hyps(2) i in auto)
  finally show ?case .
qed

text \<open>The list while the entries \<open>ys\<close> behind \<open>a\<close> move down, \<open>j\<close> of them already.\<close>

definition shifted :: "addr list \<Rightarrow> addr \<Rightarrow> addr list \<Rightarrow> nat \<Rightarrow> addr list" where
  "shifted xs a ys j = xs @ take j ys @ drop j (a # ys)"

lemma length_shifted [simp]: "j \<le> length ys \<Longrightarrow> length (shifted xs a ys j) = Suc (length xs + length ys)"
  by (simp add: shifted_def)

lemma shifted_nth: "j \<le> length ys \<Longrightarrow> shifted xs a ys j ! (length xs + j) = (a # ys) ! j"
  by (simp add: shifted_def nth_append)

lemma shifted_Suc: "j < length ys \<Longrightarrow> (shifted xs a ys j)[length xs + j := shifted xs a ys j ! Suc (length xs + j)] = shifted xs a ys (Suc j)"
proof -
  assume j: "j < length ys"
  then have d: "drop j (a # ys) = (a # ys) ! j # drop j ys" by (metis Cons_nth_drop_Suc drop_Suc_Cons length_Cons less_SucI)
  have "shifted xs a ys j ! Suc (length xs + j) = ys ! j" using j by (simp add: shifted_def nth_append Suc_diff_le)
  then show ?thesis using j by (simp add: shifted_def d list_update_append take_Suc_conv_app_nth)
qed

lemma shift_step:
  assumes all: "all_interfaces m = map Some (shifted xs a ys j) @ rest" and cnt: "interface_count m = Suc (length xs + length ys)" and j: "j \<le> length ys"
  shows "(if length xs + j < interface_count m - 1
     then do { following \<leftarrow> arr_get (all_interfaces m) (Suc (length xs + j)); arr \<leftarrow> arr_set (all_interfaces m) (length xs + j) following; Some (True, m\<lparr>all_interfaces := arr\<rparr>) }
     else Some (True, m)) = Some (True, m\<lparr>all_interfaces := map Some (shifted xs a ys (min (Suc j) (length ys))) @ rest\<rparr>)"
proof (cases "j < length ys")
  case True
  then have "map Some (shifted xs a ys (Suc j)) = (map Some (shifted xs a ys j))[length xs + j := Some (shifted xs a ys j ! Suc (length xs + j))]"
    by (simp add: map_update shifted_Suc [symmetric])
  with True all cnt show ?thesis by (simp add: nth_append list_update_append min_def Suc_le_eq)
next
  case False
  with j have "j = length ys" by simp
  with all cnt show ?thesis by simp
qed

lemma remove_loop_behind:
  assumes "\<forall>b\<in>set ys. b \<in> dom (interfaces (lib m)) \<and> uid_of m b \<noteq> uid" and "interface_count m = Suc (length xs + length ys)"
    and "all_interfaces m = map Some (shifted xs a ys (min j (length ys))) @ rest" and "0 < j" and "j \<le> Suc (length ys)"
  shows "remove_loop uid (length xs + j) True m = Some (True, m\<lparr>all_interfaces := map Some (shifted xs a ys (length ys)) @ rest\<rparr>)"
  using assms
proof (induction "Suc (length ys) - j" arbitrary: j m)
  case 0
  then have "j = Suc (length ys)" by simp
  with 0 show ?case by (subst remove_loop.simps) simp
next
  case (Suc x)
  then have j: "j \<le> length ys" by simp
  then have all: "all_interfaces m = map Some (shifted xs a ys j) @ rest" using Suc.prems(3) by (simp add: min_absorb1)
  obtain b where b: "(a # ys) ! j = b" "b \<in> set ys" using Suc.prems(4) j by (cases j) auto
  have "all_interfaces m ! (length xs + j) = Some b" "length xs + j < length (all_interfaces m)"
    using j b by (simp_all add: all nth_append shifted_nth)
  then have "remove_step uid (length xs + j) True m = Some (True, m\<lparr>all_interfaces := map Some (shifted xs a ys (min (Suc j) (length ys))) @ rest\<rparr>)"
    using shift_step [OF all Suc.prems(2) j] Suc.prems(1) b(2) by (subst remove_step_skip [of m _ b]) auto
  moreover have "remove_loop uid (length xs + Suc j) True (m\<lparr>all_interfaces := map Some (shifted xs a ys (min (Suc j) (length ys))) @ rest\<rparr>) =
      Some (True, m\<lparr>all_interfaces := map Some (shifted xs a ys (length ys)) @ rest\<rparr>)"
    using Suc.hyps(1) [of "Suc j" "m\<lparr>all_interfaces := map Some (shifted xs a ys (min (Suc j) (length ys))) @ rest\<rparr>"] Suc.hyps(2) Suc.prems
    by (auto simp: uid_of_def)
  ultimately show ?case using j Suc.prems(2) by (subst remove_loop.simps) simp
qed


lemma drop_length_last: "drop (length ys) (a # ys) = [last (a # ys)]"
  by (induction ys arbitrary: a) auto

lemma interface_remove_ok:
  assumes ok: "ifs_ok m (xs @ a # ys)" and net: "net_ok P (lib m)"
    and first: "\<And>p ps. queue_items (tx_queue (lib m)) = p # ps \<Longrightarrow> \<not> uses_interface a p"
  shows "\<exists>m'. interface_remove (uid_of m a) m = Some (False, m') \<and> ifs_ok m' (xs @ ys) \<and> meteo_frame m m' \<and> interface_removed a (lib m) = Some (lib m') \<and>
     net_ok P (lib m') \<and> net_frame (lib m) (lib m') \<and> interfaces (lib m') = interfaces (lib m) \<and> next_uid m' = next_uid m"
proof -
  let ?uid = "uid_of m a"
  obtain rest where rest: "all_interfaces m = map Some (xs @ a # ys) @ rest" "Suc (length xs + length ys) + length rest = INTERFACES_MAX"
    "interface_count m = Suc (length xs + length ys)" and rep: "ifs_rep m (xs @ a # ys)" using ok by (auto simp: ifs_ok_def ifs_rep_def)
  have live: "set (xs @ a # ys) \<subseteq> dom (interfaces (lib m))" and dist: "distinct (map (uid_of m) (xs @ a # ys))" using ok by (simp_all add: ifs_ok_def)
  then obtain f where f: "interfaces (lib m) a = Some f" by auto
  obtain s where s: "interface_removed a (lib m) = Some s" "net_ok P s" "net_frame (lib m) s" "interfaces s = interfaces (lib m)"
    using interface_removed_ok [OF net f] first unfolding returns_iff by blast
  let ?m1 = "m\<lparr>lib := s\<rparr>"
  have same: "uid_of ?m1 = uid_of m" by (simp add: uid_of_def s(4) fun_eq_iff)
  have all: "all_interfaces ?m1 = map Some (shifted xs a ys 0) @ rest" "interface_count ?m1 = Suc (length xs + length ys)"
    using rest by (simp_all add: shifted_def)
  have behind: "\<forall>b\<in>set ys. b \<in> dom (interfaces (lib (?m1\<lparr>all_interfaces := arr\<rparr>))) \<and> uid_of (?m1\<lparr>all_interfaces := arr\<rparr>) b \<noteq> ?uid" for arr
  proof
    fix b
    assume "b \<in> set ys"
    moreover have "uid_of (?m1\<lparr>all_interfaces := arr\<rparr>) b = uid_of m b" by (simp add: uid_of_def s(4))
    ultimately show "b \<in> dom (interfaces (lib (?m1\<lparr>all_interfaces := arr\<rparr>))) \<and> uid_of (?m1\<lparr>all_interfaces := arr\<rparr>) b \<noteq> ?uid"
      using live dist s(4) by (auto simp: image_iff)
  qed
  have "remove_loop ?uid 0 False m = remove_loop ?uid (length xs) False m"
    by (rule remove_loop_before [OF rep]) (use live dist in auto)
  moreover have "remove_step ?uid (length xs) False m = Some (True, ?m1\<lparr>all_interfaces := map Some (shifted xs a ys (min 1 (length ys))) @ rest\<rparr>)"
    using shift_step [OF all] f s(1) rest by (cases ys) (simp_all add: remove_step_def uid_of_def nth_append)
  moreover have "remove_loop ?uid (length xs + 1) True (?m1\<lparr>all_interfaces := map Some (shifted xs a ys (min 1 (length ys))) @ rest\<rparr>) =
      Some (True, ?m1\<lparr>all_interfaces := map Some (shifted xs a ys (length ys)) @ rest\<rparr>)"
    using remove_loop_behind [OF behind [of "map Some (shifted xs a ys (min 1 (length ys))) @ rest"], of xs a 1 rest] all(2) by simp
  ultimately have loop: "remove_loop ?uid 0 False m = Some (True, ?m1\<lparr>all_interfaces := map Some (shifted xs a ys (length ys)) @ rest\<rparr>)"
    using rest(3) by (subst (asm) (2) remove_loop.simps) simp
  let ?m2 = "?m1\<lparr>all_interfaces := map Some (xs @ ys) @ None # rest, interface_count := length xs + length ys\<rparr>"
  have "map Some (shifted xs a ys (length ys)) @ rest = map Some (xs @ ys) @ Some (last (a # ys)) # rest"
    by (simp add: shifted_def drop_length_last)
  then have "interface_remove ?uid m = Some (False, ?m2)"
    using rest(3) by (simp add: interface_remove_def loop list_update_append Let_def)
  moreover have "uid_of ?m2 = uid_of m" by (simp add: uid_of_def s(4) fun_eq_iff)
  moreover have "ifs_rep ?m2 (xs @ ys)" using rest(2) by (simp add: ifs_rep_def)
  moreover have "meteo_frame m ?m2" unfolding meteo_frame_def by (rule meteo.equality) simp_all
  ultimately show ?thesis using ok s unfolding ifs_ok_def by (intro exI [of _ ?m2]) auto
qed

lemma interface_remove_unknown:
  assumes "ifs_ok m as" and "uid \<notin> uid_of m ` set as"
  shows "interface_remove uid m = Some (False, m)"
proof -
  have "remove_loop uid 0 False m = remove_loop uid (length as) False m"
    by (rule remove_loop_before [of m as "[]"]) (use assms in \<open>auto simp: ifs_ok_def\<close>)
  also have "\<dots> = Some (False, m)" using assms(1) by (subst remove_loop.simps) (simp add: ifs_ok_def ifs_rep_def)
  finally show ?thesis by (simp add: interface_remove_def)
qed

section \<open>The threads\<close>

text \<open>One round of \<open>run_timer\<close>, a second after the one before.\<close>

definition timer_check :: "meteo_world platform \<Rightarrow> int \<Rightarrow> u32 \<Rightarrow> meteo_world zejf \<Rightarrow> meteo_world zejf option" where
  "timer_check P millis hs s =
     run_data_check P (current_hours (world s)) (word_of_int (millis mod int HOUR)) hs (word_of_int millis) s"

definition timer_announce :: "meteo_world platform \<Rightarrow> u32 \<Rightarrow> meteo_world zejf \<Rightarrow> meteo_world zejf option" where
  "timer_announce P millis s =
     do {
       (_, s) \<leftarrow> network_send_routing_info P millis s;
       s \<leftarrow> routing_table_check P millis s;
       (_, s) \<leftarrow> network_send_demand_info P millis s;
       Some s
     }"

definition timer_round :: "meteo_world platform \<Rightarrow> int \<Rightarrow> meteo_world zejf \<Rightarrow> meteo_world zejf option" where
  "timer_round P count s =
     do {
       let millis = current_millis (world s);
       s \<leftarrow> (if count mod 10 = 0 then timer_announce P (word_of_int millis) s else Some s);
       s \<leftarrow> (if (count - 5) mod 30 = 0 \<and> 5 \<le> count then data_save P s else Some s);
       s \<leftarrow> (if count mod (60 * 30) = 0 then timer_check P millis 1 s else Some s);
       (if count mod (6 * 60 * 60) = 0 \<or> count = 30 \<or> count = 120 then timer_check P millis 36 s else Some s)
     }"

text \<open>One round of \<open>packet_sender_start\<close>; \<open>n\<close> is what is left of the 10000 iterations.\<close>

definition sender_busy :: "meteo_world zejf \<Rightarrow> bool option" where
  "sender_busy s = do { packets \<leftarrow> network_has_packets s; (if packets then Some True else data_requests_ready s) }"

definition sender_step :: "meteo_world platform \<Rightarrow> u32 \<Rightarrow> meteo_world zejf \<Rightarrow> meteo_world zejf option" where
  "sender_step P millis s =
     do {
       s \<leftarrow> network_process_packets P (network_process_packet P) millis s;
       packets \<leftarrow> network_has_packets s;
       (if packets then Some s else data_requests_process P millis s)
     }"

primrec sender_loop :: "meteo_world platform \<Rightarrow> u32 \<Rightarrow> nat \<Rightarrow> meteo_world zejf \<Rightarrow> meteo_world zejf option" where
  "sender_loop P millis 0 s = do { _ \<leftarrow> sender_busy s; Some s }"
| "sender_loop P millis (Suc n) s =
     do { busy \<leftarrow> sender_busy s; (if busy then do { s \<leftarrow> sender_step P millis s; sender_loop P millis n s } else Some s) }"

definition packet_sender_round :: "meteo_world platform \<Rightarrow> meteo_world zejf \<Rightarrow> meteo_world zejf option" where
  "packet_sender_round P s = sender_loop P (word_of_int (current_millis (world s))) 10000 s"

lemma hour_part: "unat (word_of_int (i mod int HOUR) :: u32) < HOUR"
proof -
  have "0 \<le> i mod int HOUR" "i mod int HOUR < int HOUR" by simp_all
  then have "uint (word_of_int (i mod int HOUR) :: u32) = i mod int HOUR" by (simp add: word_of_int_inverse [symmetric] uint_word_of_int take_bit_int_eq_self)
  with \<open>i mod int HOUR < int HOUR\<close> show ?thesis by (simp add: unat_eq_nat_uint nat_less_iff)
qed

lemma lib_call:
  assumes st: "lib_step (meteo_platform lt ifs) s u" and live: "set ifs \<subseteq> dom (interfaces s)" and al: "api_allowed c u"
  shows "returns (api_run (meteo_platform lt ifs) (network_process_packet (meteo_platform lt ifs)) c t u) (lib_step (meteo_platform lt ifs) s)"
  using meteo_handler.run_after [OF st _ al] live by simp

lemma timer_announce_ok:
  assumes st: "lib_step (meteo_platform lt ifs) s u" and live: "set ifs \<subseteq> dom (interfaces s)"
  shows "returns (timer_announce (meteo_platform lt ifs) t u) (lib_step (meteo_platform lt ifs) s)"
proof -
  let ?P = "meteo_platform lt ifs"
  note call = lib_call [OF _ live]
  have map_bind: "map_option f m = Option.bind m (\<lambda>x. Some (f x))" for f and m :: "'a option" by (cases m) simp_all
  have "timer_announce ?P t u =
      do { u \<leftarrow> api_run ?P (network_process_packet ?P) Send_Routing_Info t u; u \<leftarrow> api_run ?P (network_process_packet ?P) Table_Check t u;
           api_run ?P (network_process_packet ?P) Send_Demand_Info t u }"
    by (cases "network_send_routing_info ?P t u") (auto simp: timer_announce_def map_bind case_prod_unfold)
  then show ?thesis
    by (simp only:) (rule returns_bindI [OF call [OF st]], simp, rule returns_bindI [OF call], assumption, simp, rule call, simp_all)
qed

lemma timer_check_ok:
  assumes st: "lib_step (meteo_platform lt ifs) s u" and live: "set ifs \<subseteq> dom (interfaces s)"
  shows "returns (timer_check (meteo_platform lt ifs) millis hs u) (lib_step (meteo_platform lt ifs) s)"
  using lib_call [OF st live, of "Run_Check (current_hours (world u)) (word_of_int (millis mod int HOUR)) hs" "word_of_int millis"] hour_part [of millis]
  by (simp add: timer_check_def)

lemma timer_round_ok:
  assumes ok: "zejf_ok (meteo_platform lt ifs) s" and live: "set ifs \<subseteq> dom (interfaces s)"
  shows "returns (timer_round (meteo_platform lt ifs) count s) (lib_step (meteo_platform lt ifs) s)"
proof -
  let ?P = "meteo_platform lt ifs"
  note st = lib_step_refl [OF ok]
  have save: "returns (data_save ?P u) (lib_step ?P s)" if "lib_step ?P s u" for u using lib_call [OF that live, of Save] by simp
  show ?thesis unfolding timer_round_def Let_def
    by (intro returns_bindI [where P = "lib_step ?P s"])
      (simp_all add: st save timer_announce_ok [OF _ live] timer_check_ok [OF _ live])
qed

lemma network_has_packets_ok: "zejf_ok P s \<Longrightarrow> \<exists>b. network_has_packets s = Some b"
proof -
  assume "zejf_ok P s"
  then have ok: "net_ok P s" by (simp add: zejf_ok_def)
  obtain rx where "rx_queue s = Some rx" by (rule net_ok_rx [OF ok])
  moreover obtain tx where "tx_queue s = Some tx" by (rule net_ok_tx [OF ok])
  ultimately show ?thesis by (simp add: network_has_packets_def)
qed

lemma sender_busy_ok: "zejf_ok P s \<Longrightarrow> \<exists>b. sender_busy s = Some b"
  using network_has_packets_ok [of P s]
  by (auto simp: sender_busy_def data_requests_ready_def zejf_ok_def elim!: requests_queue)

lemma sender_step_ok:
  assumes ok: "zejf_ok (meteo_platform lt ifs) s" and live: "set ifs \<subseteq> dom (interfaces s)" and "entries_small s"
  shows "returns (sender_step (meteo_platform lt ifs) t s) (\<lambda>s'. lib_step (meteo_platform lt ifs) s s' \<and> grows s s')"
  unfolding sender_step_def
proof (rule returns_bindI [OF meteo_handler.network_process_packets_ok [OF ok _ assms(3)]])
  let ?P = "meteo_platform lt ifs"
  show "platform_ok ?P (interfaces s)" using live by simp
  fix u
  assume "lib_step ?P s u \<and> grows s u"
  then have u: "lib_step ?P s u" "grows s u" by simp_all
  obtain b where b: "network_has_packets u = Some b" using network_has_packets_ok [OF lib_step_ok [OF u(1)]] by blast
  have "platform_ok ?P (interfaces u)" using u(1) live by (simp add: lib_step_def)
  then have "returns (data_requests_process ?P t u) (\<lambda>s'. lib_step ?P s s' \<and> grows s s')"
    by (intro returns_weaken [OF data_requests_process_ok [OF lib_step_ok [OF u(1)]]])
      (auto intro: lib_step_trans [OF u(1) serve_lib_step] grows_trans [OF u(2)] simp: serve_frame_def table_entries_def)
  with u b show "returns (do { packets \<leftarrow> network_has_packets u; (if packets then Some u else data_requests_process ?P t u) })
     (\<lambda>s'. lib_step ?P s s' \<and> grows s s')" by simp
qed

lemma sender_loop_ok:
  "\<lbrakk>zejf_ok (meteo_platform lt ifs) s; set ifs \<subseteq> dom (interfaces s); vars_within k s; k + n \<le> 65535\<rbrakk> \<Longrightarrow>
   returns (sender_loop (meteo_platform lt ifs) t n s) (lib_step (meteo_platform lt ifs) s)"
proof (induction n arbitrary: s k)
  case 0
  then show ?case using sender_busy_ok [OF 0(1)] by (auto simp: lib_step_refl)
next
  case (Suc n)
  let ?P = "meteo_platform lt ifs"
  obtain b where b: "sender_busy s = Some b" using sender_busy_ok [OF Suc.prems(1)] by blast
  have small: "entries_small s" using vars_within_small [OF Suc.prems(3)] Suc.prems(4) by simp
  have "returns (do { s \<leftarrow> sender_step ?P t s; sender_loop ?P t n s }) (lib_step ?P s)"
  proof (rule returns_bindI [OF sender_step_ok [OF Suc.prems(1,2) small]])
    fix u
    assume "lib_step ?P s u \<and> grows s u"
    then have u: "lib_step ?P s u" "grows s u" by simp_all
    have "returns (sender_loop ?P t n u) (lib_step ?P u)"
      by (rule Suc.IH [of u "Suc k"]) (use u Suc.prems in \<open>auto simp: lib_step_def grows_def\<close>)
    then show "returns (sender_loop ?P t n u) (lib_step ?P s)" by (rule returns_weaken) (rule lib_step_trans [OF u(1)])
  qed
  with b Suc.prems(1) show ?case by (simp add: lib_step_refl)
qed

lemma packet_sender_round_ok:
  assumes "zejf_ok (meteo_platform lt ifs) s" and "set ifs \<subseteq> dom (interfaces s)" and "vars_within 55535 s"
  shows "returns (packet_sender_round (meteo_platform lt ifs) s) (lib_step (meteo_platform lt ifs) s)"
  unfolding packet_sender_round_def by (rule sender_loop_ok [OF assms]) simp

end
