(* ===== verification/Meteo_Input.thy ===== *)
theory Meteo_Input
  imports Meteo
begin


text \<open>
  How the server cuts its input into packets and commands: the serial reader of \<open>serial.c\<close>, the reader
  of a client of \<open>server.c\<close> and the command line of \<open>zejf_meteo.c\<close>.  The buffers are fixed arrays, so an
  index outside is undefined behaviour.
\<close>

section \<open>The serial port\<close>

abbreviation (input) LINE_BUFFER_SIZE :: nat where "LINE_BUFFER_SIZE \<equiv> 128"

text \<open>
  The body of the loop of \<open>run_reader\<close> over the bytes read.  \<open>accept\<close> is the call of
  \<open>network_accept\<close> on the bytes before the terminating zero.
\<close>

definition reader_byte ::
  "(string \<Rightarrow> 's \<Rightarrow> 's option) \<Rightarrow> char \<Rightarrow> string \<times> nat \<Rightarrow> 's \<Rightarrow> ((string \<times> nat) \<times> 's) option"
where
  "reader_byte accept c r s =
     (case r of (line_buffer, line_buffer_ptr) \<Rightarrow>
        do {
          line_buffer \<leftarrow> arr_set line_buffer line_buffer_ptr c;
          (if c = NL
           then
             (case line_buffer_ptr of
                0 \<Rightarrow> None
              | Suc k \<Rightarrow>
                  do {
                    line_buffer \<leftarrow> arr_set line_buffer k NUL;
                    first \<leftarrow> arr_get line_buffer 0;
                    s \<leftarrow> (if first = CHR ''{'' then accept (take k line_buffer) s else Some s);
                    Some ((line_buffer, 0), s)
                  })
           else Some ((line_buffer, if Suc line_buffer_ptr = LINE_BUFFER_SIZE - 1 then 0 else Suc line_buffer_ptr), s))
        })"

primrec reader_bytes ::
  "(string \<Rightarrow> 's \<Rightarrow> 's option) \<Rightarrow> string \<Rightarrow> string \<times> nat \<Rightarrow> 's \<Rightarrow> ((string \<times> nat) \<times> 's) option"
where
  "reader_bytes accept [] r s = Some (r, s)"
| "reader_bytes accept (c # cs) r s = do { (r, s) \<leftarrow> reader_byte accept c r s; reader_bytes accept cs r s }"

definition reader_start :: "string \<times> nat" where
  "reader_start = (replicate LINE_BUFFER_SIZE NUL, 0)"

subsection \<open>What the reader does\<close>

primrec accept_all :: "(string \<Rightarrow> 's \<Rightarrow> 's option) \<Rightarrow> string list \<Rightarrow> 's \<Rightarrow> 's option" where
  "accept_all accept [] s = Some s"
| "accept_all accept (l # ls) s = do { s \<leftarrow> accept l s; accept_all accept ls s }"

text \<open>The bytes on which the reader stays inside its buffer, from a position on.\<close>

fun reader_fits :: "nat \<Rightarrow> string \<Rightarrow> bool" where
  "reader_fits p [] \<longleftrightarrow> True"
| "reader_fits p (c # cs) \<longleftrightarrow>
     (if c = NL then p \<noteq> 0 \<and> reader_fits 0 cs else reader_fits (if Suc p = LINE_BUFFER_SIZE - 1 then 0 else Suc p) cs)"

definition reader_ok :: "string \<times> nat \<Rightarrow> bool" where
  "reader_ok r \<longleftrightarrow> length (fst r) = LINE_BUFFER_SIZE \<and> snd r < LINE_BUFFER_SIZE - 1"

lemma reader_start_ok [simp]: "reader_ok reader_start"
  by (simp add: reader_start_def reader_ok_def)

lemma reader_byte_newline:
  assumes "reader_ok (b, p)"
  shows "reader_byte accept NL (b, p) s =
    (case p of 0 \<Rightarrow> None
     | Suc k \<Rightarrow> do { s \<leftarrow> (if 0 < k \<and> b ! 0 = CHR ''{'' then accept (take k b) s else Some s);
         Some ((b[p := NL, k := NUL], 0), s) })"
proof (cases p)
  case 0
  with assms show ?thesis by (simp add: reader_byte_def reader_ok_def)
next
  case (Suc k)
  with assms show ?thesis by (cases k) (simp_all add: reader_byte_def reader_ok_def)
qed

lemma reader_byte_other:
  assumes "reader_ok (b, p)" and "c \<noteq> NL"
  shows "reader_byte accept c (b, p) s = Some ((b[p := c], if Suc p = LINE_BUFFER_SIZE - 1 then 0 else Suc p), s)"
  using assms by (simp add: reader_byte_def reader_ok_def)

text \<open>The reader leaves its buffer exactly on an empty line.\<close>

lemma reader_bytes_safe:
  assumes "\<And>l s. I s \<Longrightarrow> returns (accept l s) I"
  shows "reader_ok r \<Longrightarrow> I s \<Longrightarrow> reader_fits (snd r) cs \<Longrightarrow> returns (reader_bytes accept cs r s) (\<lambda>(r', s'). reader_ok r' \<and> I s')"
proof (induction cs arbitrary: r s)
  case Nil
  then show ?case by simp
next
  case (Cons c cs)
  obtain b p where r: "r = (b, p)" by (cases r)
  show ?case
  proof (cases "c = NL")
    case True
    with Cons.prems r obtain k where k: "p = Suc k" "reader_fits 0 cs" by (cases p) auto
    have "returns (if 0 < k \<and> b ! 0 = CHR ''{'' then accept (take k b) s else Some s) I" using assms Cons.prems(2) by simp
    then have "returns (do { s \<leftarrow> (if 0 < k \<and> b ! 0 = CHR ''{'' then accept (take k b) s else Some s);
        reader_bytes accept cs (b[p := NL, k := NUL], 0) s }) (\<lambda>(r', s'). reader_ok r' \<and> I s')"
      by (rule returns_bindI) (use Cons.IH Cons.prems k r in \<open>auto simp: reader_ok_def\<close>)
    with True r k Cons.prems(1) show ?thesis by (simp add: reader_byte_newline)
  next
    case False
    with Cons r show ?thesis by (simp add: reader_byte_other reader_ok_def split: if_splits)
  qed
qed

lemma reader_bytes_outside:
  "reader_ok r \<Longrightarrow> \<not> reader_fits (snd r) cs \<Longrightarrow> reader_bytes accept cs r s = None"
proof (induction cs arbitrary: r s)
  case Nil
  then show ?case by simp
next
  case (Cons c cs)
  obtain b p where r: "r = (b, p)" by (cases r)
  show ?case
  proof (cases "c = NL")
    case True
    show ?thesis
    proof (cases p)
      case 0
      with True r Cons.prems(1) show ?thesis by (simp add: reader_byte_newline)
    next
      case (Suc k)
      with True r Cons have "reader_bytes accept cs (b[p := NL, k := NUL], 0) t = None" for t
        by (intro Cons.IH) (auto simp: reader_ok_def)
      with True r Suc Cons.prems(1) show ?thesis by (simp add: reader_byte_newline)
    qed
  next
    case False
    with Cons r show ?thesis by (simp add: reader_byte_other reader_ok_def split: if_splits)
  qed
qed

text \<open>A line is passed on without its last character, the carriage return a device sends before the newline.\<close>

lemma reader_bytes_append:
  "reader_bytes accept (xs @ ys) r s = do { (r, s) \<leftarrow> reader_bytes accept xs r s; reader_bytes accept ys r s }"
  by (induction xs arbitrary: r s) (auto simp: case_prod_unfold)

lemma reader_bytes_fill:
  assumes "NL \<notin> set xs" and "length b = LINE_BUFFER_SIZE" and "p + length xs < LINE_BUFFER_SIZE - 1"
  shows "reader_bytes accept xs (b, p) s = Some ((take p b @ xs @ drop (p + length xs) b, p + length xs), s)"
  using assms
proof (induction xs arbitrary: b p)
  case Nil
  then show ?case by simp
next
  case (Cons c cs)
  have "reader_bytes accept cs (b[p := c], Suc p) s =
      Some ((take (Suc p) (b[p := c]) @ cs @ drop (Suc p + length cs) (b[p := c]), Suc p + length cs), s)"
    by (rule Cons.IH) (use Cons.prems in auto)
  moreover have "take (Suc p) (b[p := c]) = take p b @ [c]" using Cons.prems by (simp add: take_Suc_conv_app_nth)
  moreover have "reader_byte accept c (b, p) s = Some ((b[p := c], Suc p), s)"
    using Cons.prems reader_byte_other [of b p c accept s] by (auto simp: reader_ok_def)
  ultimately show ?case using Cons.prems by simp
qed

definition serial_line :: "string \<Rightarrow> char \<Rightarrow> string" where
  "serial_line body x = body @ [x, NL]"

lemma reader_line:
  assumes "NL \<notin> set body" and "x \<noteq> NL" and "length body \<le> 125" and "length b = LINE_BUFFER_SIZE"
  shows "\<exists>b'. length b' = LINE_BUFFER_SIZE \<and> reader_bytes accept (serial_line body x) (b, 0) s =
    do { s \<leftarrow> (if body \<noteq> [] \<and> hd body = CHR ''{'' then accept body s else Some s); Some ((b', 0), s) }"
proof -
  let ?xs = "body @ [x]" and ?k = "length body"
  let ?b = "?xs @ drop (length ?xs) b"
  have fill: "reader_bytes accept ?xs (b, 0) s = Some ((?b, Suc ?k), s)"
    using reader_bytes_fill [of ?xs b 0 accept s] assms by simp
  have len: "length ?b = LINE_BUFFER_SIZE" using assms by simp
  have ok: "reader_ok (?b, Suc ?k)" using assms by (simp add: reader_ok_def)
  have "reader_bytes accept (serial_line body x) (b, 0) s = reader_bytes accept (?xs @ [NL]) (b, 0) s" by (simp add: serial_line_def)
  also have "\<dots> = do { (r, s) \<leftarrow> reader_byte accept NL (?b, Suc ?k) s; Some (r, s) }"
    unfolding reader_bytes_append [of accept ?xs] fill by simp
  also have "\<dots> = do { s \<leftarrow> (if body \<noteq> [] \<and> hd body = CHR ''{'' then accept body s else Some s);
      Some ((?b[Suc ?k := NL, ?k := NUL], 0), s) }"
    using reader_byte_newline [OF ok, of accept s] by (cases body) (simp_all add: nth_append)
  finally show ?thesis using len by (intro exI [of _ "?b[Suc ?k := NL, ?k := NUL]"]) simp
qed

lemma reader_lines:
  assumes "\<And>body x. (body, x) \<in> set ls \<Longrightarrow> NL \<notin> set body \<and> x \<noteq> NL \<and> length body \<le> 125" and "length b = LINE_BUFFER_SIZE"
  shows "map_option snd (reader_bytes accept (concat (map (\<lambda>(body, x). serial_line body x) ls)) (b, 0) s) =
    accept_all accept (filter (\<lambda>body. body \<noteq> [] \<and> hd body = CHR ''{'') (map fst ls)) s"
  using assms
proof (induction ls arbitrary: b s)
  case Nil
  then show ?case by simp
next
  case (Cons l ls)
  obtain body x where l: "l = (body, x)" by (cases l)
  have "NL \<notin> set body" "x \<noteq> NL" "length body \<le> 125" using Cons.prems(1) [of body x] l by auto
  then obtain b' where b': "length b' = LINE_BUFFER_SIZE" "reader_bytes accept (serial_line body x) (b, 0) s =
      do { s \<leftarrow> (if body \<noteq> [] \<and> hd body = CHR ''{'' then accept body s else Some s); Some ((b', 0), s) }"
    using reader_line [of body x b accept s] Cons.prems(2) by blast
  have IH: "map_option snd (reader_bytes accept (concat (map (\<lambda>(body, x). serial_line body x) ls)) (b', 0) t) =
    accept_all accept (filter (\<lambda>body. body \<noteq> [] \<and> hd body = CHR ''{'') (map fst ls)) t" for t
    by (rule Cons.IH) (use Cons.prems(1) b'(1) in auto)
  show ?case using IH by (cases "accept body s") (auto simp: l reader_bytes_append b'(2))
qed


section \<open>A client\<close>

abbreviation (input) CLIENT_BUFFER_SIZE :: nat where "CLIENT_BUFFER_SIZE \<equiv> 512"

text \<open>The interface of a client is in the store of interfaces, at the address of the client.\<close>

record Client =
  client_uid :: int
  client_fd :: int
  client_last_seen :: int
  buffer :: string
  buffer_ptr :: nat
  buffer_parse_ptr :: nat

text \<open>\<open>memcpy\<close> of \<open>n\<close> bytes from position \<open>k\<close> to the start; ranges that overlap are undefined.\<close>

definition memcpy_down :: "string \<Rightarrow> nat \<Rightarrow> nat \<Rightarrow> string option" where
  "memcpy_down buf k n = (if k + n \<le> length buf \<and> n \<le> k then Some (take n (drop k buf) @ drop n buf) else None)"

text \<open>The loop of \<open>read_client\<close> over the buffered bytes; \<open>parse\<close> is set to 0 and then incremented after a line.\<close>

function client_parse ::
  "(string \<Rightarrow> 's \<Rightarrow> 's option) \<Rightarrow> string \<Rightarrow> nat \<Rightarrow> nat \<Rightarrow> 's \<Rightarrow> (string \<times> nat \<times> nat \<times> 's) option"
where
  "client_parse accept buf ptr parse s =
     (if parse < ptr
      then do {
        c \<leftarrow> arr_get buf parse;
        (if c = NL
         then do {
           buf \<leftarrow> arr_set buf parse NUL;
           s \<leftarrow> accept (take parse buf) s;
           buf \<leftarrow> (if parse < CLIENT_BUFFER_SIZE then memcpy_down buf (Suc parse) (ptr - parse - 1) else Some buf);
           client_parse accept buf (ptr - Suc parse) 1 s
         }
         else client_parse accept buf ptr (Suc parse) s)
      }
      else Some (buf, ptr, parse, s))"
  by pat_completeness auto
termination
  by (relation "measure (\<lambda>(accept, buf, ptr, parse, s). ptr - parse)") auto

declare client_parse.simps [simp del]

text \<open>What \<open>read_client\<close> does with the bytes of one \<open>read\<close>.\<close>

definition client_receive ::
  "(string \<Rightarrow> 's \<Rightarrow> 's option) \<Rightarrow> int \<Rightarrow> string \<Rightarrow> Client \<Rightarrow> 's \<Rightarrow> (Client \<times> 's) option"
where
  "client_receive accept millis bytes c s =
     (if CLIENT_BUFFER_SIZE - buffer_ptr c < length bytes then None
      else do {
        let buf = take (buffer_ptr c) (buffer c) @ bytes @ drop (buffer_ptr c + length bytes) (buffer c);
        (buf, ptr, parse, s) \<leftarrow> client_parse accept buf (buffer_ptr c + length bytes) (buffer_parse_ptr c) s;
        let (ptr, parse) = (if CLIENT_BUFFER_SIZE \<le> ptr then (0, 0) else (ptr, parse));
        Some (c\<lparr>client_last_seen := millis, buffer := buf, buffer_ptr := ptr, buffer_parse_ptr := parse\<rparr>, s)
      })"

text \<open>
  The loop of \<open>read_client\<close> over the results of \<open>read\<close>: an empty one is an error or the end of the
  stream, after which the client is removed (\<^term>\<open>None\<close>); one that fills the buffer is followed by another.
\<close>

primrec read_client_loop ::
  "(string \<Rightarrow> 's \<Rightarrow> 's option) \<Rightarrow> int \<Rightarrow> string list \<Rightarrow> Client \<Rightarrow> 's \<Rightarrow> (Client option \<times> 's) option"
where
  "read_client_loop accept millis [] c s = Some (Some c, s)"
| "read_client_loop accept millis (bytes # reads) c s =
     (if bytes = [] then Some (None, s)
      else do {
        (c', s) \<leftarrow> client_receive accept millis bytes c s;
        (if length bytes = CLIENT_BUFFER_SIZE - buffer_ptr c then read_client_loop accept millis reads c' s else Some (Some c', s))
      })"

subsection \<open>Framing\<close>

text \<open>The client has received the start \<open>pre\<close> of a line.\<close>

definition client_rep :: "Client \<Rightarrow> string \<Rightarrow> bool" where
  "client_rep c pre \<longleftrightarrow>
     length (buffer c) = CLIENT_BUFFER_SIZE \<and> buffer_ptr c = length pre \<and> length pre < CLIENT_BUFFER_SIZE \<and>
     take (length pre) (buffer c) = pre \<and> NL \<notin> set pre \<and> buffer_parse_ptr c \<le> max 1 (length pre)"

lemma client_parse_skip:
  assumes "k \<le> ptr" and "ptr \<le> length buf" and "\<And>i. parse \<le> i \<Longrightarrow> i < k \<Longrightarrow> buf ! i \<noteq> NL"
  shows "parse \<le> k \<Longrightarrow> client_parse accept buf ptr parse s = client_parse accept buf ptr k s"
  using assms(3)
proof (induction "k - parse" arbitrary: parse)
  case 0
  then show ?case by simp
next
  case (Suc x)
  then have p: "parse < k" "parse < ptr" "parse < length buf" "buf ! parse \<noteq> NL" using assms(1,2) by simp_all
  then have "client_parse accept buf ptr parse s = client_parse accept buf ptr (Suc parse) s"
    by (subst client_parse.simps) simp
  also have "\<dots> = client_parse accept buf ptr k s" by (rule Suc.hyps(1)) (use Suc.hyps(2) Suc.prems p in auto)
  finally show ?case .
qed

lemma client_parse_end: "client_parse accept buf ptr ptr s = Some (buf, ptr, ptr, s)"
  by (subst client_parse.simps) simp

lemma received_nth:
  assumes "client_rep c pre" and "i < length pre + length x" and "NL \<notin> set x"
  shows "(take (buffer_ptr c) (buffer c) @ x @ rest) ! i \<noteq> NL"
proof -
  have "take (buffer_ptr c) (buffer c) @ x @ rest = (pre @ x) @ rest" using assms(1) by (simp add: client_rep_def)
  moreover have "(pre @ x) ! i \<in> set (pre @ x)" using assms(2) by (intro nth_mem) simp
  moreover have "NL \<notin> set (pre @ x)" using assms by (simp add: client_rep_def)
  ultimately show ?thesis using assms(2) by (metis length_append nth_append)
qed

lemma client_receive_part:
  assumes c: "client_rep c pre" and x: "NL \<notin> set x" "x \<noteq> []" "length pre + length x < CLIENT_BUFFER_SIZE"
  shows "\<exists>c'. client_receive accept millis x c s = Some (c', s) \<and> client_rep c' (pre @ x)"
proof -
  let ?ptr = "length pre + length x" and ?buf = "take (buffer_ptr c) (buffer c) @ x @ drop (buffer_ptr c + length x) (buffer c)"
  have D: "length (buffer c) = CLIENT_BUFFER_SIZE" "buffer_ptr c = length pre" "take (length pre) (buffer c) = pre" "NL \<notin> set pre"
    "buffer_parse_ptr c \<le> max 1 (length pre)" using c by (simp_all add: client_rep_def)
  have len: "length ?buf = CLIENT_BUFFER_SIZE" using D x by simp
  have "0 < length x" using x(2) by simp
  then have pp: "buffer_parse_ptr c \<le> ?ptr" using D(5) by linarith
  have "client_parse accept ?buf ?ptr (buffer_parse_ptr c) s = client_parse accept ?buf ?ptr ?ptr s"
    by (rule client_parse_skip) (use pp x(3) len received_nth [OF c _ x(1)] in auto)
  also have "\<dots> = Some (?buf, ?ptr, ?ptr, s)" by (rule client_parse_end)
  finally have parse: "client_parse accept ?buf ?ptr (buffer_parse_ptr c) s = Some (?buf, ?ptr, ?ptr, s)" .
  let ?c = "c\<lparr>client_last_seen := millis, buffer := ?buf, buffer_ptr := ?ptr, buffer_parse_ptr := ?ptr\<rparr>"
  have "client_receive accept millis x c s = Some (?c, s)"
    using parse x(3) D(2) by (simp add: client_receive_def)
  moreover have "client_rep ?c (pre @ x)" using len x D by (simp add: client_rep_def)
  ultimately show ?thesis by blast
qed

lemma client_receive_line:
  assumes c: "client_rep c pre" and x: "NL \<notin> set x" "pre @ x \<noteq> []" "length pre + length x < CLIENT_BUFFER_SIZE"
  shows "\<exists>c'. client_receive accept millis (x @ [NL]) c s = do { s \<leftarrow> accept (pre @ x) s; Some (c', s) } \<and> client_rep c' []"
proof -
  let ?k = "length pre + length x"
  let ?buf = "take (buffer_ptr c) (buffer c) @ (x @ [NL]) @ drop (buffer_ptr c + length (x @ [NL])) (buffer c)"
  have D: "length (buffer c) = CLIENT_BUFFER_SIZE" "buffer_ptr c = length pre" "take (length pre) (buffer c) = pre" "NL \<notin> set pre"
    "buffer_parse_ptr c \<le> max 1 (length pre)" using c by (simp_all add: client_rep_def)
  have len: "length ?buf = CLIENT_BUFFER_SIZE" using D x by simp
  have at: "?buf ! ?k = NL" "take ?k ?buf = pre @ x" using D by (simp_all add: nth_append)
  have "0 < ?k" using x(2) by auto
  then have k: "buffer_parse_ptr c \<le> ?k" using D(5) by linarith
  have skip: "client_parse accept ?buf (Suc ?k) (buffer_parse_ptr c) s = client_parse accept ?buf (Suc ?k) ?k s"
    by (rule client_parse_skip) (use x(3) len k received_nth [OF c _ x(1), where rest = "NL # drop (buffer_ptr c + length (x @ [NL])) (buffer c)"] in auto)
  let ?buf' = "?buf[?k := NUL]"
  have empty: "client_parse accept b 0 (Suc 0) = (\<lambda>t. Some (b, 0, Suc 0, t))" for b by (rule ext) (subst client_parse.simps, simp)
  have hit: "client_parse accept ?buf (Suc ?k) ?k s = do { s \<leftarrow> accept (pre @ x) s; Some (?buf', 0, 1, s) }"
    using at len x(3) by (subst client_parse.simps) (simp add: memcpy_down_def empty)
  have room: "\<not> CLIENT_BUFFER_SIZE - length pre < Suc (length x)" using x(3) by simp
  let ?c = "c\<lparr>client_last_seen := millis, buffer := ?buf', buffer_ptr := 0, buffer_parse_ptr := 1\<rparr>"
  have "client_receive accept millis (x @ [NL]) c s = do { s \<leftarrow> accept (pre @ x) s; Some (?c, s) }"
    using skip hit room D(2) by (simp add: client_receive_def Let_def)
  moreover have "client_rep ?c []" using len by (simp add: client_rep_def)
  ultimately show ?thesis by blast
qed

text \<open>The lines that are complete when the reads \<open>xs\<close> have followed \<open>pre\<close>, if no line ends inside a read.\<close>

fun framed :: "string \<Rightarrow> string list \<Rightarrow> string list" where
  "framed pre [] = []"
| "framed pre (x # xs) = (if last x = NL then (pre @ butlast x) # framed [] xs else framed (pre @ x) xs)"

fun reads_ok :: "string \<Rightarrow> string list \<Rightarrow> bool" where
  "reads_ok pre [] \<longleftrightarrow> True"
| "reads_ok pre (x # xs) \<longleftrightarrow>
     x \<noteq> [] \<and> NL \<notin> set (butlast x) \<and> length (pre @ butlast x) < CLIENT_BUFFER_SIZE \<and>
     (if last x = NL then pre @ butlast x \<noteq> [] \<and> reads_ok [] xs else length (pre @ x) < CLIENT_BUFFER_SIZE \<and> reads_ok (pre @ x) xs)"

primrec client_receives ::
  "(string \<Rightarrow> 's \<Rightarrow> 's option) \<Rightarrow> int \<Rightarrow> string list \<Rightarrow> Client \<Rightarrow> 's \<Rightarrow> (Client \<times> 's) option"
where
  "client_receives accept millis [] c s = Some (c, s)"
| "client_receives accept millis (x # xs) c s = do { (c, s) \<leftarrow> client_receive accept millis x c s; client_receives accept millis xs c s }"

lemma client_framing:
  "client_rep c pre \<Longrightarrow> reads_ok pre xs \<Longrightarrow> map_option snd (client_receives accept millis xs c s) = accept_all accept (framed pre xs) s"
proof (induction pre xs arbitrary: c s rule: framed.induct)
  case (1 pre)
  then show ?case by simp
next
  case (2 pre x xs)
  then have x: "x \<noteq> []" "NL \<notin> set (butlast x)" "length (pre @ butlast x) < CLIENT_BUFFER_SIZE" by auto
  show ?case
  proof (cases "last x = NL")
    case True
    then have split: "x = butlast x @ [NL]" using x(1) by (metis append_butlast_last_id)
    obtain c' where c': "client_receive accept millis (butlast x @ [NL]) c s = do { s \<leftarrow> accept (pre @ butlast x) s; Some (c', s) }" "client_rep c' []"
      using client_receive_line [OF 2(3) x(2), of accept millis s] 2(4) x(3) True by auto
    have "map_option snd (client_receives accept millis xs c' t) = accept_all accept (framed [] xs) t" for t
      using 2(1) [OF True c'(2)] 2(4) True by simp
    then show ?thesis using True c'(1) split [symmetric] by (cases "accept (pre @ butlast x) s") simp_all
  next
    case False
    then have "NL \<notin> set x" using x(1,2) by (metis append_butlast_last_id in_set_conv_decomp set_append Un_iff set_ConsD empty_iff list.set(1))
    then obtain c' where "client_receive accept millis x c s = Some (c', s)" "client_rep c' (pre @ x)"
      using client_receive_part [OF 2(3) _ x(1), of accept millis s] 2(4) False by auto
    with 2(2) [OF False, of c' s] 2(4) False show ?thesis by simp
  qed
qed

text \<open>Two lines in one read, the second longer than the first: the copy overlaps.\<close>

lemma client_overlap:
  assumes c: "client_rep c []" and "NL \<notin> set a" "a \<noteq> []" and "Suc (length a) < length b" and "length (a @ NL # b) \<le> CLIENT_BUFFER_SIZE"
  shows "client_receive accept millis (a @ NL # b) c s = None"
proof -
  let ?x = "a @ NL # b" and ?k = "length a"
  let ?buf = "?x @ drop (length ?x) (buffer c)"
  have D: "length (buffer c) = CLIENT_BUFFER_SIZE" "buffer_ptr c = 0" "buffer_parse_ptr c \<le> 1" using c by (simp_all add: client_rep_def)
  have len: "length ?buf = CLIENT_BUFFER_SIZE" using D assms(5) by simp
  have skip: "client_parse accept ?buf (length ?x) (buffer_parse_ptr c) s = client_parse accept ?buf (length ?x) ?k s"
  proof (rule client_parse_skip)
    show "?buf ! i \<noteq> NL" if "i < ?k" for i
    proof -
      have "?buf ! i = a ! i" using that by (simp add: nth_append)
      moreover have "a ! i \<in> set a" using that by (rule nth_mem)
      ultimately show ?thesis using assms(2) by metis
    qed
    show "buffer_parse_ptr c \<le> ?k" using D(3) assms(3) by (cases a) auto
  qed (use len in auto)
  have "?buf ! ?k = NL" by (simp add: nth_append)
  then have "client_parse accept ?buf (length ?x) ?k s = None"
    using len assms(4) by (subst client_parse.simps) (auto simp: memcpy_down_def bind_eq_None_conv)
  then show ?thesis using skip D assms(5) by (simp add: client_receive_def Let_def)
qed


section \<open>The command line\<close>

abbreviation (input) COMMAND_ARGS_MAX :: nat where "COMMAND_ARGS_MAX \<equiv> 5"

definition is_separator :: "char \<Rightarrow> bool" where
  "is_separator c \<longleftrightarrow> c = CHR '' '' \<or> c = NL"

text \<open>
  The loop of \<open>command_line\<close> over a line: a separator becomes a zero, and the next word starts behind
  it unless the line ends.  \<open>argv\<close> holds positions in the line; a slot that has not been written is
  \<^term>\<open>None\<close>.
\<close>

function tokenise_loop :: "string \<Rightarrow> nat \<Rightarrow> nat \<Rightarrow> nat option list \<Rightarrow> (string \<times> nat \<times> nat option list) option" where
  "tokenise_loop line i argc argv =
     (if i < length line
      then
        (if is_separator (line ! i)
         then do {
           let line = line[i := NUL];
           (argc, argv) \<leftarrow> (if i < length line - 1
                            then do { argv \<leftarrow> arr_set argv (Suc argc) (Some (Suc i)); Some (Suc argc, argv) }
                            else Some (argc, argv));
           (if argc = COMMAND_ARGS_MAX then Some (line, argc, argv) else tokenise_loop line (Suc i) argc argv)
         }
         else tokenise_loop line (Suc i) argc argv)
      else Some (line, argc, argv))"
  by pat_completeness auto
termination
  by (relation "measure (\<lambda>(line, i, argc, argv). length line - i)") auto

declare tokenise_loop.simps [simp del]

definition tokenise :: "string \<Rightarrow> (string \<times> nat \<times> nat option list) option" where
  "tokenise line = tokenise_loop line 0 0 ((replicate COMMAND_ARGS_MAX None)[0 := Some 0])"

text \<open>The string \<open>argv[k]\<close> points to.\<close>

definition argument :: "string \<Rightarrow> nat option list \<Rightarrow> nat \<Rightarrow> string option" where
  "argument line argv k = do { slot \<leftarrow> arr_get argv k; p \<leftarrow> slot; Some (c_string (drop p line)) }"

text \<open>\<open>strtol\<close> with base 10; \<open>errno\<close> is set when the number does not fit a \<open>long\<close>.\<close>

definition parse_int :: "string \<Rightarrow> int option" where
  "parse_int str =
     (case scan_sign (dropWhile is_space str) of
        (neg, t) \<Rightarrow>
          (case t of
             [] \<Rightarrow> None
           | c # _ \<Rightarrow>
               if is_digit c
               then
                 let val = (if neg then - int (fst (scan_digits 0 t)) else int (fst (scan_digits 0 t)))
                 in if - (2 ^ 63) \<le> val \<and> val < 2 ^ 63 then Some val else None
               else None))"

subsection \<open>Words\<close>

primrec split_words :: "string \<Rightarrow> string list" where
  "split_words [] = [[]]"
| "split_words (c # cs) =
     (if is_separator c then [] # split_words cs else (c # hd (split_words cs)) # tl (split_words cs))"

primrec word_starts :: "nat \<Rightarrow> string \<Rightarrow> nat list" where
  "word_starts p [] = []"
| "word_starts p (c # cs) = (if is_separator c then Suc p # word_starts (Suc p) cs else word_starts (Suc p) cs)"

definition blanked :: "string \<Rightarrow> string" where
  "blanked line = map (\<lambda>c. if is_separator c then NUL else c) line"

lemma is_separator_NL [simp]: "is_separator NL"
  by (simp add: is_separator_def)

lemma blanked_simps [simp]: "blanked [] = []" "blanked (c # cs) = (if is_separator c then NUL else c) # blanked cs"
  "blanked (xs @ ys) = blanked xs @ blanked ys" "length (blanked xs) = length xs"
  by (simp_all add: blanked_def)

lemma split_words_not_Nil [simp]: "split_words cs \<noteq> []"
  by (induction cs) simp_all

lemma length_word_starts: "length (word_starts p cs) = length (filter is_separator cs)"
  by (induction cs arbitrary: p) simp_all

definition slots :: "nat list \<Rightarrow> nat option list" where
  "slots ss = map Some ss @ replicate (COMMAND_ARGS_MAX - length ss) None"

lemma slots_set: "length ss < COMMAND_ARGS_MAX \<Longrightarrow> arr_set (slots ss) (length ss) (Some p) = Some (slots (ss @ [p]))"
proof -
  assume l: "length ss < COMMAND_ARGS_MAX"
  then obtain k where k: "COMMAND_ARGS_MAX - length ss = Suc k" by (metis Suc_diff_Suc)
  then have "COMMAND_ARGS_MAX - Suc (length ss) = k" by simp
  with k l show ?thesis by (simp add: slots_def list_update_append)
qed

lemma slots_full: "length ss = COMMAND_ARGS_MAX \<Longrightarrow> arr_set (slots ss) (length ss) x = None"
  by (simp add: slots_def)

lemma tokenise_loop_words:
  "ss \<noteq> [] \<Longrightarrow> length ss \<le> COMMAND_ARGS_MAX \<Longrightarrow>
   tokenise_loop (blanked pre @ body @ [NL]) (length pre) (length ss - 1) (slots ss) =
     (let ss' = ss @ word_starts (length pre) body in
      if length ss' \<le> COMMAND_ARGS_MAX then Some (blanked (pre @ body @ [NL]), length ss' - 1, slots ss') else None)"
proof (induction body arbitrary: pre ss)
  case Nil
  have "tokenise_loop (blanked pre @ [NL]) (length pre) (length ss - 1) (slots ss) =
      tokenise_loop (blanked pre @ [NUL]) (Suc (length pre)) (length ss - 1) (slots ss)"
    using Nil by (subst tokenise_loop.simps) (auto simp: nth_append list_update_append Let_def)
  also have "\<dots> = Some (blanked pre @ [NUL], length ss - 1, slots ss)" by (subst tokenise_loop.simps) simp
  finally show ?case using Nil by simp
next
  case (Cons c body)
  have IH: "tokenise_loop (blanked (pre @ [c]) @ body @ [NL]) (length (pre @ [c])) (length ss' - 1) (slots ss') =
     (let ss'' = ss' @ word_starts (length (pre @ [c])) body in
      if length ss'' \<le> COMMAND_ARGS_MAX then Some (blanked ((pre @ [c]) @ body @ [NL]), length ss'' - 1, slots ss'') else None)"
    if "ss' \<noteq> []" "length ss' \<le> COMMAND_ARGS_MAX" for ss' by (rule Cons.IH [OF that])
  show ?case
  proof (cases "is_separator c")
    case False
    have "tokenise_loop (blanked pre @ (c # body) @ [NL]) (length pre) (length ss - 1) (slots ss) =
        tokenise_loop (blanked (pre @ [c]) @ body @ [NL]) (length (pre @ [c])) (length ss - 1) (slots ss)"
      using False by (subst tokenise_loop.simps) (simp add: nth_append)
    then show ?thesis using IH [OF Cons.prems] False by (simp add: Let_def)
  next
    case sep: True
    obtain n where n: "length ss = Suc n" using Cons.prems(1) by (cases ss) auto
    show ?thesis
    proof (cases "length ss = COMMAND_ARGS_MAX")
      case True
      then have "arr_set (slots ss) (Suc n) x = None" for x using slots_full [OF True] n by simp
      then have "tokenise_loop (blanked pre @ (c # body) @ [NL]) (length pre) (length ss - 1) (slots ss) = None"
        using sep n by (subst tokenise_loop.simps) (simp add: nth_append Let_def)
      with True sep show ?thesis by (simp add: Let_def)
    next
      case False
      then have l: "length ss < COMMAND_ARGS_MAX" using Cons.prems(2) by simp
      have set: "arr_set (slots ss) (Suc n) (Some p) = Some (slots (ss @ [p]))" for p using slots_set [OF l] n by simp
      have "tokenise_loop (blanked pre @ (c # body) @ [NL]) (length pre) (length ss - 1) (slots ss) =
          tokenise_loop (blanked (pre @ [c]) @ body @ [NL]) (length (pre @ [c])) (length (ss @ [Suc (length pre)]) - 1) (slots (ss @ [Suc (length pre)]))"
        using sep n l set by (subst tokenise_loop.simps) (simp add: nth_append list_update_append Let_def)
      then show ?thesis using IH [of "ss @ [Suc (length pre)]"] l sep by (simp add: Let_def)
    qed
  qed
qed

lemma tokenise_words:
  "tokenise (body @ [NL]) =
     (let ss = 0 # word_starts 0 body in
      if length ss \<le> COMMAND_ARGS_MAX then Some (blanked (body @ [NL]), length ss - 1, slots ss) else None)"
proof -
  have "(replicate COMMAND_ARGS_MAX None)[0 := Some 0] = slots [0]" by (simp add: slots_def numeral_eq_Suc)
  with tokenise_loop_words [of "[0]" "[]" body] show ?thesis by (simp add: tokenise_def Let_def)
qed

lemma words_at_starts:
  "NUL \<notin> set body \<Longrightarrow>
   map (\<lambda>p. c_string (drop p (blanked (pre @ body @ [NL])))) (length pre # word_starts (length pre) body) = split_words body"
proof (induction body arbitrary: pre)
  case Nil
  then show ?case by (simp add: c_string_def)
next
  case (Cons c body)
  have IH: "map (\<lambda>p. c_string (drop p (blanked ((pre @ [c]) @ body @ [NL])))) (length (pre @ [c]) # word_starts (length (pre @ [c])) body) = split_words body"
    by (rule Cons.IH) (use Cons.prems in auto)
  show ?case
  proof (cases "is_separator c")
    case True
    with IH show ?thesis by (simp add: c_string_def)
  next
    case False
    have "c_string (drop (length pre) (blanked (pre @ (c # body) @ [NL]))) = c # c_string (drop (length (pre @ [c])) (blanked ((pre @ [c]) @ body @ [NL])))"
      using False Cons.prems by (auto simp: c_string_def)
    moreover have "c_string (drop (length (pre @ [c])) (blanked ((pre @ [c]) @ body @ [NL]))) = hd (split_words body)" using IH by (metis list.sel(1) list.simps(9))
    moreover have "map (\<lambda>p. c_string (drop p (blanked ((pre @ [c]) @ body @ [NL])))) (word_starts (length (pre @ [c])) body) = tl (split_words body)"
      using IH by (metis list.sel(3) list.simps(9))
    ultimately show ?thesis using False by simp
  qed
qed

lemma tokenise_arguments:
  assumes "NUL \<notin> set body" and "length (filter is_separator body) < COMMAND_ARGS_MAX"
  shows "\<exists>line argv. tokenise (body @ [NL]) = Some (line, length (filter is_separator body), argv) \<and>
    (\<forall>k \<le> length (filter is_separator body). argument line argv k = Some (split_words body ! k))"
proof -
  let ?ss = "0 # word_starts 0 body" and ?line = "blanked (body @ [NL])"
  have len: "length ?ss = Suc (length (filter is_separator body))" by (simp add: length_word_starts)
  have t: "tokenise (body @ [NL]) = Some (?line, length (filter is_separator body), slots ?ss)"
    using tokenise_words [of body] assms(2) len by (simp add: Let_def length_word_starts)
  have w: "map (\<lambda>p. c_string (drop p ?line)) ?ss = split_words body" using words_at_starts [OF assms(1), of "[]"] by simp
  have "argument ?line (slots ?ss) k = Some (split_words body ! k)" if "k \<le> length (filter is_separator body)" for k
  proof -
    have k: "k < length ?ss" using that len by simp
    then have "slots ?ss ! k = Some (?ss ! k)" "k < length (slots ?ss)" by (simp_all only: slots_def nth_append length_map nth_map length_append if_True)
    moreover have "c_string (drop (?ss ! k) ?line) = split_words body ! k" using k by (simp add: w [symmetric] del: list.map(2))
    ultimately show ?thesis by (simp add: argument_def)
  qed
  with t show ?thesis by blast
qed

lemma tokenise_overflow:
  assumes "COMMAND_ARGS_MAX \<le> length (filter is_separator body)"
  shows "tokenise (body @ [NL]) = None"
  using assms by (simp add: tokenise_words length_word_starts Let_def)


subsection \<open>Commands\<close>

datatype shown = No_Hour | No_Variable | Samples "u32 list"

primrec read_first :: "nat \<Rightarrow> u32 list \<Rightarrow> u32 list option" where
  "read_first 0 data = Some []"
| "read_first (Suc n) data = do { vs \<leftarrow> read_first n data; v \<leftarrow> arr_get data n; Some (vs @ [v]) }"

text \<open>What \<open>display_data\<close> prints.\<close>

definition display_data ::
  "'w platform \<Rightarrow> u16 \<Rightarrow> u32 \<Rightarrow> 'w zejf \<Rightarrow> (shown \<times> 'w zejf) option"
where
  "display_data P variable hour_num s =
     do {
       (found, s) \<leftarrow> datahour_get P hour_num True False s;
       (case found of
          None \<Rightarrow> Some (No_Hour, s)
        | Some a \<Rightarrow>
            do {
              hour \<leftarrow> hours s a;
              var \<leftarrow> get_variable hour variable;
              (case var of
                 None \<Rightarrow> Some (No_Variable, s)
               | Some k \<Rightarrow>
                   do {
                     var \<leftarrow> arr_get (variables hour) k;
                     samples \<leftarrow> read_first (unat (samples_per_hour (variable_info var))) (var_data var);
                     Some (Samples samples, s)
                   })
            })
     }"

abbreviation (input) DUMMY_ID :: u16 where "DUMMY_ID \<equiv> 42"
abbreviation (input) ONE_PER_MINUTE :: u32 where "ONE_PER_MINUTE \<equiv> 60"

text \<open>
  \<open>arg k\<close> is \<open>argv[k]\<close>; the result says whether to exit and what data is shown, other output is left
  out.  \<open>0x42280000\<close> is the float 42.
\<close>

definition process_command ::
  "meteo_world platform \<Rightarrow> nat \<Rightarrow> (nat \<Rightarrow> string option) \<Rightarrow> meteo_world zejf \<Rightarrow> (bool \<times> shown option \<times> meteo_world zejf) option"
where
  "process_command P argc arg s =
     do {
       cmd \<leftarrow> arg 0;
       (if cmd = ''exit'' then Some (True, None, s)
        else if cmd = ''status''
        then
          (if argc < 1 then Some (False, None, s)
           else do {
             a1 \<leftarrow> arg 1;
             (case parse_int a1 of
                None \<Rightarrow> Some (False, None, s)
              | Some dev \<Rightarrow>
                  do {
                    (packet, s) \<leftarrow> network_prepare_packet P (word_of_int dev) STATUS_REQUEST None s;
                    (_, s) \<leftarrow> network_send_packet P packet (word_of_int (current_millis (world s))) s;
                    Some (False, None, s)
                  })
           })
        else if cmd = ''info'' then Some (False, None, s)
        else if cmd = ''data''
        then
          (if argc < 2 then Some (False, None, s)
           else do {
             a1 \<leftarrow> arg 1;
             (case parse_int a1 of
                None \<Rightarrow> Some (False, None, s)
              | Some variable \<Rightarrow>
                  do {
                    a2 \<leftarrow> arg 2;
                    (case parse_int a2 of
                       None \<Rightarrow> Some (False, None, s)
                     | Some hour_number \<Rightarrow>
                         do {
                           let hour = (if hour_number \<le> 0 then word_of_int hour_number + current_hours (world s) else word_of_int hour_number);
                           (shown, s) \<leftarrow> display_data P (word_of_int variable) hour s;
                           Some (False, Some shown, s)
                         })
                  })
           })
        else if cmd = ''dummy''
        then do {
          (_, s) \<leftarrow> data_log P \<lparr>samples_per_hour = ONE_PER_MINUTE, var_id = DUMMY_ID\<rparr> (current_hours (world s)) 0 0x42280000 0 False s;
          Some (False, None, s)
        }
        else Some (False, None, s))
     }"

text \<open>One line of the command line.\<close>

definition command_line_step ::
  "meteo_world platform \<Rightarrow> string \<Rightarrow> meteo_world zejf \<Rightarrow> (bool \<times> shown option \<times> meteo_world zejf) option"
where
  "command_line_step P line s = do { (line, argc, argv) \<leftarrow> tokenise line; process_command P argc (argument line argv) s }"

subsection \<open>What the commands do\<close>

lemma read_first_ok: "n \<le> length data \<Longrightarrow> read_first n data = Some (take n data)"
  by (induction n) (simp_all add: take_Suc_conv_app_nth)

definition hour_shown :: "DataHour option \<Rightarrow> u16 \<Rightarrow> shown" where
  "hour_shown h vid =
     (case h of None \<Rightarrow> No_Hour
      | Some h \<Rightarrow> (case find_var h vid of None \<Rightarrow> No_Variable | Some v \<Rightarrow> Samples (var_data v)))"

lemma display_data_ok:
  assumes st: "store_ok P s"
  shows "returns (display_data P vid hn s) (\<lambda>(d, s'). store_ok P s' \<and> store_frame s s' \<and>
     (\<exists>r. get_done P hn True False s r s' \<and> d = hour_shown (map_option (hour_at s') r) vid))"
  unfolding display_data_def
proof (rule returns_bindI [OF datahour_get_ok [OF st]], clarify)
  fix r t
  assume t: "store_ok P t" "store_frame s t" "get_done P hn True False s r t"
  let ?Q = "\<lambda>(d, s'). store_ok P s' \<and> store_frame s s' \<and> (\<exists>r. get_done P hn True False s r s' \<and> d = hour_shown (map_option (hour_at s') r) vid)"
  show "returns (case r of None \<Rightarrow> Some (No_Hour, t)
    | Some a \<Rightarrow> do {
        hour \<leftarrow> hours t a; var \<leftarrow> get_variable hour vid;
        (case var of None \<Rightarrow> Some (No_Variable, t)
         | Some k \<Rightarrow> do { var \<leftarrow> arr_get (variables hour) k; samples \<leftarrow> read_first (unat (samples_per_hour (variable_info var))) (var_data var);
             Some (Samples samples, t) }) }) ?Q"
  proof (cases r)
    case None
    with t show ?thesis by (auto simp: hour_shown_def intro!: exI [of _ None])
  next
    case (Some a)
    note a = get_done_cached [OF t(3) [unfolded Some] t(1)]
    obtain k where k: "get_variable (hour_at t a) vid = Some k" "find_var (hour_at t a) vid = map_option ((!) (variables (hour_at t a))) k"
      "\<forall>i. k = Some i \<longrightarrow> i < length (variables (hour_at t a))"
      using get_variable_find [OF a(3), of vid] unfolding returns_iff by auto
    have full: "read_first (unat (samples_per_hour (variable_info (variables (hour_at t a) ! i)))) (var_data (variables (hour_at t a) ! i)) =
        Some (var_data (variables (hour_at t a) ! i))" if "k = Some i" for i
    proof -
      have "variable_ok P (variables (hour_at t a) ! i)" using a(3) k(3) that by (simp add: hour_vars_ok_def)
      then show ?thesis by (simp add: variable_ok_def read_first_ok)
    qed
    have "hour_shown (Some (hour_at t a)) vid = (case k of None \<Rightarrow> No_Variable | Some i \<Rightarrow> Samples (var_data (variables (hour_at t a) ! i)))"
      using k(2) by (cases k) (simp_all add: hour_shown_def)
    with t Some k(1,3) a(2) full show ?thesis by (cases k) (auto intro!: exI [of _ "Some a"])
  qed
qed

lemma display_data_safe:
  assumes ok: "zejf_ok P s"
  shows "returns (display_data P vid hn s) (\<lambda>(d, s'). lib_step P s s')"
proof -
  have D: "net_ok P s" "store_ok P s" using ok by (simp_all add: zejf_ok_def)
  show ?thesis
  proof (rule returns_weaken [OF display_data_ok [OF D(2)]], clarify)
    fix s'
    assume s': "store_ok P s'" "store_frame s s'"
    show "lib_step P s s'" by (rule data_lib_step [OF ok store_data_frame [OF s'(2)] store_frame_net_ok [OF s'(2) D(1)] s'(1)])
  qed
qed

lemma status_request_ok:
  assumes ok: "zejf_ok P s" and pl: "platform_ok P (interfaces s)"
  shows "returns (do { (packet, s) \<leftarrow> network_prepare_packet P d STATUS_REQUEST None s;
      (_, s) \<leftarrow> network_send_packet P packet (time s) s; Some (False, None, s) }) (\<lambda>(b, d, s'). lib_step P s s')"
proof -
  have net: "net_ok P s" using ok by (simp add: zejf_ok_def)
  obtain s1 where s1: "network_prepare_packet P d STATUS_REQUEST None s = Some (Some (own_packet P d STATUS_REQUEST None), s1)" "mem_frame s s1"
    using network_prepare_packet_ok [OF net_okD(1) [OF net], of None P d STATUS_REQUEST] unfolding returns_iff by auto
  have net1: "net_ok P s1" using s1(2) net_ok_mem [OF net] by (auto elim!: mem_frameD)
  have "packet_ok P (interfaces s1) (own_packet P d STATUS_REQUEST None)" by (rule packet_ok_own [OF pl]) auto
  then have "returns (network_send_packet P (Some (own_packet P d STATUS_REQUEST None)) (time s1) s1) (\<lambda>(e, s'). lib_step P s s')"
    by (rule returns_weaken [OF send_own_ok [OF net1]])
      (auto intro!: net_lib_step [OF ok] tx_net_frame [OF tx_frame_trans [OF mem_tx_frame [OF s1(2)]]])
  then have "returns (do { (_, s) \<leftarrow> network_send_packet P (Some (own_packet P d STATUS_REQUEST None)) (time s1) s1; Some (False, None, s) })
      (\<lambda>(b, d, s'). lib_step P s s')" by (rule returns_bindI) auto
  then show ?thesis by (simp add: s1(1))
qed

lemma process_command_ok:
  assumes ok: "zejf_ok P s" and pl: "platform_ok P (interfaces s)" and arg: "\<And>k. k \<le> argc \<Longrightarrow> \<exists>a. arg k = Some a"
  shows "returns (process_command P argc arg s) (\<lambda>(b, d, s'). lib_step P s s')"
proof -
  have okD: "net_ok P s" "store_ok P s" using ok by (simp_all add: zejf_ok_def)
  obtain cmd where cmd: "arg 0 = Some cmd" using arg [of 0] by auto
  have log: "returns (do { (_, s) \<leftarrow> data_log P v h n x t an s; Some (False, None, s) }) (\<lambda>(b, d, s'). lib_step P s s')" for v h n x t an
    by (rule returns_bindI [OF data_log_ok [OF okD pl]]) (auto intro: data_lib_step [OF ok])
  have show_it: "returns (do { (shown, s) \<leftarrow> display_data P v h s; Some (False, Some shown, s) }) (\<lambda>(b, d, s'). lib_step P s s')" for v h
    by (rule returns_bindI [OF display_data_safe [OF ok]]) auto
  note stat = status_request_ok [OF ok pl, where time = "\<lambda>s. word_of_int (current_millis (world s))"]
  note same = lib_step_refl [OF ok]
  have 1: "\<not> argc < 1 \<Longrightarrow> \<exists>a. arg 1 = Some a" and 2: "\<not> argc < 2 \<Longrightarrow> \<exists>a. arg 2 = Some a" using arg [of 1] arg [of 2] by simp_all
  consider "cmd = ''status''" | "cmd = ''data''" | "cmd = ''dummy''" | "cmd \<notin> {''status'', ''data'', ''dummy''}" by blast
  then show ?thesis
  proof cases
    case 1
    show ?thesis
    proof (cases "argc < 1")
      case True
      with 1 same show ?thesis by (simp add: process_command_def cmd)
    next
      case False
      then obtain a where "arg 1 = Some a" using \<open>\<not> argc < 1 \<Longrightarrow> \<exists>a. arg 1 = Some a\<close> by blast
      with 1 False same stat show ?thesis by (cases "parse_int a") (simp_all add: process_command_def cmd)
    qed
  next
    case 2
    show ?thesis
    proof (cases "argc < 2")
      case True
      with 2 same show ?thesis by (simp add: process_command_def cmd)
    next
      case False
      then obtain a b where "arg 1 = Some a" "arg 2 = Some b"
        using \<open>\<not> argc < 1 \<Longrightarrow> \<exists>a. arg 1 = Some a\<close> \<open>\<not> argc < 2 \<Longrightarrow> \<exists>a. arg 2 = Some a\<close> by auto
      with 2 False same show_it show ?thesis
        by (cases "parse_int a"; cases "parse_int b") (simp_all add: process_command_def cmd Let_def)
    qed
  next
    case 3
    with log show ?thesis by (simp add: process_command_def cmd)
  next
    case 4
    with same show ?thesis by (simp add: process_command_def cmd)
  qed
qed

lemma command_line_step_ok:
  assumes ok: "zejf_ok P s" and pl: "platform_ok P (interfaces s)" and "NUL \<notin> set body" and "length (filter is_separator body) < COMMAND_ARGS_MAX"
  shows "returns (command_line_step P (body @ [NL]) s) (\<lambda>(b, d, s'). lib_step P s s')"
proof -
  obtain line argv where t: "tokenise (body @ [NL]) = Some (line, length (filter is_separator body), argv)"
    "\<forall>k \<le> length (filter is_separator body). argument line argv k = Some (split_words body ! k)"
    using tokenise_arguments [OF assms(3,4)] by auto
  from process_command_ok [OF ok pl, of "length (filter is_separator body)" "argument line argv"] t show ?thesis
    by (simp add: command_line_step_def)
qed

section \<open>Properties of the input\<close>

text \<open>
  C23: the serial port.  From any state inside its buffer the reader returns on a sequence of bytes, whatever
  the library does with the packets, exactly when no newline comes at the start of the buffer, that is when there
  is no empty line and no newline right after the 127 bytes at which an overlong line is cut; on any other
  input it writes before the start of the buffer.
\<close>

theorem serial_reader_exact:
  assumes "reader_ok r"
  shows "(\<exists>r' s'. reader_bytes (\<lambda>l s. Some (f l s)) bytes r s = Some (r', s') \<and> reader_ok r') \<longleftrightarrow> reader_fits (snd r) bytes"
proof
  assume "\<exists>r' s'. reader_bytes (\<lambda>l s. Some (f l s)) bytes r s = Some (r', s') \<and> reader_ok r'"
  then show "reader_fits (snd r) bytes" using reader_bytes_outside [OF assms, of bytes "\<lambda>l s. Some (f l s)" s] by (cases "reader_fits (snd r) bytes") auto
next
  assume "reader_fits (snd r) bytes"
  then have "returns (reader_bytes (\<lambda>l s. Some (f l s)) bytes r s) (\<lambda>(r', s'). reader_ok r' \<and> True)"
    by (intro reader_bytes_safe [OF _ assms]) simp_all
  then show "\<exists>r' s'. reader_bytes (\<lambda>l s. Some (f l s)) bytes r s = Some (r', s') \<and> reader_ok r'" by (auto simp: returns_iff)
qed

theorem serial_reader_exact_witness:
  "(\<exists>r' s'. reader_bytes (\<lambda>l n. Some (Suc n)) ''{a}  '' reader_start (0 :: nat) = Some (r', s') \<and> reader_ok r') \<and>
   \<not> (\<exists>r' s'. reader_bytes (\<lambda>l n. Some (Suc n)) [NL] reader_start (0 :: nat) = Some (r', s') \<and> reader_ok r')"
  using serial_reader_exact [OF reader_start_ok, of "\<lambda>l. Suc" "''{a}  ''" "0 :: nat"] serial_reader_exact [OF reader_start_ok, of "\<lambda>l. Suc" "[NL]" "0 :: nat"]
  by (simp add: reader_start_def)

text \<open>
  Packets on the serial port.  Lines of at most 125 characters, each followed by one more character (the
  carriage return) and a newline, are passed to the library one by one, in order and without that character,
  if they start with a brace; the others are ignored.
\<close>

theorem serial_lines_delivered:
  assumes "\<And>body x. (body, x) \<in> set ls \<Longrightarrow> NL \<notin> set body \<and> x \<noteq> NL \<and> length body \<le> 125"
  shows "map_option snd (reader_bytes accept (concat (map (\<lambda>(body, x). serial_line body x) ls)) reader_start s) =
    accept_all accept (filter (\<lambda>body. body \<noteq> [] \<and> hd body = CHR ''{'') (map fst ls)) s"
  unfolding reader_start_def by (rule reader_lines [OF assms]) simp_all

theorem serial_lines_delivered_witness:
  "map_option snd (reader_bytes (\<lambda>l s. Some (s @ [l])) (concat (map (\<lambda>(body, x). serial_line body x) [(''{a}'', CHR 0x0d), (''hello'', CHR 0x0d), (''{b}'', CHR 0x0d)]))
     reader_start []) = Some [''{a}'', ''{b}'']"
  by (subst serial_lines_delivered) (auto split: if_splits)


definition new_client :: Client where
  "new_client = \<lparr>client_uid = 0, client_fd = 7, client_last_seen = 0, buffer = replicate CLIENT_BUFFER_SIZE NUL, buffer_ptr = 0, buffer_parse_ptr = 0\<rparr>"

lemma new_client_rep: "client_rep new_client []"
  by (simp add: client_rep_def new_client_def)


text \<open>
  Two lines in one read.  When a read holds a line and a longer rest, the copy that moves the rest to the
  start of the buffer is a \<open>memcpy\<close> between overlapping ranges, which is undefined.
\<close>

theorem client_read_overlaps:
  assumes "client_rep c []" and "NL \<notin> set a" "a \<noteq> []" and "Suc (length a) < length b" and "length (a @ NL # b) \<le> CLIENT_BUFFER_SIZE"
  shows "client_receive accept millis (a @ NL # b) c s = None"
  by (rule client_overlap [OF assms])

theorem client_read_overlaps_witness: "client_receive (\<lambda>l s. Some (s @ [l])) 5 (''{a}'' @ NL # ''{long}'' @ [NL]) new_client [] = None"
  by (rule client_read_overlaps [OF new_client_rep]) simp_all


text \<open>A library that has just been started, with an empty disk.\<close>

definition quiet_world :: meteo_world where
  "quiet_world =
     \<lparr>disk_dirs = [''.''], disk_files = Map.empty, disk_calls = 0, disk_fault = (\<lambda>_. None), now = 0, written = [],
      write_fault = (\<lambda>_. None), printed = []\<rparr>"

definition idle_library :: "meteo_world zejf" where
  "idle_library = snd (zejf_init (meteo_platform gmtime []) (zejf_start (meteo_platform gmtime []) quiet_world))"

lemma idle_library_ok: "zejf_ok (meteo_platform gmtime []) idle_library"
proof -
  let ?s = "zejf_start (meteo_platform gmtime []) quiet_world"
  have "never_fails (mem ?s)" "hours ?s = Map.empty" "0 < HOUR_BUFFER_SIZE (meteo_platform gmtime [])" by (simp_all add: zejf_start_def never_fails_def)
  from zejf_init_ok [OF this] show ?thesis by (auto simp: idle_library_def)
qed


end
