(* ===== verification/Meteo_Server.thy ===== *)
theory Meteo_Server
  imports Meteo_Input
begin


text \<open>
  The clients of the server, \<open>devices/ZejfMeteo/src/server.c\<close>: connecting, disconnecting, the descriptors
  that are polled and the watchdog.  Sockets, threads and the calls that only wait are not modelled; a
  function runs with the locks it takes.
\<close>

section \<open>Operations\<close>

text \<open>\<open>clients\<close> holds the addresses of the clients; a freed client is missing in \<open>client_at\<close>.\<close>

record server = meteo +
  clients :: "addr linked_list option"
  client_at :: "addr \<Rightarrow> Client option"
  next_client_uid :: int
  pipe_fd :: int

definition client_create :: "int \<Rightarrow> server \<Rightarrow> addr option \<times> server" where
  "client_create fd m =
     (case zmalloc (lib m) of
        (None, s) \<Rightarrow> (None, m\<lparr>lib := s\<rparr>)
      | (Some a, s) \<Rightarrow>
          (Some a,
           m\<lparr>lib := s\<lparr>interfaces := (interfaces s)(a \<mapsto> \<lparr>if_uid = 0, if_type = TCP, if_handle = fd, rx_count = 0, tx_count = 0\<rparr>)\<rparr>,
             client_at := (client_at m)(a \<mapsto> \<lparr>client_uid = next_client_uid m, client_fd = fd, client_last_seen = 0,
                            buffer = replicate CLIENT_BUFFER_SIZE NUL, buffer_ptr = 0, buffer_parse_ptr = 0\<rparr>),
             next_client_uid := next_client_uid m + 1\<rparr>))"

text \<open>The interface is a part of the client and goes with it.\<close>

definition client_destroy :: "addr \<Rightarrow> server \<Rightarrow> server" where
  "client_destroy a m =
     m\<lparr>lib := (lib m)\<lparr>interfaces := (interfaces (lib m))(a := None)\<rparr>, client_at := (client_at m)(a := None)\<rparr>"

definition client_connect :: "int \<Rightarrow> server \<Rightarrow> server option" where
  "client_connect fd m =
     (case client_create fd m of
        (None, m) \<Rightarrow> Some m
      | (Some a, m) \<Rightarrow>
          do {
            client \<leftarrow> client_at m a;
            let m = m\<lparr>client_at := (client_at m)(a \<mapsto> client\<lparr>client_last_seen := current_millis (world (lib m))\<rparr>)\<rparr>;
            (ok, q, heap) \<leftarrow> list_push (mem (lib m)) (clients m) a;
            let m = m\<lparr>lib := (lib m)\<lparr>mem := heap\<rparr>, clients := q\<rparr>;
            (if \<not> ok then Some (client_destroy a m)
             else do {
               (added, m) \<leftarrow> interface_add a m;
               Some (if added then m else client_destroy a m)
             })
          })"

definition client_remove :: "addr option \<Rightarrow> server \<Rightarrow> server option" where
  "client_remove node m =
     (case node of
        None \<Rightarrow> Some m
      | Some nd \<Rightarrow>
          do {
            q \<leftarrow> clients m;
            n \<leftarrow> nodes q nd;
            let a = node_item n;
            _ \<leftarrow> client_at m a;
            (_, q) \<leftarrow> list_remove (clients m) (Some nd);
            interface \<leftarrow> interfaces (lib m) a;
            (_, m) \<leftarrow> interface_remove (if_uid interface) (m\<lparr>clients := q\<rparr>);
            Some (client_destroy a m)
          })"

text \<open>The loops over the clients start at the head and follow \<open>next\<close>; \<open>k\<close> rounds are left.\<close>

primrec client_get_loop :: "int \<Rightarrow> nat \<Rightarrow> addr option \<Rightarrow> server \<Rightarrow> addr option option" where
  "client_get_loop fd 0 node m = Some None"
| "client_get_loop fd (Suc k) node m =
     do {
       q \<leftarrow> clients m;
       nd \<leftarrow> node;
       n \<leftarrow> nodes q nd;
       client \<leftarrow> client_at m (node_item n);
       (if client_fd client = fd then Some (Some nd) else client_get_loop fd k (Some (node_next n)) m)
     }"

definition client_get :: "int \<Rightarrow> server \<Rightarrow> addr option option" where
  "client_get fd m = do { q \<leftarrow> clients m; client_get_loop fd (item_count q) (head q) m }"

primrec prepare_fds_loop :: "nat \<Rightarrow> addr option \<Rightarrow> server \<Rightarrow> int list option" where
  "prepare_fds_loop 0 node m = Some []"
| "prepare_fds_loop (Suc k) node m =
     do {
       q \<leftarrow> clients m;
       nd \<leftarrow> node;
       n \<leftarrow> nodes q nd;
       client \<leftarrow> client_at m (node_item n);
       fds \<leftarrow> prepare_fds_loop k (Some (node_next n)) m;
       Some (client_fd client # fds)
     }"

definition prepare_fds :: "server \<Rightarrow> int list option" where
  "prepare_fds m = do { q \<leftarrow> clients m; fds \<leftarrow> prepare_fds_loop (item_count q) (head q) m; Some (pipe_fd m # fds) }"

text \<open>The loop of \<open>watchdog_run\<close> over the clients.\<close>

partial_function (option) watchdog_loop :: "int \<Rightarrow> addr \<Rightarrow> server \<Rightarrow> server option" where
  "watchdog_loop millis node m =
     do {
       q \<leftarrow> clients m;
       n \<leftarrow> nodes q node;
       client \<leftarrow> client_at m (node_item n);
       (following, m) \<leftarrow> (if 10 * 1000 < millis - client_last_seen client
                          then do { m \<leftarrow> client_remove (Some node) m; q \<leftarrow> clients m; Some (head q, m) }
                          else Some (Some (node_next n), m));
       q \<leftarrow> clients m;
       (case following of
          None \<Rightarrow> Some m
        | Some node \<Rightarrow> if Some node \<noteq> head q then watchdog_loop millis node m else Some m)
     }"

definition watchdog_round :: "server \<Rightarrow> server option" where
  "watchdog_round m =
     do {
       q \<leftarrow> clients m;
       (case head q of None \<Rightarrow> Some m | Some node \<Rightarrow> watchdog_loop (current_millis (world (lib m))) node m)
     }"

definition server_init :: "server \<Rightarrow> server" where
  "server_init m =
     (case list_create (mem (lib m)) 64 of (q, heap) \<Rightarrow> m\<lparr>lib := (lib m)\<lparr>mem := heap\<rparr>, clients := q, next_client_uid := 0\<rparr>)"

definition server_destroy :: "server \<Rightarrow> server option" where
  "server_destroy m =
     do { (items, _) \<leftarrow> list_destroy (clients m); Some ((fold client_destroy items m)\<lparr>clients := None\<rparr>) }"

text \<open>The call of \<open>network_accept\<close> in \<open>read_client\<close>, and \<open>read_client\<close> with the results of \<open>read\<close>.\<close>

definition client_accept :: "(nat \<Rightarrow> tm) \<Rightarrow> addr \<Rightarrow> int \<Rightarrow> string \<Rightarrow> server \<Rightarrow> server option" where
  "client_accept localtime a millis line m =
     do {
       (_, s) \<leftarrow> network_accept (meteo_platform localtime (meteo_interfaces m)) line (Some a) (word_of_int millis) (lib m);
       Some (m\<lparr>lib := s\<rparr>)
     }"

definition read_client :: "(nat \<Rightarrow> tm) \<Rightarrow> int \<Rightarrow> string list \<Rightarrow> server \<Rightarrow> server option" where
  "read_client localtime fd reads m =
     do {
       node \<leftarrow> client_get fd m;
       nd \<leftarrow> node;
       q \<leftarrow> clients m;
       n \<leftarrow> nodes q nd;
       let a = node_item n;
       client \<leftarrow> client_at m a;
       let millis = current_millis (world (lib m));
       (left, m) \<leftarrow> read_client_loop (client_accept localtime a millis) millis reads client m;
       (case left of
          None \<Rightarrow> client_remove (Some nd) m
        | Some client \<Rightarrow> Some (m\<lparr>client_at := (client_at m)(a \<mapsto> client)\<rparr>))
     }"


text \<open>
  The rest of \<open>poll_run\<close> after \<open>poll\<close>: for every client its descriptor, whether \<open>POLLIN\<close> and whether one of
  \<open>POLLERR\<close>, \<open>POLLHUP\<close> and \<open>POLLNVAL\<close> was reported, and what \<open>read\<close> gives on it.  Data on the pipe only says
  that the clients have changed.
\<close>

primrec poll_clients :: "(nat \<Rightarrow> tm) \<Rightarrow> (int \<times> bool \<times> bool \<times> string list) list \<Rightarrow> server \<Rightarrow> server option" where
  "poll_clients localtime [] m = Some m"
| "poll_clients localtime (e # es) m =
     (case e of (fd, readable, broken, reads) \<Rightarrow>
        do {
          m \<leftarrow> (if readable then read_client localtime fd reads m
                else if broken then do { node \<leftarrow> client_get fd m; client_remove node m }
                else Some m);
          poll_clients localtime es m
        })"

definition poll_round :: "(nat \<Rightarrow> tm) \<Rightarrow> bool \<Rightarrow> (int \<times> bool \<times> bool \<times> string list) list \<Rightarrow> server \<Rightarrow> server option" where
  "poll_round localtime signalled events m = (if signalled then Some m else poll_clients localtime events m)"

section \<open>The list of clients\<close>

definition client_of :: "server \<Rightarrow> addr \<Rightarrow> Client" where
  "client_of m a = the (client_at m a)"

text \<open>
  The clients \<open>cs\<close>, oldest first: each is in memory, its interface is listed behind that of the
  serial port, and it carries the client's descriptor.
\<close>

definition server_ok :: "server \<Rightarrow> addr list \<Rightarrow> bool" where
  "server_ok m cs \<longleftrightarrow>
     ifs_ok m (usb_interface_1 # cs) \<and> queue_ok (mem (lib m)) (clients m) \<and> queue_cap (clients m) = 64 \<and>
     queue_items (clients m) = cs \<and> dom (client_at m) = set cs \<and>
     (\<forall>a\<in>set cs. a < next_addr (mem (lib m))) \<and> 0 < next_addr (mem (lib m)) \<and>
     (\<forall>a\<in>set cs. if_handle (the (interfaces (lib m) a)) = client_fd (client_of m a))"

lemma server_ok_list:
  assumes "server_ok m cs"
  obtains l where "clients m = Some l" "list_ok (mem (lib m)) l" "capacity l = 64" "list_items l = cs"
  using assms by (auto simp: server_ok_def queue_ok_def queue_cap_def split: option.splits)

text \<open>A walk of \<open>k\<close> steps around the ring from a node.\<close>

lemma ring_step:
  assumes "list_ok hp l" and "list_addrs l = xs @ a # ys"
  obtains n xs' ys' where "nodes l a = Some n" "node_item n = itm (nodes l) a" "list_addrs l = xs' @ node_next n # ys'"
    "node_next n # ys' @ xs' = ys @ xs @ [a]"
proof -
  obtain n where n: "nodes l a = Some n" "node_item n = itm (nodes l) a" "node_next n = hd (ys @ xs @ [a])"
    using node_of_rep [OF assms] by blast
  show thesis
  proof (cases ys)
    case Nil
    then show ?thesis using n assms(2) that [of n "[]" "tl (xs @ [a])"] by (cases xs) auto
  next
    case (Cons y ys')
    then show ?thesis using n assms(2) that [of n "xs @ [a]" ys'] by auto
  qed
qed

lemma prepare_fds_loop_ok:
  assumes "clients m = Some l" and "list_ok hp l" and "set (list_items l) \<subseteq> dom (client_at m)"
  shows "list_addrs l = xs @ a # ys \<Longrightarrow> k \<le> Suc (length xs + length ys) \<Longrightarrow>
    prepare_fds_loop k (Some a) m = Some (map (\<lambda>nd. client_fd (client_of m (itm (nodes l) nd))) (take k (a # ys @ xs)))"
proof (induction k arbitrary: xs a ys)
  case 0
  then show ?case by simp
next
  case (Suc k)
  obtain n xs' ys' where n: "nodes l a = Some n" "node_item n = itm (nodes l) a" "list_addrs l = xs' @ node_next n # ys'"
    "node_next n # ys' @ xs' = ys @ xs @ [a]" by (rule ring_step [OF assms(2) Suc.prems(1)])
  have "itm (nodes l) a \<in> set (list_items l)" using Suc.prems(1) by (simp add: list_items_def)
  then obtain c where c: "client_at m (itm (nodes l) a) = Some c" using assms(3) by auto
  have "length (node_next n # ys' @ xs') = length (ys @ xs @ [a])" by (rule arg_cong [OF n(4)])
  then have len: "k \<le> Suc (length xs' + length ys')" using Suc.prems(2) by simp
  have "prepare_fds_loop k (Some (node_next n)) m = Some (map (\<lambda>nd. client_fd (client_of m (itm (nodes l) nd))) (take k (node_next n # ys' @ xs')))"
    by (rule Suc.IH [OF n(3) len])
  moreover have "take k (node_next n # ys' @ xs') = take k (ys @ xs)" using n(4) Suc.prems(2) by simp
  ultimately show ?case using assms(1) n(1,2) c by (simp add: client_of_def)
qed

text \<open>Every client is polled once, the newest first.\<close>

lemma prepare_fds_ok:
  assumes ok: "server_ok m cs"
  shows "prepare_fds m = Some (pipe_fd m # map (client_fd \<circ> client_of m) (if cs = [] then [] else last cs # butlast cs))"
proof -
  obtain l where l: "clients m = Some l" "list_ok (mem (lib m)) l" "list_items l = cs" by (rule server_ok_list [OF ok])
  then have rep: "list_rep l (list_addrs l)" by (simp add: list_ok_rep)
  have dom: "set (list_items l) \<subseteq> dom (client_at m)" using ok l by (simp add: server_ok_def)
  show ?thesis
  proof (cases "list_addrs l" rule: rev_cases)
    case Nil
    then show ?thesis using l rep by (auto simp: prepare_fds_def list_rep_def list_items_def)
  next
    case (snoc xs a)
    then have "prepare_fds_loop (item_count l) (head l) m =
        Some (map (\<lambda>nd. client_fd (client_of m (itm (nodes l) nd))) (a # xs))"
      using prepare_fds_loop_ok [OF l(1,2) dom, of xs a "[]" "Suc (length xs)"] rep by (simp add: list_rep_def)
    moreover have "cs = map (itm (nodes l)) xs @ [itm (nodes l) a]" using l(3) snoc by (simp add: list_items_def)
    ultimately show ?thesis using l(1) by (simp add: prepare_fds_def butlast_append)
  qed
qed

lemma server_frame:
  fixes m m' :: server
  assumes "meteo_frame m m'"
  shows "clients m' = clients m" "client_at m' = client_at m" "pipe_fd m' = pipe_fd m"
  using arg_cong [OF assms [unfolded meteo_frame_def], of clients] arg_cong [OF assms [unfolded meteo_frame_def], of client_at]
    arg_cong [OF assms [unfolded meteo_frame_def], of pipe_fd] by simp_all

lemma ifs_ok_cong:
  assumes "ifs_ok m as" and "all_interfaces m' = all_interfaces m" "interface_count m' = interface_count m" "next_uid m' = next_uid m"
    and "\<And>a. a \<in> set as \<Longrightarrow> interfaces (lib m') a = interfaces (lib m) a"
  shows "ifs_ok m' as"
proof -
  have uid: "uid_of m' a = uid_of m a" if "a \<in> set as" for a using assms(5) [OF that] by (simp add: uid_of_def)
  then have "map (uid_of m') as = map (uid_of m) as" by (rule map_cong [OF refl])
  then have "distinct (map (uid_of m') as)" using assms(1) unfolding ifs_ok_def by metis
  moreover have "set as \<subseteq> dom (interfaces (lib m'))" using assms(1,5) by (force simp: ifs_ok_def)
  ultimately show ?thesis using assms(1-4) uid unfolding ifs_ok_def ifs_rep_def by simp
qed

section \<open>Connecting\<close>

lemma zejf_ok_mem: "zejf_ok P s \<Longrightarrow> alloc_mono (mem s) h \<Longrightarrow> zejf_ok P (s\<lparr>mem := h\<rparr>)"
  using queue_ok_mono [of "mem s" "data_requests_queue s" h] by (simp add: zejf_ok_def net_ok_mem store_ok_def store_rep_mem requests_ok_def)

lemma zejf_ok_interfaces: "zejf_ok P s \<Longrightarrow> dom (interfaces s) \<subseteq> dom f \<Longrightarrow> zejf_ok P (s\<lparr>interfaces := f\<rparr>)"
proof -
  assume ok: "zejf_ok P s" and sub: "dom (interfaces s) \<subseteq> dom f"
  have live: "live f a" if "live (interfaces s) a" for a using that sub by (auto simp: live_def split: option.splits)
  have "packet_ok P f p" if "packet_ok P (interfaces s) p" for p using that live by (simp add: packet_ok_def)
  moreover have "entry_ok f e" if "entry_ok (interfaces s) e" for e using that sub by (fastforce simp: entry_ok_def)
  moreover have "table_entries (s\<lparr>interfaces := f\<rparr>) = table_entries s" by (simp add: table_entries_def)
  moreover have "net_ok P s" "store_ok P s" "requests_ok P s" using ok by (simp_all add: zejf_ok_def)
  ultimately show ?thesis
    by (simp add: zejf_ok_def net_ok_def routing_ok_def table_rep_def store_ok_def store_rep_def cached_def requests_ok_def)
qed


lemma client_connect_steps:
  assumes ok: "server_ok m cs" and nf: "never_fails (mem (lib m))" and uid: "next_uid m < 2 ^ 31 - 1" and room: "length cs < 64"
  defines "a \<equiv> next_addr (mem (lib m))"
  obtains m1 c where "client_connect fd m = do { (added, m) \<leftarrow> interface_add a m1; Some (if added then m else client_destroy a m) }"
    "ifs_ok m1 (usb_interface_1 # cs)" "a \<notin> set (usb_interface_1 # cs)" "next_uid m1 = next_uid m" "pipe_fd m1 = pipe_fd m"
    "interfaces (lib m1) = (interfaces (lib m))(a \<mapsto> \<lparr>if_uid = 0, if_type = TCP, if_handle = fd, rx_count = 0, tx_count = 0\<rparr>)"
    "queue_ok (mem (lib m1)) (clients m1)" "queue_cap (clients m1) = 64" "queue_items (clients m1) = cs @ [a]"
    "client_at m1 = (client_at m)(a \<mapsto> c)" "client_fd c = fd" "a < next_addr (mem (lib m1))" "\<forall>P. zejf_ok P (lib m) \<longrightarrow> zejf_ok P (lib m1)"
    "tx_queue (lib m1) = tx_queue (lib m)" "world (lib m1) = world (lib m)" "client_last_seen c = current_millis (world (lib m))"
proof -
  obtain l where l: "clients m = Some l" "list_ok (mem (lib m)) l" "capacity l = 64" "list_items l = cs" by (rule server_ok_list [OF ok])
  let ?h = "(mem (lib m))\<lparr>next_addr := Suc a\<rparr>"
  have lok: "list_ok ?h l" by (rule list_ok_mono [OF l(2)]) (simp add: a_def alloc_mono_def)
  have "\<not> list_is_full l" using list_ok_full [OF l(2)] l(3,4) room by simp
  moreover have "alloc_ok ?h n" for n using nf by (simp add: never_fails_def)
  ultimately obtain l' h where push: "list_push ?h (Some l) a = Some (True, Some l', h)" "list_ok h l'" "capacity l' = 64" "alloc_mono ?h h" "list_items l' = cs @ [a]"
    using list_push_returns [OF lok, of a] l(3,4) unfolding returns_iff by auto
  define c where "c = \<lparr>client_uid = next_client_uid m, client_fd = fd, client_last_seen = current_millis (world (lib m)),
      buffer = replicate CLIENT_BUFFER_SIZE NUL, buffer_ptr = 0, buffer_parse_ptr = 0\<rparr>"
  let ?m = "m\<lparr>next_client_uid := next_client_uid m + 1, client_at := (client_at m)(a \<mapsto> c),
     lib := (lib m)\<lparr>interfaces := (interfaces (lib m))(a \<mapsto> \<lparr>if_uid = 0, if_type = TCP, if_handle = fd, rx_count = 0, tx_count = 0\<rparr>), mem := h\<rparr>,
     clients := Some l'\<rparr>"
  have fresh: "a \<notin> set (usb_interface_1 # cs)" using ok by (auto simp: server_ok_def a_def usb_interface_1_def)
  have "ifs_ok m (usb_interface_1 # cs)" using ok by (simp add: server_ok_def)
  then have I': "ifs_ok ?m (usb_interface_1 # cs)" by (rule ifs_ok_cong) (use fresh in auto)
  have "client_connect fd m = do { (added, m) \<leftarrow> interface_add a ?m; Some (if added then m else client_destroy a m) }"
    using nf push(1) by (simp add: client_connect_def client_create_def a_def [symmetric] l(1) c_def Let_def)
  moreover have "a < next_addr h" using push(4) by (simp add: alloc_mono_def)
  moreover have "alloc_mono (mem (lib m)) h" using push(4) by (simp add: alloc_mono_def a_def)
  then have "zejf_ok P (lib ?m)" if "zejf_ok P (lib m)" for P
    using zejf_ok_mem [OF zejf_ok_interfaces [OF that, of "(interfaces (lib m))(a \<mapsto> \<lparr>if_uid = 0, if_type = TCP, if_handle = fd, rx_count = 0, tx_count = 0\<rparr>)"], of h]
    by auto
  ultimately show thesis
    using that [of ?m c] I' fresh push by (simp add: queue_ok_def queue_cap_def queue_items_def c_def)
qed

lemma client_connect_ok:
  assumes ok: "server_ok m cs" and nf: "never_fails (mem (lib m))" and uid: "next_uid m < 2 ^ 31 - 1" and room: "Suc (length cs) < INTERFACES_MAX"
  defines "a \<equiv> next_addr (mem (lib m))"
  shows "returns (client_connect fd m) (\<lambda>m'. server_ok m' (cs @ [a]) \<and> client_fd (client_of m' a) = fd \<and>
    (\<forall>b\<in>set cs. client_of m' b = client_of m b) \<and> pipe_fd m' = pipe_fd m \<and> (\<forall>P. zejf_ok P (lib m) \<longrightarrow> zejf_ok P (lib m')) \<and>
    tx_queue (lib m') = tx_queue (lib m) \<and> world (lib m') = world (lib m) \<and> next_uid m' = next_uid m + 1 \<and>
    client_last_seen (client_of m' a) = current_millis (world (lib m)))"
proof -
  have r64: "length cs < 64" using room by simp
  obtain m1 c where m1: "client_connect fd m = do { (added, m) \<leftarrow> interface_add a m1; Some (if added then m else client_destroy a m) }"
    "ifs_ok m1 (usb_interface_1 # cs)" "a \<notin> set (usb_interface_1 # cs)" "next_uid m1 = next_uid m" "pipe_fd m1 = pipe_fd m"
    "interfaces (lib m1) = (interfaces (lib m))(a \<mapsto> \<lparr>if_uid = 0, if_type = TCP, if_handle = fd, rx_count = 0, tx_count = 0\<rparr>)"
    "queue_ok (mem (lib m1)) (clients m1)" "queue_cap (clients m1) = 64" "queue_items (clients m1) = cs @ [a]"
    "client_at m1 = (client_at m)(a \<mapsto> c)" "client_fd c = fd" "a < next_addr (mem (lib m1))" "\<forall>P. zejf_ok P (lib m) \<longrightarrow> zejf_ok P (lib m1)"
    "tx_queue (lib m1) = tx_queue (lib m)" "world (lib m1) = world (lib m)" "client_last_seen c = current_millis (world (lib m))"
    by (rule client_connect_steps [OF ok nf uid r64, of fd, folded a_def])
  have "\<exists>m'. interface_add a m1 = Some (length (usb_interface_1 # cs) < INTERFACES_MAX, m') \<and> meteo_frame m1 m' \<and>
     (if length (usb_interface_1 # cs) < INTERFACES_MAX
      then ifs_ok m' ((usb_interface_1 # cs) @ [a]) \<and>
        lib m' = (lib m1)\<lparr>interfaces := (interfaces (lib m1))(a \<mapsto> \<lparr>if_uid = 0, if_type = TCP, if_handle = fd, rx_count = 0, tx_count = 0\<rparr>\<lparr>if_uid := next_uid m1\<rparr>)\<rparr> \<and>
        next_uid m' = next_uid m1 + 1
      else m' = m1)"
    by (rule interface_add_ok [OF m1(2) _ m1(3)]) (use m1(4,6) uid in simp_all)
  then obtain m2 where m2: "interface_add a m1 = Some (True, m2)" "meteo_frame m1 m2" "ifs_ok m2 (usb_interface_1 # cs @ [a])"
    "lib m2 = (lib m1)\<lparr>interfaces := (interfaces (lib m1))(a \<mapsto> \<lparr>if_uid = 0, if_type = TCP, if_handle = fd, rx_count = 0, tx_count = 0\<rparr>\<lparr>if_uid := next_uid m1\<rparr>)\<rparr>" "next_uid m2 = next_uid m1 + 1"
    using room by auto
  note F = server_frame [OF m2(2)]
  have old: "dom (client_at m) = set cs" "\<And>b. b \<in> set cs \<Longrightarrow> b < a" "0 < a" "\<And>b. b \<in> set cs \<Longrightarrow> if_handle (the (interfaces (lib m) b)) = client_fd (client_of m b)"
    using ok by (auto simp: server_ok_def a_def)
  have same: "client_of m2 b = client_of m b" if "b \<in> set cs" for b using that m1(3,10) F(2) by (auto simp: client_of_def)
  have "server_ok m2 (cs @ [a])"
    unfolding server_ok_def
  proof (intro conjI ballI)
    fix b
    assume "b \<in> set (cs @ [a])"
    then consider "b \<in> set cs" "b \<noteq> a" | "b = a" using m1(3) by auto
    then show "b < next_addr (mem (lib m2))" "if_handle (the (interfaces (lib m2) b)) = client_fd (client_of m2 b)"
      using old(2,4) [of b] same [of b] m1(6,10,11,12) m2(4) F(2) by (cases; auto simp: client_of_def)+
  qed (use m2 F m1 old in auto)
  moreover have "client_fd (client_of m2 a) = fd" using m1(10,11) F(2) by (simp add: client_of_def)
  moreover have "zejf_ok P (lib m2)" if "zejf_ok P (lib m)" for P
    unfolding m2(4) using m1(13) that by (intro zejf_ok_interfaces) auto
  moreover have "tx_queue (lib m2) = tx_queue (lib m)" "world (lib m2) = world (lib m)" using m2(4) m1(14,15) by simp_all
  moreover have "client_last_seen (client_of m2 a) = current_millis (world (lib m))" using m1(10,16) F(2) by (simp add: client_of_def)
  ultimately show ?thesis using m1(1,4,5) m2(1,5) same F(3) by simp
qed

text \<open>With all interfaces taken, the client is freed and stays in the list.\<close>

lemma client_connect_dangling:
  assumes ok: "server_ok m cs" and nf: "never_fails (mem (lib m))" and uid: "next_uid m < 2 ^ 31 - 1" and full: "Suc (length cs) = INTERFACES_MAX"
  defines "a \<equiv> next_addr (mem (lib m))"
  shows "returns (client_connect fd m) (\<lambda>m'. queue_items (clients m') = cs @ [a] \<and> client_at m' a = None \<and> prepare_fds m' = None)"
proof -
  have r64: "length cs < 64" using full by simp
  obtain m1 where m1: "client_connect fd m = do { (added, m) \<leftarrow> interface_add a m1; Some (if added then m else client_destroy a m) }"
    "ifs_ok m1 (usb_interface_1 # cs)" "queue_ok (mem (lib m1)) (clients m1)" "queue_items (clients m1) = cs @ [a]"
    by (rule client_connect_steps [OF ok nf uid r64, of fd, folded a_def]) blast
  have "interface_count m1 = INTERFACES_MAX" using m1(2) full by (simp add: ifs_ok_def ifs_rep_def)
  then have conn: "client_connect fd m = Some (client_destroy a m1)" using m1(1) by (simp add: interface_add_def)
  obtain l where l: "clients m1 = Some l" "list_ok (mem (lib m1)) l" "list_items l = cs @ [a]"
    using m1(3,4) by (auto simp: queue_ok_def queue_items_def split: option.splits)
  then have rep: "list_rep l (list_addrs l)" by (simp add: list_ok_rep)
  obtain xs nd where as: "list_addrs l = xs @ [nd]" "itm (nodes l) nd = a"
    using l(3) by (cases "list_addrs l" rule: rev_cases) (auto simp: list_items_def)
  obtain n where n: "nodes l nd = Some n" "node_item n = a" using node_of_rep [OF l(2), of xs nd "[]"] as by auto
  have cnt: "item_count l = Suc (length xs)" "head l = Some nd" using rep as(1) by (simp_all add: list_rep_def)
  have "prepare_fds (client_destroy a m1) = None" by (simp add: prepare_fds_def client_destroy_def l(1) n cnt)
  then show ?thesis using conn m1(4) by (simp add: client_destroy_def)
qed


section \<open>Disconnecting\<close>

lemma client_remove_ok:
  assumes ok: "server_ok m (xs @ a # ys)" and net: "net_ok P (lib m)" and l: "clients m = Some l" "list_addrs l = us @ nd # vs"
    and at: "map (itm (nodes l)) us = xs" "itm (nodes l) nd = a"
    and first: "\<And>p ps. queue_items (tx_queue (lib m)) = p # ps \<Longrightarrow> \<not> uses_interface a p"
  shows "returns (client_remove (Some nd) m) (\<lambda>m'. server_ok m' (xs @ ys) \<and> client_at m' = (client_at m)(a := None) \<and> interfaces (lib m') a = None)"
proof -
  have lok: "list_ok (mem (lib m)) l" "capacity l = 64" "list_items l = xs @ a # ys"
    using ok l(1) by (auto elim!: server_ok_list)
  have vs: "map (itm (nodes l)) vs = ys" using lok(3) l(2) at by (simp add: list_items_def)
  obtain n where n: "nodes l nd = Some n" "node_item n = a" using node_of_rep [OF lok(1) l(2)] at(2) by auto
  obtain l' where l': "list_remove (Some l) (Some nd) = Some (Some a, Some l')" "list_ok (mem (lib m)) l'" "capacity l' = capacity l"
    "list_items l' = map (itm (nodes l)) (us @ vs)"
    using list_remove_returns [OF lok(1) l(2)] at(2) unfolding returns_iff by auto
  let ?m = "m\<lparr>clients := Some l'\<rparr>"
  have I: "ifs_ok m (usb_interface_1 # xs @ a # ys)" and D: "dom (client_at m) = set (xs @ a # ys)" "0 < next_addr (mem (lib m))"
    "\<And>b. b \<in> set (xs @ a # ys) \<Longrightarrow> b < next_addr (mem (lib m)) \<and> if_handle (the (interfaces (lib m) b)) = client_fd (client_of m b)"
    using ok by (auto simp: server_ok_def)
  have "ifs_ok ?m (usb_interface_1 # xs @ a # ys)" by (rule ifs_ok_cong [OF I]) simp_all
  then have I': "ifs_ok ?m ((usb_interface_1 # xs) @ a # ys)" by simp
  obtain f where f: "interfaces (lib m) a = Some f" using I by (auto simp: ifs_ok_def)
  have uid: "uid_of ?m a = if_uid f" by (simp add: uid_of_def f)
  have net': "net_ok P (lib ?m)" using net by simp
  have "\<exists>m'. interface_remove (uid_of ?m a) ?m = Some (False, m') \<and> ifs_ok m' ((usb_interface_1 # xs) @ ys) \<and> meteo_frame ?m m' \<and>
     interface_removed a (lib ?m) = Some (lib m') \<and> net_ok P (lib m') \<and> net_frame (lib ?m) (lib m') \<and> interfaces (lib m') = interfaces (lib ?m) \<and> next_uid m' = next_uid ?m"
    by (rule interface_remove_ok [OF I' net']) (use first in auto)
  then obtain m2 where m2: "interface_remove (if_uid f) ?m = Some (False, m2)" "ifs_ok m2 (usb_interface_1 # xs @ ys)" "meteo_frame ?m m2"
    "net_frame (lib m) (lib m2)" "interfaces (lib m2) = interfaces (lib m)" unfolding uid by auto
  note F = server_frame [OF m2(3)]
  let ?m2 = "client_destroy a m2"
  have dist: "a \<notin> set (usb_interface_1 # xs @ ys)" using ifs_ok_distinct [OF I] by auto
  have mono: "alloc_mono (mem (lib m)) (mem (lib m2))" using m2(4) by (simp add: net_frame_def)
  have "ifs_ok ?m2 (usb_interface_1 # xs @ ys)" by (rule ifs_ok_cong [OF m2(2)]) (use dist in \<open>auto simp: client_destroy_def\<close>)
  moreover have "queue_ok (mem (lib m2)) (Some l')" using list_ok_mono [OF l'(2) mono] by (simp add: queue_ok_def)
  moreover have "b < next_addr (mem (lib m2))" if "b < next_addr (mem (lib m))" for b using mono that by (simp add: alloc_mono_def)
  moreover have "list_items l' = xs @ ys" using l'(4) at(1) vs by simp
  ultimately have "server_ok ?m2 (xs @ ys)"
    using D dist F m2(5) lok(2) l'(3) unfolding server_ok_def
    by (auto simp: client_destroy_def client_of_def queue_cap_def)
  moreover obtain c where "client_at m a = Some c" using D(1) by auto
  then have "client_remove (Some nd) m = Some ?m2"
    using l(1) n l'(1) f m2(1) by (simp add: client_remove_def)
  ultimately show ?thesis using F(2) by (simp add: client_destroy_def)
qed

section \<open>The watchdog\<close>

definition late :: "int \<Rightarrow> server \<Rightarrow> addr linked_list \<Rightarrow> addr \<Rightarrow> bool" where
  "late millis m l nd \<longleftrightarrow> 10 * 1000 < millis - client_last_seen (client_of m (itm (nodes l) nd))"

definition expel :: "addr \<Rightarrow> server \<Rightarrow> server option" where
  "expel nd m = do { m \<leftarrow> client_remove (Some nd) m; _ \<leftarrow> clients m; Some m }"

lemma watchdog_step:
  assumes "clients m = Some l" and "list_ok hp l" and "list_addrs l = xs @ a # ys" and "set (list_items l) \<subseteq> dom (client_at m)"
  shows "watchdog_loop millis a m =
    (if late millis m l a then expel a m
     else if Some (hd (ys @ xs @ [a])) \<noteq> head l then watchdog_loop millis (hd (ys @ xs @ [a])) m else Some m)"
proof -
  obtain n where n: "nodes l a = Some n" "node_item n = itm (nodes l) a" "node_next n = hd (ys @ xs @ [a])" using node_of_rep [OF assms(2,3)] by auto
  have "itm (nodes l) a \<in> set (list_items l)" using assms(3) by (simp add: list_items_def)
  then obtain c where c: "client_at m (itm (nodes l) a) = Some c" using assms(4) by auto
  show ?thesis
  proof (cases "late millis m l a")
    case True
    then have "10 * 1000 < millis - client_last_seen c" using c by (simp add: late_def client_of_def)
    moreover have "do { y \<leftarrow> clients m'; q \<leftarrow> clients m'; (case head y of None \<Rightarrow> Some m' | Some node \<Rightarrow>
        if Some node \<noteq> head q then watchdog_loop millis node m' else Some m') } = do { _ \<leftarrow> clients m'; Some m' }" for m'
      by (cases "clients m'") (auto split: option.split)
    ultimately show ?thesis using assms(1) n c True
      by (subst watchdog_loop.simps, cases "client_remove (Some a) m") (simp_all add: expel_def)
  next
    case False
    then have "\<not> 10 * 1000 < millis - client_last_seen c" using c by (simp add: late_def client_of_def)
    then show ?thesis using assms(1) n c False by (subst watchdog_loop.simps) simp
  qed
qed

lemma watchdog_walk:
  assumes "clients m = Some l" and "list_ok hp l" and "set (list_items l) \<subseteq> dom (client_at m)"
  shows "list_addrs l = ps @ q # qs @ [h] \<Longrightarrow>
    watchdog_loop millis q m = (case find (late millis m l) (q # qs) of None \<Rightarrow> Some m | Some nd \<Rightarrow> expel nd m)"
proof (induction qs arbitrary: ps q)
  case Nil
  then have "head l = Some h" using assms(2) by (auto simp: list_ok_rep list_rep_def)
  then show ?case using watchdog_step [OF assms(1,2) _ assms(3), of ps q "[h]"] Nil by simp
next
  case (Cons r qs)
  have rep: "list_rep l (list_addrs l)" using assms(2) by (simp add: list_ok_rep)
  then have "head l = Some h" "distinct (list_addrs l)" using Cons.prems by (auto simp: list_rep_def ring_def)
  then have "Some r \<noteq> head l" using Cons.prems by auto
  then have "watchdog_loop millis q m = (if late millis m l q then expel q m else watchdog_loop millis r m)"
    using watchdog_step [OF assms(1,2) _ assms(3), of ps q "r # qs @ [h]"] Cons.prems by simp
  then show ?case using Cons.IH [of "ps @ [q]" r] Cons.prems by simp
qed

text \<open>Of the clients that are late only the first one is removed, the newest first.\<close>

lemma watchdog_round_first:
  assumes ok: "server_ok m cs" and l: "clients m = Some l" "list_addrs l = us @ [h]"
  shows "watchdog_round m = (case find (late (current_millis (world (lib m))) m l) (h # us) of None \<Rightarrow> Some m | Some nd \<Rightarrow> expel nd m)"
proof -
  have lok: "list_ok (mem (lib m)) l" "list_items l = cs" using ok l(1) by (auto elim!: server_ok_list)
  then have head: "head l = Some h" and dist: "distinct (us @ [h])" using l(2) by (auto simp: list_ok_rep list_rep_def ring_def)
  have dom: "set (list_items l) \<subseteq> dom (client_at m)" using ok lok(2) by (simp add: server_ok_def)
  let ?t = "current_millis (world (lib m))"
  have step: "watchdog_loop ?t h m = (if late ?t m l h then expel h m
     else if Some (hd (us @ [h])) \<noteq> head l then watchdog_loop ?t (hd (us @ [h])) m else Some m)"
    using watchdog_step [OF l(1) lok(1) _ dom, of us h "[]"] l(2) by simp
  show ?thesis
  proof (cases us)
    case Nil
    with step head show ?thesis by (simp add: watchdog_round_def l(1))
  next
    case (Cons u us')
    then have "watchdog_loop ?t u m = (case find (late ?t m l) (u # us') of None \<Rightarrow> Some m | Some nd \<Rightarrow> expel nd m)"
      using watchdog_walk [OF l(1) lok(1) dom, of "[]" u us' h] l(2) by simp
    with Cons step head dist show ?thesis by (simp add: watchdog_round_def l(1))
  qed
qed


section \<open>A route that outlives its interface\<close>

text \<open>
  Two routes through the same interface, one after the other: the second one survives the removal,
  and once the client is freed, removing any other interface follows its dangling pointer.
\<close>

lemma dangling_route:
  assumes ok: "net_ok P s" and a: "interfaces s a = Some f"
    and first: "\<And>p ps. queue_items (tx_queue s) = p # ps \<Longrightarrow> \<not> uses_interface a p"
    and es: "table_entries s = [e1, e2]" "re_interface e1 = Some a" "re_interface e2 = Some a"
  shows "returns (interface_removed a s) (\<lambda>s'. table_entries s' = [e2] \<and> interface_removed b (s'\<lparr>interfaces := (interfaces s')(a := None)\<rparr>) = None)"
proof (rule returns_weaken [OF interface_removed_ok [OF ok a first]], assumption, elim conjE)
  fix s'
  assume s': "net_ok P s'" "table_entries s' = skip_remove (\<lambda>e. entry_uid s e = Some (if_uid f)) (table_entries s)"
  have "entry_uid s e1 = Some (if_uid f)" using es(2) a by (simp add: entry_uid_def)
  then have t: "table_entries s' = [e2]" using s'(2) es(1) by simp
  let ?s = "s'\<lparr>interfaces := (interfaces s')(a := None)\<rparr>"
  have rep: "table_rep P s' [e2]" using routing_ok_rep [OF net_okD(2) [OF s'(1)]] t by simp
  then have "entry_at ?s 0 = Some e2" "0 < routing_table_top ?s" by (simp_all add: entry_at_def table_rep_def)
  moreover have "entry_uid ?s e2 = None" using es(3) by (simp add: entry_uid_def)
  ultimately have "interface_removed b ?s = None" unfolding interface_removed_def by (subst routing_remove_loop.simps) simp
  with t show "table_entries s' = [e2] \<and> interface_removed b ?s = None" by simp
qed


section \<open>Start and stop\<close>

text \<open>The globals when the program starts; the heap serves every request.\<close>

definition meteo_zero :: "meteo_world \<Rightarrow> server" where
  "meteo_zero w =
     \<lparr>lib = (zejf_start (meteo_platform undefined []) w)\<lparr>mem := \<lparr>alloc_ok = (\<lambda>_. True), next_addr = 1\<rparr>,
        interfaces := [usb_interface_1 \<mapsto> \<lparr>if_uid = 0, if_type = USB, if_handle = 0, rx_count = 0, tx_count = 0\<rparr>]\<rparr>,
      all_interfaces = replicate INTERFACES_MAX None, interface_count = 0, next_uid = 0,
      clients = None, client_at = Map.empty, next_client_uid = 0, pipe_fd = 0\<rparr>"

text \<open>\<open>meteo_start\<close> up to the threads; the result of \<open>zejf_init\<close> is ignored.\<close>

definition meteo_start :: "(nat \<Rightarrow> tm) \<Rightarrow> server \<Rightarrow> server option" where
  "meteo_start localtime m =
     do {
       m \<leftarrow> interfaces_init m;
       let m = m\<lparr>lib := snd (zejf_init (meteo_platform localtime (meteo_interfaces m)) (lib m))\<rparr>;
       Some (server_init m)
     }"

text \<open>\<open>meteo_stop\<close> after \<open>stop_serial\<close>; the threads of the server still run while the library is destroyed.\<close>

definition meteo_stop :: "(nat \<Rightarrow> tm) \<Rightarrow> server \<Rightarrow> server option" where
  "meteo_stop localtime m =
     do {
       s \<leftarrow> zejf_destroy (meteo_platform localtime (meteo_interfaces m)) (lib m);
       m \<leftarrow> server_destroy (m\<lparr>lib := s\<rparr>);
       Some (interfaces_destroy m)
     }"

lemma meteo_start_ok:
  "returns (meteo_start lt (meteo_zero w)) (\<lambda>m. server_ok m [] \<and> meteo_interfaces m = [usb_interface_1] \<and>
     zejf_ok (meteo_platform lt (meteo_interfaces m)) (lib m) \<and> next_uid m = 1 \<and> queue_items (tx_queue (lib m)) = [])"
proof -
  let ?z = "(meteo_zero w)\<lparr>interface_count := 0, next_uid := 0\<rparr>"
  let ?usb = "\<lparr>if_uid = 0, if_type = USB, if_handle = 0, rx_count = 0, tx_count = 0\<rparr>"
  have z: "interfaces (lib ?z) usb_interface_1 = Some ?usb" "ifs_ok ?z []"
    by (simp_all add: meteo_zero_def ifs_ok_def ifs_rep_def)
  have uid: "next_uid ?z < 2 ^ 31 - 1" "usb_interface_1 \<notin> set []" by simp_all
  obtain m where m: "interface_add usb_interface_1 ?z = Some (True, m)" "meteo_frame ?z m" "ifs_ok m [usb_interface_1]"
    "lib m = (lib ?z)\<lparr>interfaces := (interfaces (lib ?z))(usb_interface_1 \<mapsto> ?usb\<lparr>if_uid := next_uid ?z\<rparr>)\<rparr>" "next_uid m = 1"
    using interface_add_ok [OF z(2,1) uid(2,1)] by auto
  have ifs: "meteo_interfaces m = [usb_interface_1]" using m(3) by (auto simp: ifs_ok_def ifs_rep_interfaces)
  let ?P = "meteo_platform lt [usb_interface_1]"
  have "never_fails (mem (lib m))" "hours (lib m) = Map.empty" by (simp_all add: m(4) meteo_zero_def never_fails_def zejf_start_def)
  from zejf_init_ok [OF this, of ?P] obtain s where s: "zejf_init ?P (lib m) = (ZEJF_OK, s)" "zejf_ok ?P s" "interfaces s = interfaces (lib m)"
    "queue_items (tx_queue s) = []" by auto
  have nf: "never_fails (mem s)" using s(2) by (simp add: zejf_ok_def net_ok_def)
  obtain q :: "addr linked_list" and h where q: "list_create (mem s) 64 = (Some q, h)" "list_ok h q" "list_items q = []" "capacity q = 64" "alloc_mono (mem s) h"
    "never_fails h" by (rule list_createE [OF nf])
  let ?m = "m\<lparr>lib := s\<lparr>mem := h\<rparr>, clients := Some q, next_client_uid := 0\<rparr>"
  have "meteo_start lt (meteo_zero w) = Some ?m"
    using m(1) s(1) q(1) by (simp add: meteo_start_def interfaces_init_def ifs server_init_def)
  moreover have I: "ifs_ok ?m [usb_interface_1]" by (rule ifs_ok_cong [OF m(3)]) (simp_all add: s(3))
  moreover have pos: "0 < next_addr h" using q(1) by (auto simp: list_create_def malloc_def split: if_splits)
  moreover have "client_at m = Map.empty" using server_frame(2) [OF m(2)] by (simp add: meteo_zero_def)
  moreover have "zejf_ok ?P (s\<lparr>mem := h\<rparr>)" by (rule zejf_ok_mem [OF s(2) q(5)])
  moreover have "meteo_interfaces ?m = [usb_interface_1]" using I by (auto simp: ifs_ok_def ifs_rep_interfaces)
  moreover have "queue_items (clients ?m) = []" using q(3) by (simp add: queue_items_def)
  ultimately show ?thesis using q m(5) s(4) by (simp add: server_ok_def queue_ok_def queue_cap_def)
qed

section \<open>The client of a descriptor\<close>

lemma server_ok_distinct: "server_ok m cs \<Longrightarrow> distinct cs"
  using ifs_ok_distinct [of m "usb_interface_1 # cs"] by (simp add: server_ok_def)

lemma client_get_loop_ok:
  assumes "clients m = Some l" and "list_ok hp l" and "set (list_items l) \<subseteq> dom (client_at m)"
  shows "list_addrs l = xs @ a # ys \<Longrightarrow> k \<le> Suc (length xs + length ys) \<Longrightarrow>
    client_get_loop fd k (Some a) m = Some (find (\<lambda>nd. client_fd (client_of m (itm (nodes l) nd)) = fd) (take k (a # ys @ xs)))"
proof (induction k arbitrary: xs a ys)
  case 0
  then show ?case by simp
next
  case (Suc k)
  obtain n xs' ys' where n: "nodes l a = Some n" "node_item n = itm (nodes l) a" "list_addrs l = xs' @ node_next n # ys'"
    "node_next n # ys' @ xs' = ys @ xs @ [a]" by (rule ring_step [OF assms(2) Suc.prems(1)])
  have "itm (nodes l) a \<in> set (list_items l)" using Suc.prems(1) by (simp add: list_items_def)
  then obtain c where c: "client_at m (itm (nodes l) a) = Some c" using assms(3) by auto
  have "length (node_next n # ys' @ xs') = length (ys @ xs @ [a])" by (rule arg_cong [OF n(4)])
  then have len: "k \<le> Suc (length xs' + length ys')" using Suc.prems(2) by simp
  have "client_get_loop fd k (Some (node_next n)) m = Some (find (\<lambda>nd. client_fd (client_of m (itm (nodes l) nd)) = fd) (take k (node_next n # ys' @ xs')))"
    by (rule Suc.IH [OF n(3) len])
  moreover have "take k (node_next n # ys' @ xs') = take k (ys @ xs)" using n(4) Suc.prems(2) by simp
  ultimately show ?case using assms(1) n(1,2) c by (simp add: client_of_def)
qed

lemma split_unique: "distinct (xs @ a # ys) \<Longrightarrow> us @ a # vs = xs @ a # ys \<Longrightarrow> us = xs"
proof (induction xs arbitrary: us)
  case Nil
  then show ?case by (cases us) auto
next
  case (Cons x xs)
  then show ?case by (cases us) auto
qed

lemma find_unique: "x \<in> set xs \<Longrightarrow> (\<And>y. y \<in> set xs \<Longrightarrow> P y \<longleftrightarrow> y = x) \<Longrightarrow> find P xs = Some x"
  by (induction xs) auto

text \<open>The node of a client, when descriptors are different.\<close>

lemma client_get_ok:
  assumes ok: "server_ok m cs" and c: "c \<in> set cs" and inj: "inj_on (client_fd \<circ> client_of m) (set cs)"
  obtains l us nd vs where "client_get (client_fd (client_of m c)) m = Some (Some nd)" "clients m = Some l" "list_addrs l = us @ nd # vs"
    "itm (nodes l) nd = c" "map (itm (nodes l)) (us @ nd # vs) = cs" "\<exists>n. nodes l nd = Some n \<and> node_item n = c"
proof -
  obtain l where l: "clients m = Some l" "list_ok (mem (lib m)) l" "list_items l = cs" by (rule server_ok_list [OF ok])
  have rep: "list_rep l (list_addrs l)" using l(2) by (simp add: list_ok_rep)
  have items: "map (itm (nodes l)) (list_addrs l) = cs" using l(3) by (simp add: list_items_def)
  have dom: "set (list_items l) \<subseteq> dom (client_at m)" using ok l by (simp add: server_ok_def)
  have "distinct cs" by (rule server_ok_distinct [OF ok])
  then have dist: "distinct (map (itm (nodes l)) (list_addrs l))" using items by simp
  obtain nd where nd: "nd \<in> set (list_addrs l)" "itm (nodes l) nd = c" using c items by auto
  then obtain us vs where split: "list_addrs l = us @ nd # vs" by (meson split_list)
  obtain xs h where h: "list_addrs l = xs @ [h]" using nd(1) by (cases "list_addrs l" rule: rev_cases) auto
  let ?fd = "client_fd (client_of m c)"
  have "client_get ?fd m = client_get_loop ?fd (Suc (length xs)) (Some h) m" using l(1) rep h by (simp add: client_get_def list_rep_def)
  also have "\<dots> = Some (find (\<lambda>n. client_fd (client_of m (itm (nodes l) n)) = ?fd) (h # xs))"
    using client_get_loop_ok [OF l(1,2) dom, of xs h "[]" "Suc (length xs)" ?fd] h by simp
  also have "find (\<lambda>n. client_fd (client_of m (itm (nodes l) n)) = ?fd) (h # xs) = Some nd"
  proof (rule find_unique)
    show "nd \<in> set (h # xs)" using nd(1) h by simp
    fix n
    assume "n \<in> set (h # xs)"
    then have n: "n \<in> set (list_addrs l)" using h by auto
    then have "itm (nodes l) n \<in> set cs" using items by auto
    then have "client_fd (client_of m (itm (nodes l) n)) = ?fd \<longleftrightarrow> itm (nodes l) n = c" using inj c by (auto simp: inj_on_def)
    also have "\<dots> \<longleftrightarrow> n = nd" using dist n nd by (auto simp: distinct_map inj_on_def)
    finally show "client_fd (client_of m (itm (nodes l) n)) = ?fd \<longleftrightarrow> n = nd" .
  qed
  finally have get: "client_get ?fd m = Some (Some nd)" .
  have "\<exists>n. nodes l nd = Some n \<and> node_item n = c" using node_of_rep [OF l(2) split] nd(2) by auto
  with that get l(1) split nd(2) items show thesis by metis
qed

section \<open>A client that hangs up\<close>

lemma poll_quiet: "\<forall>e\<in>set es. \<not> fst (snd e) \<and> \<not> fst (snd (snd e)) \<Longrightarrow> poll_clients lt es m = Some m"
  by (induction es) auto

lemma poll_hangup:
  assumes ok: "server_ok m (xs @ a # ys)" and inj: "inj_on (client_fd \<circ> client_of m) (set (xs @ a # ys))" and net: "net_ok P (lib m)"
    and first: "\<And>p ps. queue_items (tx_queue (lib m)) = p # ps \<Longrightarrow> \<not> uses_interface a p"
    and quiet: "\<forall>e\<in>set (es1 @ es2). \<not> fst (snd e) \<and> \<not> fst (snd (snd e))"
  shows "returns (poll_round lt False (es1 @ (client_fd (client_of m a), False, True, []) # es2) m) (\<lambda>m'. server_ok m' (xs @ ys) \<and> interfaces (lib m') a = None)"
proof -
  have app: "poll_clients lt (es @ fs) m = do { m \<leftarrow> poll_clients lt es m; poll_clients lt fs m }" for es fs and m :: server
    by (induction es arbitrary: m) (auto split: prod.split)
  have q: "poll_clients lt es1 m' = Some m'" "poll_clients lt es2 m' = Some m'" for m' using quiet by (simp_all add: poll_quiet)
  obtain l us nd vs where l: "client_get (client_fd (client_of m a)) m = Some (Some nd)" "clients m = Some l" "list_addrs l = us @ nd # vs"
    "itm (nodes l) nd = a" "map (itm (nodes l)) (us @ nd # vs) = xs @ a # ys"
    by (rule client_get_ok [OF ok _ inj, of a]) auto
  have us: "map (itm (nodes l)) us = xs" by (rule split_unique [OF server_ok_distinct [OF ok]]) (use l(4,5) in simp)
  have "returns (client_remove (Some nd) m) (\<lambda>m'. server_ok m' (xs @ ys) \<and> client_at m' = (client_at m)(a := None) \<and> interfaces (lib m') a = None)"
    by (rule client_remove_ok [OF ok net l(2,3) us l(4) first])
  then obtain m' where "client_remove (Some nd) m = Some m'" "server_ok m' (xs @ ys)" "interfaces (lib m') a = None"
    by (auto simp: returns_iff)
  with q l(1) show ?thesis by (simp add: poll_round_def app)
qed

section \<open>A server with clients\<close>

primrec connect_all :: "int list \<Rightarrow> server \<Rightarrow> server option" where
  "connect_all [] m = Some m"
| "connect_all (fd # fds) m = do { m \<leftarrow> client_connect fd m; connect_all fds m }"

definition serving :: "meteo_world platform \<Rightarrow> server \<Rightarrow> addr list \<Rightarrow> bool" where
  "serving P m cs \<longleftrightarrow> server_ok m cs \<and> zejf_ok P (lib m) \<and> next_uid m = 1 + int (length cs) \<and> queue_items (tx_queue (lib m)) = []"

lemma serving_connect:
  assumes "serving P m cs" and "Suc (length cs) < INTERFACES_MAX"
  shows "returns (client_connect fd m) (\<lambda>m'. \<exists>a. a \<notin> set cs \<and> serving P m' (cs @ [a]) \<and> client_fd (client_of m' a) = fd \<and>
    client_last_seen (client_of m' a) = current_millis (world (lib m')))"
proof -
  have s: "server_ok m cs" "zejf_ok P (lib m)" "next_uid m = 1 + int (length cs)" using assms(1) by (simp_all add: serving_def)
  have nf: "never_fails (mem (lib m))" using s(2) by (simp add: zejf_ok_def net_ok_def)
  have uid: "next_uid m < 2 ^ 31 - 1" using s(3) assms(2) by simp
  show ?thesis
  proof (rule returns_weaken [OF client_connect_ok [OF s(1) nf uid assms(2)]], elim conjE)
    fix m'
    let ?a = "next_addr (mem (lib m))"
    assume m': "server_ok m' (cs @ [?a])" "client_fd (client_of m' ?a) = fd" "\<forall>P. zejf_ok P (lib m) \<longrightarrow> zejf_ok P (lib m')"
      "tx_queue (lib m') = tx_queue (lib m)" "world (lib m') = world (lib m)" "next_uid m' = next_uid m + 1"
      "client_last_seen (client_of m' ?a) = current_millis (world (lib m))"
    moreover have "?a \<notin> set cs" using server_ok_distinct [OF m'(1)] by simp
    ultimately show "\<exists>a. a \<notin> set cs \<and> serving P m' (cs @ [a]) \<and> client_fd (client_of m' a) = fd \<and>
        client_last_seen (client_of m' a) = current_millis (world (lib m'))"
      using assms(1) by (intro exI [of _ ?a]) (simp add: serving_def)
  qed
qed

lemma serving_connect_all:
  "serving P m cs \<Longrightarrow> length cs + length fds < INTERFACES_MAX \<Longrightarrow>
   returns (connect_all fds m) (\<lambda>m'. \<exists>as. length as = length cs + length fds \<and> serving P m' as)"
proof (induction fds arbitrary: m cs)
  case Nil
  then show ?case by auto
next
  case (Cons fd fds)
  have room: "Suc (length cs) < INTERFACES_MAX" using Cons.prems(2) by simp
  show ?case unfolding connect_all.simps
  proof (rule returns_bindI [OF serving_connect [OF Cons.prems(1) room]], elim exE conjE)
    fix m' a
    assume "serving P m' (cs @ [a])"
    from Cons.IH [OF this] Cons.prems(2)
    show "returns (connect_all fds m') (\<lambda>m'. \<exists>as. length as = length cs + length (fd # fds) \<and> serving P m' as)" by simp
  qed
qed

lemma serving_start: "returns (meteo_start lt (meteo_zero w)) (\<lambda>m. serving (meteo_platform lt [usb_interface_1]) m [])"
  by (rule returns_weaken [OF meteo_start_ok]) (auto simp: serving_def)

lemma serving_one:
  "returns (do { m \<leftarrow> meteo_start lt (meteo_zero w); client_connect fd m }) (\<lambda>m. \<exists>a. serving (meteo_platform lt [usb_interface_1]) m [a] \<and>
     client_fd (client_of m a) = fd \<and> client_last_seen (client_of m a) = current_millis (world (lib m)))"
  by (rule returns_bindI [OF serving_start]) (rule returns_weaken [OF serving_connect], auto)

section \<open>Properties\<close>

text \<open>
  C21: connecting.  The list of clients, the list of interfaces and the descriptors that are polled agree: while
  fewer than 31 clients are connected, \<open>client_connect\<close> appends the new client to both lists with a
  number of its own, keeps all others as they were and keeps the library well-formed, and the next
  \<open>prepare_fds\<close> polls the pipe, the new client and then every other client once.
\<close>

theorem client_connects:
  assumes "server_ok m cs" and "never_fails (mem (lib m))" and "next_uid m < 2 ^ 31 - 1" and "Suc (length cs) < INTERFACES_MAX"
    and "zejf_ok P (lib m)"
  shows "returns (do { m \<leftarrow> client_connect fd m; fds \<leftarrow> prepare_fds m; Some (fds, m) })
    (\<lambda>(fds, m'). fds = pipe_fd m # fd # map (client_fd \<circ> client_of m) cs \<and> (\<exists>a. a \<notin> set cs \<and> server_ok m' (cs @ [a])) \<and> zejf_ok P (lib m'))"
proof (rule returns_bindI [OF client_connect_ok [OF assms(1-4)]], elim conjE)
  fix m'
  let ?a = "next_addr (mem (lib m))"
  assume m': "server_ok m' (cs @ [?a])" "client_fd (client_of m' ?a) = fd" "\<forall>b\<in>set cs. client_of m' b = client_of m b" "pipe_fd m' = pipe_fd m"
    "\<forall>P. zejf_ok P (lib m) \<longrightarrow> zejf_ok P (lib m')"
  have "?a \<notin> set cs" using server_ok_distinct [OF m'(1)] by simp
  with m' assms(5) prepare_fds_ok [OF m'(1)]
  show "returns (do { fds \<leftarrow> prepare_fds m'; Some (fds, m') })
    (\<lambda>(fds, m'). fds = pipe_fd m # fd # map (client_fd \<circ> client_of m) cs \<and> (\<exists>a. a \<notin> set cs \<and> server_ok m' (cs @ [a])) \<and> zejf_ok P (lib m'))"
    by auto
qed

theorem client_connects_witness:
  "returns (do { m \<leftarrow> meteo_start gmtime (meteo_zero quiet_world); m \<leftarrow> client_connect 7 m; fds \<leftarrow> prepare_fds m; Some (fds, m) })
    (\<lambda>(fds, m'). tl fds = [7])"
proof (rule returns_bindI [OF serving_start])
  fix m
  assume "serving (meteo_platform gmtime [usb_interface_1]) m []"
  then have m: "server_ok m []" "zejf_ok (meteo_platform gmtime [usb_interface_1]) (lib m)" "next_uid m = 1" "never_fails (mem (lib m))"
    by (simp_all add: serving_def zejf_ok_def net_ok_def)
  show "returns (do { m \<leftarrow> client_connect 7 m; fds \<leftarrow> prepare_fds m; Some (fds, m) }) (\<lambda>(fds, m'). tl fds = [7])"
    by (rule returns_weaken [OF client_connects [OF m(1,4) _ _ m(2)]]) (use m(3) in auto)
qed

text \<open>
  C22: the 32nd connection.  With every interface taken \<open>client_connect\<close> frees the new client but leaves
  it in the list of clients, so the next \<open>prepare_fds\<close> reads freed memory.
\<close>

theorem full_server_dangles:
  assumes "server_ok m cs" and "never_fails (mem (lib m))" and "next_uid m < 2 ^ 31 - 1" and "Suc (length cs) = INTERFACES_MAX"
  shows "returns (client_connect fd m) (\<lambda>m'. \<exists>a. queue_items (clients m') = cs @ [a] \<and> client_at m' a = None \<and> prepare_fds m' = None)"
  by (rule returns_weaken [OF client_connect_dangling [OF assms]]) blast

theorem full_server_dangles_witness:
  "returns (do { m \<leftarrow> meteo_start gmtime (meteo_zero quiet_world); m \<leftarrow> connect_all [1..31] m; client_connect 32 m })
    (\<lambda>m'. prepare_fds m' = None)"
proof (rule returns_bindI [OF serving_start], rule returns_bindI [OF serving_connect_all], assumption)
  fix m m'
  show "length [] + length [1..31 :: int] < INTERFACES_MAX" by simp
  assume "\<exists>as. length as = length [] + length [1..31 :: int] \<and> serving (meteo_platform gmtime [usb_interface_1]) m' as"
  then obtain as where s: "length as = 31" "server_ok m' as" "zejf_ok (meteo_platform gmtime [usb_interface_1]) (lib m')" "next_uid m' = 1 + int (length as)"
    by (auto simp: serving_def)
  then show "returns (client_connect 32 m') (\<lambda>m'. prepare_fds m' = None)"
    by (intro returns_weaken [OF full_server_dangles [OF s(2)]]) (auto simp: zejf_ok_def net_ok_def)
qed

text \<open>
  Disconnecting.  When the stream of a client ends (\<open>read\<close> returns nothing), \<open>read_client\<close> removes it from the
  list of clients and its interface from the list of interfaces and frees it; all other clients
  stay, in their order.  Descriptors of connected clients are different, and the first packet of the transmit
  queue does not wait for the interface that is removed.
\<close>

theorem client_disconnects:
  assumes ok: "server_ok m (xs @ a # ys)" and inj: "inj_on (client_fd \<circ> client_of m) (set (xs @ a # ys))" and net: "net_ok P (lib m)"
    and first: "\<And>p ps. queue_items (tx_queue (lib m)) = p # ps \<Longrightarrow> \<not> uses_interface a p"
  shows "returns (read_client lt (client_fd (client_of m a)) [[]] m)
    (\<lambda>m'. server_ok m' (xs @ ys) \<and> client_at m' = (client_at m)(a := None) \<and> interfaces (lib m') a = None)"
proof -
  obtain l us nd vs where l: "client_get (client_fd (client_of m a)) m = Some (Some nd)" "clients m = Some l" "list_addrs l = us @ nd # vs"
    "itm (nodes l) nd = a" "map (itm (nodes l)) (us @ nd # vs) = xs @ a # ys" "\<exists>n. nodes l nd = Some n \<and> node_item n = a"
    by (rule client_get_ok [OF ok _ inj, of a]) auto
  have dist: "distinct (xs @ a # ys)" by (rule server_ok_distinct [OF ok])
  have us: "map (itm (nodes l)) us = xs" by (rule split_unique [OF dist]) (use l(4,5) in simp)
  have "a \<in> dom (client_at m)" using ok by (simp add: server_ok_def)
  then obtain c where c: "client_at m a = Some c" by blast
  have "read_client lt (client_fd (client_of m a)) [[]] m = client_remove (Some nd) m"
    using l(1,2,6) c by (auto simp: read_client_def)
  with client_remove_ok [OF ok net l(2,3) us l(4) first] show ?thesis by simp
qed

theorem client_disconnects_witness:
  "returns (do { m \<leftarrow> do { m \<leftarrow> meteo_start gmtime (meteo_zero quiet_world); client_connect 7 m }; read_client gmtime 7 [[]] m })
    (\<lambda>m'. server_ok m' [])"
proof (rule returns_bindI [OF serving_one], elim conjE exE)
  fix m a
  assume m: "serving (meteo_platform gmtime [usb_interface_1]) m [a]" "client_fd (client_of m a) = 7"
  then have "returns (read_client gmtime (client_fd (client_of m a)) [[]] m) (\<lambda>m'. server_ok m' [])"
    by (intro returns_weaken [OF client_disconnects [of m "[]" a "[]" "meteo_platform gmtime [usb_interface_1]"]]) (auto simp: serving_def zejf_ok_def)
  then show "returns (read_client gmtime 7 [[]] m) (\<lambda>m'. server_ok m' [])" by (simp add: m(2))
qed

text \<open>
  The watchdog.  Going through the clients from the newest on, then from the oldest, \<open>watchdog_run\<close> removes
  the first one that has been silent for more than ten seconds and then ends its round; the others that are
  late wait for the next rounds.
\<close>

theorem watchdog_removes_first:
  assumes ok: "server_ok m cs" and inj: "inj_on (client_fd \<circ> client_of m) (set cs)" and "cs \<noteq> []"
  shows "watchdog_round m =
    (case find (\<lambda>c. 10 * 1000 < current_millis (world (lib m)) - client_last_seen (client_of m c)) (last cs # butlast cs) of
       None \<Rightarrow> Some m
     | Some c \<Rightarrow> do { node \<leftarrow> client_get (client_fd (client_of m c)) m; m \<leftarrow> client_remove node m; _ \<leftarrow> clients m; Some m })"
proof -
  obtain l where l: "clients m = Some l" "list_ok (mem (lib m)) l" "list_items l = cs" by (rule server_ok_list [OF ok])
  obtain us h where h: "list_addrs l = us @ [h]" using l(3) assms(3) by (cases "list_addrs l" rule: rev_cases) (auto simp: list_items_def)
  have cs: "last cs # butlast cs = map (itm (nodes l)) (h # us)" using l(3) h by (auto simp: list_items_def)
  have dist: "distinct (map (itm (nodes l)) (list_addrs l))" using server_ok_distinct [OF ok] l(3) by (simp add: list_items_def)
  let ?late = "\<lambda>c. 10 * 1000 < current_millis (world (lib m)) - client_last_seen (client_of m c)"
  have find: "find ?late (map (itm (nodes l)) ns) = map_option (itm (nodes l)) (find (late (current_millis (world (lib m))) m l) ns)" for ns
    by (induction ns) (auto simp: late_def)
  have "client_get (client_fd (client_of m (itm (nodes l) nd))) m = Some (Some nd)" if nd: "nd \<in> set (h # us)" for nd
  proof -
    have c: "itm (nodes l) nd \<in> set cs" using nd h l(3) by (auto simp: list_items_def)
    obtain l' us' nd' vs' where g: "client_get (client_fd (client_of m (itm (nodes l) nd))) m = Some (Some nd')" "clients m = Some l'"
      "list_addrs l' = us' @ nd' # vs'" "itm (nodes l') nd' = itm (nodes l) nd" by (rule client_get_ok [OF ok c inj])
    have "l' = l" using g(2) l(1) by simp
    then have "nd' \<in> set (list_addrs l)" using g(3) by simp
    moreover have "nd \<in> set (list_addrs l)" unfolding h using nd by auto
    moreover have "inj_on (itm (nodes l)) (set (list_addrs l))" using dist by (simp add: distinct_map)
    ultimately have "nd' = nd" using g(4) \<open>l' = l\<close> by (auto dest: inj_onD)
    with g(1) show ?thesis by simp
  qed
  moreover have "nd \<in> set (h # us)" if "find (late (current_millis (world (lib m))) m l) (h # us) = Some nd" for nd
    using that by (metis find_Some_iff nth_mem)
  ultimately show ?thesis
    unfolding cs find watchdog_round_first [OF ok l(1) h]
    by (cases "find (late (current_millis (world (lib m))) m l) (h # us)") (simp_all add: expel_def)
qed

theorem watchdog_removes_first_witness:
  "returns (do { m \<leftarrow> do { m \<leftarrow> meteo_start gmtime (meteo_zero quiet_world); client_connect 7 m }; m' \<leftarrow> watchdog_round m; Some (m, m') })
    (\<lambda>(m, m'). m' = m)"
proof (rule returns_bindI [OF serving_one], elim conjE exE)
  fix m a
  assume "serving (meteo_platform gmtime [usb_interface_1]) m [a]" "client_last_seen (client_of m a) = current_millis (world (lib m))"
  then have "watchdog_round m = Some m" using watchdog_removes_first [of m "[a]"] by (auto simp: serving_def)
  then show "returns (do { m' \<leftarrow> watchdog_round m; Some (m, m') }) (\<lambda>(m, m'). m' = m)" by simp
qed

end
