(* ===== verification/Sd_Crc.thy ===== *)
theory Sd_Crc
  imports Zejf_Prelude
begin

text \<open>
  The checksums of the SD card driver, \<open>libs/FatFs_SPI/sd_driver/crc.c\<close>: the table-driven CRC-7 of a
  command and CRC-16 of a data block, and their equivalence with the division by the generator
  polynomial bit by bit.  On the target \<open>char\<close> is an unsigned byte.
\<close>

unbundle bit_operations_syntax

section \<open>Operations\<close>

definition m_Crc7Table :: "u8 list" where
  "m_Crc7Table =
     [0x00, 0x09, 0x12, 0x1B, 0x24, 0x2D, 0x36, 0x3F, 0x48, 0x41, 0x5A, 0x53, 0x6C, 0x65, 0x7E, 0x77,
      0x19, 0x10, 0x0B, 0x02, 0x3D, 0x34, 0x2F, 0x26, 0x51, 0x58, 0x43, 0x4A, 0x75, 0x7C, 0x67, 0x6E,
      0x32, 0x3B, 0x20, 0x29, 0x16, 0x1F, 0x04, 0x0D, 0x7A, 0x73, 0x68, 0x61, 0x5E, 0x57, 0x4C, 0x45,
      0x2B, 0x22, 0x39, 0x30, 0x0F, 0x06, 0x1D, 0x14, 0x63, 0x6A, 0x71, 0x78, 0x47, 0x4E, 0x55, 0x5C,
      0x64, 0x6D, 0x76, 0x7F, 0x40, 0x49, 0x52, 0x5B, 0x2C, 0x25, 0x3E, 0x37, 0x08, 0x01, 0x1A, 0x13,
      0x7D, 0x74, 0x6F, 0x66, 0x59, 0x50, 0x4B, 0x42, 0x35, 0x3C, 0x27, 0x2E, 0x11, 0x18, 0x03, 0x0A,
      0x56, 0x5F, 0x44, 0x4D, 0x72, 0x7B, 0x60, 0x69, 0x1E, 0x17, 0x0C, 0x05, 0x3A, 0x33, 0x28, 0x21,
      0x4F, 0x46, 0x5D, 0x54, 0x6B, 0x62, 0x79, 0x70, 0x07, 0x0E, 0x15, 0x1C, 0x23, 0x2A, 0x31, 0x38,
      0x41, 0x48, 0x53, 0x5A, 0x65, 0x6C, 0x77, 0x7E, 0x09, 0x00, 0x1B, 0x12, 0x2D, 0x24, 0x3F, 0x36,
      0x58, 0x51, 0x4A, 0x43, 0x7C, 0x75, 0x6E, 0x67, 0x10, 0x19, 0x02, 0x0B, 0x34, 0x3D, 0x26, 0x2F,
      0x73, 0x7A, 0x61, 0x68, 0x57, 0x5E, 0x45, 0x4C, 0x3B, 0x32, 0x29, 0x20, 0x1F, 0x16, 0x0D, 0x04,
      0x6A, 0x63, 0x78, 0x71, 0x4E, 0x47, 0x5C, 0x55, 0x22, 0x2B, 0x30, 0x39, 0x06, 0x0F, 0x14, 0x1D,
      0x25, 0x2C, 0x37, 0x3E, 0x01, 0x08, 0x13, 0x1A, 0x6D, 0x64, 0x7F, 0x76, 0x49, 0x40, 0x5B, 0x52,
      0x3C, 0x35, 0x2E, 0x27, 0x18, 0x11, 0x0A, 0x03, 0x74, 0x7D, 0x66, 0x6F, 0x50, 0x59, 0x42, 0x4B,
      0x17, 0x1E, 0x05, 0x0C, 0x33, 0x3A, 0x21, 0x28, 0x5F, 0x56, 0x4D, 0x44, 0x7B, 0x72, 0x69, 0x60,
      0x0E, 0x07, 0x1C, 0x15, 0x2A, 0x23, 0x38, 0x31, 0x46, 0x4F, 0x54, 0x5D, 0x62, 0x6B, 0x70, 0x79]"

definition m_Crc16Table :: "u16 list" where
  "m_Crc16Table =
     [0x0000, 0x1021, 0x2042, 0x3063, 0x4084, 0x50A5, 0x60C6, 0x70E7, 0x8108, 0x9129, 0xA14A, 0xB16B,
      0xC18C, 0xD1AD, 0xE1CE, 0xF1EF, 0x1231, 0x0210, 0x3273, 0x2252, 0x52B5, 0x4294, 0x72F7, 0x62D6,
      0x9339, 0x8318, 0xB37B, 0xA35A, 0xD3BD, 0xC39C, 0xF3FF, 0xE3DE, 0x2462, 0x3443, 0x0420, 0x1401,
      0x64E6, 0x74C7, 0x44A4, 0x5485, 0xA56A, 0xB54B, 0x8528, 0x9509, 0xE5EE, 0xF5CF, 0xC5AC, 0xD58D,
      0x3653, 0x2672, 0x1611, 0x0630, 0x76D7, 0x66F6, 0x5695, 0x46B4, 0xB75B, 0xA77A, 0x9719, 0x8738,
      0xF7DF, 0xE7FE, 0xD79D, 0xC7BC, 0x48C4, 0x58E5, 0x6886, 0x78A7, 0x0840, 0x1861, 0x2802, 0x3823,
      0xC9CC, 0xD9ED, 0xE98E, 0xF9AF, 0x8948, 0x9969, 0xA90A, 0xB92B, 0x5AF5, 0x4AD4, 0x7AB7, 0x6A96,
      0x1A71, 0x0A50, 0x3A33, 0x2A12, 0xDBFD, 0xCBDC, 0xFBBF, 0xEB9E, 0x9B79, 0x8B58, 0xBB3B, 0xAB1A,
      0x6CA6, 0x7C87, 0x4CE4, 0x5CC5, 0x2C22, 0x3C03, 0x0C60, 0x1C41, 0xEDAE, 0xFD8F, 0xCDEC, 0xDDCD,
      0xAD2A, 0xBD0B, 0x8D68, 0x9D49, 0x7E97, 0x6EB6, 0x5ED5, 0x4EF4, 0x3E13, 0x2E32, 0x1E51, 0x0E70,
      0xFF9F, 0xEFBE, 0xDFDD, 0xCFFC, 0xBF1B, 0xAF3A, 0x9F59, 0x8F78, 0x9188, 0x81A9, 0xB1CA, 0xA1EB,
      0xD10C, 0xC12D, 0xF14E, 0xE16F, 0x1080, 0x00A1, 0x30C2, 0x20E3, 0x5004, 0x4025, 0x7046, 0x6067,
      0x83B9, 0x9398, 0xA3FB, 0xB3DA, 0xC33D, 0xD31C, 0xE37F, 0xF35E, 0x02B1, 0x1290, 0x22F3, 0x32D2,
      0x4235, 0x5214, 0x6277, 0x7256, 0xB5EA, 0xA5CB, 0x95A8, 0x8589, 0xF56E, 0xE54F, 0xD52C, 0xC50D,
      0x34E2, 0x24C3, 0x14A0, 0x0481, 0x7466, 0x6447, 0x5424, 0x4405, 0xA7DB, 0xB7FA, 0x8799, 0x97B8,
      0xE75F, 0xF77E, 0xC71D, 0xD73C, 0x26D3, 0x36F2, 0x0691, 0x16B0, 0x6657, 0x7676, 0x4615, 0x5634,
      0xD94C, 0xC96D, 0xF90E, 0xE92F, 0x99C8, 0x89E9, 0xB98A, 0xA9AB, 0x5844, 0x4865, 0x7806, 0x6827,
      0x18C0, 0x08E1, 0x3882, 0x28A3, 0xCB7D, 0xDB5C, 0xEB3F, 0xFB1E, 0x8BF9, 0x9BD8, 0xABBB, 0xBB9A,
      0x4A75, 0x5A54, 0x6A37, 0x7A16, 0x0AF1, 0x1AD0, 0x2AB3, 0x3A92, 0xFD2E, 0xED0F, 0xDD6C, 0xCD4D,
      0xBDAA, 0xAD8B, 0x9DE8, 0x8DC9, 0x7C26, 0x6C07, 0x5C64, 0x4C45, 0x3CA2, 0x2C83, 0x1CE0, 0x0CC1,
      0xEF1F, 0xFF3E, 0xCF5D, 0xDF7C, 0xAF9B, 0xBFBA, 0x8FD9, 0x9FF8, 0x6E17, 0x7E36, 0x4E55, 0x5E74,
      0x2E93, 0x3EB2, 0x0ED1, 0x1EF0]"

text \<open>The index is computed with \<open>int\<close>, so the shift of the 8-bit value does not wrap.\<close>

definition crc7_step :: "u8 \<Rightarrow> u8 \<Rightarrow> u8 option" where
  "crc7_step crc d = arr_get m_Crc7Table (unat (push_bit 1 (ucast crc :: u32) XOR ucast d))"

definition crc7 :: "u8 list \<Rightarrow> u8 option" where
  "crc7 data = foldl (\<lambda>r d. Option.bind r (\<lambda>crc. crc7_step crc d)) (Some 0) data"

definition crc16_step :: "u16 \<Rightarrow> u8 \<Rightarrow> u16 option" where
  "crc16_step crc d =
     do {
       t \<leftarrow> arr_get m_Crc16Table (unat ((drop_bit 8 crc XOR ucast d) AND 0xFF));
       Some (push_bit 8 crc XOR t)
     }"

definition update_crc16 :: "u16 \<Rightarrow> u8 list \<Rightarrow> u16 option" where
  "update_crc16 crc data = foldl (\<lambda>r d. Option.bind r (\<lambda>crc. crc16_step crc d)) (Some crc) data"

definition crc16 :: "u8 list \<Rightarrow> u16 option" where
  "crc16 data = foldl (\<lambda>r d. Option.bind r (\<lambda>crc. crc16_step crc d)) (Some 0) data"

section \<open>Division by the generator polynomial\<close>

text \<open>One bit: \<open>x^16 + x^12 + x^5 + 1\<close>, and \<open>x^7 + x^3 + 1\<close> aligned to the top of a byte.\<close>

definition shift16 :: "u16 \<Rightarrow> u16" where
  "shift16 r = push_bit 1 r XOR (if bit r 15 then 0x1021 else 0)"

definition shift7 :: "u8 \<Rightarrow> u8" where
  "shift7 r = push_bit 1 r XOR (if bit r 7 then 0x12 else 0)"

text \<open>A byte is added at the top of the register and shifted out.\<close>

definition byte16 :: "u16 \<Rightarrow> u8 \<Rightarrow> u16" where
  "byte16 r d = (shift16 ^^ 8) (r XOR push_bit 8 (ucast d))"

definition byte7 :: "u8 \<Rightarrow> u8 \<Rightarrow> u8" where
  "byte7 r d = (shift7 ^^ 8) (r XOR d)"

subsection \<open>Shifting is linear\<close>

lemma shift16_xor: "shift16 (a XOR b) = shift16 a XOR shift16 b"
  by (rule bit_eqI) (auto simp: shift16_def bit_simps)

lemma shift7_xor: "shift7 (a XOR b) = shift7 a XOR shift7 b"
  by (rule bit_eqI) (auto simp: shift7_def bit_simps)

lemma funpow_xor:
  fixes f :: "'a::len word \<Rightarrow> 'a word"
  assumes "\<And>a b. f (a XOR b) = f a XOR f b"
  shows "(f ^^ n) (a XOR b) = (f ^^ n) a XOR (f ^^ n) b"
  using assms by (induction n) simp_all

lemma eight_shifts: "(f ^^ 8) x = f (f (f (f (f (f (f (f x)))))))"
  by (simp add: eval_nat_numeral)

subsection \<open>The tables\<close>

lemma concat_rows_nth:
  "length low = 16 \<Longrightarrow> i < 16 * length hs \<Longrightarrow>
   concat (map (\<lambda>h. map (g h) low) hs) ! i = g (hs ! (i div 16)) (low ! (i mod 16))"
proof (induction hs arbitrary: i)
  case Nil
  then show ?case by simp
next
  case (Cons h hs)
  show ?case
  proof (cases "i < 16")
    case True
    with Cons.prems show ?thesis by (simp add: nth_append)
  next
    case False
    then have "(i - 16) div 16 = i div 16 - 1" "(i - 16) mod 16 = i mod 16" "1 \<le> i div 16"
      by (simp_all add: le_mod_geq le_div_geq)
    with False Cons.IH [of "i - 16"] Cons.prems show ?thesis by (simp add: nth_append)
  qed
qed

text \<open>A linear function of a byte is known from its values on the two nibbles.\<close>

lemma nibble_table:
  fixes f :: "'a::len word \<Rightarrow> 'b::len word"
  assumes "\<And>a b. f (a XOR b) = f a XOR f b" and "8 \<le> LENGTH('a)"
    and t: "t = concat (map (\<lambda>h. map ((XOR) h) low) high)" and low: "low = map (\<lambda>i. f (of_nat i)) [0..<16]"
    and high: "high = map (\<lambda>i. f (of_nat (16 * i))) [0..<16]" and "i < 256"
  shows "t ! i = f (of_nat i)"
proof -
  have len: "length low = 16" "length high = 16" by (simp_all add: low high)
  then have "t ! i = high ! (i div 16) XOR low ! (i mod 16)" using concat_rows_nth [OF len(1), of i high "(XOR)"] \<open>i < 256\<close> by (simp add: t)
  also have "i div 16 < 16" using \<open>i < 256\<close> by (simp add: div_less_iff_less_mult)
  then have "high ! (i div 16) XOR low ! (i mod 16) = f (of_nat (16 * (i div 16))) XOR f (of_nat (i mod 16))" by (simp add: low high)
  also have "\<dots> = f (of_nat (16 * (i div 16)) XOR of_nat (i mod 16))" by (simp add: assms(1))
  also have "of_nat (16 * (i div 16)) XOR of_nat (i mod 16) = (of_nat i :: 'a word)"
  proof -
    have "16 * (i div 16) = push_bit 4 (drop_bit 4 i)" "i mod 16 = take_bit 4 i" by (simp_all add: push_bit_eq_mult drop_bit_eq_div take_bit_eq_mod)
    moreover have "push_bit 4 (drop_bit 4 i) XOR take_bit 4 i = i" by (rule bit_eqI) (auto simp: bit_simps)
    ultimately show ?thesis by (metis of_nat_xor_eq)
  qed
  finally show ?thesis .
qed

lemma crc16_table:
  assumes "i < 256"
  shows "m_Crc16Table ! i = (shift16 ^^ 8) (push_bit 8 (of_nat i))"
proof (rule nibble_table [where low = "[0x0000, 0x1021, 0x2042, 0x3063, 0x4084, 0x50A5, 0x60C6, 0x70E7, 0x8108, 0x9129, 0xA14A, 0xB16B, 0xC18C, 0xD1AD, 0xE1CE, 0xF1EF]"
      and high = "[0x0000, 0x1231, 0x2462, 0x3653, 0x48C4, 0x5AF5, 0x6CA6, 0x7E97, 0x9188, 0x83B9, 0xB5EA, 0xA7DB, 0xD94C, 0xCB7D, 0xFD2E, 0xEF1F]", OF _ _ _ _ _ assms])
  show "(shift16 ^^ 8) (push_bit 8 (a XOR b)) = (shift16 ^^ 8) (push_bit 8 a) XOR (shift16 ^^ 8) (push_bit 8 b)" for a b
    by (simp add: funpow_xor shift16_xor push_bit_xor)
qed (simp, simp add: m_Crc16Table_def, simp_all add: upt_rec [of _ 16] eight_shifts shift16_def)

lemma crc7_table:
  assumes "i < 256"
  shows "m_Crc7Table ! i = drop_bit 1 ((shift7 ^^ 8) (of_nat i))"
proof (rule nibble_table [where low = "[0x00, 0x09, 0x12, 0x1B, 0x24, 0x2D, 0x36, 0x3F, 0x48, 0x41, 0x5A, 0x53, 0x6C, 0x65, 0x7E, 0x77]"
      and high = "[0x00, 0x19, 0x32, 0x2B, 0x64, 0x7D, 0x56, 0x4F, 0x41, 0x58, 0x73, 0x6A, 0x25, 0x3C, 0x17, 0x0E]", OF _ _ _ _ _ assms])
  show "drop_bit 1 ((shift7 ^^ 8) (a XOR b)) = drop_bit 1 ((shift7 ^^ 8) a) XOR drop_bit 1 ((shift7 ^^ 8) b)" for a b
    by (simp add: funpow_xor shift7_xor drop_bit_xor)
qed (simp, simp add: m_Crc7Table_def, simp_all add: upt_rec [of _ 16] eight_shifts shift7_def)

lemma length_tables [simp]: "length m_Crc7Table = 256" "length m_Crc16Table = 256"
  by (simp_all add: m_Crc7Table_def m_Crc16Table_def)

section \<open>A step of the table is a byte of the division\<close>

lemma bit_shift16: "bit (shift16 r) n \<longleftrightarrow> n < 16 \<and> (0 < n \<and> bit r (n - 1)) \<noteq> (bit r 15 \<and> bit (0x1021 :: u16) n)"
  by (auto simp: shift16_def bit_simps simp del: push_bit_Suc One_nat_def)

lemma bit_shift7: "bit (shift7 r) n \<longleftrightarrow> n < 8 \<and> (0 < n \<and> bit r (n - 1)) \<noteq> (bit r 7 \<and> bit (0x12 :: u8) n)"
  by (auto simp: shift7_def bit_simps simp del: push_bit_Suc One_nat_def)

lemma bit_above: "bit (w :: u8) n \<Longrightarrow> n < 8" "bit (v :: u16) n \<Longrightarrow> n < 16"
  by (auto dest: bit_imp_le_length)

lemma shift16_low: "\<not> bit r 15 \<Longrightarrow> shift16 r = push_bit 1 r"
  by (simp add: shift16_def)

lemma eight_low: "(shift16 ^^ 8) (take_bit 8 r) = push_bit 8 r"
proof -
  have "(shift16 ^^ n) (take_bit 8 r) = push_bit n (take_bit 8 r)" if "n \<le> 8" for n
    using that
  proof (induction n)
    case 0
    then show ?case by simp
  next
    case (Suc n)
    have "\<not> bit (push_bit n (take_bit 8 r)) 15" using Suc.prems by (auto simp: bit_simps)
    moreover have "push_bit (Suc n) (take_bit 8 r) = push_bit 1 (push_bit n (take_bit 8 r))" by (simp only: push_bit_push_bit plus_1_eq_Suc)
    ultimately show ?case using Suc by (simp add: shift16_low del: push_bit_Suc One_nat_def)
  qed
  from this [of 8] have "(shift16 ^^ 8) (take_bit 8 r) = push_bit 8 (take_bit 8 r)" by simp
  also have "\<dots> = push_bit 8 r" by (rule bit_eqI) (auto simp: bit_simps)
  finally show ?thesis .
qed

lemma crc16_step_byte: "crc16_step r d = Some (byte16 r d)"
proof -
  let ?i = "drop_bit 8 r XOR ucast d :: u16" and ?x = "r XOR push_bit 8 (ucast d)"
  have i: "?i AND 0xFF = ?i"
  proof -
    have "?i AND mask 8 = ?i" by (rule bit_eqI) (auto simp: bit_simps dest: bit_above)
    then show ?thesis by (simp add: mask_eq_exp_minus_1)
  qed
  have "take_bit 8 ?i = ?i" by (rule bit_eqI) (auto simp: bit_simps dest: bit_above)
  then have "unat ?i < 2 ^ 8" by (metis unsigned_take_bit_eq take_bit_nat_less_exp)
  then have lt: "unat ?i < 256" by simp
  have "(shift16 ^^ 8) ?x = (shift16 ^^ 8) (push_bit 8 ?i XOR take_bit 8 r)"
    by (rule arg_cong, rule bit_eqI) (auto simp: bit_simps)
  also have "\<dots> = m_Crc16Table ! unat ?i XOR push_bit 8 r"
    using crc16_table [OF lt] by (simp add: funpow_xor shift16_xor eight_low)
  finally have "byte16 r d = push_bit 8 r XOR m_Crc16Table ! unat ?i" by (simp add: byte16_def xor.commute [of _ "push_bit 8 r"])
  with lt show ?thesis by (simp add: crc16_step_def i)
qed

text \<open>The register of the 7-bit checksum is at the top of the byte, with a zero below.\<close>

lemma shift7_even: "\<not> bit (shift7 r) 0"
  by (simp add: bit_shift7)

lemma crc7_step_byte:
  assumes "\<not> bit r 0"
  shows "crc7_step (drop_bit 1 r) d = Some (drop_bit 1 (byte7 r d))"
proof -
  have "push_bit 1 (ucast (drop_bit 1 r) :: u32) = ucast r" 
  proof (rule bit_eqI)
    fix n
    show "bit (push_bit 1 (ucast (drop_bit 1 r) :: u32)) n = bit (ucast r :: u32) n"
      using assms by (cases n) (auto simp: bit_simps dest: bit_above simp del: push_bit_Suc)
  qed
  then have i: "push_bit 1 (ucast (drop_bit 1 r) :: u32) XOR ucast d = ucast (r XOR d)" by (simp add: unsigned_xor_eq)
  have lt: "unat (r XOR d) < 256" using unat_bound [of "r XOR d"] by simp
  then have "m_Crc7Table ! unat (r XOR d) = drop_bit 1 (byte7 r d)" by (simp add: crc7_table byte7_def)
  moreover have "unat (ucast (r XOR d) :: u32) = unat (r XOR d)" using lt by (simp add: unsigned_ucast_eq take_bit_nat_eq_self_iff)
  ultimately show ?thesis unfolding crc7_step_def i using lt by simp
qed

lemma byte7_even: "\<not> bit (byte7 r d) 0"
  using shift7_even [of "(shift7 ^^ 7) (r XOR d)"] by (simp add: byte7_def eval_nat_numeral)

section \<open>Checksums of a sequence\<close>

lemma update_crc16_bits: "update_crc16 r data = Some (foldl byte16 r data)"
  unfolding update_crc16_def by (induction data arbitrary: r) (simp_all add: crc16_step_byte)

lemma crc7_bits:
  "\<not> bit r 0 \<Longrightarrow> foldl (\<lambda>r d. Option.bind r (\<lambda>crc. crc7_step crc d)) (Some (drop_bit 1 r)) data = Some (drop_bit 1 (foldl byte7 r data))"
  by (induction data arbitrary: r) (simp_all add: crc7_step_byte byte7_even del: One_nat_def)

lemma shift16_inj: "shift16 a = shift16 b \<Longrightarrow> a = b"
proof -
  assume "shift16 a = shift16 b"
  then have z: "shift16 (a XOR b) = 0" by (simp add: shift16_xor)
  show "a = b"
  proof (cases "bit (a XOR b) 15")
    case True
    then have "bit (shift16 (a XOR b)) 0" by (simp add: bit_shift16)
    with z show ?thesis by simp
  next
    case False
    have "\<not> bit (a XOR b) n" for n
    proof (cases "n < 15")
      case True
      have "\<not> bit (shift16 (a XOR b)) (Suc n)" using z by simp
      with False True show ?thesis by (simp add: bit_shift16)
    next
      case big: False
      show ?thesis
      proof
        assume bit: "bit (a XOR b) n"
        then have "n < 16" by (rule bit_above)
        with big have "n = 15" by simp
        with bit False show False by simp
      qed
    qed
    then show "a = b" by (intro bit_eqI) (simp add: bit_xor_iff)
  qed
qed

lemma shifts16_inj: "(shift16 ^^ n) a = (shift16 ^^ n) b \<Longrightarrow> a = b"
  by (induction n) (auto dest: shift16_inj)

lemma byte16_inj: "byte16 a d = byte16 b d \<Longrightarrow> a = b"
proof -
  assume "byte16 a d = byte16 b d"
  then have "a XOR push_bit 8 (ucast d) = b XOR push_bit 8 (ucast d)" unfolding byte16_def by (rule shifts16_inj)
  then have "(a XOR push_bit 8 (ucast d)) XOR push_bit 8 (ucast d) = (b XOR push_bit 8 (ucast d)) XOR push_bit 8 (ucast d)" by simp
  then show "a = b" by (simp add: xor.assoc)
qed

lemma foldl_byte16_inj: "foldl byte16 a ds = foldl byte16 b ds \<Longrightarrow> a = b"
  by (induction ds arbitrary: a b) (auto dest: byte16_inj)

text \<open>Two bytes are divided like one 16-bit number.\<close>

lemma two_bytes: "byte16 (byte16 r a) b = (shift16 ^^ 16) (r XOR push_bit 8 (ucast a) XOR ucast b)"
proof -
  have "take_bit 8 (ucast b :: u16) = ucast b" by (rule bit_eqI) (auto simp: bit_simps dest: bit_above)
  then have b: "(shift16 ^^ 8) (ucast b) = push_bit 8 (ucast b :: u16)" using eight_low [of "ucast b"] by simp
  have "(shift16 ^^ 16) x = (shift16 ^^ 8) ((shift16 ^^ 8) x)" for x by (simp flip: funpow_add comp_apply [of "shift16 ^^ 8"])
  then show ?thesis by (simp add: byte16_def funpow_xor shift16_xor b xor.assoc)
qed

section \<open>Properties\<close>

text \<open>
  C31: the fast checksums are the ones of the standard.  The table-driven \<open>crc7\<close> and \<open>crc16\<close> read only
  inside their tables, and on every data they give the remainder of the bitwise division by the generator
  polynomials of the SD card.
\<close>

theorem crc_tables_divide:
  "crc16 data = Some (foldl byte16 0 data) \<and> crc7 data = Some (drop_bit 1 (foldl byte7 0 data))"
  using update_crc16_bits [of 0 data] crc7_bits [of 0 data] by (simp add: crc16_def update_crc16_def crc7_def)

text \<open>
  Transmission errors are noticed.  Two data blocks that differ only within two neighbouring bytes (any burst
  of up to nine bits, any error in a single byte) have different checksums; and the checksum of a
  block can be computed piece by piece.
\<close>

theorem crc16_detects_bursts:
  "((a, b) \<noteq> (c, d) \<longrightarrow> crc16 (xs @ [a, b] @ ys) \<noteq> crc16 (xs @ [c, d] @ ys)) \<and>
   crc16 (xs @ ys) = Option.bind (crc16 xs) (\<lambda>crc. update_crc16 crc ys)"
proof -
  have bits: "crc16 data = Some (foldl byte16 0 data)" for data using update_crc16_bits [of 0 data] by (simp add: crc16_def update_crc16_def)
  have "(a, b) = (c, d)" if "crc16 (xs @ [a, b] @ ys) = crc16 (xs @ [c, d] @ ys)"
  proof -
    let ?r = "foldl byte16 0 xs"
    have "byte16 (byte16 ?r a) b = byte16 (byte16 ?r c) d" using that by (rule_tac foldl_byte16_inj [of _ ys]) (simp add: bits)
    then have "?r XOR push_bit 8 (ucast a) XOR ucast b = ?r XOR push_bit 8 (ucast c) XOR ucast d"
      unfolding two_bytes by (rule shifts16_inj)
    then have e: "bit (?r XOR push_bit 8 (ucast a) XOR ucast b) n = bit (?r XOR push_bit 8 (ucast c) XOR ucast d) n" for n by simp
    have "bit a n = bit c n" if "n < 8" for n
    proof -
      have "\<not> bit b (n + 8)" "\<not> bit d (n + 8)" using bit_above(1) [of _ "n + 8"] by auto
      then show ?thesis using e [of "n + 8"] that by (auto simp: bit_simps)
    qed
    moreover have "bit b n = bit d n" if "n < 8" for n using e [of n] that by (auto simp: bit_simps)
    ultimately have "a = c" "b = d" by (auto intro!: bit_eqI dest: bit_above)
    then show ?thesis by simp
  qed
  then show ?thesis by (auto simp: bits update_crc16_bits)
qed

theorem crc16_detects_bursts_witness: "crc16 ([1] @ [2, 3] @ [4]) \<noteq> crc16 ([1] @ [2, 7] @ [4])"
  using crc16_detects_bursts [of 2 3 2 7 "[1]" "[4]"] by simp

end
