(* ===== verification/Pico_Time.thy ===== *)
theory Pico_Time
  imports Zejf_Api Data_Loader
begin

text \<open>
  Time on the Pico devices, \<open>libs/zejf_pico_utils\<close>: the calendar of \<open>time_utils.cpp\<close>, the clock chip
  (\<open>libs/ds3231\<close>) and \<open>time_engine.cpp\<close>, and the division of an hour into samples by which \<open>zejf_log\<close>
  (\<open>zejf_pico_data.h\<close>) decides when a value is logged.
\<close>

section \<open>The calendar\<close>

record datetime =
  dt_year :: int
  dt_month :: int
  dt_day :: int
  dt_dotw :: int
  dt_hour :: int
  dt_min :: int
  dt_sec :: int

text \<open>
  \<open>gmtime\<close> of the C library, also before 1970: the calendar repeats after 146097 days, 400 years, and the
  32-bit \<open>time_t\<close> that \<open>strtol\<close> gives reaches back less than that.
\<close>

definition cycle :: int where
  "cycle = 146097 * 86400"

definition rtc_time :: "int \<Rightarrow> datetime" where
  "rtc_time t =
     (let past = t < 0; n = nat (if past then t + cycle else t); tm = gmtime n in
      \<lparr>dt_year = int (tm_year tm) - (if past then 400 else 0), dt_month = int (tm_mon tm) + 1, dt_day = int (tm_mday tm), dt_dotw = 0,
       dt_hour = int (tm_hour tm), dt_min = int (n mod 3600 div 60), dt_sec = int (n mod 60)\<rparr>)"

text \<open>\<open>mktime\<close> on a device without a time zone: months outside a year carry over.\<close>

definition year_start :: "int \<Rightarrow> int" where
  "year_start y = 365 * (y - 1970) + ((y - 1) div 4 - (y - 1) div 100 + (y - 1) div 400 - 477)"

definition is_leap :: "int \<Rightarrow> bool" where
  "is_leap y \<longleftrightarrow> y mod 4 = 0 \<and> (y mod 100 \<noteq> 0 \<or> y mod 400 = 0)"

definition month_start :: "int \<Rightarrow> int \<Rightarrow> int" where
  "month_start y m = [0, 31, 59, 90, 120, 151, 181, 212, 243, 273, 304, 334] ! nat m + (if is_leap y \<and> 2 \<le> m then 1 else 0)"

definition unix_time :: "datetime \<Rightarrow> int" where
  "unix_time dt =
     (let y = dt_year dt + (dt_month dt - 1) div 12; m = (dt_month dt - 1) mod 12 in
      (year_start y + month_start y m + dt_day dt - 1) * 86400 + dt_hour dt * 3600 + dt_min dt * 60 + dt_sec dt)"

text \<open>A sample rate of zero, or above one per second, divides by zero.\<close>

definition get_log_num :: "u32 \<Rightarrow> u32 \<Rightarrow> u32 option" where
  "get_log_num unixtime rate =
     (if rate = 0 \<or> 3600 div rate = 0 then None else Some ((unixtime mod 3600) div (3600 div rate)))"

definition get_log_num_abs :: "u32 \<Rightarrow> u32 \<Rightarrow> u32 option" where
  "get_log_num_abs unixtime rate =
     (if rate = 0 \<or> 3600 div rate = 0 then None else Some (unixtime div (3600 div rate)))"

definition get_hour_num :: "u32 \<Rightarrow> u32" where
  "get_hour_num unixtime = unixtime div 3600"

section \<open>Logs\<close>

text \<open>\<open>'p\<close> is the data of the derived class and \<open>reset\<close> its virtual function.\<close>

record 'p zejf_log =
  log_num :: u32
  hour_num :: u32
  last_log_num :: u32
  log_rate :: u32
  payload :: 'p

definition is_ready :: "('p \<Rightarrow> 'p) \<Rightarrow> u32 \<Rightarrow> 'p zejf_log \<Rightarrow> (bool \<times> 'p zejf_log) option" where
  "is_ready reset unixtime log =
     do {
       abs_log \<leftarrow> get_log_num_abs unixtime (log_rate log);
       (if abs_log - last_log_num log = 1
        then do {
          n \<leftarrow> get_log_num unixtime (log_rate log);
          Some (True, log\<lparr>log_num := n, last_log_num := abs_log\<rparr>)
        }
        else if abs_log \<noteq> last_log_num log
        then Some (False, log\<lparr>last_log_num := abs_log, payload := reset (payload log)\<rparr>)
        else Some (False, log))
     }"

text \<open>The part of \<open>process_measurements\<close> that every measuring device has, for one of its logs: a log that is ready is
  finished, stamped with the hour, copied to the queue and reset.\<close>

definition log_step :: "('p \<Rightarrow> 'p) \<Rightarrow> ('p \<Rightarrow> 'p) \<Rightarrow> u32 \<Rightarrow> 'p zejf_log \<Rightarrow> ('p zejf_log list \<times> 'p zejf_log) option" where
  "log_step reset finish unixtime log =
     do {
       (ready, log) \<leftarrow> is_ready reset unixtime log;
       (if ready
        then (let log = log\<lparr>payload := finish (payload log), hour_num := get_hour_num unixtime\<rparr> in
              Some ([log], log\<lparr>payload := reset (payload log)\<rparr>))
        else Some ([], log))
     }"

primrec log_run :: "('p \<Rightarrow> 'p) \<Rightarrow> ('p \<Rightarrow> 'p) \<Rightarrow> u32 list \<Rightarrow> 'p zejf_log \<Rightarrow> ('p zejf_log list \<times> 'p zejf_log) option" where
  "log_run reset finish [] log = Some ([], log)"
| "log_run reset finish (t # ts) log =
     do {
       (pushed, log) \<leftarrow> log_step reset finish t log;
       (rest, log) \<leftarrow> log_run reset finish ts log;
       Some (pushed @ rest, log)
     }"

section \<open>The calendar is consistent\<close>

lemma is_leap_nat: "is_leap (int y) = leap y"
proof -
  have "int y mod 4 = int (y mod 4)" "int y mod 100 = int (y mod 100)" "int y mod 400 = int (y mod 400)" by (simp_all add: zmod_int)
  then show ?thesis by (simp add: is_leap_def leap_def)
qed

lemma div_before: "0 < k \<Longrightarrow> y div k = (y - 1) div k + (if y mod k = 0 then 1 else 0)" for y k :: int
proof -
  assume k: "0 < k"
  have y: "y = k * (y div k) + y mod k" by simp
  have m: "0 \<le> y mod k" "y mod k < k" using k by simp_all
  show "y div k = (y - 1) div k + (if y mod k = 0 then 1 else 0)"
  proof (cases "y mod k = 0")
    case True
    have "y - 1 = k * (y div k - 1) + (k - 1)" using y True by (simp add: algebra_simps)
    from int_div_pos_eq [OF this] True k show ?thesis by simp
  next
    case False
    have "y - 1 = k * (y div k) + (y mod k - 1)" using y by simp
    from int_div_pos_eq [OF this] False m show ?thesis by simp
  qed
qed

lemma year_start_step: "year_start (y + 1) = year_start y + (if is_leap y then 366 else 365)"
proof -
  have "year_start (y + 1) - year_start y = 365 + ((y div 4 - (y - 1) div 4) - (y div 100 - (y - 1) div 100) + (y div 400 - (y - 1) div 400))"
    by (simp only: year_start_def add_diff_cancel_right') (simp only: algebra_simps)
  also have "\<dots> = 365 + ((if y mod 4 = 0 then 1 else 0) - (if y mod 100 = 0 then 1 else 0) + (if y mod 400 = 0 then 1 else 0))"
    by (simp only: div_before [of 4 y, OF zero_less_numeral] div_before [of 100 y, OF zero_less_numeral] div_before [of 400 y, OF zero_less_numeral] add_diff_cancel_left')
  also have "\<dots> = (if is_leap y then 366 else 365)"
  proof -
    have "y mod 400 = 0 \<Longrightarrow> y mod 100 = 0" "y mod 100 = 0 \<Longrightarrow> y mod 4 = 0"
      using dvd_trans [of 100 400 y] dvd_trans [of 4 100 y] by (simp_all add: mod_eq_0_iff_dvd)
    then show ?thesis by (simp only: is_leap_def split: if_splits) linarith
  qed
  finally show ?thesis by (simp only: diff_eq_eq add.commute)
qed

lemma year_start_sum: "1970 \<le> y \<Longrightarrow> year_start (int y) = int (\<Sum>k = 1970..<y. year_days k)"
proof (induction y rule: dec_induct)
  case base
  show ?case by (simp add: year_start_def)
next
  case (step y)
  have "year_start (int (Suc y)) = year_start (int y) + int (year_days y)"
    using year_start_step [of "int y"] by (simp add: is_leap_nat year_days_def add.commute)
  with step show ?case by simp
qed

lemma year_start_cycle: "year_start (y - 400) = year_start y - 146097"
proof -
  have "y - 400 - 1 = (y - 1) + (-100) * 4" "y - 400 - 1 = (y - 1) + (-4) * 100" "y - 400 - 1 = (y - 1) + (-1) * 400" by simp_all
  then have "(y - 400 - 1) div 4 = (y - 1) div 4 - 100" "(y - 400 - 1) div 100 = (y - 1) div 100 - 4" "(y - 400 - 1) div 400 = (y - 1) div 400 - 1"
    by (metis div_mult_self1 add.commute zero_neq_numeral uminus_add_conv_diff)+
  then show ?thesis by (simp add: year_start_def)
qed

lemma is_leap_cycle: "is_leap (y - 400) = is_leap y"
proof -
  have "(y - 400) mod 4 = y mod 4" "(y - 400) mod 100 = y mod 100" "(y - 400) mod 400 = y mod 400"
    using mod_mult_self1 [of y "- 100" 4] mod_mult_self1 [of y "- 4" 100] mod_mult_self1 [of y "- 1" 400] by simp_all
  then show ?thesis by (simp add: is_leap_def)
qed

lemma month_start_sum: "m < 12 \<Longrightarrow> month_start (int y) (int m) = int (\<Sum>k<m. month_days y k)"
proof -
  assume "m < 12"
  then have "m \<in> set [0..<12]" by simp
  then have "m \<in> {0, 1, 2, 3, 4, 5, 6, 7, 8, 9, 10, 11}" by (simp add: upt_rec [of _ 12] eval_nat_numeral del: set_upt)
  then show ?thesis by (auto simp: month_start_def is_leap_nat month_days_def eval_nat_numeral)
qed

lemma rtc_time_fields:
  fixes n
  defines "g \<equiv> gmtime n"
  shows "(year_start (int (tm_year g)) + month_start (int (tm_year g)) (int (tm_mon g)) + int (tm_mday g) - 1) * 86400 +
    int (tm_hour g) * 3600 + int (n mod 3600 div 60) * 60 + int (n mod 60) = int n"
proof -
  note g = gmtime_days [of n, folded g_def]
  have y: "1970 \<le> tm_year g"
    using year_loop_sum [OF order_refl, of 1970 "n div 86400"] by (auto simp: g_def gmtime_def split: prod.splits)
  have "int (n div 86400) = year_start (int (tm_year g)) + month_start (int (tm_year g)) (int (tm_mon g)) + int (tm_mday g) - 1"
    using g(1,2,5) by (simp add: year_start_sum [OF y] month_start_sum)
  moreover have "n = n div 86400 * 86400 + n mod 86400 div 3600 * 3600 + n mod 3600 div 60 * 60 + n mod 60"
  proof -
    have "n mod 86400 = n mod 86400 div 3600 * 3600 + n mod 3600" using div_mult_mod_eq [of "n mod 86400" 3600] by (simp add: mod_mod_cancel)
    moreover have "n mod 3600 = n mod 3600 div 60 * 60 + n mod 60" using div_mult_mod_eq [of "n mod 3600" 60] by (simp add: mod_mod_cancel)
    moreover have "n = n div 86400 * 86400 + n mod 86400" by simp
    ultimately show ?thesis by linarith
  qed
  then have "int n = int (n div 86400 * 86400 + n mod 86400 div 3600 * 3600 + n mod 3600 div 60 * 60 + n mod 60)" by (rule arg_cong)
  then have "int n = int (n div 86400) * 86400 + int (n mod 86400 div 3600) * 3600 + int (n mod 3600 div 60) * 60 + int (n mod 60)" by simp
  ultimately show ?thesis using g(4) by simp
qed


lemma rtc_time_calendar:
  assumes "- cycle \<le> t"
  shows "unix_time (rtc_time t) = t \<and> dt_month (rtc_time t) \<in> {1..12} \<and> dt_day (rtc_time t) \<in> {1..31} \<and>
    dt_hour (rtc_time t) \<in> {0..23} \<and> dt_min (rtc_time t) \<in> {0..59} \<and> dt_sec (rtc_time t) \<in> {0..59}"
proof -
  define n where "n = nat (if t < 0 then t + cycle else t)"
  define g where "g = gmtime n"
  define y where "y = int (tm_year g)"
  have n: "int n = (if t < 0 then t + cycle else t)" using assms by (simp add: n_def)
  note g = gmtime_days [of n, folded g_def]
  note f = rtc_time_fields [of n, folded g_def, folded y_def]
  have r: "rtc_time t = \<lparr>dt_year = y - (if t < 0 then 400 else 0), dt_month = int (tm_mon g) + 1, dt_day = int (tm_mday g), dt_dotw = 0,
       dt_hour = int (tm_hour g), dt_min = int (n mod 3600 div 60), dt_sec = int (n mod 60)\<rparr>"
    by (simp only: rtc_time_def Let_def n_def g_def y_def)
  have m: "int (tm_mon g) div 12 = 0" "int (tm_mon g) mod 12 = int (tm_mon g)" using g(1) by simp_all
  have c: "month_start (y - 400) k = month_start y k" for k by (simp add: month_start_def is_leap_cycle)
  have u: "unix_time (rtc_time t) = int n - (if t < 0 then cycle else 0)"
    using f by (auto simp: unix_time_def r m Let_def year_start_cycle c cycle_def)
    have h: "tm_hour g < 24" using g(4) by (simp add: div_less_iff_less_mult)
  show ?thesis using u n h g(1-3) by (auto simp: r)
qed


lemma year_start_mono: "y \<le> z \<Longrightarrow> year_start y \<le> year_start z"
proof (induction z rule: int_ge_induct)
  case (step z)
  have "year_start z \<le> year_start (z + 1)" by (simp add: year_start_step)
  with step.IH show ?case by (rule order_trans)
qed simp

lemma month_start_le:
  assumes "0 \<le> m" and "m < 12"
  shows "0 \<le> month_start y m" "month_start y m \<le> 334 + (if is_leap y then 1 else 0)"
proof -
  from assms have "nat m < 12" by simp
  then have "nat m \<in> set [0..<12]" by simp
  then have "nat m \<in> {0, 1, 2, 3, 4, 5, 6, 7, 8, 9, 10, 11}" by (simp add: upt_rec [of _ 12] eval_nat_numeral del: set_upt)
  then have "[0, 31, 59, 90, 120, 151, 181, 212, 243, 273, 304, 334 :: int] ! nat m \<in> {0..334}" by (auto simp: eval_nat_numeral)
  then show "0 \<le> month_start y m" "month_start y m \<le> 334 + (if is_leap y then 1 else 0)"
    by (simp_all only: month_start_def atLeastAtMost_iff split: if_splits) linarith+
qed

lemma rtc_time_year:
  assumes "- cycle \<le> t"
  shows "year_start (dt_year (rtc_time t)) \<le> t div 86400" "t div 86400 < year_start (dt_year (rtc_time t) + 1)"
proof -
  note r = rtc_time_calendar [OF assms]
  define m where "m = dt_month (rtc_time t) - 1"
  define y where "y = dt_year (rtc_time t)"
  define D where "D = year_start y + month_start y m + dt_day (rtc_time t) - 1"
  define S where "S = dt_hour (rtc_time t) * 3600 + dt_min (rtc_time t) * 60 + dt_sec (rtc_time t)"
  have m: "0 \<le> m" "m < 12" "m div 12 = 0" "m mod 12 = m" using r by (auto simp: m_def)
  have "unix_time (rtc_time t) = D * 86400 + S"
    using m(3,4) by (simp add: unix_time_def Let_def m_def [symmetric] y_def [symmetric] D_def S_def)
  moreover have "0 \<le> S" "S < 86400" using r by (auto simp: S_def)
  ultimately have D: "t div 86400 = D" using r by simp
  show "year_start (dt_year (rtc_time t)) \<le> t div 86400"
    unfolding D D_def y_def [symmetric] using month_start_le(1) [OF m(1,2), of y] r by simp
  show "t div 86400 < year_start (dt_year (rtc_time t) + 1)"
    unfolding D D_def y_def [symmetric] year_start_step using month_start_le(2) [OF m(1,2), of y] r by (auto split: if_splits)
qed

lemma rtc_time_between:
  assumes "- cycle \<le> t" and "year_start a * 86400 \<le> t" and "t < year_start b * 86400"
  shows "a \<le> dt_year (rtc_time t)" "dt_year (rtc_time t) < b"
proof -
  note y = rtc_time_year [OF assms(1)]
  have a: "year_start a \<le> t div 86400" using assms(2) by simp
  have b: "t div 86400 < year_start b" using assms(3) by simp
  show "a \<le> dt_year (rtc_time t)"
  proof (rule ccontr)
    assume "\<not> a \<le> dt_year (rtc_time t)"
    then have "year_start (dt_year (rtc_time t) + 1) \<le> year_start a" by (intro year_start_mono) simp
    with y(2) a show False by linarith
  qed
  show "dt_year (rtc_time t) < b"
  proof (rule ccontr)
    assume "\<not> dt_year (rtc_time t) < b"
    then have "year_start b \<le> year_start (dt_year (rtc_time t))" by (intro year_start_mono) simp
    with y(1) b show False by linarith
  qed
qed

text \<open>
  Setting a clock and reading it back gives the same time: \<open>unix_time\<close> undoes \<open>rtc_time\<close> for every time of the
  range of a 32-bit \<open>time_t\<close>, and the years, months and days \<open>rtc_time\<close> gives are those of the calendar.
\<close>

theorem unix_time_rtc_time:
  assumes "- cycle \<le> t"
  shows "unix_time (rtc_time t) = t \<and> dt_month (rtc_time t) \<in> {1..12} \<and> dt_day (rtc_time t) \<in> {1..31} \<and>
    dt_hour (rtc_time t) \<in> {0..23} \<and> dt_min (rtc_time t) \<in> {0..59} \<and> dt_sec (rtc_time t) \<in> {0..59}"
  using assms by (rule rtc_time_calendar)

theorem unix_time_rtc_time_witness:
  "- cycle \<le> 5097599 \<and> rtc_time 5097599 = \<lparr>dt_year = 1970, dt_month = 2, dt_day = 28, dt_dotw = 0, dt_hour = 23, dt_min = 59, dt_sec = 59\<rparr> \<and>
   unix_time (rtc_time 5097599) = 5097599"
proof -
  have c: "- cycle \<le> 5097599" by (simp add: cycle_def)
  have "rtc_time 5097599 = \<lparr>dt_year = 1970, dt_month = 2, dt_day = 28, dt_dotw = 0, dt_hour = 23, dt_min = 59, dt_sec = 59\<rparr>"
    by (simp add: rtc_time_def gmtime_def year_loop.simps month_loop.simps Let_def year_days_def leap_def month_days_def)
  with c unix_time_rtc_time [OF c] show ?thesis by blast
qed

section \<open>Every sample once\<close>

definition no_slot_skipped :: "nat \<Rightarrow> u32 list \<Rightarrow> bool" where
  "no_slot_skipped period ts \<longleftrightarrow>
     successively (\<lambda>t u. t \<le> u \<and> unat u div period \<le> Suc (unat t div period)) ts"

lemma rate_period:
  fixes rate :: u32
  assumes "unat rate dvd 3600" and "rate \<noteq> 0"
  shows "unat (3600 div rate) = 3600 div unat rate" "3600 div rate \<noteq> 0" "0 < 3600 div unat rate" "3600 div unat rate * unat rate = 3600"
proof -
  show u: "unat (3600 div rate :: u32) = 3600 div unat rate" by (simp add: unat_div)
  show p: "3600 div unat rate * unat rate = 3600" using assms(1) by simp
  then show q: "0 < 3600 div unat rate" by (cases "3600 div unat rate") auto
  then show "3600 div rate \<noteq> 0" using u by auto
qed

lemma get_log_num_slots:
  assumes "unat rate dvd 3600" and "rate \<noteq> 0"
  obtains a n where "get_log_num_abs t rate = Some a" "get_log_num t rate = Some n" "unat a = unat t div (3600 div unat rate)"
    "unat n = unat a mod unat rate" "unat (get_hour_num t) = unat a div unat rate"
proof -
  note p = rate_period [OF assms]
  let ?p = "3600 div unat rate"
  show thesis
  proof (rule that)
    show "get_log_num_abs t rate = Some (t div (3600 div rate))" "get_log_num t rate = Some ((t mod 3600) div (3600 div rate))"
      using assms(2) p(2) by (simp_all add: get_log_num_abs_def get_log_num_def)
    show a: "unat (t div (3600 div rate)) = unat t div ?p" by (simp add: unat_div)
    have "unat t mod (?p * unat rate) div ?p = unat t div ?p mod unat rate"
      using p(3) by (simp add: mod_mult2_eq)
    then show "unat (t mod 3600 div (3600 div rate)) = unat (t div (3600 div rate)) mod unat rate"
      by (simp add: unat_div unat_mod p(4))
    show "unat (get_hour_num t) = unat (t div (3600 div rate)) div unat rate"
      by (simp add: get_hour_num_def unat_div div_mult2_eq [symmetric] p(4))
  qed
qed

definition sample_index :: "'p zejf_log \<Rightarrow> nat" where
  "sample_index log = unat (hour_num log) * unat (log_rate log) + unat (log_num log)"

lemma log_step_slots:
  assumes "unat (log_rate log) dvd 3600" and "log_rate log \<noteq> 0"
    and "unat (last_log_num log) = unat t div (3600 div unat (log_rate log))"
    and "t \<le> u" and "unat u div (3600 div unat (log_rate log)) \<le> Suc (unat t div (3600 div unat (log_rate log)))"
  shows "\<exists>pushed log'. log_step reset finish u log = Some (pushed, log') \<and> log_rate log' = log_rate log \<and>
    unat (last_log_num log') = unat u div (3600 div unat (log_rate log)) \<and>
    map sample_index pushed = [Suc (unat t div (3600 div unat (log_rate log)))..<Suc (unat u div (3600 div unat (log_rate log)))] \<and>
    (\<forall>l\<in>set pushed. unat (log_num l) < unat (log_rate log))"
proof -
  let ?p = "3600 div unat (log_rate log)"
  obtain a n where a: "get_log_num_abs u (log_rate log) = Some a" "get_log_num u (log_rate log) = Some n" "unat a = unat u div ?p"
    "unat n = unat a mod unat (log_rate log)" "unat (get_hour_num u) = unat a div unat (log_rate log)"
    using get_log_num_slots [OF assms(1,2), of u] by blast
  have le: "unat t div ?p \<le> unat u div ?p" using assms(4) by (intro div_le_mono) (simp add: word_le_nat_alt)
  show ?thesis
  proof (cases "a = last_log_num log")
    case True
    then show ?thesis using a assms(3) by (simp add: log_step_def is_ready_def)
  next
    case False
    then have ne: "unat a \<noteq> unat (last_log_num log)" by (simp add: word_unat_eq_iff)
    then have s: "unat a = Suc (unat (last_log_num log))" using a(3) assms(3,5) le by linarith
    then have "a = last_log_num log + 1" by (metis of_nat_Suc of_nat_unat ucast_id add.commute)
    then have d: "a - last_log_num log = 1" by simp
    have r: "0 < unat (log_rate log)" using assms(2) by (simp add: unat_gt_0)
    have i: "unat a div unat (log_rate log) * unat (log_rate log) + unat a mod unat (log_rate log) = unat a" by simp
    show ?thesis using a s d assms(3) r i by (simp add: log_step_def is_ready_def sample_index_def Let_def)
  qed
qed

lemma last_slot: "no_slot_skipped p (u # ts) \<Longrightarrow> unat u div p \<le> unat (last (u # ts)) div p"
proof (induction ts arbitrary: u)
  case (Cons v ts)
  then have "unat u div p \<le> unat v div p" by (intro div_le_mono) (simp add: no_slot_skipped_def word_le_nat_alt)
  moreover have "unat v div p \<le> unat (last (v # ts)) div p" by (rule Cons.IH) (use Cons.prems in \<open>simp add: no_slot_skipped_def\<close>)
  ultimately show ?case by simp
qed simp

text \<open>
  C27: Of a log whose sample rate divides the hour, \<open>process_measurements\<close> puts every sample into the queue exactly once and
  in order, with a sample number below the rate, whatever the times at which it is called, as long as no whole sample
  period passes without a call.
\<close>

theorem every_slot_logged_once:
  assumes "unat (log_rate log) dvd 3600" and "log_rate log \<noteq> 0"
    and "unat (last_log_num log) = unat t div (3600 div unat (log_rate log))"
    and "no_slot_skipped (3600 div unat (log_rate log)) (t # ts)"
  shows "\<exists>pushed log'. log_run reset finish ts log = Some (pushed, log') \<and>
    map sample_index pushed = [Suc (unat t div (3600 div unat (log_rate log)))..<Suc (unat (last (t # ts)) div (3600 div unat (log_rate log)))] \<and>
    (\<forall>l\<in>set pushed. unat (log_num l) < unat (log_rate log))"
  using assms
proof (induction ts arbitrary: t log)
  case Nil
  then show ?case by simp
next
  case (Cons u ts)
  let ?p = "3600 div unat (log_rate log)"
  from Cons.prems(4) have u: "t \<le> u" "unat u div ?p \<le> Suc (unat t div ?p)" and r: "no_slot_skipped ?p (u # ts)"
    by (simp_all add: no_slot_skipped_def)
  obtain pushed log' where p: "log_step reset finish u log = Some (pushed, log')" "log_rate log' = log_rate log"
    "unat (last_log_num log') = unat u div ?p" "map sample_index pushed = [Suc (unat t div ?p)..<Suc (unat u div ?p)]"
    "\<forall>l\<in>set pushed. unat (log_num l) < unat (log_rate log)"
    using log_step_slots [OF Cons.prems(1-3) u, of reset finish] by blast
  obtain rest log'' where q: "log_run reset finish ts log' = Some (rest, log'')"
    "map sample_index rest = [Suc (unat u div ?p)..<Suc (unat (last (u # ts)) div ?p)]" "\<forall>l\<in>set rest. unat (log_num l) < unat (log_rate log)"
    using Cons.IH [of log' u] Cons.prems(1,2) p(2,3) r by auto
  have mono: "unat t div ?p \<le> unat u div ?p" using u(1) by (intro div_le_mono) (simp add: word_le_nat_alt)
  from last_slot [OF r] have "unat u div ?p \<le> unat (last (u # ts)) div ?p" .
  with mono have "[Suc (unat t div ?p)..<Suc (unat u div ?p)] @ [Suc (unat u div ?p)..<Suc (unat (last (u # ts)) div ?p)] =
      [Suc (unat t div ?p)..<Suc (unat (last (u # ts)) div ?p)]"
    using upt_add_eq_append [of "Suc (unat t div ?p)" "Suc (unat u div ?p)" "unat (last (u # ts)) div ?p - unat u div ?p"] by (simp del: upt_Suc last.simps)
  with p q show ?case by (simp del: upt_Suc last.simps) (simp add: ball_Un del: upt_Suc)
qed


theorem every_slot_logged_once_witness:
  "\<exists>pushed log'. log_run (\<lambda>_. 0) (\<lambda>n. n) [3598, 3604, 3604, 3606] \<lparr>log_num = 0, hour_num = 0, last_log_num = 718, log_rate = 720, payload = 7 :: nat\<rparr> =
     Some (pushed, log') \<and> map sample_index pushed = [719, 720, 721] \<and> (\<forall>l\<in>set pushed. unat (log_num l) < 720)"
proof -
  have "no_slot_skipped 5 [3593, 3598, 3604, 3604, 3606]" by (simp add: no_slot_skipped_def)
  then show ?thesis
    using every_slot_logged_once [of "\<lparr>log_num = 0, hour_num = 0, last_log_num = 718, log_rate = 720, payload = 7 :: nat\<rparr>" 3593 "[3598, 3604, 3604, 3606]" "\<lambda>_. 0" "\<lambda>n. n"]
    by (simp add: upt_rec del: log_run.simps)
qed

end
