(* ===== verification/Pico_Clock.thy ===== *)
theory Pico_Clock
  imports Pico_Time Meteo
begin

unbundle bit_operations_syntax

text \<open>
  The clocks of a Pico device: the DS3231 chip (\<open>libs/ds3231/DS3231.cpp\<close>) and
  \<open>libs/zejf_pico_utils/src/time_engine.cpp\<close>, which sets chip and processor clock from the time the server
  sends and counts the milliseconds since the start.  The I2C functions and the clock of the processor belong to
  the Pico SDK and are parameters.
\<close>

section \<open>The SDK\<close>

text \<open>
  \<open>i2c_write_blocking_until (inst, addr, src, len, nostop, until)\<close> and the read function give the number of bytes
  transferred or an error; a read also the bytes it has put into the buffer.
\<close>

record 'w i2c =
  i2c_write :: "u8 \<Rightarrow> u8 list \<Rightarrow> bool \<Rightarrow> 'w \<Rightarrow> int \<times> 'w"
  i2c_read :: "u8 \<Rightarrow> nat \<Rightarrow> bool \<Rightarrow> 'w \<Rightarrow> (int \<times> u8 list) \<times> 'w"

text \<open>A read of \<open>n\<close> bytes into an array: bytes behind its end are undefined behaviour.\<close>

definition i2c_read_into :: "'w i2c \<Rightarrow> u8 \<Rightarrow> u8 list \<Rightarrow> nat \<Rightarrow> bool \<Rightarrow> 'w \<Rightarrow> (int \<times> u8 list \<times> 'w) option" where
  "i2c_read_into I a buf n nostop w =
     (case i2c_read I a n nostop w of
        ((rv, bs), w) \<Rightarrow> if length buf < length bs then None else Some (rv, bs @ drop (length bs) buf, w))"

record 'w rtc =
  rtc_set_datetime :: "datetime \<Rightarrow> 'w \<Rightarrow> bool \<times> 'w"
  rtc_get_datetime :: "'w \<Rightarrow> datetime"

section \<open>The clock chip\<close>

abbreviation (input) DEVICE_ADDR :: u8 where "DEVICE_ADDR \<equiv> 0x68"
abbreviation (input) REG_SEC :: u8 where "REG_SEC \<equiv> 0"
abbreviation (input) REG_MIN :: u8 where "REG_MIN \<equiv> 1"
abbreviation (input) REG_HOUR :: u8 where "REG_HOUR \<equiv> 2"
abbreviation (input) REG_DOW :: u8 where "REG_DOW \<equiv> 3"
abbreviation (input) REG_DATE :: u8 where "REG_DATE \<equiv> 4"
abbreviation (input) REG_MON :: u8 where "REG_MON \<equiv> 5"
abbreviation (input) REG_YEAR :: u8 where "REG_YEAR \<equiv> 6"

definition dectobcd :: "u8 \<Rightarrow> u8" where
  "dectobcd val = val div 10 * 16 + val mod 10"

definition bcdtodec :: "u8 \<Rightarrow> u8" where
  "bcdtodec val = val div 16 * 10 + val mod 16"

text \<open>\<open>res = res && i2c_write_blocking_until (...) == 2\<close>.\<close>

definition set_register :: "'w i2c \<Rightarrow> u8 \<Rightarrow> u8 \<Rightarrow> bool \<times> 'w \<Rightarrow> bool \<times> 'w" where
  "set_register I reg v r =
     (case r of (res, w) \<Rightarrow>
        if res then (case i2c_write I DEVICE_ADDR [reg, v] False w of (rv, w) \<Rightarrow> (rv = 2, w)) else (False, w))"

definition set_date :: "'w i2c \<Rightarrow> u8 \<Rightarrow> u8 \<Rightarrow> u8 \<Rightarrow> u8 \<Rightarrow> 'w \<Rightarrow> bool \<times> 'w" where
  "set_date I date month year day w =
     (let r = set_register I REG_YEAR (push_bit 4 (year div 10) OR (year mod 10)) (True, w);
          r = set_register I REG_MON (push_bit 4 (month div 10) OR (month mod 10)) r;
          r = set_register I REG_DATE (dectobcd date) r
      in set_register I REG_DOW (dectobcd day) r)"

definition set_time :: "'w i2c \<Rightarrow> u8 \<Rightarrow> u8 \<Rightarrow> u8 \<Rightarrow> 'w \<Rightarrow> bool \<times> 'w" where
  "set_time I hour minute sec w =
     (let r = set_register I REG_SEC (dectobcd sec) (True, w);
          r = set_register I REG_MIN (dectobcd minute) r
      in set_register I REG_HOUR (dectobcd hour) r)"

definition read_registers :: "'w i2c \<Rightarrow> u8 \<Rightarrow> nat \<Rightarrow> u8 list \<Rightarrow> 'w \<Rightarrow> (bool \<times> u8 list \<times> 'w) option" where
  "read_registers I reg n result w =
     (case i2c_write I DEVICE_ADDR [reg] True w of
        (rv, w) \<Rightarrow>
          if rv = 1
          then do {
            (rv, result, w) \<leftarrow> i2c_read_into I DEVICE_ADDR result n False w;
            Some (rv = int n, result, w)
          }
          else Some (False, result, w))"

text \<open>
  \<open>read_date\<close>, for the array the registers are read into: \<open>uint8_t result[3] = { 0x00 }\<close> in the code, which asks for
  four bytes.
\<close>

definition read_date_into :: "u8 list \<Rightarrow> 'w i2c \<Rightarrow> 'w \<Rightarrow> ((u8 \<times> u8 \<times> u8 \<times> u8) option \<times> 'w) option" where
  "read_date_into result I w =
     do {
       (res, result, w) \<leftarrow> read_registers I REG_DOW 4 result w;
       (if res
        then do {
          day \<leftarrow> arr_get result 0;
          b1 \<leftarrow> arr_get result 1;
          b2 \<leftarrow> arr_get result 2;
          b3 \<leftarrow> arr_get result 3;
          let date = 10 * drop_bit 4 b1 + (b1 AND 0x0F);
          let month = 10 * drop_bit 4 b2 + (b2 AND 0x0F);
          let year = 10 * drop_bit 4 b3 + (b3 AND 0x0F);
          Some (Some (date, month, year, day), w)
        }
        else Some (None, w))
     }"

definition read_date :: "'w i2c \<Rightarrow> 'w \<Rightarrow> ((u8 \<times> u8 \<times> u8 \<times> u8) option \<times> 'w) option" where
  "read_date = read_date_into [0, 0, 0]"

definition read_time :: "'w i2c \<Rightarrow> 'w \<Rightarrow> ((u8 \<times> u8 \<times> u8) option \<times> 'w) option" where
  "read_time I w =
     do {
       (res, result, w) \<leftarrow> read_registers I REG_SEC 3 [0, 0, 0] w;
       (if res
        then do {
          b0 \<leftarrow> arr_get result 0;
          b1 \<leftarrow> arr_get result 1;
          b2 \<leftarrow> arr_get result 2;
          let sec = 10 * drop_bit 4 b0 + (b0 AND 0x0f);
          let minute = 10 * drop_bit 4 b1 + (b1 AND 0x0f);
          let hour = (b2 AND 15) + 10 * drop_bit 4 (b2 AND 48);
          Some (Some (hour, minute, sec), w)
        }
        else Some (None, w))
     }"

section \<open>The time engine\<close>

text \<open>\<open>strtol (msg, NULL, 10)\<close> on a processor whose \<open>long\<close> has 32 bits.\<close>

definition strtol :: "string \<Rightarrow> int" where
  "strtol s =
     (case scan_sign (dropWhile is_space s) of
        (neg, t) \<Rightarrow>
          let v = int (fst (scan_digits 0 t)); v = if neg then - v else v in max (- (2 ^ 31)) (min (2 ^ 31 - 1) v))"

record time_engine =
  ds3231_working :: bool
  time_set :: bool
  time_checked :: bool
  time_check_count :: u32
  millis_since_boot :: u32
  millis_overflows :: u32

text \<open>\<open>datetime_t\<close> has signed 8-bit fields: what does not fit is converted, as the assignment does.\<close>

definition ds3231_get_into :: "u8 list \<Rightarrow> 'w i2c \<Rightarrow> 'w \<Rightarrow> (int option \<times> 'w) option" where
  "ds3231_get_into result I w =
     do {
       (d, w) \<leftarrow> read_date_into result I w;
       (case d of
          None \<Rightarrow> Some (None, w)
        | Some (date, month, year, day) \<Rightarrow>
            do {
              (t, w) \<leftarrow> read_time I w;
              (case t of
                 None \<Rightarrow> Some (None, w)
               | Some (hour, minute, sec) \<Rightarrow>
                   let dt = \<lparr>dt_year = uint year + 2000, dt_month = sint month, dt_day = sint date, dt_dotw = sint day,
                             dt_hour = sint hour, dt_min = sint minute, dt_sec = sint sec\<rparr>
                   in Some (Some (unix_time dt), w))
            })
     }"

definition ds3231_get :: "'w i2c \<Rightarrow> 'w \<Rightarrow> (int option \<times> 'w) option" where
  "ds3231_get = ds3231_get_into [0, 0, 0]"

definition ds3231_set :: "'w i2c \<Rightarrow> datetime \<Rightarrow> 'w \<Rightarrow> bool \<times> 'w" where
  "ds3231_set I dt w =
     (case set_date I (word_of_int (dt_day dt)) (word_of_int (dt_month dt)) (word_of_int (dt_year dt - 2000)) (word_of_int (dt_dotw dt)) w of
        (res, w) \<Rightarrow>
          if res then set_time I (word_of_int (dt_hour dt)) (word_of_int (dt_min dt)) (word_of_int (dt_sec dt)) w else (False, w))"

text \<open>The start: \<open>ms\<close> is what \<open>to_ms_since_boot\<close> gives.\<close>

definition time_engine_init :: "'w i2c \<Rightarrow> 'w rtc \<Rightarrow> u32 \<Rightarrow> time_engine \<Rightarrow> 'w \<Rightarrow> (time_engine \<times> 'w) option" where
  "time_engine_init I R ms e w =
     do {
       (t, w) \<leftarrow> ds3231_get I w;
       let (e, w) =
         (case t of
            Some time \<Rightarrow>
              (case rtc_set_datetime R (rtc_time time) w of (ok, w) \<Rightarrow> (e\<lparr>ds3231_working := True, time_set := ok\<rparr>, w))
          | None \<Rightarrow>
              (case rtc_set_datetime R \<lparr>dt_year = 2014, dt_month = 5, dt_day = 28, dt_dotw = 5, dt_hour = 15, dt_min = 45, dt_sec = 50\<rparr> w of
                 (_, w) \<Rightarrow> (e\<lparr>ds3231_working := False\<rparr>, w)));
       Some (e\<lparr>millis_since_boot := ms\<rparr>, w)
     }"

definition update_millis :: "u32 \<Rightarrow> time_engine \<Rightarrow> time_engine" where
  "update_millis ms e =
     (let last_millis = millis_since_boot e; e = e\<lparr>millis_since_boot := ms\<rparr> in
      if ms < last_millis then e\<lparr>millis_overflows := millis_overflows e + 1\<rparr> else e)"

definition time_check :: "'w platform \<Rightarrow> time_engine \<Rightarrow> 'w zejf \<Rightarrow> (time_engine \<times> 'w zejf) option" where
  "time_check P e s =
     (let counting = time_set e \<and> time_checked e;
          count = time_check_count e + 1;
          e = (if counting then e\<lparr>time_check_count := count\<rparr> else e)
      in if counting \<and> count < 12 * 30 then Some (e, s)
         else do {
           let e = (if counting then e\<lparr>time_check_count := 0\<rparr> else e);
           (packet, s) \<leftarrow> network_prepare_packet P BROADCAST TIME_REQUEST None s;
           (if packet = None then Some (e, s)
            else do {
              (rv, s) \<leftarrow> network_send_packet P packet (millis_since_boot e) s;
              Some (e, s)
            })
         })"

definition receive_time :: "'w i2c \<Rightarrow> 'w rtc \<Rightarrow> string \<Rightarrow> time_engine \<Rightarrow> 'w \<Rightarrow> time_engine \<times> 'w" where
  "receive_time I R msg e w =
     (let dt = rtc_time (strtol msg) in
      case ds3231_set I dt w of
        (working, w) \<Rightarrow>
          (case rtc_set_datetime R dt w of
             (ok, w) \<Rightarrow>
               (e\<lparr>ds3231_working := working, time_set := time_set e \<or> ok, time_checked := True\<rparr>, w)))"


section \<open>The chip keeps the time\<close>

lemma byte_below:
  assumes "unat v < k" and "list_all (\<lambda>n. Q (word_of_nat n)) [0..<k]"
  shows "Q (v :: u8)"
proof -
  have "unat v \<in> set [0..<k]" using assms(1) by simp
  with assms(2) have "Q (word_of_nat (unat v))" by (meson list_all_iff)
  then show ?thesis by simp
qed

lemma bcd_decode: "10 * drop_bit 4 x + (x AND 0x0F) = bcdtodec x" for x :: u8
proof -
  have "x AND 0x0F = take_bit 4 x" by (simp add: take_bit_eq_mask mask_eq_exp_minus_1)
  then show ?thesis by (simp add: bcdtodec_def drop_bit_eq_div take_bit_eq_mod)
qed

lemma bcd_roundtrip: "unat v < 100 \<Longrightarrow> bcdtodec (dectobcd v) = v"
  by (rule byte_below [where k = 100]) (assumption, code_simp)

lemma bcd_shifted: "unat v < 100 \<Longrightarrow> push_bit 4 (v div 10) OR (v mod 10) = dectobcd v"
  by (rule byte_below [where k = 100]) (assumption, code_simp)

lemma bcd_hour: "unat v < 24 \<Longrightarrow> (dectobcd v AND 15) + 10 * (drop_bit 4 (dectobcd v) AND 3) = v"
  by (rule byte_below [where k = 24]) (assumption, code_simp)


definition register_device :: "'w i2c \<Rightarrow> ('w \<Rightarrow> u8 \<Rightarrow> u8) \<Rightarrow> bool" where
  "register_device I regs \<longleftrightarrow>
     (\<forall>w r v. fst (i2c_write I DEVICE_ADDR [r, v] False w) = 2 \<and> regs (snd (i2c_write I DEVICE_ADDR [r, v] False w)) = (regs w)(r := v)) \<and>
     (\<forall>w r n. fst (i2c_write I DEVICE_ADDR [r] True w) = 1 \<and>
        (\<exists>w'. i2c_read I DEVICE_ADDR n False (snd (i2c_write I DEVICE_ADDR [r] True w)) =
           ((int n, map (\<lambda>i. regs w (r + of_nat i)) [0..<n]), w') \<and> regs w' = regs w))"

lemma set_register_device:
  assumes "register_device I regs"
  obtains w' where "set_register I r v (True, w) = (True, w')" "regs w' = (regs w)(r := v)"
proof (rule that)
  let ?x = "i2c_write I DEVICE_ADDR [r, v] False w"
  have x: "fst ?x = 2" "regs (snd ?x) = (regs w)(r := v)" using assms unfolding register_device_def by blast+
  show "set_register I r v (True, w) = (True, snd ?x)" by (cases ?x) (use x(1) in \<open>simp add: set_register_def\<close>)
  show "regs (snd ?x) = (regs w)(r := v)" by (rule x(2))
qed

lemma set_date_device:
  assumes "register_device I regs" and "unat year < 100" and "unat month < 100"
  obtains w' where "set_date I date month year day w = (True, w')"
    "regs w' = (regs w)(REG_YEAR := dectobcd year, REG_MON := dectobcd month, REG_DATE := dectobcd date, REG_DOW := dectobcd day)"
proof -
  note d = set_register_device [OF assms(1)]
  obtain w1 where 1: "set_register I REG_YEAR (dectobcd year) (True, w) = (True, w1)" "regs w1 = (regs w)(REG_YEAR := dectobcd year)" by (rule d)
  obtain w2 where 2: "set_register I REG_MON (dectobcd month) (True, w1) = (True, w2)" "regs w2 = (regs w1)(REG_MON := dectobcd month)" by (rule d)
  obtain w3 where 3: "set_register I REG_DATE (dectobcd date) (True, w2) = (True, w3)" "regs w3 = (regs w2)(REG_DATE := dectobcd date)" by (rule d)
  obtain w4 where 4: "set_register I REG_DOW (dectobcd day) (True, w3) = (True, w4)" "regs w4 = (regs w3)(REG_DOW := dectobcd day)" by (rule d)
  show thesis
    by (rule that [of w4]) (simp_all only: set_date_def bcd_shifted assms Let_def 1 2 3 4)
qed

lemma set_time_device:
  assumes "register_device I regs"
  obtains w' where "set_time I hour minute sec w = (True, w')"
    "regs w' = (regs w)(REG_SEC := dectobcd sec, REG_MIN := dectobcd minute, REG_HOUR := dectobcd hour)"
proof -
  note d = set_register_device [OF assms(1)]
  obtain w1 where 1: "set_register I REG_SEC (dectobcd sec) (True, w) = (True, w1)" "regs w1 = (regs w)(REG_SEC := dectobcd sec)" by (rule d)
  obtain w2 where 2: "set_register I REG_MIN (dectobcd minute) (True, w1) = (True, w2)" "regs w2 = (regs w1)(REG_MIN := dectobcd minute)" by (rule d)
  obtain w3 where 3: "set_register I REG_HOUR (dectobcd hour) (True, w2) = (True, w3)" "regs w3 = (regs w2)(REG_HOUR := dectobcd hour)" by (rule d)
  show thesis
    by (rule that [of w3]) (simp_all only: set_time_def Let_def 1 2 3)
qed

lemma registers_read:
  assumes "register_device I regs"
  obtains w1 w' where "i2c_write I DEVICE_ADDR [r] True w = (1, w1)"
    "i2c_read I DEVICE_ADDR n False w1 = ((int n, map (\<lambda>i. regs w (r + of_nat i)) [0..<n]), w')" "regs w' = regs w"
proof -
  let ?x = "i2c_write I DEVICE_ADDR [r] True w"
  have "fst ?x = 1 \<and> (\<exists>w'. i2c_read I DEVICE_ADDR n False (snd ?x) = ((int n, map (\<lambda>i. regs w (r + of_nat i)) [0..<n]), w') \<and> regs w' = regs w)"
    using assms unfolding register_device_def by blast
  then obtain w' where "fst ?x = 1" "i2c_read I DEVICE_ADDR n False (snd ?x) = ((int n, map (\<lambda>i. regs w (r + of_nat i)) [0..<n]), w')" "regs w' = regs w"
    by blast
  then show thesis by (intro that [of "snd ?x" w']) (simp_all add: prod_eq_iff)
qed

lemma read_registers_device:
  assumes "register_device I regs" and "n \<le> length result"
  obtains w' where "read_registers I r n result w = Some (True, map (\<lambda>i. regs w (r + of_nat i)) [0..<n] @ drop n result, w')" "regs w' = regs w"
proof -
  obtain w1 w' where w: "i2c_write I DEVICE_ADDR [r] True w = (1, w1)"
    "i2c_read I DEVICE_ADDR n False w1 = ((int n, map (\<lambda>i. regs w (r + of_nat i)) [0..<n]), w')" "regs w' = regs w"
    by (rule registers_read [OF assms(1)])
  show thesis by (rule that [of w']) (use w assms(2) in \<open>simp_all add: read_registers_def i2c_read_into_def\<close>)
qed

lemma read_registers_short:
  assumes "register_device I regs" and "length result < n"
  shows "read_registers I r n result w = None"
proof -
  obtain w1 w' where w: "i2c_write I DEVICE_ADDR [r] True w = (1, w1)"
    "i2c_read I DEVICE_ADDR n False w1 = ((int n, map (\<lambda>i. regs w (r + of_nat i)) [0..<n]), w')" "regs w' = regs w"
    by (rule registers_read [OF assms(1)])
  with assms(2) show ?thesis by (simp add: read_registers_def i2c_read_into_def)
qed

lemma read_date_device:
  assumes "register_device I regs" and "regs w REG_DATE = dectobcd date" "unat date < 100" "regs w REG_MON = dectobcd month" "unat month < 100"
    "regs w REG_YEAR = dectobcd year" "unat year < 100" and "4 \<le> length result"
  obtains w' where "read_date_into result I w = Some (Some (date, month, year, regs w REG_DOW), w')" "regs w' = regs w"
proof -
  obtain w' where "read_registers I REG_DOW 4 result w = Some (True, map (\<lambda>i. regs w (REG_DOW + of_nat i)) [0..<4] @ drop 4 result, w')" "regs w' = regs w"
    by (rule read_registers_device [OF assms(1,8)])
  with assms(2-7) show thesis
    by (intro that [of w']) (simp_all add: read_date_into_def bcd_decode bcd_roundtrip upt_rec Let_def)
qed

lemma read_time_device:
  assumes "register_device I regs" and "regs w REG_SEC = dectobcd sec" "unat sec < 100" "regs w REG_MIN = dectobcd minute" "unat minute < 100"
    "regs w REG_HOUR = dectobcd hour" "unat hour < 24"
  obtains w' where "read_time I w = Some (Some (hour, minute, sec), w')" "regs w' = regs w"
proof -
  obtain w' where "read_registers I REG_SEC 3 [0, 0, 0] w = Some (True, map (\<lambda>i. regs w (REG_SEC + of_nat i)) [0..<3] @ drop 3 [0, 0, 0], w')" "regs w' = regs w"
    by (rule read_registers_device [OF assms(1), of 3 "[0, 0, 0]"]) simp
  with assms(2-7) show thesis
    by (intro that [of w']) (simp_all add: read_time_def bcd_decode bcd_roundtrip bcd_hour upt_rec Let_def)
qed

lemma small_byte:
  assumes "0 \<le> i" and "i < 128"
  shows "unat (word_of_int i :: u8) = nat i" "sint (word_of_int i :: u8) = i" "uint (word_of_int i :: u8) = i"
  using assms by (simp_all add: unat_eq_nat_uint take_bit_int_eq_self signed_take_bit_int_eq_self unsigned_of_int signed_of_int)

text \<open>
  C29: On a chip whose registers keep what is written to them, \<open>ds3231_set\<close> succeeds for every time of the years 2000 to
  2099 and \<open>ds3231_get\<close> then gives the same time back, provided that the array \<open>read_date\<close> reads the four date
  registers into has at least four bytes; into the three bytes the code declares it writes behind the end.
\<close>

theorem clock_chip_roundtrip:
  assumes "register_device I regs" and "946684800 \<le> t" and "t < 4102444800"
  shows "fst (ds3231_set I (rtc_time t) w) \<and>
    (4 \<le> k \<longrightarrow> (\<exists>w'. ds3231_get_into (replicate k 0) I (snd (ds3231_set I (rtc_time t) w)) = Some (Some t, w'))) \<and>
    ds3231_get I (snd (ds3231_set I (rtc_time t) w)) = None"
proof -
  define dt where "dt = rtc_time t"
  have c: "- cycle \<le> t" using assms(2) by (simp add: cycle_def)
  note r = rtc_time_calendar [OF c, folded dt_def]
  have y: "2000 \<le> dt_year dt" "dt_year dt < 2100"
    using rtc_time_between [OF c, of 2000 2100] assms(2,3) by (simp_all add: year_start_def dt_def)
  let ?date = "word_of_int (dt_day dt) :: u8" and ?month = "word_of_int (dt_month dt) :: u8" and ?year = "word_of_int (dt_year dt - 2000) :: u8"
  let ?hour = "word_of_int (dt_hour dt) :: u8" and ?min = "word_of_int (dt_min dt) :: u8" and ?sec = "word_of_int (dt_sec dt) :: u8"
  have u: "unat ?date < 100" "unat ?month < 100" "unat ?year < 100" "unat ?hour < 24" "unat ?min < 100" "unat ?sec < 100"
    using r y small_byte(1) [of "dt_year dt - 2000"] by (auto simp: small_byte(1) simp del: of_int_diff)
  obtain w1 where w1: "set_date I ?date ?month ?year (word_of_int (dt_dotw dt)) w = (True, w1)"
    "regs w1 = (regs w)(REG_YEAR := dectobcd ?year, REG_MON := dectobcd ?month, REG_DATE := dectobcd ?date, REG_DOW := dectobcd (word_of_int (dt_dotw dt)))"
    using u set_date_device [OF assms(1)] by blast
  obtain w2 where w2: "set_time I ?hour ?min ?sec w1 = (True, w2)"
    "regs w2 = (regs w1)(REG_SEC := dectobcd ?sec, REG_MIN := dectobcd ?min, REG_HOUR := dectobcd ?hour)"
    using set_time_device [OF assms(1)] by blast
  have set: "ds3231_set I dt w = (True, w2)" using w1(1) w2(1) by (simp add: ds3231_set_def)
  have regs: "regs w2 REG_DATE = dectobcd ?date" "regs w2 REG_MON = dectobcd ?month" "regs w2 REG_YEAR = dectobcd ?year"
    "regs w2 REG_SEC = dectobcd ?sec" "regs w2 REG_MIN = dectobcd ?min" "regs w2 REG_HOUR = dectobcd ?hour"
    by (simp_all add: w1(2) w2(2))
  have "ds3231_get I w2 = None"
    using read_registers_short [OF assms(1), of "[0, 0, 0]" 4] by (simp add: ds3231_get_def ds3231_get_into_def read_date_into_def)
  moreover have "\<exists>w'. ds3231_get_into (replicate k 0) I w2 = Some (Some t, w')" if "4 \<le> k"
  proof -
    note k = that
    obtain w3 where w3: "read_date_into (replicate k 0) I w2 = Some (Some (?date, ?month, ?year, regs w2 REG_DOW), w3)" "regs w3 = regs w2"
      by (rule read_date_device [OF assms(1) regs(1) u(1) regs(2) u(2) regs(3) u(3), of "replicate k 0"]) (simp add: k)
    obtain w4 where w4: "read_time I w3 = Some (Some (?hour, ?min, ?sec), w4)"
      using read_time_device [OF assms(1), of w3 ?sec ?min ?hour] regs(4-6) u(4-6) w3(2) by auto
    have "\<lparr>dt_year = uint ?year + 2000, dt_month = sint ?month, dt_day = sint ?date, dt_dotw = z, dt_hour = sint ?hour, dt_min = sint ?min, dt_sec = sint ?sec\<rparr>
        = dt\<lparr>dt_dotw := z\<rparr>" for z
      using r y small_byte(3) [of "dt_year dt - 2000"] by (auto simp: small_byte(2) simp del: of_int_diff intro!: datetime.equality)
    moreover have "unix_time (dt\<lparr>dt_dotw := z\<rparr>) = unix_time dt" for z by (simp add: unix_time_def)
    ultimately show ?thesis using w3(1) w4 r by (simp add: ds3231_get_into_def Let_def)
  qed
  ultimately show ?thesis by (simp add: set dt_def [symmetric])
qed


text \<open>A chip as the data sheet has it: registers and the register pointer, which advances with every byte.\<close>

definition ds3231_chip :: "((u8 \<Rightarrow> u8) \<times> u8) i2c" where
  "ds3231_chip =
     \<lparr>i2c_write = (\<lambda>a src nostop (regs, ptr).
        case src of [] \<Rightarrow> (0, (regs, ptr)) | [r] \<Rightarrow> (1, (regs, r)) | r # v # vs \<Rightarrow> (int (length src), (regs(r := v), r + 1))),
      i2c_read = (\<lambda>a n nostop (regs, ptr). ((int n, map (\<lambda>i. regs (ptr + of_nat i)) [0..<n]), (regs, ptr + of_nat n)))\<rparr>"

theorem clock_chip_roundtrip_witness:
  "\<exists>w'. ds3231_get_into [0, 0, 0, 0] ds3231_chip (snd (ds3231_set ds3231_chip (rtc_time 1700000000) (\<lambda>_. 0, 0))) = Some (Some 1700000000, w')"
proof -
  have "register_device ds3231_chip fst" by (simp add: register_device_def ds3231_chip_def split: prod.splits)
  from clock_chip_roundtrip [OF this, of 1700000000 "(\<lambda>_. 0, 0)" 4] show ?thesis by (simp add: eval_nat_numeral)
qed

section \<open>Time from the server\<close>

lemma strtol_show_int:
  assumes "- (2 ^ 31) \<le> n" and "n < 2 ^ 31"
  shows "strtol (show_int n) = n"
proof -
  have s: "dropWhile is_space (c # cs) = c # cs" if "is_digit c \<or> c = CHR ''-''" for c cs
    using that by (auto simp: is_space_def is_digit_def char_code_def)
  have p: "scan_sign (c # cs) = (False, c # cs)" if "is_digit c" for c cs
    using that by (auto simp: scan_sign_def is_digit_def char_code_def)
  have g: "scan_sign (show_nat k) = (False, show_nat k)" "dropWhile is_space (show_nat k) = show_nat k" for k
    using show_nat_Cons [of k] s p by metis+
  have v: "fst (scan_digits 0 (show_nat k)) = k" for k by (rule scan_digits_show_nat_fst)
  show ?thesis
  proof (cases "n < 0")
    case True
    then show ?thesis using assms v [of "nat (- n)"]
      by (simp add: strtol_def show_int_def s Let_def scan_sign_def [of "_ # _"] is_space_def char_code_def)
  next
    case False
    then show ?thesis using assms v [of "nat n"] by (simp add: strtol_def show_int_def g Let_def)
  qed
qed

definition valid_datetime :: "datetime \<Rightarrow> bool" where
  "valid_datetime dt \<longleftrightarrow> dt_year dt \<in> {0..4095} \<and> dt_month dt \<in> {1..12} \<and> dt_day dt \<in> {1..31} \<and> dt_dotw dt \<in> {0..6} \<and>
     dt_hour dt \<in> {0..23} \<and> dt_min dt \<in> {0..59} \<and> dt_sec dt \<in> {0..59}"

definition rtc_works :: "'w rtc \<Rightarrow> bool" where
  "rtc_works R \<longleftrightarrow> (\<forall>dt w. valid_datetime dt \<longrightarrow>
     fst (rtc_set_datetime R dt w) \<and> rtc_get_datetime R (snd (rtc_set_datetime R dt w)) = dt)"

lemma rtc_time_valid:
  assumes "- (2 ^ 31) \<le> t" and "t < 2 ^ 32"
  shows "valid_datetime (rtc_time t)"
proof -
  have c: "- cycle \<le> t" using assms(1) by (simp add: cycle_def)
  have "year_start 1900 * 86400 \<le> t" "t < year_start 2107 * 86400" using assms by (simp_all add: year_start_def)
  with rtc_time_between [OF c] have "1900 \<le> dt_year (rtc_time t)" "dt_year (rtc_time t) < 2107" by blast+
  moreover have "dt_dotw (rtc_time t) = 0" by (simp add: rtc_time_def Let_def)
  ultimately show ?thesis using rtc_time_calendar [OF c] by (simp add: valid_datetime_def)
qed



section \<open>Milliseconds\<close>

definition engine_millis :: "time_engine \<Rightarrow> nat" where
  "engine_millis e = unat (millis_overflows e) * 2 ^ 32 + unat (millis_since_boot e)"

text \<open>
  \<open>millis_overflows\<close> extends the 32-bit millisecond counter exactly: as long as two calls of \<open>update_millis\<close> are less
  than \<open>2 ^ 32\<close> milliseconds apart, overflows and counter together are the time since the start.
\<close>

theorem update_millis_extends:
  assumes "engine_millis e \<le> t" and "t < engine_millis e + 2 ^ 32" and "t < 2 ^ 64"
  shows "engine_millis (update_millis (of_nat t) e) = t"
proof -
  let ?m = "unat (millis_since_boot e)" and ?o = "unat (millis_overflows e)"
  have m: "?m < 2 ^ 32" using unat_bound [of "millis_since_boot e"] by simp
  define q where "q = t div 2 ^ 32"
  define r where "r = t mod 2 ^ 32"
  have t: "t = q * 2 ^ 32 + r" "r < 2 ^ 32" by (simp_all add: q_def r_def)
  have u: "unat (of_nat t :: u32) = r" by (simp add: r_def unat_of_nat)
  have lt: "(of_nat t < millis_since_boot e) = (r < ?m)" by (simp only: word_less_nat_alt u)
  have q: "q < 2 ^ 32" using assms(3) by (simp add: q_def less_mult_imp_div_less)
  show ?thesis
  proof (cases "r < ?m")
    case True
    then have "q = ?o + 1" using assms(1,2) t m by (simp add: engine_millis_def)
    then have "unat (millis_overflows e + 1) = q" using q by (simp add: unat_word_ariths)
    then show ?thesis using True lt u t by (simp add: update_millis_def engine_millis_def)
  next
    case False
    then have "q = ?o" using assms(1,2) t m by (simp add: engine_millis_def)
    then show ?thesis using False lt u t by (simp add: update_millis_def engine_millis_def)
  qed
qed

theorem update_millis_extends_witness:
  "engine_millis (update_millis (of_nat 4294968296) \<lparr>ds3231_working = True, time_set = True, time_checked = True, time_check_count = 0,
     millis_since_boot = 4294967000, millis_overflows = 0\<rparr>) = 4294968296"
  by (rule update_millis_extends) (simp_all add: engine_millis_def)

end
