(* ===== verification/Pico_Card.thy ===== *)
theory Pico_Card
  imports Pico_Clock
begin

text \<open>
  The hour storage of a Pico device, \<open>libs/zejf_pico_utils/src/sd_card_handler.cpp\<close>: files on an SD card.  The
  file system, FatFs, is a third-party library and a parameter: its functions may return any result code and change
  the card in any way; what a working card does is stated as \<open>card_ready\<close>.
\<close>

section \<open>The file system\<close>

datatype FRESULT =
    FR_OK | FR_DISK_ERR | FR_INT_ERR | FR_NOT_READY | FR_NO_FILE | FR_NO_PATH | FR_INVALID_NAME | FR_DENIED | FR_EXIST
  | FR_INVALID_OBJECT | FR_WRITE_PROTECTED | FR_INVALID_DRIVE | FR_NOT_ENABLED | FR_NO_FILESYSTEM | FR_MKFS_ABORTED
  | FR_TIMEOUT | FR_LOCKED | FR_NOT_ENOUGH_CORE | FR_TOO_MANY_OPEN_FILES | FR_INVALID_PARAMETER

datatype open_mode = FA_READ | FA_WRITE_CREATE_ALWAYS

text \<open>
  \<open>'f\<close> is \<open>FIL\<close> and \<open>'w\<close> the card.  A write gives the number of bytes written, a read the bytes it has read.
  \<open>card_malloc n\<close> is \<open>malloc\<close>: nothing, or a block of \<open>n\<close> bytes with indeterminate contents.
\<close>

record ('f, 'w) fatfs =
  f_stat :: "string \<Rightarrow> 'w \<Rightarrow> FRESULT \<times> 'w"
  f_mkdir :: "string \<Rightarrow> 'w \<Rightarrow> FRESULT \<times> 'w"
  f_open :: "string \<Rightarrow> open_mode \<Rightarrow> 'w \<Rightarrow> (FRESULT \<times> 'f) \<times> 'w"
  f_size :: "'f \<Rightarrow> 'w \<Rightarrow> nat"
  f_write :: "'f \<Rightarrow> u8 list \<Rightarrow> 'w \<Rightarrow> (FRESULT \<times> nat) \<times> 'w"
  f_read :: "'f \<Rightarrow> nat \<Rightarrow> 'w \<Rightarrow> (FRESULT \<times> u8 list) \<times> 'w"
  f_close :: "'f \<Rightarrow> 'w \<Rightarrow> FRESULT \<times> 'w"
  f_mount :: "'w \<Rightarrow> FRESULT \<times> 'w"
  f_chdrive :: "'w \<Rightarrow> FRESULT \<times> 'w"
  f_unmount :: "'w \<Rightarrow> FRESULT \<times> 'w"
  card_malloc :: "nat \<Rightarrow> 'w \<Rightarrow> u8 list option \<times> 'w"

section \<open>The card handler\<close>

text \<open>\<open>sd_stats\<close>, \<open>p_sd_card->m_Status == STA_NOINIT\<close> and the card itself.\<close>

record 'w card =
  fatal_errors :: u32
  card_resets :: u32
  successful_reads :: u32
  successful_writes :: u32
  working :: bool
  sta_noinit :: bool
  card_fs :: 'w

definition on_fs :: "('w \<Rightarrow> 'a \<times> 'w) \<Rightarrow> 'w card \<Rightarrow> 'a \<times> 'w card" where
  "on_fs f c = (case f (card_fs c) of (r, w) \<Rightarrow> (r, c\<lparr>card_fs := w\<rparr>))"

definition fatal_error :: "'w card \<Rightarrow> 'w card" where
  "fatal_error c = c\<lparr>fatal_errors := fatal_errors c + 1\<rparr>"

definition file_path :: "u32 \<Rightarrow> string" where
  "file_path hour_number =
     (let dt = rtc_time (uint (hour_number * 60 * 60)) in
      fst (snprintf 64 (''/'' @ show_int (dt_year dt) @ ''/'' @ two_digits (nat (dt_month dt)) @ ''/'' @ two_digits (nat (dt_day dt)) @
        ''/'' @ show_int (sint hour_number) @ ''.dat'')))"

definition mount_card :: "('f, 'w) fatfs \<Rightarrow> 'w card \<Rightarrow> 'w card" where
  "mount_card ff c =
     (case on_fs (f_mount ff) c of
        (fr, c) \<Rightarrow>
          if fr \<noteq> FR_OK then fatal_error c
          else (case on_fs (f_chdrive ff) c of
                  (fr, c) \<Rightarrow> if fr \<noteq> FR_OK then fatal_error c else c\<lparr>working := True\<rparr>))"

definition reset_card :: "('f, 'w) fatfs \<Rightarrow> 'w card \<Rightarrow> 'w card" where
  "reset_card ff c =
     (let c = c\<lparr>card_resets := card_resets c + 1, working := False, sta_noinit := True\<rparr>;
          c = snd (on_fs (f_unmount ff) c)
      in mount_card ff c)"

text \<open>The loop from slash to slash: \<open>acc\<close> is the part of \<open>file_path\<close> before \<open>p\<close>.  A failing \<open>f_mkdir\<close> ends it with
  \<open>return -1\<close>, which as a \<open>bool\<close> is true.\<close>

fun mkdirs_loop :: "('f, 'w) fatfs \<Rightarrow> string \<Rightarrow> string \<Rightarrow> 'w card \<Rightarrow> bool \<times> 'w card" where
  "mkdirs_loop ff acc [] c = (True, c)"
| "mkdirs_loop ff acc (ch # rest) c =
     (if ch = CHR ''/''
      then (case on_fs (f_mkdir ff acc) c of
              (fr, c) \<Rightarrow>
                if fr \<noteq> FR_OK \<and> fr \<noteq> FR_EXIST then (True, fatal_error c)
                else mkdirs_loop ff (acc @ [ch]) rest c)
      else mkdirs_loop ff (acc @ [ch]) rest c)"

text \<open>\<open>strncpy\<close> of 64 characters leaves a longer name without its terminating zero.\<close>

definition mkdirs :: "('f, 'w) fatfs \<Rightarrow> string \<Rightarrow> 'w card \<Rightarrow> (bool \<times> 'w card) option" where
  "mkdirs ff filename c =
     (case on_fs (f_stat ff filename) c of
        (fr, c) \<Rightarrow>
          if fr = FR_OK \<or> fr = FR_NO_FILE then Some (True, c)
          else if fr = FR_NO_PATH
          then (if 64 \<le> length filename then None else Some (mkdirs_loop ff (take 1 filename) (drop 1 filename) c))
          else Some (False, reset_card ff (fatal_error c)))"

definition card_write :: "('f, 'w) fatfs \<Rightarrow> u8 list \<Rightarrow> string \<Rightarrow> 'w card \<Rightarrow> (zejf_err \<times> 'w card) option" where
  "card_write ff buf filename c =
     do {
       (made, c) \<leftarrow> mkdirs ff filename c;
       (if \<not> made then Some (ZEJF_ERR_IO, c)
        else
          (case on_fs (f_open ff filename FA_WRITE_CREATE_ALWAYS) c of
             ((fr, fil), c) \<Rightarrow>
               if fr \<noteq> FR_OK
               then Some (ZEJF_ERR_IO, if fr \<noteq> FR_NO_FILE \<and> fr \<noteq> FR_NO_PATH then reset_card ff (fatal_error c) else c)
               else
                 (case on_fs (f_write ff fil buf) c of
                    ((fr, result), c) \<Rightarrow>
                      let c = (if fr \<noteq> FR_OK then fatal_error c else c) in
                      (case on_fs (f_close ff fil) c of
                         (fr, c) \<Rightarrow>
                           if fr \<noteq> FR_OK then Some (ZEJF_ERR_IO, fatal_error c)
                           else if result = length buf
                           then Some (ZEJF_OK, c\<lparr>successful_writes := successful_writes c + 1, working := True\<rparr>)
                           else Some (ZEJF_ERR_IO, c)))))
     }"

text \<open>
  \<open>HOUR_FILE_MAX_SIZE\<close> in \<open>zejf_settings.h\<close> of ZejfOutside and ZejfWind; ZejfPress has half of it, so that the functions have
  it as the argument \<open>max_size\<close>.
\<close>

definition CARD_FILE_MAX_SIZE :: nat where
  "CARD_FILE_MAX_SIZE = 1024 * 32"

text \<open>Between \<open>f_size\<close> and \<open>f_close\<close>: the block \<open>*ptr\<close> and \<open>total_size\<close>.\<close>

definition read_contents :: "nat \<Rightarrow> ('f, 'w) fatfs \<Rightarrow> 'f \<Rightarrow> 'w card \<Rightarrow> (u8 list option \<times> nat) \<times> 'w card" where
  "read_contents max_size ff fil c =
     (let total_size = f_size ff fil (card_fs c) in
      if max_size < total_size then ((None, 0), fatal_error c)
      else
        (case on_fs (card_malloc ff total_size) c of
           (None, c) \<Rightarrow> ((None, 0), fatal_error c)
         | (Some block, c) \<Rightarrow>
             (case on_fs (f_read ff fil total_size) c of
                ((fr, bs), c) \<Rightarrow>
                  if fr \<noteq> FR_OK then ((None, 0), fatal_error c)
                  else ((Some (bs @ drop (length bs) block), total_size), c))))"

definition card_read :: "nat \<Rightarrow> ('f, 'w) fatfs \<Rightarrow> bool \<Rightarrow> string \<Rightarrow> 'w card \<Rightarrow> (zejf_err \<times> u8 list option) \<times> 'w card" where
  "card_read max_size ff ptr filename c =
     (if \<not> ptr then ((ZEJF_ERR_NULL, None), c)
      else
        (case on_fs (f_open ff filename FA_READ) c of
           ((fr, fil), c) \<Rightarrow>
             if fr \<noteq> FR_OK
             then (if fr \<noteq> FR_NO_FILE \<and> fr \<noteq> FR_NO_PATH then ((ZEJF_ERR_IO, None), reset_card ff (fatal_error c))
                   else ((ZEJF_ERR_FILE_DOESNT_EXIST, None), c))
             else
               (case read_contents max_size ff fil c of
                  ((block, total_size), c) \<Rightarrow>
                    (case on_fs (f_close ff fil) c of
                       (fr, c) \<Rightarrow>
                         let c = (if fr \<noteq> FR_OK then fatal_error c else c);
                             c = c\<lparr>successful_reads := successful_reads c + 1, working := True\<rparr>
                         in if 0 < total_size then ((ZEJF_OK, block), c) else ((ZEJF_ERR_IO, block), c)))))"

definition card_hour_load :: "nat \<Rightarrow> ('f, 'w) fatfs \<Rightarrow> u32 \<Rightarrow> 'w card \<Rightarrow> (zejf_err \<times> u8 list option) \<times> 'w card" where
  "card_hour_load max_size ff hour_number c = card_read max_size ff True (file_path hour_number) c"

definition card_hour_save :: "('f, 'w) fatfs \<Rightarrow> u32 \<Rightarrow> u8 list \<Rightarrow> 'w card \<Rightarrow> (zejf_err \<times> 'w card) option" where
  "card_hour_save ff hour_number buffer c = card_write ff buffer (file_path hour_number) c"

definition init_card :: "('f, 'w) fatfs \<Rightarrow> 'w \<Rightarrow> 'w card" where
  "init_card ff w =
     mount_card ff \<lparr>fatal_errors = 0, card_resets = 0, successful_reads = 0, successful_writes = 0, working = False, sta_noinit = True, card_fs = w\<rparr>"

definition card_platform :: "('f, 'w) fatfs \<Rightarrow> 'w card platform \<Rightarrow> 'w card platform" where
  "card_platform ff P =
     P\<lparr>hour_load := card_hour_load CARD_FILE_MAX_SIZE ff,
       hour_save := (\<lambda>n bs c. case card_hour_save ff n bs c of Some r \<Rightarrow> r | None \<Rightarrow> (ZEJF_ERR_GENERIC, c))\<rparr>"


section \<open>A card that works\<close>

text \<open>
  The documented behaviour of FatFs on a healthy card, for the sequences of calls the handler makes, with \<open>files\<close> and
  \<open>dirs\<close> the files and directories on it.  \<open>kept w w'\<close> says that nothing on the card has changed.
\<close>

definition kept :: "('w \<Rightarrow> bool) \<Rightarrow> ('w \<Rightarrow> string \<rightharpoonup> u8 list) \<Rightarrow> ('w \<Rightarrow> string set) \<Rightarrow> 'w \<Rightarrow> 'w \<Rightarrow> bool" where
  "kept ok files dirs w w' \<longleftrightarrow> ok w' \<and> files w' = files w \<and> dirs w' = dirs w"

definition stat_works where
  "stat_works ff ok files dirs \<longleftrightarrow> (\<forall>w p. ok w \<and> p \<notin> dirs w \<longrightarrow>
     (\<exists>w'. f_stat ff p w = (if dir_of p \<notin> dirs w then FR_NO_PATH else if files w p = None then FR_NO_FILE else FR_OK, w') \<and>
        kept ok files dirs w w'))"

definition mkdir_works where
  "mkdir_works ff ok files dirs \<longleftrightarrow> (\<forall>w p. ok w \<and> dir_of p \<in> dirs w \<and> files w p = None \<longrightarrow>
     (\<exists>w'. f_mkdir ff p w = (if p \<in> dirs w then FR_EXIST else FR_OK, w') \<and> ok w' \<and> files w' = files w \<and> dirs w' = insert p (dirs w)))"

definition read_works where
  "read_works ff ok files dirs \<longleftrightarrow> (\<forall>w p. ok w \<and> p \<notin> dirs w \<longrightarrow>
     (case files w p of
        None \<Rightarrow> \<exists>fil fr w'. f_open ff p FA_READ w = ((fr, fil), w') \<and> fr \<in> {FR_NO_FILE, FR_NO_PATH} \<and> kept ok files dirs w w'
      | Some bs \<Rightarrow>
          \<exists>fil w1 block w2 w3 w4. f_open ff p FA_READ w = ((FR_OK, fil), w1) \<and> f_size ff fil w1 = length bs \<and>
            card_malloc ff (length bs) w1 = (Some block, w2) \<and> length block = length bs \<and>
            f_read ff fil (length bs) w2 = ((FR_OK, bs), w3) \<and> f_close ff fil w3 = (FR_OK, w4) \<and> kept ok files dirs w w4))"

definition write_works where
  "write_works ff ok files dirs \<longleftrightarrow> (\<forall>w p bs. ok w \<and> p \<notin> dirs w \<and> dir_of p \<in> dirs w \<longrightarrow>
     (\<exists>fil w1 w2 w3. f_open ff p FA_WRITE_CREATE_ALWAYS w = ((FR_OK, fil), w1) \<and> f_write ff fil bs w1 = ((FR_OK, length bs), w2) \<and>
        f_close ff fil w2 = (FR_OK, w3) \<and> ok w3 \<and> files w3 = (files w)(p \<mapsto> bs) \<and> dirs w3 = dirs w))"

definition fatfs_works where
  "fatfs_works ff ok files dirs \<longleftrightarrow>
     stat_works ff ok files dirs \<and> mkdir_works ff ok files dirs \<and> read_works ff ok files dirs \<and> write_works ff ok files dirs"

text \<open>A healthy card on which only hour files have been stored.\<close>

definition card_ready :: "('w \<Rightarrow> bool) \<Rightarrow> ('w \<Rightarrow> string \<rightharpoonup> u8 list) \<Rightarrow> ('w \<Rightarrow> string set) \<Rightarrow> 'w card \<Rightarrow> bool" where
  "card_ready ok files dirs c \<longleftrightarrow> ok (card_fs c) \<and> [] \<in> dirs (card_fs c) \<and>
     (\<forall>p. files (card_fs c) p \<noteq> None \<longrightarrow> count_list p CHR ''/'' = 4) \<and> (\<forall>p\<in>dirs (card_fs c). count_list p CHR ''/'' < 4)"

definition card_hours :: "('w \<Rightarrow> string \<rightharpoonup> u8 list) \<Rightarrow> 'w card \<Rightarrow> u32 \<Rightarrow> u8 list option" where
  "card_hours files c n = files (card_fs c) (file_path n)"

text \<open>The name of an hour.\<close>

lemma length_two_digits: "n \<le> 99 \<Longrightarrow> length (two_digits n) \<le> 2"
  using length_show_nat [of n 1] length_show_nat [of n 0] by (auto simp: two_digits_def)

lemma length_show_int: "- (10 ^ Suc k) < i \<Longrightarrow> i < 10 ^ Suc k \<Longrightarrow> length (show_int i) \<le> Suc (Suc k)"
  using length_show_nat [of "nat i" k] length_show_nat [of "nat (- i)" k] by (auto simp: show_int_def nat_less_iff)

lemma show_int_chars: "c \<in> set (show_int i) \<Longrightarrow> is_digit c \<or> c = CHR ''-''"
  using show_nat_digits by (auto simp: show_int_def split: if_splits)

lemma slash_free: "CHR ''/'' \<notin> set (show_int i)" "CHR ''/'' \<notin> set (two_digits n)"
  using show_int_chars [of "CHR ''/''" i] digits_free(2) [of "CHR ''/''" n] by (auto simp: is_digit_def char_code_def)

definition hour_dir :: "u32 \<Rightarrow> string" where
  "hour_dir n = (let dt = rtc_time (uint (n * 60 * 60)) in
     ''/'' @ show_int (dt_year dt) @ ''/'' @ two_digits (nat (dt_month dt)) @ ''/'' @ two_digits (nat (dt_day dt)))"

lemma file_path_eq: "file_path n = hour_dir n @ ''/'' @ show_int (sint n) @ ''.dat''" "length (file_path n) < 64"
proof -
  let ?t = "uint (n * 60 * 60)"
  let ?dt = "rtc_time ?t"
  have t: "0 \<le> ?t" "?t < 2 ^ 32" using uint_bounded [of "n * 60 * 60"] by simp_all
  have c: "- cycle \<le> ?t" by (rule order_trans [OF _ t(1)]) (simp add: cycle_def)
  have y: "1970 \<le> dt_year ?dt" "dt_year ?dt < 2107"
    using rtc_time_between [OF c, of 1970 2107] t by (simp_all add: year_start_def)
  note r = rtc_time_calendar [OF c]
  have ly: "length (show_int (dt_year ?dt)) \<le> 5" using length_show_int [of 3 "dt_year ?dt"] y by simp
  have lm: "length (two_digits (nat (dt_month ?dt))) \<le> 2" "length (two_digits (nat (dt_day ?dt))) \<le> 2"
    using r by (intro length_two_digits; auto)+
  have ln: "length (show_int (sint n)) \<le> 11" using length_show_int [of 9 "sint n"] sint_ge [of n] sint_lt [of n] by simp
  have l: "length (hour_dir n @ ''/'' @ show_int (sint n) @ ''.dat'') < 64"
    using ly lm ln by (simp add: hour_dir_def Let_def)
  then show "file_path n = hour_dir n @ ''/'' @ show_int (sint n) @ ''.dat''"
    by (simp add: file_path_def hour_dir_def Let_def snprintf_def)
  with l show "length (file_path n) < 64" by simp
qed

lemma dir_of_append: "CHR ''/'' \<notin> set x \<Longrightarrow> dir_of (d @ CHR ''/'' # x) = d"
  by (simp add: dir_of_def dropWhile_append2 del: dropWhile_eq_Cons_conv) (subst dropWhile_append2; auto)

lemma file_path_slashes: "count_list (file_path n) CHR ''/'' = 4" "dir_of (file_path n) = hour_dir n" "take 1 (file_path n) = ''/''"
proof -
  show "count_list (file_path n) CHR ''/'' = 4"
    by (simp add: file_path_eq hour_dir_def Let_def count_free slash_free)
  show "dir_of (file_path n) = hour_dir n"
    using dir_of_append [of "show_int (sint n) @ ''.dat''" "hour_dir n"] slash_free by (simp add: file_path_eq)
  show "take 1 (file_path n) = ''/''" by (simp add: file_path_eq hour_dir_def Let_def)
qed

lemma show_int_inj: "show_int i = show_int j \<Longrightarrow> i = j"
proof -
  assume e: "show_int i = show_int j"
  have v: "show_nat m = show_nat n \<Longrightarrow> m = n" for m n by (metis scan_digits_show_nat_fst)
  have m: "show_nat m \<noteq> CHR ''-'' # show_nat n" for m n
    using digits_free(1) [of "CHR ''-''" m] by (auto simp: is_digit_def char_code_def)
  show "i = j" using e v [of "nat i" "nat j"] v [of "nat (- i)" "nat (- j)"] m [of "nat i" "nat (- j)"] m [of "nat j" "nat (- i)"]
    by (auto simp: show_int_def split: if_splits)
qed

lemma file_path_inj: "file_path m = file_path n \<Longrightarrow> m = n"
proof -
  assume "file_path m = file_path n"
  then have "rev (hour_dir m @ ''/'' @ show_int (sint m) @ ''.dat'') = rev (hour_dir n @ ''/'' @ show_int (sint n) @ ''.dat'')"
    by (simp only: file_path_eq)
  then have "rev (show_int (sint m) @ ''.dat'') @ CHR ''/'' # rev (hour_dir m) = rev (show_int (sint n) @ ''.dat'') @ CHR ''/'' # rev (hour_dir n)"
    by simp
  then have "rev (show_int (sint m) @ ''.dat'') = rev (show_int (sint n) @ ''.dat'')"
    using slash_free by (subst (asm) split_at) auto
  then have "sint m = sint n" using show_int_inj by simp
  then show "m = n" by (metis signed_word_eqI)
qed


text \<open>\<open>mkdirs\<close> makes every directory on the way.\<close>

lemma mkdirs_loop_ok:
  assumes "fatfs_works ff ok files dirs" and "card_ready ok files dirs c" and "count_list (acc @ rest) CHR ''/'' \<le> 4" and "dir_of acc \<in> dirs (card_fs c)"
  shows "\<exists>c'. mkdirs_loop ff acc rest c = (True, c') \<and> card_ready ok files dirs c' \<and> files (card_fs c') = files (card_fs c) \<and>
    dirs (card_fs c) \<subseteq> dirs (card_fs c') \<and> (\<forall>p q. acc @ rest = p @ CHR ''/'' # q \<and> length acc \<le> length p \<longrightarrow> p \<in> dirs (card_fs c'))"
  using assms(2-4)
proof (induction rest arbitrary: acc c)
  case Nil
  then show ?case by auto
next
  case (Cons ch rest)
  show ?case
  proof (cases "ch = CHR ''/''")
    case False
    then have "dir_of (acc @ [ch]) \<in> dirs (card_fs c)" using Cons.prems(3) by (simp add: dir_of_snoc)
    with Cons.IH [OF Cons.prems(1), of "acc @ [ch]"] Cons.prems(2) obtain c' where c': "mkdirs_loop ff (acc @ [ch]) rest c = (True, c')"
      "card_ready ok files dirs c'" "files (card_fs c') = files (card_fs c)" "dirs (card_fs c) \<subseteq> dirs (card_fs c')"
      "\<forall>p q. (acc @ [ch]) @ rest = p @ CHR ''/'' # q \<and> length (acc @ [ch]) \<le> length p \<longrightarrow> p \<in> dirs (card_fs c')" by auto
    have "length (acc @ [ch]) \<le> length p" if "acc @ ch # rest = p @ CHR ''/'' # q" "length acc \<le> length p" for p q
      using that False by (cases "length acc = length p") auto
    with c' False show ?thesis by auto
  next
    case True
    have room: "count_list acc CHR ''/'' < 4" using Cons.prems(2) True by simp
    then have "files (card_fs c) acc = None" using Cons.prems(1) by (auto simp: card_ready_def)
    then obtain w where w: "f_mkdir ff acc (card_fs c) = (if acc \<in> dirs (card_fs c) then FR_EXIST else FR_OK, w)" "ok w" "files w = files (card_fs c)"
      "dirs w = insert acc (dirs (card_fs c))"
      using assms(1) Cons.prems(1,3) unfolding fatfs_works_def mkdir_works_def card_ready_def by blast
    let ?c = "c\<lparr>card_fs := w\<rparr>"
    have r: "card_ready ok files dirs ?c" using Cons.prems(1) w room by (auto simp: card_ready_def)
    have "dir_of (acc @ [ch]) \<in> dirs (card_fs ?c)" using w(4) True by (simp add: dir_of_snoc)
    with Cons.IH [OF r, of "acc @ [ch]"] Cons.prems(2) obtain c' where c': "mkdirs_loop ff (acc @ [ch]) rest ?c = (True, c')"
      "card_ready ok files dirs c'" "files (card_fs c') = files w" "dirs w \<subseteq> dirs (card_fs c')"
      "\<forall>p q. (acc @ [ch]) @ rest = p @ CHR ''/'' # q \<and> length (acc @ [ch]) \<le> length p \<longrightarrow> p \<in> dirs (card_fs c')" by auto
    have "p \<in> dirs (card_fs c')" if "acc @ ch # rest = p @ CHR ''/'' # q" "length acc \<le> length p" for p q
      using that c'(4,5) w(4) by (cases "length acc = length p") auto
    with c' w True show ?thesis by (auto simp: on_fs_def w(1))
  qed
qed

lemma mkdirs_ok:
  assumes "fatfs_works ff ok files dirs" and "card_ready ok files dirs c"
  shows "\<exists>c'. mkdirs ff (file_path n) c = Some (True, c') \<and> card_ready ok files dirs c' \<and> files (card_fs c') = files (card_fs c) \<and> hour_dir n \<in> dirs (card_fs c')"
proof -
  let ?p = "file_path n"
  note p = file_path_slashes [of n]
  have nd: "?p \<notin> dirs (card_fs c)" using assms(2) p(1) by (auto simp: card_ready_def)
  then obtain w where w: "f_stat ff ?p (card_fs c) = (if hour_dir n \<notin> dirs (card_fs c) then FR_NO_PATH else if files (card_fs c) ?p = None then FR_NO_FILE else FR_OK, w)"
      "kept ok files dirs (card_fs c) w"
    using assms unfolding fatfs_works_def stat_works_def card_ready_def p(2) by (metis p(2))
  have r: "card_ready ok files dirs (c\<lparr>card_fs := w\<rparr>)" using assms(2) w(2) by (simp add: card_ready_def kept_def)
  show ?thesis
  proof (cases "hour_dir n \<in> dirs (card_fs c)")
    case True
    with w r show ?thesis by (auto simp: mkdirs_def on_fs_def w(1) kept_def)
  next
    case False
    have split: "take 1 ?p @ drop 1 ?p = ?p" by simp
    have d: "dir_of (take 1 ?p) \<in> dirs (card_fs (c\<lparr>card_fs := w\<rparr>))" using r by (simp only: p(3)) (simp add: dir_of_def card_ready_def)
    have cnt: "count_list (take 1 ?p @ drop 1 ?p) CHR ''/'' \<le> 4" by (simp only: split p(1))
    obtain c' where c': "mkdirs_loop ff (take 1 ?p) (drop 1 ?p) (c\<lparr>card_fs := w\<rparr>) = (True, c')" "card_ready ok files dirs c'"
      "files (card_fs c') = files w" "\<forall>q s. take 1 ?p @ drop 1 ?p = q @ CHR ''/'' # s \<and> length (take 1 ?p) \<le> length q \<longrightarrow> q \<in> dirs (card_fs c')"
      using mkdirs_loop_ok [OF assms(1) r cnt d] by auto
    have "length (take 1 ?p) \<le> length (hour_dir n)" by (simp only: p(3)) (simp add: hour_dir_def Let_def)
    then have "hour_dir n \<in> dirs (card_fs c')" using c'(4) unfolding split by (simp add: file_path_eq(1))
    with False c' w show ?thesis using file_path_eq(2) [of n] by (simp add: mkdirs_def on_fs_def w(1) kept_def)
  qed
qed

lemma card_save_ok:
  assumes "fatfs_works ff ok files dirs" and "card_ready ok files dirs c"
  shows "\<exists>c'. card_hour_save ff n bs c = Some (ZEJF_OK, c') \<and> card_ready ok files dirs c' \<and> card_hours files c' = (card_hours files c)(n \<mapsto> bs)"
proof -
  let ?p = "file_path n"
  obtain c1 where c1: "mkdirs ff ?p c = Some (True, c1)" "card_ready ok files dirs c1" "files (card_fs c1) = files (card_fs c)" "hour_dir n \<in> dirs (card_fs c1)"
    using mkdirs_ok [OF assms] by blast
  have "?p \<notin> dirs (card_fs c1)" using c1(2) file_path_slashes(1) [of n] by (auto simp: card_ready_def)
  then obtain fil w1 w2 w3 where w: "f_open ff ?p FA_WRITE_CREATE_ALWAYS (card_fs c1) = ((FR_OK, fil), w1)" "f_write ff fil bs w1 = ((FR_OK, length bs), w2)"
      "f_close ff fil w2 = (FR_OK, w3)" "ok w3" "files w3 = (files (card_fs c1))(?p \<mapsto> bs)" "dirs w3 = dirs (card_fs c1)"
    using assms(1) c1(2,4) unfolding fatfs_works_def write_works_def card_ready_def by (metis file_path_slashes(2))
  let ?c = "c1\<lparr>card_fs := w3, successful_writes := successful_writes c1 + 1, working := True\<rparr>"
  have "card_hour_save ff n bs c = Some (ZEJF_OK, ?c)"
    using w by (simp add: card_hour_save_def card_write_def c1(1) on_fs_def)
  moreover have "card_ready ok files dirs ?c" using c1(2) w(4-6) file_path_slashes(1) [of n] by (auto simp: card_ready_def)
  moreover have "card_hours files ?c = (card_hours files c)(n \<mapsto> bs)"
    using w(5) c1(3) file_path_inj [of _ n] by (auto simp: card_hours_def fun_eq_iff)
  ultimately show ?thesis by blast
qed

lemma card_load_missing:
  assumes "fatfs_works ff ok files dirs" and "card_ready ok files dirs c" and "card_hours files c n = None"
  shows "\<exists>c'. card_hour_load max_size ff n c = ((ZEJF_ERR_FILE_DOESNT_EXIST, None), c') \<and> card_ready ok files dirs c' \<and> card_hours files c' = card_hours files c"
proof -
  let ?p = "file_path n"
  have "?p \<notin> dirs (card_fs c)" using assms(2) file_path_slashes(1) [of n] by (auto simp: card_ready_def)
  moreover have "ok (card_fs c)" using assms(2) by (simp add: card_ready_def)
  ultimately have "case files (card_fs c) ?p of None \<Rightarrow> \<exists>fil fr w'. f_open ff ?p FA_READ (card_fs c) = ((fr, fil), w') \<and> fr \<in> {FR_NO_FILE, FR_NO_PATH} \<and> kept ok files dirs (card_fs c) w' | Some bs \<Rightarrow> True"
    using assms(1) unfolding fatfs_works_def read_works_def by (fastforce split: option.splits)
  then obtain fil fr w where w: "f_open ff ?p FA_READ (card_fs c) = ((fr, fil), w)" "fr \<in> {FR_NO_FILE, FR_NO_PATH}" "kept ok files dirs (card_fs c) w"
    using assms(3) by (auto simp: card_hours_def)
  show ?thesis using w assms(2) by (auto simp: card_hour_load_def card_read_def on_fs_def card_ready_def kept_def card_hours_def fun_eq_iff)
qed

lemma card_load_stored:
  assumes "fatfs_works ff ok files dirs" and "card_ready ok files dirs c" and "card_hours files c n = Some bs" and "bs \<noteq> []" and "length bs \<le> max_size"
  shows "\<exists>c'. card_hour_load max_size ff n c = ((ZEJF_OK, Some bs), c') \<and> card_ready ok files dirs c' \<and> card_hours files c' = card_hours files c"
proof -
  let ?p = "file_path n"
  have "?p \<notin> dirs (card_fs c)" using assms(2) file_path_slashes(1) [of n] by (auto simp: card_ready_def)
  moreover have "ok (card_fs c)" using assms(2) by (simp add: card_ready_def)
  ultimately have "case files (card_fs c) ?p of None \<Rightarrow> True | Some bs \<Rightarrow> \<exists>fil w1 block w2 w3 w4. f_open ff ?p FA_READ (card_fs c) = ((FR_OK, fil), w1) \<and> f_size ff fil w1 = length bs \<and>
            card_malloc ff (length bs) w1 = (Some block, w2) \<and> length block = length bs \<and>
            f_read ff fil (length bs) w2 = ((FR_OK, bs), w3) \<and> f_close ff fil w3 = (FR_OK, w4) \<and> kept ok files dirs (card_fs c) w4"
    using assms(1) unfolding fatfs_works_def read_works_def by (fastforce split: option.splits)
  then obtain fil w1 block w2 w3 w4 where w: "f_open ff ?p FA_READ (card_fs c) = ((FR_OK, fil), w1)" "f_size ff fil w1 = length bs"
      "card_malloc ff (length bs) w1 = (Some block, w2)" "length block = length bs"
      "f_read ff fil (length bs) w2 = ((FR_OK, bs), w3)" "f_close ff fil w3 = (FR_OK, w4)" "kept ok files dirs (card_fs c) w4"
    using assms(3) by (auto simp: card_hours_def)
  have "read_contents max_size ff fil (c\<lparr>card_fs := w1\<rparr>) = ((Some bs, length bs), c\<lparr>card_fs := w3\<rparr>)"
    using w(2-5) assms(5) by (simp add: read_contents_def on_fs_def)
  with w assms(2,4) show ?thesis
    by (simp add: card_hour_load_def card_read_def on_fs_def card_ready_def kept_def card_hours_def fun_eq_iff)
qed

definition card_settings_fit :: "'w platform \<Rightarrow> bool" where
  "card_settings_fit P \<longleftrightarrow> 11 + unat (VARIABLES_MAX P) * (6 + 4 * unat (SAMPLE_RATE_MAX P)) \<le> CARD_FILE_MAX_SIZE"

lemma card_platform_simps [simp]:
  "VARIABLES_MAX (card_platform ff P) = VARIABLES_MAX P" "SAMPLE_RATE_MAX (card_platform ff P) = SAMPLE_RATE_MAX P"
  "hour_load (card_platform ff P) = card_hour_load CARD_FILE_MAX_SIZE ff"
  "hour_save (card_platform ff P) n bs c = (case card_hour_save ff n bs c of Some r \<Rightarrow> r | None \<Rightarrow> (ZEJF_ERR_GENERIC, c))"
  by (simp_all add: card_platform_def)

lemma hour_vars_ok_card [simp]: "hour_vars_ok (card_platform ff P) h = hour_vars_ok P h"
  by (simp add: hour_vars_ok_def variable_ok_def)

lemma card_hour_storage:
  fixes P :: "'w card platform"
  assumes "fatfs_works ff ok files dirs" and "card_settings_fit P"
  shows "hour_storage (card_platform ff P) (card_hours files) (card_ready ok files dirs) (\<lambda>bs. bs \<noteq> [] \<and> length bs \<le> CARD_FILE_MAX_SIZE)"
proof
  fix c :: "'w card" and n
  assume "card_ready ok files dirs c" and "card_hours files c n = None"
  from card_load_missing [OF assms(1) this, of CARD_FILE_MAX_SIZE]
  show "fst (fst (hour_load (card_platform ff P) n c)) = ZEJF_ERR_FILE_DOESNT_EXIST \<and>
      card_ready ok files dirs (snd (hour_load (card_platform ff P) n c)) \<and> card_hours files (snd (hour_load (card_platform ff P) n c)) = card_hours files c" by auto
next
  fix c :: "'w card" and n bs
  assume "card_ready ok files dirs c" and "card_hours files c n = Some bs" and "bs \<noteq> [] \<and> length bs \<le> CARD_FILE_MAX_SIZE"
  with card_load_stored [OF assms(1), of c n bs CARD_FILE_MAX_SIZE]
  show "fst (hour_load (card_platform ff P) n c) = (ZEJF_OK, Some bs) \<and>
      card_ready ok files dirs (snd (hour_load (card_platform ff P) n c)) \<and> card_hours files (snd (hour_load (card_platform ff P) n c)) = card_hours files c" by auto
next
  fix c :: "'w card" and n and bs :: "u8 list"
  assume "card_ready ok files dirs c"
  from card_save_ok [OF assms(1) this, of n bs]
  show "fst (hour_save (card_platform ff P) n bs c) = ZEJF_OK \<and> card_ready ok files dirs (snd (hour_save (card_platform ff P) n bs c)) \<and>
      card_hours files (snd (hour_save (card_platform ff P) n bs c)) = (card_hours files c)(n \<mapsto> bs)" by auto
next
  fix h
  assume "hour_vars_ok (card_platform ff P) h"
  then have ok: "hour_vars_ok P h" by simp
  have "hour_encoding h \<noteq> []" by (simp add: hour_encoding_def)
  with hour_encoding_size [OF ok] assms(2) show "hour_encoding h \<noteq> [] \<and> length (hour_encoding h) \<le> CARD_FILE_MAX_SIZE"
    by (simp add: card_settings_fit_def)
qed


section \<open>Properties\<close>

text \<open>
  C28: Measurements of a device survive on its card.  On a healthy card a value that was logged is read back unchanged after
  any accesses to hours, which write hours to the card, drop them from memory and load them again.
\<close>

theorem card_value_survives:
  assumes "fatfs_works ff ok files dirs" and "card_settings_fit P" and "sound (card_platform ff P) (card_hours files) (card_ready ok files dirs) s"
    and "net_ok (card_platform ff P) s" and "platform_ok (card_platform ff P) (interfaces s)"
    and "fst (log_hour (card_platform ff P) info n x (view_hour hn (view (card_platform ff P) (card_hours files) s hn))) = ZEJF_OK"
  shows "returns (do {
       (e1, s) \<leftarrow> data_log (card_platform ff P) info hn n x time announce s;
       s \<leftarrow> access_all (card_platform ff P) xs s;
       (e2, v, s) \<leftarrow> data_get_val (card_platform ff P) info hn n True False s;
       Some (e1, e2, v)
     }) (\<lambda>(e1, e2, v). e1 = ZEJF_OK \<and> e2 = ZEJF_OK \<and> v = Some x)"
  by (rule hour_storage.log_then_read [OF card_hour_storage [OF assms(1,2)] assms(3-6)])

text \<open>A card in memory, and the settings of the ZejfOutside device.\<close>

definition memory_card :: "(string, string set \<times> (string \<rightharpoonup> u8 list)) fatfs" where
  "memory_card =
     \<lparr>f_stat = (\<lambda>p (D, M). (if dir_of p \<notin> D then FR_NO_PATH else if M p = None then FR_NO_FILE else FR_OK, (D, M))),
      f_mkdir = (\<lambda>p (D, M). (if p \<in> D then FR_EXIST else FR_OK, (insert p D, M))),
      f_open = (\<lambda>p mode (D, M).
        case mode of FA_READ \<Rightarrow> ((if M p = None then FR_NO_FILE else FR_OK, p), (D, M))
                   | FA_WRITE_CREATE_ALWAYS \<Rightarrow> ((FR_OK, p), (D, M(p \<mapsto> [])))),
      f_size = (\<lambda>p (D, M). length (case M p of None \<Rightarrow> [] | Some bs \<Rightarrow> bs)),
      f_write = (\<lambda>p bs (D, M). ((FR_OK, length bs), (D, M(p \<mapsto> bs)))),
      f_read = (\<lambda>p n (D, M). ((FR_OK, take n (case M p of None \<Rightarrow> [] | Some bs \<Rightarrow> bs)), (D, M))),
      f_close = (\<lambda>p w. (FR_OK, w)), f_mount = (\<lambda>w. (FR_OK, w)), f_chdrive = (\<lambda>w. (FR_OK, w)), f_unmount = (\<lambda>w. (FR_OK, w)),
      card_malloc = (\<lambda>n w. (Some (replicate n 0), w))\<rparr>"

lemma memory_card_works: "fatfs_works memory_card (\<lambda>_. True) snd fst"
  by (auto simp: fatfs_works_def stat_works_def mkdir_works_def read_works_def write_works_def kept_def memory_card_def
    split: option.splits open_mode.splits)

definition outside_settings :: "'w platform" where
  "outside_settings = meteo_settings\<lparr>DEVICE_ID := 4, RX_QUEUE_SIZE := 64, TX_QUEUE_SIZE := 32, PACKET_DELETE_TIMEOUT := 5000,
     HOUR_BUFFER_SIZE := 6, VARIABLES_MAX := 10, DATA_REQUEST_QUEUE_SIZE := 164\<rparr>"

abbreviation memory_device :: "(string set \<times> (string \<rightharpoonup> u8 list)) card platform" where
  "memory_device \<equiv> card_platform memory_card outside_settings"

definition memory_started :: "(string set \<times> (string \<rightharpoonup> u8 list)) card zejf" where
  "memory_started = snd (zejf_init memory_device (zejf_start memory_device (init_card memory_card ({[]}, Map.empty))))"

lemma memory_started_simps:
  "zejf_ok memory_device memory_started" "world memory_started = init_card memory_card ({[]}, Map.empty)" "cached memory_started = []"
  "interfaces memory_started = Map.empty"
proof -
  let ?s = "zejf_start memory_device (init_card memory_card ({[]}, Map.empty))"
  have "never_fails (mem ?s)" "hours ?s = Map.empty" "0 < HOUR_BUFFER_SIZE memory_device"
    by (simp_all add: zejf_start_def never_fails_def card_platform_def outside_settings_def)
  from zejf_init_ok [OF this] show "zejf_ok memory_device memory_started" "world memory_started = init_card memory_card ({[]}, Map.empty)"
    "cached memory_started = []" "interfaces memory_started = Map.empty" by (auto simp: memory_started_def zejf_start_def)
qed

lemma memory_started_sound: "sound memory_device (card_hours snd) (card_ready (\<lambda>_. True) snd fst) memory_started"
proof -
  have w: "card_fs (world memory_started) = ({[]}, Map.empty)" by (simp add: memory_started_simps init_card_def mount_card_def on_fs_def memory_card_def)
  have "card_ready (\<lambda>_. True) snd fst (world memory_started)" by (simp add: card_ready_def w)
  moreover have "files_ok memory_device (card_hours snd) (world memory_started)" by (simp add: files_ok_def card_hours_def w)
  ultimately show ?thesis using memory_started_simps(1)
    by (simp add: sound_def coherent_def zejf_ok_def cache_entries_def memory_started_simps(3))
qed

theorem card_value_survives_witness:
  "returns (do {
       (e1, s) \<leftarrow> data_log memory_device \<lparr>samples_per_hour = 720, var_id = 9\<rparr> 480000 7 0x41A40000 5 True memory_started;
       s \<leftarrow> access_all memory_device [(470000, False), (480001, True)] s;
       (e2, v, s) \<leftarrow> data_get_val memory_device \<lparr>samples_per_hour = 720, var_id = 9\<rparr> 480000 7 True False s;
       Some (e1, e2, v)
     }) (\<lambda>(e1, e2, v). v = Some 0x41A40000)"
proof (rule returns_weaken [OF card_value_survives [OF memory_card_works _ memory_started_sound]])
  have w: "card_fs (world memory_started) = ({[]}, Map.empty)" by (simp add: memory_started_simps init_card_def mount_card_def on_fs_def memory_card_def)
  have v: "view memory_device (card_hours snd) memory_started 480000 = None"
    by (simp add: view_def stored_view_def cache_entries_def card_hours_def w memory_started_simps(3))
  show "card_settings_fit (outside_settings :: (string set \<times> (string \<rightharpoonup> u8 list)) card platform)"
    by (simp add: card_settings_fit_def outside_settings_def CARD_FILE_MAX_SIZE_def)
  show "net_ok memory_device memory_started" using memory_started_simps(1) by (simp add: zejf_ok_def)
  show "platform_ok memory_device (interfaces memory_started)" by (simp add: platform_ok_def card_platform_def outside_settings_def meteo_settings_def)
  show "fst (log_hour memory_device \<lparr>samples_per_hour = 720, var_id = 9\<rparr> 7 0x41A40000 (view_hour 480000 (view memory_device (card_hours snd) memory_started 480000))) = ZEJF_OK"
    unfolding v by (simp add: log_hour_def new_hour_def has_variable_def add_variable_err_def add_variable_def log_known_def find_var_def empty_variable_def overwrites_def outside_settings_def)
qed auto

lemma fatal_error_simps [simp]:
  "successful_writes (fatal_error c) = successful_writes c" "successful_reads (fatal_error c) = successful_reads c" "card_fs (fatal_error c) = card_fs c"
  by (simp_all add: fatal_error_def)

lemma on_fs_writes: "on_fs f c = (r, c') \<Longrightarrow> successful_writes c' = successful_writes c \<and> successful_reads c' = successful_reads c"
  by (auto simp: on_fs_def split: prod.splits)

lemma on_fs_snd [simp]: "successful_writes (snd (on_fs f c)) = successful_writes c" "successful_reads (snd (on_fs f c)) = successful_reads c"
  by (simp_all add: on_fs_def split: prod.splits)

lemma mount_card_writes [simp]: "successful_writes (mount_card ff c) = successful_writes c" "successful_reads (mount_card ff c) = successful_reads c"
  by (auto simp: mount_card_def split: prod.splits dest!: on_fs_writes)

lemma reset_card_writes [simp]: "successful_writes (reset_card ff c) = successful_writes c" "successful_reads (reset_card ff c) = successful_reads c"
  by (simp_all add: reset_card_def Let_def)

lemma mkdirs_loop_writes: "mkdirs_loop ff acc rest c = (b, c') \<Longrightarrow> b \<and> successful_writes c' = successful_writes c"
  by (induction ff acc rest c rule: mkdirs_loop.induct) (auto split: if_splits prod.splits dest!: on_fs_writes)

lemma mkdirs_writes:
  assumes "length name < 64"
  shows "returns (mkdirs ff name c) (\<lambda>(b, c'). successful_writes c' = successful_writes c)"
  using assms by (auto simp: mkdirs_def split: prod.splits dest!: on_fs_writes mkdirs_loop_writes)

text \<open>
  Whatever the card and FatFs do, saving an hour returns and its answer is true to the statistics: the answer is
  \<open>ZEJF_OK\<close> or \<open>ZEJF_ERR_IO\<close>, \<open>successful_writes\<close> counts exactly the first, and after it the card is shown as working.
\<close>

theorem hour_save_accounted:
  "returns (card_hour_save ff n bs c)
     (\<lambda>(e, c'). e = ZEJF_OK \<and> successful_writes c' = successful_writes c + 1 \<and> working c' \<or>
       e = ZEJF_ERR_IO \<and> successful_writes c' = successful_writes c)"
  unfolding card_hour_save_def card_write_def
  by (rule returns_bindI [OF mkdirs_writes [OF file_path_eq(2)]])
    (auto simp: Let_def split: prod.splits dest!: on_fs_writes)

text \<open>A read that fails after the file was opened is counted as successful.\<close>

lemma read_contents_reads: "read_contents max_size ff fil c = (r, c') \<Longrightarrow> successful_reads c' = successful_reads c"
  by (auto simp: read_contents_def Let_def split: if_splits prod.splits option.splits dest!: on_fs_writes)

lemma failed_reads_counted:
  assumes "on_fs (f_open ff (file_path n) FA_READ) c = ((FR_OK, fil), c1)"
  shows "successful_reads (snd (card_hour_load max_size ff n c)) = successful_reads c + 1"
  using on_fs_writes [OF assms]
  by (auto simp: card_hour_load_def card_read_def assms Let_def split: prod.splits dest!: on_fs_writes read_contents_reads)

end
