(* ===== verification/Pico_Sensors.thy ===== *)
theory Pico_Sensors
  imports Pico_Clock
begin

unbundle bit_operations_syntax

text \<open>
  The measurements of the ZejfOutside device: the HTU21 sensor (\<open>libs/htu21/src/htu21.c\<close>) and
  \<open>devices/ZejfOutside/src/zejf_measure.cpp\<close>, which collects temperature, humidity, rain and voltages and puts the samples
  into a queue.  The arithmetic of \<open>double\<close> with the functions of \<open>math.h\<close> is a
  parameter: nothing that is shown here depends on it; a \<open>float\<close> is its bit pattern.
\<close>

record 'd doubles =
  d_add :: "'d \<Rightarrow> 'd \<Rightarrow> 'd"
  d_sub :: "'d \<Rightarrow> 'd \<Rightarrow> 'd"
  d_mul :: "'d \<Rightarrow> 'd \<Rightarrow> 'd"
  d_div :: "'d \<Rightarrow> 'd \<Rightarrow> 'd"
  d_less :: "'d \<Rightarrow> 'd \<Rightarrow> bool"
  d_le :: "'d \<Rightarrow> 'd \<Rightarrow> bool"
  d_eq :: "'d \<Rightarrow> 'd \<Rightarrow> bool"
  d_int :: "int \<Rightarrow> 'd"
  d_lit :: "string \<Rightarrow> 'd"
  d_log :: "'d \<Rightarrow> 'd"
  d_float :: "'d \<Rightarrow> u32"
  d_of_float :: "u32 \<Rightarrow> 'd"
  d_neg :: "'d \<Rightarrow> 'd"
  d_fabs :: "'d \<Rightarrow> 'd"
  d_sqrt :: "'d \<Rightarrow> 'd"
  d_pow :: "'d \<Rightarrow> 'd \<Rightarrow> 'd"
  d_sin :: "'d \<Rightarrow> 'd"
  d_cos :: "'d \<Rightarrow> 'd"
  d_atan2 :: "'d \<Rightarrow> 'd \<Rightarrow> 'd"

section \<open>The temperature and humidity sensor\<close>

abbreviation (input) HTU_ADDR :: u8 where "HTU_ADDR \<equiv> 0x40"
abbreviation (input) HTU_COMMAND_SOFT_RESET :: u8 where "HTU_COMMAND_SOFT_RESET \<equiv> 0xFE"
abbreviation (input) HTU_COMMAND_GET_TEMPERATURE :: u8 where "HTU_COMMAND_GET_TEMPERATURE \<equiv> 0xE3"
abbreviation (input) HTU_COMMAND_GET_HUMIDITY :: u8 where "HTU_COMMAND_GET_HUMIDITY \<equiv> 0xE5"

text \<open>\<open>HTU_CRC_POLY\<close> is \<open>0x131\<close>; the assignment keeps its low eight bits.\<close>

primrec gencrc_bits :: "nat \<Rightarrow> u8 \<Rightarrow> u8" where
  "gencrc_bits 0 crc = crc"
| "gencrc_bits (Suc j) crc =
     gencrc_bits j (if crc AND 0x80 \<noteq> 0 then push_bit 1 crc XOR 0x31 else push_bit 1 crc)"

definition gencrc :: "u8 list \<Rightarrow> u8" where
  "gencrc data = foldl (\<lambda>crc d. gencrc_bits 8 (crc XOR d)) 0 data"

definition htu21_reset :: "'w i2c \<Rightarrow> 'w \<Rightarrow> bool \<times> 'w" where
  "htu21_reset I w = (case i2c_write I HTU_ADDR [HTU_COMMAND_SOFT_RESET] False w of (rv, w) \<Rightarrow> (rv = 1, w))"

definition htu_calculate_dewpoint :: "'d doubles \<Rightarrow> 'd \<Rightarrow> 'd \<Rightarrow> 'd" where
  "htu_calculate_dewpoint D t rh =
     (let h = d_log D (d_div D rh (d_lit D ''100''));
          q = d_div D (d_mul D (d_lit D ''17.625'') t) (d_add D (d_lit D ''243.04'') t)
      in d_div D (d_mul D (d_lit D ''243.04'') (d_add D h q)) (d_sub D (d_sub D (d_lit D ''17.625'') h) q))"

text \<open>\<open>(in[0] << 8 | in[1]) & 0xFFFC\<close>\<close>

definition sensor_data :: "u8 \<Rightarrow> u8 \<Rightarrow> u16" where
  "sensor_data a b = (push_bit 8 (ucast a) OR ucast b) AND 0xFFFC"

definition htu_get :: "'d doubles \<Rightarrow> 'w i2c \<Rightarrow> u8 \<Rightarrow> bool \<Rightarrow> 'w \<Rightarrow> ('d \<times> bool \<times> 'w) option" where
  "htu_get D I cmd valid w =
     (if \<not> valid then Some (d_int D (-1), False, w)
      else
        (case i2c_write I HTU_ADDR [cmd] False w of
           (rv, w) \<Rightarrow>
             if rv \<noteq> 1 then Some (d_int D (-1), False, w)
             else do {
               (rv, buf, w) \<leftarrow> i2c_read_into I HTU_ADDR [0, 0, 0] 3 False w;
               (if rv \<noteq> 3 then Some (d_int D (-1), False, w)
                else if gencrc (take 2 buf) \<noteq> buf ! 2 then Some (d_int D (-1), False, w)
                else Some (d_div D (d_int D (uint (sensor_data (buf ! 0) (buf ! 1)))) (d_lit D ''65536.0''), True, w))
             }))"

record 'd htu_measurement =
  temperature :: 'd
  humidity :: 'd
  dewpoint :: 'd
  valid :: bool

definition htu21_measure :: "'d doubles \<Rightarrow> 'w i2c \<Rightarrow> 'w \<Rightarrow> ('d htu_measurement \<times> 'w) option" where
  "htu21_measure D I w =
     do {
       (t, ok, w) \<leftarrow> htu_get D I HTU_COMMAND_GET_TEMPERATURE True w;
       let t = d_add D (d_lit D ''-46.85'') (d_mul D (d_lit D ''175.72'') t);
       (h, ok, w) \<leftarrow> htu_get D I HTU_COMMAND_GET_HUMIDITY ok w;
       let h = d_add D (d_lit D ''-6.0'') (d_mul D (d_lit D ''125.0'') h);
       let h = (if d_less D (d_lit D ''100.0'') h then d_lit D ''100.0'' else if d_less D h (d_int D 0) then d_int D 0 else h);
       Some (\<lparr>temperature = t, humidity = h, dewpoint = htu_calculate_dewpoint D t h, valid = ok\<rparr>, w)
     }"

section \<open>The logs\<close>

record 'd htu_data =
  htu_count :: u16
  temp_sum :: 'd
  rh_sum :: 'd
  td_sum :: 'd

record 'd rr_data =
  rr_count :: u16
  max_rain_rate :: 'd

record 'd voltages_data =
  voltages_count :: u16
  solar_sum :: 'd
  battery_sum :: 'd
  current_sum :: 'd

definition htu_reset :: "'d doubles \<Rightarrow> 'd htu_data \<Rightarrow> 'd htu_data" where
  "htu_reset D l = l\<lparr>temp_sum := d_int D 0, rh_sum := d_int D 0, htu_count := 0, td_sum := d_int D 0\<rparr>"

definition htu_sample :: "'d doubles \<Rightarrow> 'd htu_measurement \<Rightarrow> 'd htu_data \<Rightarrow> 'd htu_data" where
  "htu_sample D m l =
     l\<lparr>temp_sum := d_add D (temp_sum l) (temperature m), rh_sum := d_add D (rh_sum l) (humidity m),
       td_sum := d_add D (td_sum l) (dewpoint m), htu_count := htu_count l + 1\<rparr>"

definition rr_reset :: "'d doubles \<Rightarrow> 'd rr_data \<Rightarrow> 'd rr_data" where
  "rr_reset D l = l\<lparr>rr_count := 0, max_rain_rate := d_lit D ''0.0''\<rparr>"

definition rr_sample :: "'d doubles \<Rightarrow> u16 \<Rightarrow> 'd \<Rightarrow> 'd rr_data \<Rightarrow> 'd rr_data" where
  "rr_sample D counts rate l =
     (let l = l\<lparr>rr_count := rr_count l + counts\<rparr> in
      if d_less D (max_rain_rate l) rate then l\<lparr>max_rain_rate := rate\<rparr> else l)"

definition voltages_reset :: "'d doubles \<Rightarrow> 'd voltages_data \<Rightarrow> 'd voltages_data" where
  "voltages_reset D l = l\<lparr>voltages_count := 0, solar_sum := d_int D 0, battery_sum := d_int D 0, current_sum := d_int D 0\<rparr>"

definition voltages_sample :: "'d doubles \<Rightarrow> 'd \<Rightarrow> 'd \<Rightarrow> 'd \<Rightarrow> 'd voltages_data \<Rightarrow> 'd voltages_data" where
  "voltages_sample D u_solar u_batt i_batt l =
     l\<lparr>voltages_count := voltages_count l + 1, solar_sum := d_add D (solar_sum l) u_solar,
       battery_sum := d_add D (battery_sum l) u_batt, current_sum := d_add D (current_sum l) i_batt\<rparr>"

text \<open>What \<open>std::queue<std::unique_ptr<zejf_log>>\<close> holds.\<close>

datatype 'd any_log = Htu_Log "'d htu_data zejf_log" | Rr_Log "'d rr_data zejf_log" | Voltages_Log "'d voltages_data zejf_log"

definition SECONDS_5 :: u32 where "SECONDS_5 = 60 * 12"
definition EVERY_MINUTE :: u32 where "EVERY_MINUTE = 60"

definition VAR_T2M :: VariableInfo where "VAR_T2M = \<lparr>samples_per_hour = SECONDS_5, var_id = 11\<rparr>"
definition VAR_RH :: VariableInfo where "VAR_RH = \<lparr>samples_per_hour = SECONDS_5, var_id = 12\<rparr>"
definition VAR_TD :: VariableInfo where "VAR_TD = \<lparr>samples_per_hour = SECONDS_5, var_id = 13\<rparr>"
definition VAR_RR :: VariableInfo where "VAR_RR = \<lparr>samples_per_hour = SECONDS_5, var_id = 14\<rparr>"
definition VAR_VOLTAGE_SOLAR :: VariableInfo where "VAR_VOLTAGE_SOLAR = \<lparr>samples_per_hour = EVERY_MINUTE, var_id = 15\<rparr>"
definition VAR_VOLTAGE_BATTERY :: VariableInfo where "VAR_VOLTAGE_BATTERY = \<lparr>samples_per_hour = EVERY_MINUTE, var_id = 16\<rparr>"
definition VAR_CURRENT_BATTERY :: VariableInfo where "VAR_CURRENT_BATTERY = \<lparr>samples_per_hour = EVERY_MINUTE, var_id = 17\<rparr>"
definition VAR_RAIN_RATE_PEAK :: VariableInfo where "VAR_RAIN_RATE_PEAK = \<lparr>samples_per_hour = SECONDS_5, var_id = 18\<rparr>"

text \<open>The calls of \<open>data_log\<close> that \<open>log_data\<close> makes, as variables with their values.\<close>

definition RR_COEFF :: "'d doubles \<Rightarrow> 'd" where
  "RR_COEFF D = d_lit D ''0.254''"

definition htu_values :: "'d doubles \<Rightarrow> 'd htu_data \<Rightarrow> (VariableInfo \<times> 'd) list" where
  "htu_values D p =
     (let n = d_int D (uint (htu_count p)) in
      if htu_count p = 0 then []
      else [(VAR_T2M, d_div D (temp_sum p) n), (VAR_RH, d_div D (rh_sum p) n), (VAR_TD, d_div D (td_sum p) n)])"

definition rr_values :: "'d doubles \<Rightarrow> 'd rr_data \<Rightarrow> (VariableInfo \<times> 'd) list" where
  "rr_values D p = [(VAR_RR, d_mul D (d_int D (uint (rr_count p))) (RR_COEFF D)), (VAR_RAIN_RATE_PEAK, max_rain_rate p)]"

definition voltages_values :: "'d doubles \<Rightarrow> 'd voltages_data \<Rightarrow> (VariableInfo \<times> 'd) list" where
  "voltages_values D p =
     (let n = d_int D (uint (voltages_count p)) in
      if voltages_count p = 0 then []
      else [(VAR_VOLTAGE_SOLAR, d_div D (solar_sum p) n), (VAR_VOLTAGE_BATTERY, d_div D (battery_sum p) n),
            (VAR_CURRENT_BATTERY, d_div D (current_sum p) n)])"

definition log_values :: "'d doubles \<Rightarrow> 'd any_log \<Rightarrow> (VariableInfo \<times> 'd) list" where
  "log_values D log =
     (case log of
        Htu_Log l \<Rightarrow> htu_values D (payload l)
      | Rr_Log l \<Rightarrow> rr_values D (payload l)
      | Voltages_Log l \<Rightarrow> voltages_values D (payload l))"

definition any_hour :: "'d any_log \<Rightarrow> u32" where
  "any_hour log = (case log of Htu_Log l \<Rightarrow> hour_num l | Rr_Log l \<Rightarrow> hour_num l | Voltages_Log l \<Rightarrow> hour_num l)"

definition any_num :: "'d any_log \<Rightarrow> u32" where
  "any_num log = (case log of Htu_Log l \<Rightarrow> log_num l | Rr_Log l \<Rightarrow> log_num l | Voltages_Log l \<Rightarrow> log_num l)"

primrec log_all :: "'w platform \<Rightarrow> 'd doubles \<Rightarrow> u32 \<Rightarrow> u32 \<Rightarrow> u32 \<Rightarrow> (VariableInfo \<times> 'd) list \<Rightarrow> 'w zejf \<Rightarrow> 'w zejf option" where
  "log_all P D hn n millis [] s = Some s"
| "log_all P D hn n millis (v # vs) s =
     do { (_, s) \<leftarrow> data_log P (fst v) hn n (d_float D (snd v)) millis True s; log_all P D hn n millis vs s }"

definition log_data :: "'w platform \<Rightarrow> 'd doubles \<Rightarrow> u32 \<Rightarrow> 'd any_log \<Rightarrow> 'w zejf \<Rightarrow> 'w zejf option" where
  "log_data P D millis log s = log_all P D (any_hour log) (any_num log) millis (log_values D log) s"

section \<open>The timers and the rain gauge\<close>

record 'd outside =
  engine :: time_engine
  rr_first :: bool
  rr_c :: u16
  rr_c_last :: u16
  last_rr_callback :: "64 word"
  rr_measured :: bool
  rain_rate_last :: 'd
  rain_rate_displayed :: 'd
  htu_initialised :: bool
  htu_errors :: int
  htu_reset_countdown :: int
  htu_next_reset :: int
  current_htu_log :: "'d htu_data zejf_log"
  current_rr_log :: "'d rr_data zejf_log"
  current_voltages_log :: "'d voltages_data zejf_log"
  logs_queue :: "'d any_log list"
  queue_lock :: bool

text \<open>\<open>adc n\<close> is what \<open>adc_read\<close> gives on input \<open>n\<close>.\<close>

definition measure_voltages :: "'d doubles \<Rightarrow> (nat \<Rightarrow> u16) \<Rightarrow> ('d, 'z) outside_scheme \<Rightarrow> ('d, 'z) outside_scheme" where
  "measure_voltages D adc o' =
     (let conversion_factor = d_div D (d_lit D ''3.3f'') (d_int D (push_bit 12 1));
          voltage_divider = d_mul D (d_lit D ''47.0'') (d_add D (d_div D (d_lit D ''1.0'') (d_lit D ''6.8'')) (d_div D (d_lit D ''1.0'') (d_lit D ''47.0'')));
          correction_battery = d_div D (d_lit D ''4.933'') (d_lit D ''5.0068'');
          correction_sensing = d_div D (d_lit D ''4.933'') (d_lit D ''4.9598'');
          volts = (\<lambda>n. d_mul D (d_mul D (d_int D (uint (adc n))) conversion_factor) voltage_divider);
          solar = volts 2;
          battery = d_mul D (volts 1) correction_battery;
          sensing = d_mul D (volts 0) correction_sensing;
          current = d_mul D (d_div D (d_sub D sensing battery) (d_lit D ''0.22'')) (d_lit D ''1000.0'');
          l = current_voltages_log o'
      in o'\<lparr>current_voltages_log := l\<lparr>payload := voltages_sample D solar battery current (payload l)\<rparr>\<rparr>)"

text \<open>The loop over \<open>all_logs\<close>.  None of the three logs does anything in \<open>finish\<close>.\<close>

definition process_logs :: "'d doubles \<Rightarrow> u32 \<Rightarrow> ('d, 'z) outside_scheme \<Rightarrow> ('d, 'z) outside_scheme option" where
  "process_logs D unixtime o' =
     do {
       (q1, l1) \<leftarrow> log_step (htu_reset D) (\<lambda>p. p) unixtime (current_htu_log o');
       (q2, l2) \<leftarrow> log_step (rr_reset D) (\<lambda>p. p) unixtime (current_rr_log o');
       (q3, l3) \<leftarrow> log_step (voltages_reset D) (\<lambda>p. p) unixtime (current_voltages_log o');
       Some (o'\<lparr>current_htu_log := l1, current_rr_log := l2, current_voltages_log := l3,
         logs_queue := logs_queue o' @ map Htu_Log q1 @ map Rr_Log q2 @ map Voltages_Log q3\<rparr>)
     }"

text \<open>The rain rate part of \<open>process_measurements\<close>, and the whole; \<open>dt\<close> is what \<open>rtc_get_datetime\<close> gives.\<close>

definition rain_rates :: "'d doubles \<Rightarrow> ('d, 'z) outside_scheme \<Rightarrow> ('d, 'z) outside_scheme" where
  "rain_rates D o' =
     (let o' = (if \<not> d_eq D (rain_rate_last o') (d_lit D ''0.0'') \<and> \<not> d_eq D (rain_rate_last o') (rain_rate_displayed o')
                then o'\<lparr>rain_rate_displayed := rain_rate_last o'\<rparr> else o');
          o' = o'\<lparr>rain_rate_last := d_lit D ''0.0''\<rparr>
      in if rr_measured o' \<and> 15 * 1000 * 60 \<le> ucast (millis_since_boot (engine o')) - last_rr_callback o' div 1000
         then o'\<lparr>rain_rate_displayed := d_lit D ''0.0''\<rparr> else o')"

definition process_measurements :: "'d doubles \<Rightarrow> (nat \<Rightarrow> u16) \<Rightarrow> datetime \<Rightarrow> ('d, 'z) outside_scheme \<Rightarrow> ('d, 'z) outside_scheme option" where
  "process_measurements D adc dt o' =
     (let rr_c_temp = rr_c o';
          counts = rr_c_temp - rr_c_last o';
          o' = o'\<lparr>rr_c_last := rr_c_temp\<rparr>;
          o' = rain_rates D o'
      in if \<not> time_set (engine o') then Some o'
         else
           let o' = measure_voltages D adc o';
               l = current_rr_log o';
               o' = o'\<lparr>current_rr_log := l\<lparr>payload := rr_sample D counts (rain_rate_displayed o') (payload l)\<rparr>\<rparr>
           in if queue_lock o' then Some o' else process_logs D (word_of_int (unix_time dt)) o')"

text \<open>The part of \<open>htu_measure\<close> from \<open>htu21_measure\<close> on, and the whole.\<close>

definition htu_read :: "'d doubles \<Rightarrow> 'w i2c \<Rightarrow> ('d, 'z) outside_scheme \<Rightarrow> 'w \<Rightarrow> (('d, 'z) outside_scheme \<times> 'w) option" where
  "htu_read D I o' w =
     do {
       (m, w) \<leftarrow> htu21_measure D I w;
       (if \<not> valid m then Some (o'\<lparr>htu_errors := htu_errors o' + 1, htu_initialised := False\<rparr>, w)
        else if \<not> time_set (engine o') then Some (o', w)
        else (let l = current_htu_log o' in Some (o'\<lparr>current_htu_log := l\<lparr>payload := htu_sample D m (payload l)\<rparr>\<rparr>, w)))
     }"

definition htu_measure :: "'d doubles \<Rightarrow> 'w i2c \<Rightarrow> ('d, 'z) outside_scheme \<Rightarrow> 'w \<Rightarrow> (('d, 'z) outside_scheme \<times> 'w) option" where
  "htu_measure D I o' w =
     (if htu_initialised o' then htu_read D I o' w
      else if htu_reset_countdown o' < htu_next_reset o' then Some (o'\<lparr>htu_reset_countdown := htu_reset_countdown o' + 1\<rparr>, w)
      else
        let o' = o'\<lparr>htu_reset_countdown := 0\<rparr>;
            o' = (if htu_next_reset o' < 20 then o'\<lparr>htu_next_reset := htu_next_reset o' * 2\<rparr> else o')
        in (case htu21_reset I w of
              (ok, w) \<Rightarrow>
                let o' = o'\<lparr>htu_initialised := ok\<rparr> in
                if \<not> ok then Some (o', w) else htu_read D I (o'\<lparr>htu_next_reset := 1\<rparr>) w))"

abbreviation (input) RR_PIN :: nat where "RR_PIN \<equiv> 2"

text \<open>\<open>us\<close> is what \<open>to_us_since_boot\<close> gives.\<close>

definition rr_callback :: "'d doubles \<Rightarrow> nat \<Rightarrow> 64 word \<Rightarrow> ('d, 'z) outside_scheme \<Rightarrow> ('d, 'z) outside_scheme" where
  "rr_callback D gpio us o' =
     (if gpio \<noteq> RR_PIN then o'
      else if \<not> rr_first o' then o'\<lparr>rr_first := True\<rparr>
      else
        let o' = o'\<lparr>rr_c := rr_c o' + 1\<rparr>;
            rain_rate = d_mul D (d_mul D (d_mul D (RR_COEFF D) (d_lit D ''60.0'')) (d_lit D ''60.0''))
              (d_div D (d_lit D ''1000000.0'') (d_int D (uint (us - last_rr_callback o'))));
            o' = (if rr_measured o' \<and> d_le D (d_int D 0) rain_rate \<and> d_less D rain_rate (d_lit D ''2000.0'') \<and> d_less D (rain_rate_last o') rain_rate
                  then o'\<lparr>rain_rate_last := rain_rate\<rparr> else o')
        in o'\<lparr>last_rr_callback := us, rr_measured := True\<rparr>)"


section \<open>The checksum of the sensor\<close>

lemma gencrc_bits_xor: "gencrc_bits n (a XOR b) = gencrc_bits n a XOR gencrc_bits n b"
proof (induction n arbitrary: a b)
  case (Suc n)
  have top: "(x AND 0x80 = 0) = (\<not> bit x 7)" for x :: u8 using and_exp_eq_0_iff_not_bit [of x 7] by simp
  have p: "push_bit 1 (a XOR b) = push_bit 1 a XOR push_bit 1 b" by (rule push_bit_xor)
  show ?case
    by (cases "bit a 7"; cases "bit b 7") (simp_all add: top bit_xor_iff p Suc.IH [symmetric] ac_simps del: push_bit_Suc One_nat_def)
qed simp

definition crc_ok :: "u8 list \<Rightarrow> bool" where
  "crc_ok buf \<longleftrightarrow> gencrc (take 2 buf) = buf ! 2"

text \<open>The three bytes of a reading with one bit flipped, and the remainder by which such errors show.\<close>

definition flip :: "nat \<Rightarrow> u8 list \<Rightarrow> u8 list" where
  "flip i buf = buf[i div 8 := buf ! (i div 8) XOR push_bit (i mod 8) 1]"

definition syndrome :: "u8 list \<Rightarrow> u8" where
  "syndrome buf = gencrc (take 2 buf) XOR buf ! 2"

definition flip_syndromes :: "u8 list" where
  "flip_syndromes = map (\<lambda>i. syndrome (flip i [0, 0, 0])) [0..<24]"

lemma xor_zero_iff: "x XOR y = 0 \<longleftrightarrow> x = y" for x y :: u8
  by (auto simp: bit_eq_iff bit_xor_iff)

lemma crc_ok_syndrome: "crc_ok buf \<longleftrightarrow> syndrome buf = 0"
  by (simp add: crc_ok_def syndrome_def xor_zero_iff)

lemma gencrc_bits_zero [simp]: "gencrc_bits n 0 = 0"
  using gencrc_bits_xor [of n 0 0] by (simp del: gencrc_bits.simps)

lemma syndrome_three: "syndrome [a, b, c] = (gencrc_bits 8 (gencrc_bits 8 a) XOR gencrc_bits 8 b) XOR c"
  by (simp add: syndrome_def gencrc_def gencrc_bits_xor del: gencrc_bits.simps)

lemma length_flip [simp]: "length (flip i buf) = length buf"
  by (simp add: flip_def)

lemma syndrome_flip:
  assumes "length buf = 3" and "i < 24"
  shows "syndrome (flip i buf) = syndrome buf XOR flip_syndromes ! i"
proof -
  obtain a b c where buf: "buf = [a, b, c]" using assms(1) by (auto simp: eval_nat_numeral length_Suc_conv)
  consider "i div 8 = 0" | "i div 8 = 1" | "i div 8 = 2" using assms(2) by linarith
  then show ?thesis
  proof cases
    case 1
    then show ?thesis using assms(2) by (simp add: buf flip_def flip_syndromes_def syndrome_three gencrc_bits_xor ac_simps del: gencrc_bits.simps)
  next
    case 2
    then show ?thesis using assms(2) by (simp add: buf flip_def flip_syndromes_def syndrome_three gencrc_bits_xor ac_simps del: gencrc_bits.simps)
  next
    case 3
    then show ?thesis using assms(2) by (simp add: buf flip_def flip_syndromes_def syndrome_three gencrc_bits_xor ac_simps del: gencrc_bits.simps)
  qed
qed

text \<open>The remainders are the values the shift register runs through from 1 on.\<close>

definition crc_step :: "u8 \<Rightarrow> u8" where
  "crc_step crc = (if crc AND 0x80 \<noteq> 0 then push_bit 1 crc XOR 0x31 else push_bit 1 crc)"

definition crc_orbit :: "u8 list" where
  "crc_orbit = [1, 2, 4, 8, 16, 32, 64, 128, 49, 98, 196, 185, 67, 134, 61, 122, 244, 217, 131, 55, 110, 220, 137, 35]"

lemma crc_orbit_steps: "map crc_step (butlast crc_orbit) = tl crc_orbit"
  unfolding crc_orbit_def by code_simp

lemma gencrc_bits_step: "gencrc_bits (Suc n) x = crc_step (gencrc_bits n x)"
  by (induction n arbitrary: x) (simp_all add: crc_step_def)

lemma gencrc_bits_add: "gencrc_bits (m + n) x = gencrc_bits m (gencrc_bits n x)"
  by (induction m arbitrary: x) (simp_all add: gencrc_bits_step del: gencrc_bits.simps(2))

lemma crc_orbit_nth: "k < 24 \<Longrightarrow> gencrc_bits k 1 = crc_orbit ! k"
proof (induction k)
  case 0
  then show ?case by (simp add: crc_orbit_def)
next
  case (Suc k)
  have l: "length crc_orbit = 24" by (simp add: crc_orbit_def)
  have "crc_step (crc_orbit ! k) = map crc_step (butlast crc_orbit) ! k" using Suc.prems l by (simp add: nth_butlast)
  also have "\<dots> = crc_orbit ! Suc k" unfolding crc_orbit_steps using Suc.prems l by (simp add: nth_tl)
  finally show ?case using Suc by (simp add: gencrc_bits_step del: gencrc_bits.simps(2))
qed

lemma unit_orbit: "i < 8 \<Longrightarrow> push_bit i 1 = gencrc_bits i 1"
proof -
  assume i: "i < 8"
  have "i < 24" using i by simp
  moreover have "i \<in> {0, 1, 2, 3, 4, 5, 6, 7}" using i by auto
  ultimately show ?thesis by (simp only: crc_orbit_nth) (auto simp: crc_orbit_def)
qed

lemma flip_syndromes_eval: "flip_syndromes = drop 16 crc_orbit @ take 8 (drop 8 crc_orbit) @ take 8 crc_orbit"
proof (rule nth_equalityI)
  have l: "length crc_orbit = 24" by (simp add: crc_orbit_def)
  show "length flip_syndromes = length (drop 16 crc_orbit @ take 8 (drop 8 crc_orbit) @ take 8 crc_orbit)" by (simp add: flip_syndromes_def l)
  fix i
  assume "i < length flip_syndromes"
  then have i: "i < 24" by (simp add: flip_syndromes_def)
  have u: "push_bit (i mod 8) 1 = gencrc_bits (i mod 8) 1" by (rule unit_orbit) simp
  have o: "gencrc_bits 8 (gencrc_bits n 1) = gencrc_bits (8 + n) 1" for n by (simp only: gencrc_bits_add)
  have fs: "flip_syndromes ! i = syndrome (flip i [0, 0, 0])" using i by (simp add: flip_syndromes_def)
  consider "i < 8" | j where "i = 8 + j" "j < 8" | j where "i = 16 + j" "j < 8"
  proof -
    have "i < 8 \<or> (8 \<le> i \<and> i - 8 < 8) \<or> (16 \<le> i \<and> i - 16 < 8)" using i by linarith
    then show thesis using that(1) that(2) [of "i - 8"] that(3) [of "i - 16"] by auto
  qed
  then show "flip_syndromes ! i = (drop 16 crc_orbit @ take 8 (drop 8 crc_orbit) @ take 8 crc_orbit) ! i"
  proof cases
    case 1
    then show ?thesis using u o [of i] o [of "8 + i"]
      by (simp add: flip_syndromes_def flip_def syndrome_three nth_append l crc_orbit_nth del: gencrc_bits.simps)
  next
    case (2 j)
    have d: "i div 8 = 1" "i mod 8 = j" using 2 by simp_all
    show ?thesis unfolding fs flip_def d using 2 u o [of j] d
      by (simp add: syndrome_three nth_append l crc_orbit_nth del: gencrc_bits.simps)
  next
    case (3 j)
    have d: "i div 8 = 2" "i mod 8 = j" using 3 mod_mult_self1 [of j 2 8] by (simp_all add: add.commute)
    show ?thesis unfolding fs flip_def d using 3 u d
      by (simp add: syndrome_three nth_append l crc_orbit_nth del: gencrc_bits.simps)
  qed
qed

text \<open>Every flipped bit leaves a remainder of odd parity, no two the same.\<close>

definition odd_parity :: "u8 \<Rightarrow> bool" where
  "odd_parity x = foldr (\<lambda>i b. bit x i \<noteq> b) [0..<8] False"

lemma odd_parity_xor: "odd_parity (x XOR y) = (odd_parity x \<noteq> odd_parity y)"
proof -
  have "foldr (\<lambda>i b. bit (x XOR y) i \<noteq> b) is False = (foldr (\<lambda>i b. bit x i \<noteq> b) is False \<noteq> foldr (\<lambda>i b. bit y i \<noteq> b) is False)" for "is"
    by (induction "is") (auto simp: bit_xor_iff)
  then show ?thesis by (simp add: odd_parity_def)
qed

lemma flip_syndromes_distinct: "distinct flip_syndromes"
  unfolding flip_syndromes_eval crc_orbit_def by simp

lemma flip_syndromes_odd: "list_all odd_parity flip_syndromes"
  unfolding flip_syndromes_eval crc_orbit_def by code_simp

lemma flip_syndromes_facts:
  assumes "i < 24" and "j < 24"
  shows "odd_parity (flip_syndromes ! i)" "flip_syndromes ! i = flip_syndromes ! j \<longleftrightarrow> i = j"
proof -
  have l: "length flip_syndromes = 24" by (simp add: flip_syndromes_def)
  show "odd_parity (flip_syndromes ! i)" using flip_syndromes_odd assms(1) l by (simp add: list_all_length)
  show "flip_syndromes ! i = flip_syndromes ! j \<longleftrightarrow> i = j" using nth_eq_iff_index_eq [OF flip_syndromes_distinct] assms l by simp
qed

text \<open>
  The checksum of the sensor finds every error of up to three bits: when one, two or three bits of the three bytes of a
  correct reading are flipped, \<open>gencrc\<close> does not match and \<open>htu_get\<close> reports an invalid value.
\<close>

theorem gencrc_detects_three_bits:
  assumes "length buf = 3" and "crc_ok buf" and "distinct ps" and "set ps \<subseteq> {..<24}" and "ps \<noteq> []" and "length ps \<le> 3"
    and "i2c_write I HTU_ADDR [cmd] False w = (1, w1)" and "i2c_read I HTU_ADDR 3 False w1 = ((3, foldr flip ps buf), w2)"
  shows "\<not> crc_ok (foldr flip ps buf) \<and> htu_get D I cmd True w = Some (d_int D (-1), False, w2)"
proof -
  have len: "length (foldr flip qs buf) = 3" for qs by (induction qs) (simp_all add: assms(1))
  have syn: "syndrome (foldr flip qs buf) = foldr (\<lambda>i x. x XOR flip_syndromes ! i) qs 0" if "set qs \<subseteq> {..<24}" for qs
    using that assms(2) by (induction qs) (simp_all add: crc_ok_syndrome syndrome_flip len)
  have z: "\<not> odd_parity 0" by code_simp
  have "foldr (\<lambda>i x. x XOR flip_syndromes ! i) ps 0 \<noteq> 0"
  proof -
    consider i where "ps = [i]" | i j where "ps = [i, j]" | i j k where "ps = [i, j, k]"
      using assms(5,6) by (cases ps; cases "tl ps"; cases "tl (tl ps)") auto
    then show ?thesis
    proof cases
      case (1 i)
      then show ?thesis using assms(4) flip_syndromes_facts(1) [of i i] z by auto
    next
      case (2 i j)
      then show ?thesis using assms(3,4) flip_syndromes_facts(2) [of j i] by (auto simp: xor_zero_iff)
    next
      case (3 i j k)
      then have "odd_parity (foldr (\<lambda>i x. x XOR flip_syndromes ! i) ps 0)"
        using assms(4) flip_syndromes_facts(1) [of _ 0] by (simp add: odd_parity_xor)
      with z show ?thesis by auto
    qed
  qed
  then have n: "\<not> crc_ok (foldr flip ps buf)" using syn [OF assms(4)] by (simp add: crc_ok_syndrome)
  then show ?thesis using assms(7,8) len [of ps] by (auto simp: htu_get_def i2c_read_into_def crc_ok_def)
qed


text \<open>A whole-number arithmetic, for examples.\<close>

definition int_doubles :: "int doubles" where
  "int_doubles =
     \<lparr>d_add = (+), d_sub = (-), d_mul = (*), d_div = (div), d_less = (<), d_le = (\<le>), d_eq = (=), d_int = (\<lambda>i. i),
      d_lit = (\<lambda>_. 0), d_log = (\<lambda>x. x), d_float = (\<lambda>_. 0), d_of_float = uint,
      d_neg = uminus, d_fabs = abs, d_sqrt = (\<lambda>x. x), d_pow = (\<lambda>x y. x ^ nat y), d_sin = (\<lambda>x. x), d_cos = (\<lambda>x. x), d_atan2 = (\<lambda>x y. x)\<rparr>"

theorem gencrc_detects_three_bits_witness:
  "htu_get int_doubles \<lparr>i2c_write = \<lambda>_ _ _ w. (1, w), i2c_read = \<lambda>_ _ _ w. ((3, foldr flip [0, 9, 23] [0x68, 0x3A, 0x7C]), w)\<rparr> HTU_COMMAND_GET_TEMPERATURE True () =
   Some (- 1, False, ())"
proof -
  have "crc_ok [0x68, 0x3A, 0x7C]" by code_simp
  then show ?thesis
    using gencrc_detects_three_bits [of "[0x68, 0x3A, 0x7C]" "[0, 9, 23]" "\<lparr>i2c_write = \<lambda>_ _ _ w. (1, w), i2c_read = \<lambda>_ _ _ w. ((3, foldr flip [0, 9, 23] [0x68, 0x3A, 0x7C]), w)\<rparr>"
      HTU_COMMAND_GET_TEMPERATURE "()" "()" "()" int_doubles] by (simp add: int_doubles_def)
qed

section \<open>The sensor comes back\<close>

definition htu_inv :: "('d, 'z) outside_scheme \<Rightarrow> bool" where
  "htu_inv o' \<longleftrightarrow> htu_next_reset o' \<in> {1, 2, 4, 8, 16, 32} \<and> 0 \<le> htu_reset_countdown o' \<and> htu_reset_countdown o' \<le> htu_next_reset o'"

primrec htu_calls :: "'d doubles \<Rightarrow> 'w i2c \<Rightarrow> nat \<Rightarrow> ('d, 'z) outside_scheme \<Rightarrow> 'w \<Rightarrow> (('d, 'z) outside_scheme \<times> 'w) option" where
  "htu_calls D I 0 o' w = Some (o', w)"
| "htu_calls D I (Suc n) o' w = do { (o', w) \<leftarrow> htu_measure D I o' w; htu_calls D I n o' w }"

text \<open>A bus that never delivers more bytes than were asked for, as documented.\<close>

definition bus_ok :: "'w i2c \<Rightarrow> bool" where
  "bus_ok I \<longleftrightarrow> (\<forall>a n nostop w. length (snd (fst (i2c_read I a n nostop w))) \<le> n)"

lemma i2c_read_into_ok:
  assumes "bus_ok I" and "n \<le> length buf"
  shows "returns (i2c_read_into I a buf n b w) (\<lambda>(rv, buf', w'). length buf' = length buf)"
proof -
  have "length (snd (fst (i2c_read I a n b w))) \<le> n" using assms(1) unfolding bus_ok_def by blast
  then show ?thesis using assms(2) by (auto simp: i2c_read_into_def split: prod.splits)
qed

lemma htu_get_returns: "bus_ok I \<Longrightarrow> returns (htu_get D I cmd v w) (\<lambda>_. True)"
  by (auto simp: htu_get_def returns_bind split: prod.splits intro!: returns_weaken [OF i2c_read_into_ok [of I 3 "[0, 0, 0]"]])

lemma htu21_measure_returns: "bus_ok I \<Longrightarrow> returns (htu21_measure D I w) (\<lambda>_. True)"
  unfolding htu21_measure_def by (rule returns_bindI [OF htu_get_returns], assumption, clarsimp simp: Let_def)
    (rule returns_bindI [OF htu_get_returns], assumption, clarsimp simp: Let_def)

text \<open>Whatever the sensor answers, the waiting time before the next reset stays a power of two up to 32 calls.\<close>

lemma htu_read_inv: "bus_ok I \<Longrightarrow> htu_inv o' \<Longrightarrow> returns (htu_read D I o' w) (\<lambda>(o'', w'). htu_inv o'')"
  unfolding htu_read_def by (rule returns_bindI [OF htu21_measure_returns]) (auto simp: htu_inv_def Let_def)

lemma htu_measure_inv:
  assumes "bus_ok I" and "htu_inv o'"
  shows "returns (htu_measure D I o' w) (\<lambda>(o'', w'). htu_inv o'')"
  using assms(2) htu_read_inv [OF assms(1)] unfolding htu_measure_def
  by (auto simp: Let_def htu_inv_def split: prod.splits)

text \<open>
  A sensor that comes back is used again.  Whenever the HTU21 is not initialised, its next reset is at most 32 calls of
  \<open>htu_measure\<close> away, and if it answers then, it is initialised and measured in that call, and the waiting time starts again from one.
\<close>

theorem htu_recovers:
  assumes "htu_inv o'" and "\<not> htu_initialised o'" and "\<And>w. fst (htu21_reset I w)" and "\<And>w. \<exists>m w'. htu21_measure D I w = Some (m, w') \<and> valid m"
  shows "nat (htu_next_reset o' - htu_reset_countdown o') \<le> 32 \<and>
    (\<exists>o'' w'. htu_calls D I (Suc (nat (htu_next_reset o' - htu_reset_countdown o'))) o' w = Some (o'', w') \<and>
       htu_initialised o'' \<and> htu_next_reset o'' = 1 \<and> htu_reset_countdown o'' = 0)"
proof (intro conjI)
  show "nat (htu_next_reset o' - htu_reset_countdown o') \<le> 32" using assms(1) by (auto simp: htu_inv_def)
  show "\<exists>o'' w'. htu_calls D I (Suc (nat (htu_next_reset o' - htu_reset_countdown o'))) o' w = Some (o'', w') \<and>
       htu_initialised o'' \<and> htu_next_reset o'' = 1 \<and> htu_reset_countdown o'' = 0"
    using assms(1,2)
  proof (induction "nat (htu_next_reset o' - htu_reset_countdown o')" arbitrary: o' w)
    case 0
    then have c: "\<not> htu_reset_countdown o' < htu_next_reset o'" by simp
    obtain w1 where w1: "htu21_reset I w = (True, w1)" using assms(3) [of w] by (cases "htu21_reset I w") auto
    obtain m w2 where w2: "htu21_measure D I w1 = Some (m, w2)" "valid m" using assms(4) by blast
    show ?case using 0 c w1 w2 by (simp add: htu_measure_def htu_read_def Let_def)
  next
    case (Suc n)
    let ?o = "o'\<lparr>htu_reset_countdown := htu_reset_countdown o' + 1\<rparr>"
    have lt: "htu_reset_countdown o' < htu_next_reset o'" using Suc.hyps(2) by simp
    have n: "n = nat (htu_next_reset ?o - htu_reset_countdown ?o)" using Suc.hyps(2) by simp
    have "htu_inv ?o" "\<not> htu_initialised ?o" using Suc.prems lt by (auto simp: htu_inv_def)
    note IH = Suc.hyps(1) [OF n this, of w]
    have "htu_measure D I o' w = Some (?o, w)" using Suc.prems(2) lt by (simp add: htu_measure_def)
    then have "htu_calls D I (Suc (Suc n)) o' w = htu_calls D I (Suc n) ?o w" by (simp only: htu_calls.simps bind.bind_lunit prod.case)
    with IH show ?case by (simp only: Suc.hyps(2) [symmetric] n [symmetric])
  qed
qed


text \<open>A sensor on the bus that answers every command with a correct reading, and a device that waits for its reset.\<close>

definition healthy_sensor :: "unit i2c" where
  "healthy_sensor = \<lparr>i2c_write = \<lambda>_ src _ w. (int (length src), w), i2c_read = \<lambda>_ _ _ w. ((3, [0x68, 0x3A, 0x7C]), w)\<rparr>"

definition start_log :: "u32 \<Rightarrow> 'p \<Rightarrow> 'p zejf_log" where
  "start_log rate p = \<lparr>log_num = 0, hour_num = 0, last_log_num = 0, log_rate = rate, payload = p\<rparr>"

definition start_engine :: time_engine where
  "start_engine = \<lparr>ds3231_working = False, time_set = False, time_checked = False, time_check_count = 0, millis_since_boot = 0, millis_overflows = 0\<rparr>"

definition outside_start :: "'d doubles \<Rightarrow> 'd outside" where
  "outside_start D =
     \<lparr>engine = start_engine, rr_first = False, rr_c = 0, rr_c_last = 0, last_rr_callback = 0, rr_measured = False,
      rain_rate_last = d_lit D ''0.0'', rain_rate_displayed = d_lit D ''0.0'', htu_initialised = False, htu_errors = 0,
      htu_reset_countdown = 0, htu_next_reset = 1,
      current_htu_log = start_log SECONDS_5 \<lparr>htu_count = 0, temp_sum = d_int D 0, rh_sum = d_int D 0, td_sum = d_int D 0\<rparr>,
      current_rr_log = start_log SECONDS_5 \<lparr>rr_count = 0, max_rain_rate = d_lit D ''0.0''\<rparr>,
      current_voltages_log = start_log EVERY_MINUTE \<lparr>voltages_count = 0, solar_sum = d_int D 0, battery_sum = d_int D 0, current_sum = d_int D 0\<rparr>,
      logs_queue = [], queue_lock = False\<rparr>"

lemma outside_start_simps [simp]:
  "engine (outside_start D) = start_engine" "htu_initialised (outside_start D) = False" "htu_reset_countdown (outside_start D) = 0"
  "htu_next_reset (outside_start D) = 1" "log_rate (current_htu_log (outside_start D)) = SECONDS_5"
  "log_rate (current_rr_log (outside_start D)) = SECONDS_5" "log_rate (current_voltages_log (outside_start D)) = EVERY_MINUTE"
  by (simp_all add: outside_start_def start_log_def)

theorem htu_recovers_witness:
  "\<exists>o'' w'. htu_calls int_doubles healthy_sensor 2 (outside_start int_doubles) () = Some (o'', w') \<and> htu_initialised o'' \<and> htu_next_reset o'' = 1"
proof -
  have crc: "gencrc [0x68, 0x3A] = 0x7C" by code_simp
  have g: "htu_get int_doubles healthy_sensor cmd True w = Some (d_div int_doubles (d_int int_doubles (uint (sensor_data 0x68 0x3A))) (d_lit int_doubles ''65536.0''), True, w)" for cmd w
    by (simp add: htu_get_def healthy_sensor_def i2c_read_into_def crc)
  have m: "\<exists>m w'. htu21_measure int_doubles healthy_sensor w = Some (m, w') \<and> valid m" for w by (simp add: htu21_measure_def g Let_def)
  have r: "fst (htu21_reset healthy_sensor w)" for w by (simp add: htu21_reset_def healthy_sensor_def)
  have i: "htu_inv (outside_start int_doubles)" by (simp add: htu_inv_def)
  from htu_recovers [OF i _ r m, of "()"] show ?thesis by (auto simp: numeral_2_eq_2)
qed


section \<open>No rain is lost\<close>

text \<open>\<open>_process_measurements\<close> of \<open>zejf_runtime.cpp\<close>, the timer callback.\<close>

definition timer_measure :: "'d doubles \<Rightarrow> u32 \<Rightarrow> (nat \<Rightarrow> u16) \<Rightarrow> datetime \<Rightarrow> ('d, 'z) outside_scheme \<Rightarrow> ('d, 'z) outside_scheme option" where
  "timer_measure D ms adc dt o' = process_measurements D adc dt (o'\<lparr>engine := update_millis ms (engine o')\<rparr>)"

text \<open>What happens to the measurements: the gauge tips, a second passes, the main loop locks and unlocks the queue and takes logs from it.\<close>

datatype event = Tip "64 word" | Second u32 "nat \<Rightarrow> u16" datetime | Lock bool | Take

primrec event_step :: "'d doubles \<Rightarrow> event \<Rightarrow> 'd outside \<Rightarrow> ('d any_log list \<times> 'd outside) option" where
  "event_step D (Tip us) o' = Some ([], rr_callback D RR_PIN us o')"
| "event_step D (Second ms adc dt) o' = do { o' \<leftarrow> timer_measure D ms adc dt o'; Some ([], o') }"
| "event_step D (Lock b) o' = Some ([], o'\<lparr>queue_lock := b\<rparr>)"
| "event_step D Take o' = (case logs_queue o' of [] \<Rightarrow> Some ([], o') | l # ls \<Rightarrow> Some ([l], o'\<lparr>logs_queue := ls\<rparr>))"

primrec event_run :: "'d doubles \<Rightarrow> event list \<Rightarrow> 'd outside \<Rightarrow> ('d any_log list \<times> 'd outside) option" where
  "event_run D [] o' = Some ([], o')"
| "event_run D (e # es) o' =
     do { (taken, o') \<leftarrow> event_step D e o'; (rest, o') \<leftarrow> event_run D es o'; Some (taken @ rest, o') }"

definition rain :: "'d any_log \<Rightarrow> u16" where
  "rain log = (case log of Rr_Log l \<Rightarrow> rr_count (payload l) | _ \<Rightarrow> 0)"

definition rain_held :: "('d, 'z) outside_scheme \<Rightarrow> u16" where
  "rain_held o' = (rr_c o' - rr_c_last o') + rr_count (payload (current_rr_log o')) + sum_list (map rain (logs_queue o'))"

definition tips :: "event list \<Rightarrow> u16" where
  "tips es = of_nat (length (filter (\<lambda>e. case e of Tip _ \<Rightarrow> True | _ \<Rightarrow> False) es))"

text \<open>The seconds that find the queue unlocked come in order and never skip a sample period of five seconds.\<close>

primrec timely :: "bool \<Rightarrow> u32 \<Rightarrow> event list \<Rightarrow> bool" where
  "timely locked t [] \<longleftrightarrow> True"
| "timely locked t (e # es) \<longleftrightarrow>
     (case e of
        Second ms adc dt \<Rightarrow>
          (if locked then timely locked t es
           else t \<le> word_of_int (unix_time dt) \<and> unat (word_of_int (unix_time dt) :: u32) div 5 \<le> Suc (unat t div 5) \<and>
             timely locked (word_of_int (unix_time dt)) es)
      | Lock b \<Rightarrow> timely b t es
      | _ \<Rightarrow> timely locked t es)"

definition logging :: "u32 \<Rightarrow> ('d, 'z) outside_scheme \<Rightarrow> bool" where
  "logging t o' \<longleftrightarrow> time_set (engine o') \<and> rr_first o' \<and> log_rate (current_htu_log o') = SECONDS_5 \<and> log_rate (current_rr_log o') = SECONDS_5 \<and>
     log_rate (current_voltages_log o') = EVERY_MINUTE \<and> unat (last_log_num (current_rr_log o')) = unat t div 5"

lemma log_step_returns:
  assumes "log_rate l \<noteq> 0" and "3600 div log_rate l \<noteq> 0"
  shows "\<exists>q l'. log_step reset finish u l = Some (q, l') \<and> log_rate l' = log_rate l"
  using assms by (simp add: log_step_def is_ready_def get_log_num_abs_def get_log_num_def Let_def)

lemma log_step_payload:
  assumes "log_step reset finish u l = Some (q, l')" and "get_log_num_abs u (log_rate l) = Some a" and "a = last_log_num l \<or> a = last_log_num l + 1"
  shows "q = [] \<and> payload l' = payload l \<or> (\<exists>x. q = [x] \<and> payload x = finish (payload l) \<and> payload l' = reset (finish (payload l)))"
  using assms by (auto simp: log_step_def is_ready_def Let_def split: if_splits bind_splits)

lemma rr_sample_count [simp]: "rr_count (rr_sample D n x l) = rr_count l + n"
  by (simp add: rr_sample_def Let_def)

lemma rr_reset_count [simp]: "rr_count (rr_reset D l) = 0"
  by (simp add: rr_reset_def)

lemma unat_Suc_imp: "unat a = Suc (unat b) \<Longrightarrow> a = b + 1" for a b :: u32
  by (metis of_nat_Suc of_nat_unat ucast_id add.commute)

lemma process_logs_rain:
  assumes "logging t o'" and "t \<le> u" and "unat u div 5 \<le> Suc (unat t div 5)"
  shows "\<exists>o''. process_logs D u o' = Some o'' \<and> logging u o'' \<and> rain_held o'' = rain_held o' \<and> queue_lock o'' = queue_lock o'"
proof -
  have r: "log_rate (current_htu_log o') = 720" "log_rate (current_rr_log o') = 720" "log_rate (current_voltages_log o') = 60"
    "unat (last_log_num (current_rr_log o')) = unat t div 5" "time_set (engine o')" "rr_first o'"
    using assms(1) by (simp_all add: logging_def SECONDS_5_def EVERY_MINUTE_def)
  obtain q1 l1 where 1: "log_step (htu_reset D) (\<lambda>p. p) u (current_htu_log o') = Some (q1, l1)" "log_rate l1 = 720"
    using log_step_returns [of "current_htu_log o'" "htu_reset D" "\<lambda>p. p" u] r(1) by auto
  obtain q3 l3 where 3: "log_step (voltages_reset D) (\<lambda>p. p) u (current_voltages_log o') = Some (q3, l3)" "log_rate l3 = 60"
    using log_step_returns [of "current_voltages_log o'" "voltages_reset D" "\<lambda>p. p" u] r(3) by auto
  obtain q2 l2 where 2: "log_step (rr_reset D) (\<lambda>p. p) u (current_rr_log o') = Some (q2, l2)" "log_rate l2 = 720" "unat (last_log_num l2) = unat u div 5"
    using log_step_slots [of "current_rr_log o'" t u "rr_reset D" "\<lambda>p. p"] r(2,4) assms(2,3) by auto
  obtain a where a: "get_log_num_abs u (log_rate (current_rr_log o')) = Some a" "unat a = unat u div 5"
    using get_log_num_slots [of "log_rate (current_rr_log o')" u] r(2) by auto
  have "unat t div 5 \<le> unat u div 5" using assms(2) by (intro div_le_mono) (simp add: word_le_nat_alt)
  then have "a = last_log_num (current_rr_log o') \<or> a = last_log_num (current_rr_log o') + 1"
    using a(2) r(4) assms(3) by (auto simp: le_Suc_eq word_unat_eq_iff [of a "last_log_num (current_rr_log o')"] intro: unat_Suc_imp)
  from log_step_payload [OF 2(1) a(1) this]
  have "sum_list (map rain (map Rr_Log q2)) + rr_count (payload l2) = rr_count (payload (current_rr_log o'))" by (auto simp: rain_def)
  moreover have "sum_list (map rain (map Htu_Log q1)) = 0" "sum_list (map rain (map Voltages_Log q3)) = 0"
    by (simp_all add: rain_def comp_def)
  ultimately have "rain_held (o'\<lparr>current_htu_log := l1, current_rr_log := l2, current_voltages_log := l3,
         logs_queue := logs_queue o' @ map Htu_Log q1 @ map Rr_Log q2 @ map Voltages_Log q3\<rparr>) = rain_held o'"
    by (simp add: rain_held_def algebra_simps del: map_map)
  then show ?thesis using 1 2 3 r
    by (simp add: process_logs_def logging_def SECONDS_5_def EVERY_MINUTE_def)
qed


lemma rain_rates_simps [simp]:
  "rr_c (rain_rates D o') = rr_c o'" "rr_c_last (rain_rates D o') = rr_c_last o'" "current_rr_log (rain_rates D o') = current_rr_log o'"
  "current_htu_log (rain_rates D o') = current_htu_log o'" "current_voltages_log (rain_rates D o') = current_voltages_log o'"
  "logs_queue (rain_rates D o') = logs_queue o'" "queue_lock (rain_rates D o') = queue_lock o'" "rr_first (rain_rates D o') = rr_first o'"
  "engine (rain_rates D o') = engine o'"
  by (simp_all add: rain_rates_def Let_def)

lemma measure_voltages_simps [simp]:
  "rr_c (measure_voltages D adc o') = rr_c o'" "rr_c_last (measure_voltages D adc o') = rr_c_last o'"
  "current_rr_log (measure_voltages D adc o') = current_rr_log o'" "current_htu_log (measure_voltages D adc o') = current_htu_log o'"
  "log_rate (current_voltages_log (measure_voltages D adc o')) = log_rate (current_voltages_log o')"
  "logs_queue (measure_voltages D adc o') = logs_queue o'" "queue_lock (measure_voltages D adc o') = queue_lock o'"
  "rr_first (measure_voltages D adc o') = rr_first o'" "engine (measure_voltages D adc o') = engine o'"
  by (simp_all add: measure_voltages_def Let_def)

lemma update_millis_time_set [simp]: "time_set (update_millis ms e) = time_set e"
  by (simp add: update_millis_def Let_def)

lemma timer_measure_rain:
  assumes "logging t o'" and "\<not> queue_lock o' \<Longrightarrow> t \<le> word_of_int (unix_time dt) \<and> unat (word_of_int (unix_time dt) :: u32) div 5 \<le> Suc (unat t div 5)"
  shows "\<exists>o''. timer_measure D ms adc dt o' = Some o'' \<and> logging (if queue_lock o' then t else word_of_int (unix_time dt)) o'' \<and>
    rain_held o'' = rain_held o' \<and> queue_lock o'' = queue_lock o'"
proof -
  let ?p = "measure_voltages D adc (rain_rates D (o'\<lparr>engine := update_millis ms (engine o'), rr_c_last := rr_c o'\<rparr>))"
  let ?q = "?p\<lparr>current_rr_log := (current_rr_log ?p)\<lparr>payload := rr_sample D (rr_c o' - rr_c_last o') (rain_rate_displayed ?p) (payload (current_rr_log ?p))\<rparr>\<rparr>"
  have set: "time_set (engine o')" using assms(1) by (simp add: logging_def)
  then have m: "timer_measure D ms adc dt o' = (if queue_lock o' then Some ?q else process_logs D (word_of_int (unix_time dt)) ?q)"
    by (simp add: timer_measure_def process_measurements_def Let_def)
  have q: "logging t ?q" "rain_held ?q = rain_held o'" "queue_lock ?q = queue_lock o'"
    using assms(1) by (simp_all add: logging_def rain_held_def)
  show ?thesis
  proof (cases "queue_lock o'")
    case True
    then show ?thesis unfolding m using q by simp
  next
    case False
    with process_logs_rain [OF q(1), of "word_of_int (unix_time dt)" D] assms(2) q(2,3) show ?thesis unfolding m by simp
  qed
qed

lemma rr_callback_rain:
  assumes "logging t o'"
  shows "logging t (rr_callback D RR_PIN us o')" "rain_held (rr_callback D RR_PIN us o') = rain_held o' + 1"
    "queue_lock (rr_callback D RR_PIN us o') = queue_lock o'"
  using assms by (simp_all add: rr_callback_def Let_def logging_def rain_held_def)

lemma tips_Cons: "tips (e # es) = (case e of Tip _ \<Rightarrow> 1 | _ \<Rightarrow> 0) + tips es"
  by (simp add: tips_def split: event.splits)

lemma rain_run:
  "logging t o' \<Longrightarrow> timely (queue_lock o') t es \<Longrightarrow>
   \<exists>taken o''. event_run D es o' = Some (taken, o'') \<and> sum_list (map rain taken) + rain_held o'' = rain_held o' + tips es"
proof (induction es arbitrary: t o')
  case Nil
  then show ?case by (simp add: tips_def)
next
  case (Cons e es)
  show ?case
  proof (cases e)
    case (Tip us)
    note c = rr_callback_rain [OF Cons.prems(1), of D us]
    have "timely (queue_lock (rr_callback D RR_PIN us o')) t es" using Cons.prems(2) c(3) by (simp add: Tip)
    from Cons.IH [OF c(1) this] show ?thesis using c(2) by (auto simp: Tip tips_Cons)
  next
    case (Second ms adc dt)
    obtain u where u: "timer_measure D ms adc dt o' = Some u" "logging (if queue_lock o' then t else word_of_int (unix_time dt)) u"
      "rain_held u = rain_held o'" "queue_lock u = queue_lock o'"
      using timer_measure_rain [OF Cons.prems(1), of dt D ms adc] Cons.prems(2) Second by auto
    have "timely (queue_lock u) (if queue_lock o' then t else word_of_int (unix_time dt)) es" using Cons.prems(2) u(4) by (auto simp: Second split: if_splits)
    from Cons.IH [OF u(2) this] show ?thesis using u(1,3) by (auto simp: Second tips_Cons)
  next
    case (Lock b)
    have "logging t (o'\<lparr>queue_lock := b\<rparr>)" "rain_held (o'\<lparr>queue_lock := b\<rparr>) = rain_held o'" using Cons.prems(1) by (simp_all add: logging_def rain_held_def)
    with Cons.IH [of t "o'\<lparr>queue_lock := b\<rparr>"] Cons.prems(2) show ?thesis by (auto simp: Lock tips_Cons)
  next
    case Take
    show ?thesis
    proof (cases "logs_queue o'")
      case Nil
      with Cons.IH [OF Cons.prems(1)] Cons.prems(2) show ?thesis by (auto simp: Take tips_Cons)
    next
      case q: (Cons l ls)
      let ?o = "o'\<lparr>logs_queue := ls\<rparr>"
      have o: "logging t ?o" "rain l + rain_held ?o = rain_held o'" using Cons.prems(1) q by (simp_all add: logging_def rain_held_def)
      with Cons.IH [OF o(1)] Cons.prems(2) obtain taken u where
        "event_run D es ?o = Some (taken, u)" "sum_list (map rain taken) + rain_held u = rain_held ?o + tips es" by (auto simp: Take)
      with o(2) q show ?thesis by (auto simp: Take tips_Cons algebra_simps)
    qed
  qed
qed




end
