(* ===== verification/Tcp_Handler.thy ===== *)
theory Tcp_Handler
  imports Zejf_Api
begin

text \<open>
  The TCP connection of a Pico device to the server, \<open>libs/tcp_handler/tcp_handler.c\<close>.  The network stack lwIP and the
  wireless chip are parameters.  What the model keeps of lwIP is which connections (\<open>struct tcp_pcb\<close>) exist: a call
  with one that has been closed, aborted or freed by lwIP is undefined behaviour.
\<close>

section \<open>The network stack\<close>

type_synonym err_t = int

abbreviation (input) ERR_OK :: err_t where "ERR_OK \<equiv> 0"
abbreviation (input) ERR_ABRT :: err_t where "ERR_ABRT \<equiv> - 13"

record 'n lwip =
  lw_linked :: "'n \<Rightarrow> bool"
  lw_wifi_connect :: "'n \<Rightarrow> int \<times> 'n"
  lw_new :: "'n \<Rightarrow> bool \<times> 'n"
  lw_connect :: "addr \<Rightarrow> 'n \<Rightarrow> err_t \<times> 'n"
  lw_close :: "addr \<Rightarrow> 'n \<Rightarrow> err_t \<times> 'n"
  lw_abort :: "addr \<Rightarrow> 'n \<Rightarrow> 'n"
  lw_sndbuf :: "addr \<Rightarrow> 'n \<Rightarrow> nat"
  lw_write :: "addr \<Rightarrow> string \<Rightarrow> 'n \<Rightarrow> err_t \<times> 'n"
  lw_output :: "addr \<Rightarrow> 'n \<Rightarrow> err_t \<times> 'n"

record TCP_CLIENT_T =
  tcp_pcb :: "addr option"
  idle_time :: int
  complete :: bool
  connected :: bool

text \<open>
  The variables of the file, the states allocated by \<open>calloc\<close>, the connections of lwIP that exist (\<open>tcp_new\<close> gives one
  the address \<open>next_pcb\<close>), and the stack.
\<close>

record 'n tcp =
  current_state :: "addr option"
  client_states :: "addr \<rightharpoonup> TCP_CLIENT_T"
  tcp_mem :: allocator
  next_attempt_wifi :: int
  next_attempt_last :: int
  tcp_reconnects :: nat
  wifi_reconnects :: nat
  live_pcbs :: "addr set"
  next_pcb :: addr
  net :: 'n

definition state_get :: "addr \<Rightarrow> 'n tcp \<Rightarrow> TCP_CLIENT_T option" where
  "state_get a t = client_states t a"

definition state_put :: "addr \<Rightarrow> TCP_CLIENT_T \<Rightarrow> 'n tcp \<Rightarrow> 'n tcp" where
  "state_put a c t = t\<lparr>client_states := (client_states t)(a \<mapsto> c)\<rparr>"

text \<open>A call of lwIP on a connection.\<close>

definition on_pcb :: "(addr \<Rightarrow> 'n \<Rightarrow> 'a \<times> 'n) \<Rightarrow> addr \<Rightarrow> 'n tcp \<Rightarrow> ('a \<times> 'n tcp) option" where
  "on_pcb f p t =
     (if p \<in> live_pcbs t then (case f p (net t) of (r, n) \<Rightarrow> Some (r, t\<lparr>net := n\<rparr>)) else None)"

section \<open>Opening and closing\<close>

text \<open>\<open>tcp_close\<close> frees the connection when it succeeds, \<open>tcp_abort\<close> always.\<close>

definition tcp_client_close :: "'n lwip \<Rightarrow> addr \<Rightarrow> 'n tcp \<Rightarrow> (err_t \<times> 'n tcp) option" where
  "tcp_client_close lw arg t =
     do {
       state \<leftarrow> state_get arg t;
       (case tcp_pcb state of
          None \<Rightarrow> Some (ERR_OK, t)
        | Some p \<Rightarrow>
            do {
              (err, t) \<leftarrow> on_pcb (lw_close lw) p t;
              (err, t) \<leftarrow>
                (if err \<noteq> ERR_OK then do { (_, t) \<leftarrow> on_pcb (\<lambda>p n. ((), lw_abort lw p n)) p t; Some (ERR_ABRT, t) } else Some (err, t));
              let t = t\<lparr>live_pcbs := live_pcbs t - {p}\<rparr>;
              Some (err, state_put arg (state\<lparr>tcp_pcb := None\<rparr>) t)
            })
     }"

definition tcp_result :: "'n lwip \<Rightarrow> addr \<Rightarrow> 'n tcp \<Rightarrow> (err_t \<times> 'n tcp) option" where
  "tcp_result lw arg t =
     do { state \<leftarrow> state_get arg t; tcp_client_close lw arg (state_put arg (state\<lparr>complete := True\<rparr>) t) }"

definition tcp_client_init :: "'n tcp \<Rightarrow> addr option \<times> 'n tcp" where
  "tcp_client_init t =
     (case malloc (tcp_mem t) of
        (None, m) \<Rightarrow> (None, t\<lparr>tcp_mem := m\<rparr>)
      | (Some a, m) \<Rightarrow>
          (Some a, (t\<lparr>tcp_mem := m\<rparr>)\<lparr>client_states := (client_states t)(a \<mapsto> \<lparr>tcp_pcb = None, idle_time = 0, complete = False, connected = False\<rparr>)\<rparr>))"

definition tcp_client_open :: "'n lwip \<Rightarrow> addr \<Rightarrow> 'n tcp \<Rightarrow> (bool \<times> 'n tcp) option" where
  "tcp_client_open lw arg t =
     do {
       let t = t\<lparr>tcp_reconnects := tcp_reconnects t + 1\<rparr>;
       state \<leftarrow> state_get arg t;
       (case lw_new lw (net t) of
          (made, n) \<Rightarrow>
            let t = t\<lparr>net := n\<rparr>;
                p = next_pcb t
            in if \<not> made then Some (False, state_put arg (state\<lparr>tcp_pcb := None\<rparr>) t)
               else do {
                 let t = t\<lparr>next_pcb := Suc p, live_pcbs := insert p (live_pcbs t)\<rparr>;
                 let t = state_put arg (state\<lparr>tcp_pcb := Some p\<rparr>) t;
                 (err, t) \<leftarrow> on_pcb (lw_connect lw) p t;
                 Some (err = ERR_OK, t)
               })
     }"

section \<open>The callbacks\<close>

text \<open>
  lwIP calls \<open>tcp_client_err\<close> after it has freed the connection; \<open>arg\<close> is the state registered with the connection.
\<close>

definition tcp_client_err :: "'n lwip \<Rightarrow> addr \<Rightarrow> 'n tcp \<Rightarrow> 'n tcp option" where
  "tcp_client_err lw arg t = do { (_, t) \<leftarrow> tcp_result lw arg t; Some t }"

definition tcp_client_connected :: "'n lwip \<Rightarrow> addr \<Rightarrow> err_t \<Rightarrow> 'n tcp \<Rightarrow> (err_t \<times> 'n tcp) option" where
  "tcp_client_connected lw arg err t =
     do {
       state \<leftarrow> state_get arg t;
       (if err \<noteq> ERR_OK then tcp_result lw arg t
        else Some (ERR_OK, state_put arg (state\<lparr>connected := True\<rparr>) t))
     }"

definition tcp_client_poll :: "'n lwip \<Rightarrow> addr \<Rightarrow> 'n tcp \<Rightarrow> (err_t \<times> 'n tcp) option" where
  "tcp_client_poll lw arg t =
     do {
       state \<leftarrow> state_get arg t;
       let t = state_put arg (state\<lparr>idle_time := idle_time state + 1\<rparr>) t;
       (if 3 < idle_time state + 1 then tcp_result lw arg t else Some (ERR_OK, t))
     }"

text \<open>
  The loop of \<open>tcp_client_recv\<close> over a chain of buffers: \<open>cur\<close> is what is left of the current one, \<open>bufs\<close> the next ones,
  \<open>line\<close> the contents of \<open>next_packet\<close>.  At the end of a buffer the code reads \<open>p->len\<close> even when \<open>p\<close> is null:
  \<open>at_null\<close> is what that gives, nothing by the rules of C.
\<close>

function recv_loop :: "nat \<Rightarrow> nat option \<Rightarrow> (string \<Rightarrow> 's \<Rightarrow> 's option) \<Rightarrow> string \<Rightarrow> string list \<Rightarrow> string \<Rightarrow> 's \<Rightarrow> 's option" where
  "recv_loop maxlen at_null accept [] bufs line s = Some s"
| "recv_loop maxlen at_null accept (ch # cs) bufs line s =
     do {
       (line, s) \<leftarrow>
         (if ch = NL \<or> length line = maxlen - 1 then do { s \<leftarrow> accept line s; Some ([], s) } else Some (line @ [ch], s));
       (if cs \<noteq> [] then recv_loop maxlen at_null accept cs bufs line s
        else
          (case bufs of
             [] \<Rightarrow> do { _ \<leftarrow> at_null; Some s }
           | b # bs \<Rightarrow> recv_loop maxlen at_null accept b bs line s))
     }"
  by pat_completeness auto
termination
  by (relation "measure (\<lambda>(_, _, _, cur, bufs, _, _). length cur + sum_list (map (Suc \<circ> length) bufs))") auto

definition tcp_client_recv ::
  "nat option \<Rightarrow> 'n lwip \<Rightarrow> nat \<Rightarrow> (string \<Rightarrow> 's \<Rightarrow> 's option) \<Rightarrow> addr \<Rightarrow> string list option \<Rightarrow> 's \<Rightarrow> 'n tcp \<Rightarrow> (err_t \<times> 's \<times> 'n tcp) option"
where
  "tcp_client_recv at_null lw maxlen accept arg buff s t =
     (case buff of
        None \<Rightarrow> do { (err, t) \<leftarrow> tcp_result lw arg t; Some (err, s, t) }
      | Some bufs \<Rightarrow>
          if concat bufs \<noteq> []
          then do {
            s \<leftarrow> recv_loop maxlen at_null accept (hd bufs) (tl bufs) [] s;
            state \<leftarrow> state_get arg t;
            Some (ERR_OK, s, state_put arg (state\<lparr>idle_time := 0\<rparr>) t)
          }
          else Some (ERR_OK, s, t))"

section \<open>Sending and reconnecting\<close>

definition zejf_tcp_send :: "'n lwip \<Rightarrow> string \<Rightarrow> 'n tcp \<Rightarrow> (zejf_err \<times> 'n tcp) option" where
  "zejf_tcp_send lw msg t =
     (case current_state t of
        None \<Rightarrow> Some (ZEJF_ERR_SEND_UNABLE, t)
      | Some a \<Rightarrow>
          do {
            state \<leftarrow> state_get a t;
            (if complete state \<or> \<not> connected state then Some (ZEJF_ERR_SEND_UNABLE, t)
             else do {
               p \<leftarrow> tcp_pcb state;
               (room, t) \<leftarrow> on_pcb (\<lambda>p n. (lw_sndbuf lw p n, n)) p t;
               (if room < length msg then Some (ZEJF_ERR_SEND_UNABLE, t)
                else do {
                  (err, t) \<leftarrow> on_pcb (\<lambda>p. lw_write lw p msg) p t;
                  (if err \<noteq> ERR_OK then do { (_, t) \<leftarrow> tcp_result lw a t; Some (ZEJF_ERR_SEND_UNABLE, t) }
                   else do {
                     (err, t) \<leftarrow> on_pcb (lw_output lw) p t;
                     (if err \<noteq> ERR_OK then do { (_, t) \<leftarrow> tcp_result lw a t; Some (ZEJF_ERR_SEND_UNABLE, t) }
                      else Some (ZEJF_OK, t))
                   })
                })
             })
          })"

definition wifi_connect :: "'n lwip \<Rightarrow> 'n tcp \<Rightarrow> int \<times> 'n tcp" where
  "wifi_connect lw t =
     (let t = t\<lparr>wifi_reconnects := wifi_reconnects t + 1\<rparr> in
      case lw_wifi_connect lw (net t) of (rv, n) \<Rightarrow> (if rv \<noteq> 0 then 1 else 0, t\<lparr>net := n\<rparr>))"

text \<open>The part of \<open>zejf_tcp_check_connect\<close> that runs while the wireless link is up.\<close>

definition tcp_reconnect :: "'n lwip \<Rightarrow> 'n tcp \<Rightarrow> 'n tcp option" where
  "tcp_reconnect lw t =
     do {
       t \<leftarrow>
         (case current_state t of
            None \<Rightarrow> Some t
          | Some a \<Rightarrow>
              do {
                state \<leftarrow> state_get a t;
                (if complete state \<or> \<not> connected state
                 then do { (_, t) \<leftarrow> tcp_client_close lw a t; Some (t\<lparr>current_state := None\<rparr>) }
                 else Some t)
              });
       (case current_state t of
          Some _ \<Rightarrow> Some t
        | None \<Rightarrow>
            (case tcp_client_init t of
               (None, t) \<Rightarrow> Some (t\<lparr>current_state := None\<rparr>)
             | (Some a, t) \<Rightarrow> do { (_, t) \<leftarrow> tcp_client_open lw a (t\<lparr>current_state := Some a\<rparr>); Some t }))
     }"

definition zejf_tcp_check_connect :: "'n lwip \<Rightarrow> 'n tcp \<Rightarrow> 'n tcp option" where
  "zejf_tcp_check_connect lw t =
     (if lw_linked lw (net t) then tcp_reconnect lw t
      else if next_attempt_wifi t < next_attempt_last t then Some (t\<lparr>next_attempt_wifi := next_attempt_wifi t + 1\<rparr>)
      else
        let t = t\<lparr>next_attempt_wifi := 0\<rparr>;
            t = (if next_attempt_last t < 20 then t\<lparr>next_attempt_last := next_attempt_last t * 2\<rparr> else t)
        in (case wifi_connect lw t of
              (rv, t) \<Rightarrow> if rv \<noteq> 0 then Some t else tcp_reconnect lw (t\<lparr>next_attempt_last := 1\<rparr>)))"

definition zejf_tcp_init :: "'n tcp \<Rightarrow> 'n tcp" where
  "zejf_tcp_init t = t\<lparr>current_state := None\<rparr>"


section \<open>Connections are used only while they exist\<close>

definition pcb_of :: "'n tcp \<Rightarrow> addr \<rightharpoonup> addr" where
  "pcb_of t a = (case client_states t a of None \<Rightarrow> None | Some st \<Rightarrow> tcp_pcb st)"

definition state_ok :: "TCP_CLIENT_T \<Rightarrow> bool" where
  "state_ok st \<longleftrightarrow> (connected st \<and> \<not> complete st \<longrightarrow> tcp_pcb st \<noteq> None)"

definition tcp_inv :: "'n tcp \<Rightarrow> bool" where
  "tcp_inv t \<longleftrightarrow>
     (\<forall>a st. client_states t a = Some st \<longrightarrow> a < next_addr (tcp_mem t) \<and> state_ok st) \<and>
     inj_on (pcb_of t) (dom (pcb_of t)) \<and> ran (pcb_of t) \<subseteq> live_pcbs t \<and> (\<forall>p\<in>ran (pcb_of t). p < next_pcb t) \<and>
     (\<forall>a. current_state t = Some a \<longrightarrow> a \<in> dom (client_states t))"

lemma tcp_invD:
  assumes "tcp_inv t" and "client_states t a = Some st"
  shows "a < next_addr (tcp_mem t)" "state_ok st" "tcp_pcb st = Some p \<Longrightarrow> p \<in> live_pcbs t" "tcp_pcb st = Some p \<Longrightarrow> pcb_of t a = Some p"
proof -
  show "a < next_addr (tcp_mem t)" "state_ok st" using assms by (auto simp: tcp_inv_def)
  show o: "tcp_pcb st = Some p \<Longrightarrow> pcb_of t a = Some p" using assms(2) by (simp add: pcb_of_def)
  show "tcp_pcb st = Some p \<Longrightarrow> p \<in> live_pcbs t" using assms(1) o by (auto simp: tcp_inv_def intro: ranI)
qed

lemma pcb_of_simps [simp]: "pcb_of (t\<lparr>net := n\<rparr>) = pcb_of t" "pcb_of (t\<lparr>tcp_reconnects := k\<rparr>) = pcb_of t"
    "pcb_of (t\<lparr>wifi_reconnects := k\<rparr>) = pcb_of t" "pcb_of (t\<lparr>next_attempt_wifi := i\<rparr>) = pcb_of t" "pcb_of (t\<lparr>next_attempt_last := i\<rparr>) = pcb_of t"
    "pcb_of (t\<lparr>current_state := c\<rparr>) = pcb_of t" "pcb_of (t\<lparr>live_pcbs := P\<rparr>) = pcb_of t" "pcb_of (t\<lparr>next_pcb := p\<rparr>) = pcb_of t"
    "pcb_of (t\<lparr>tcp_mem := m\<rparr>) = pcb_of t" "pcb_of (state_put a st t) = (pcb_of t)(a := tcp_pcb st)"
  by (simp_all add: pcb_of_def fun_eq_iff state_put_def)

lemma tcp_inv_net [simp]: "tcp_inv (t\<lparr>net := n\<rparr>) = tcp_inv t" "tcp_inv (t\<lparr>tcp_reconnects := k\<rparr>) = tcp_inv t"
    "tcp_inv (t\<lparr>wifi_reconnects := k\<rparr>) = tcp_inv t" "tcp_inv (t\<lparr>next_attempt_wifi := i\<rparr>) = tcp_inv t" "tcp_inv (t\<lparr>next_attempt_last := i\<rparr>) = tcp_inv t"
  by (simp_all add: tcp_inv_def)

lemma tcp_inv_current: "tcp_inv t \<Longrightarrow> tcp_inv (t\<lparr>current_state := None\<rparr>)"
  by (simp add: tcp_inv_def)

text \<open>Changing what a state says, without giving it another connection.\<close>

lemma tcp_inv_put:
  assumes "tcp_inv t" and "client_states t a = Some st" and "tcp_pcb st' = tcp_pcb st" and "state_ok st'"
  shows "tcp_inv (state_put a st' t)"
proof -
  have "(pcb_of t)(a := tcp_pcb st') = pcb_of t" using assms(2,3) by (simp add: pcb_of_def fun_eq_iff)
  then show ?thesis using assms by (auto simp: tcp_inv_def) (auto simp: state_put_def split: if_splits)
qed

text \<open>A state gives up its connection.\<close>

lemma tcp_inv_drop:
  assumes "tcp_inv t" and "client_states t a = Some st" and "tcp_pcb st = Some p" and "tcp_pcb st' = None" and "state_ok st'"
  shows "tcp_inv (state_put a st' (t\<lparr>live_pcbs := live_pcbs t - {p}\<rparr>))"
proof -
  have a: "pcb_of t a = Some p" by (rule tcp_invD(4) [OF assms(1-3)])
  have i: "inj_on (pcb_of t) (dom (pcb_of t))" "ran (pcb_of t) \<subseteq> live_pcbs t" using assms(1) by (simp_all add: tcp_inv_def)
  have r: "ran ((pcb_of t)(a := None)) \<subseteq> ran (pcb_of t) - {p}"
  proof
    fix q
    assume "q \<in> ran ((pcb_of t)(a := None))"
    then obtain b where b: "b \<noteq> a" "pcb_of t b = Some q" by (auto simp: ran_def split: if_splits)
    then have "q \<noteq> p" using i(1) a by (auto simp: inj_on_def dom_def)
    with b(2) show "q \<in> ran (pcb_of t) - {p}" by (auto intro: ranI)
  qed
  have "inj_on ((pcb_of t)(a := None)) (dom ((pcb_of t)(a := None)))" using i(1) by (auto simp: inj_on_def split: if_splits)
  moreover have "ran ((pcb_of t)(a := None)) \<subseteq> live_pcbs t - {p}" using r i(2) by blast
  moreover have "\<forall>q\<in>ran ((pcb_of t)(a := None)). q < next_pcb t" using r assms(1) by (auto simp: tcp_inv_def)
  ultimately show ?thesis using assms(1,2,5) unfolding tcp_inv_def pcb_of_simps assms(4)
    by (simp add: state_put_def)
qed

text \<open>A state gets a new connection.\<close>

lemma tcp_inv_open:
  assumes "tcp_inv t" and "client_states t a = Some st" and "tcp_pcb st = None"
  shows "tcp_inv (state_put a (st\<lparr>tcp_pcb := Some (next_pcb t)\<rparr>) (t\<lparr>next_pcb := Suc (next_pcb t), live_pcbs := insert (next_pcb t) (live_pcbs t)\<rparr>))"
proof -
  let ?p = "next_pcb t"
  have a: "pcb_of t a = None" using assms(2,3) by (simp add: pcb_of_def)
  have i: "inj_on (pcb_of t) (dom (pcb_of t))" "ran (pcb_of t) \<subseteq> live_pcbs t" "\<forall>p\<in>ran (pcb_of t). p < ?p" using assms(1) by (simp_all add: tcp_inv_def)
  have "pcb_of t b \<noteq> Some ?p" for b using i(3) by (metis less_irrefl ranI)
  then have "inj_on ((pcb_of t)(a \<mapsto> ?p)) (dom ((pcb_of t)(a \<mapsto> ?p)))" using i(1) by (auto simp: inj_on_def dom_def)
  moreover have "ran ((pcb_of t)(a \<mapsto> ?p)) = insert ?p (ran (pcb_of t))" using a by simp
  ultimately show ?thesis using assms(1,2) i unfolding tcp_inv_def pcb_of_simps
    by (auto simp: state_put_def state_ok_def dom_def)
qed

lemma on_pcb_live: "p \<in> live_pcbs t \<Longrightarrow> on_pcb f p t = Some (fst (f p (net t)), t\<lparr>net := snd (f p (net t))\<rparr>)"
  by (simp add: on_pcb_def split: prod.splits)

text \<open>The states are the same except that \<open>a\<close> has no connection any more.\<close>

lemma tcp_client_close_ok:
  assumes inv: "tcp_inv t" and a: "client_states t a = Some st" and c: "complete st \<or> \<not> connected st"
  shows "returns (tcp_client_close lw a t) (\<lambda>(err, t'). tcp_inv t' \<and> current_state t' = current_state t \<and> dom (client_states t') = dom (client_states t))"
proof (cases "tcp_pcb st")
  case None
  then show ?thesis using inv a by (simp add: tcp_client_close_def state_get_def)
next
  case (Some p)
  have live: "p \<in> live_pcbs t" by (rule tcp_invD(3) [OF inv a Some])
  have "tcp_inv (state_put a (st\<lparr>tcp_pcb := None\<rparr>) (t\<lparr>net := m, live_pcbs := live_pcbs t - {p}\<rparr>))" for m
    using tcp_inv_drop [of "t\<lparr>net := m\<rparr>" a st p "st\<lparr>tcp_pcb := None\<rparr>"] inv a Some c by (auto simp: state_ok_def)
  then show ?thesis using a Some live by (auto simp: tcp_client_close_def state_get_def on_pcb_live) (auto simp: state_put_def split: if_splits)
qed

lemma tcp_result_ok:
  assumes inv: "tcp_inv t" and a: "client_states t a = Some st"
  shows "returns (tcp_result lw a t) (\<lambda>(err, t'). tcp_inv t' \<and> current_state t' = current_state t \<and> dom (client_states t') = dom (client_states t))"
proof -
  let ?st = "st\<lparr>complete := True\<rparr>"
  have i: "tcp_inv (state_put a ?st t)" by (rule tcp_inv_put [OF inv a]) (simp_all add: state_ok_def)
  have g: "client_states (state_put a ?st t) a = Some ?st" "current_state (state_put a ?st t) = current_state t"
    "dom (client_states (state_put a ?st t)) = dom (client_states t)" using a by (auto simp: state_put_def)
  have "returns (tcp_client_close lw a (state_put a ?st t)) (\<lambda>(err, t'). tcp_inv t' \<and> current_state t' = current_state t \<and> dom (client_states t') = dom (client_states t))"
    using tcp_client_close_ok [OF i g(1), of lw] g(2,3) by simp
  then show ?thesis using a by (simp add: tcp_result_def state_get_def)
qed

lemma zejf_tcp_send_ok:
  assumes inv: "tcp_inv t"
  shows "returns (zejf_tcp_send lw msg t) (\<lambda>(e, t'). tcp_inv t')"
proof (cases "current_state t")
  case None
  with inv show ?thesis by (simp add: zejf_tcp_send_def)
next
  case (Some a)
  then obtain st where st: "client_states t a = Some st" using inv by (auto simp: tcp_inv_def)
  show ?thesis
  proof (cases "complete st \<or> \<not> connected st")
    case True
    with Some st inv show ?thesis by (auto simp: zejf_tcp_send_def state_get_def)
  next
    case False
    then obtain p where p: "tcp_pcb st = Some p" using tcp_invD(2) [OF inv st] by (auto simp: state_ok_def)
    have live: "p \<in> live_pcbs t" using tcp_invD(3) [OF inv st p] by simp
    have fail: "returns (do { (_, t) \<leftarrow> tcp_result lw a (t\<lparr>net := n\<rparr>); Some (ZEJF_ERR_SEND_UNABLE, t) }) (\<lambda>(e, t'). tcp_inv t')" for n
      by (rule returns_bindI [OF tcp_result_ok [of "t\<lparr>net := n\<rparr>" a st]]) (use inv st in auto)
    show ?thesis using Some st False p inv fail live by (simp add: zejf_tcp_send_def state_get_def on_pcb_live)
  qed
qed

lemma tcp_client_init_ok:
  assumes inv: "tcp_inv t" and i: "tcp_client_init t = (x, t')"
  shows "tcp_inv t'" "current_state t' = current_state t" "x = Some a \<Longrightarrow> \<exists>st. client_states t' a = Some st \<and> tcp_pcb st = None"
proof -
  show "current_state t' = current_state t" using i by (auto simp: tcp_client_init_def split: prod.splits option.splits)
  show "x = Some a \<Longrightarrow> \<exists>st. client_states t' a = Some st \<and> tcp_pcb st = None" using i by (auto simp: tcp_client_init_def split: prod.splits option.splits)
  let ?n = "next_addr (tcp_mem t)"
  have fresh: "client_states t ?n = None" using inv by (cases "client_states t ?n") (auto simp: tcp_inv_def)
  then have o: "(pcb_of t)(?n := None) = pcb_of t" by (simp add: fun_eq_iff pcb_of_def)
  have p: "pcb_of (t\<lparr>tcp_mem := m, client_states := (client_states t)(?n \<mapsto> \<lparr>tcp_pcb = None, idle_time = 0, complete = False, connected = False\<rparr>)\<rparr>) = pcb_of t" for m
    using fresh by (simp add: pcb_of_def fun_eq_iff)
  show "tcp_inv t'" using i inv p unfolding tcp_client_init_def malloc_def
    by (cases "alloc_ok (tcp_mem t) ?n") (auto simp: tcp_inv_def state_ok_def less_Suc_eq split: if_splits)
qed

lemma tcp_client_open_ok:
  assumes inv: "tcp_inv t" and a: "client_states t a = Some st" "tcp_pcb st = None"
  shows "returns (tcp_client_open lw a t) (\<lambda>(b, t'). tcp_inv t')"
proof -
  let ?n = "snd (lw_new lw (net t))" and ?p = "next_pcb t"
  have put: "tcp_inv (state_put a (st\<lparr>tcp_pcb := None\<rparr>) (t\<lparr>tcp_reconnects := k, net := m\<rparr>))" for m k
    by (rule tcp_inv_put [of _ _ st]) (use inv a tcp_invD(2) [OF inv a(1)] in \<open>simp_all add: state_ok_def\<close>)
  have new: "tcp_inv (state_put a (st\<lparr>tcp_pcb := Some ?p\<rparr>) (t\<lparr>tcp_reconnects := k, net := m, next_pcb := Suc ?p, live_pcbs := insert ?p (live_pcbs t)\<rparr>))" for m k
    using tcp_inv_open [of "t\<lparr>tcp_reconnects := k, net := m\<rparr>" a st] inv a by simp
  have live: "?p \<in> live_pcbs (state_put a s' (t'\<lparr>live_pcbs := insert ?p X\<rparr>))" for s' X and t' :: "'a tcp" by (simp add: state_put_def)
  show ?thesis using put new a(1) live by (auto simp: tcp_client_open_def state_get_def Let_def on_pcb_live split: prod.splits)
qed

lemma tcp_reconnect_ok:
  assumes inv: "tcp_inv t"
  shows "returns (tcp_reconnect lw t) tcp_inv"
proof -
  have again: "returns (case current_state t of Some _ \<Rightarrow> Some t
        | None \<Rightarrow>
            (case tcp_client_init t of
               (None, t) \<Rightarrow> Some (t\<lparr>current_state := None\<rparr>)
             | (Some a, t) \<Rightarrow> do { (_, t) \<leftarrow> tcp_client_open lw a (t\<lparr>current_state := Some a\<rparr>); Some t })) tcp_inv" if inv: "tcp_inv t" for t
  proof (cases "current_state t")
    case None
    obtain x u where i: "tcp_client_init t = (x, u)" by fastforce
    note u = tcp_client_init_ok [OF inv i]
    show ?thesis
    proof (cases x)
      case x: (Some a)
      then obtain st where st: "client_states u a = Some st" "tcp_pcb st = None" using u(3) by blast
      have "tcp_inv (u\<lparr>current_state := Some a\<rparr>)" using u(1) st(1) by (auto simp: tcp_inv_def)
      from tcp_client_open_ok [OF this, of a st lw] st
      have "returns (do { (_, t) \<leftarrow> tcp_client_open lw a (u\<lparr>current_state := Some a\<rparr>); Some t }) tcp_inv"
        by (intro returns_bindI [of _ "\<lambda>(b, t'). tcp_inv t'"]) auto
      then show ?thesis using None i x by simp
    qed (use None i tcp_inv_current [OF u(1)] in simp)
  qed (use inv in simp)
  show ?thesis
  proof (cases "current_state t")
    case None
    then show ?thesis using again [OF inv] by (simp add: tcp_reconnect_def)
  next
    case (Some a)
    then obtain st where st: "client_states t a = Some st" using inv by (auto simp: tcp_inv_def)
    have "returns (if complete st \<or> \<not> connected st then do { (_, t) \<leftarrow> tcp_client_close lw a t; Some (t\<lparr>current_state := None\<rparr>) } else Some t) tcp_inv"
    proof (cases "complete st \<or> \<not> connected st")
      case True
      then have "returns (do { (_, t) \<leftarrow> tcp_client_close lw a t; Some (t\<lparr>current_state := None\<rparr>) }) tcp_inv"
        by (intro returns_bindI [OF tcp_client_close_ok [OF inv st]]) (auto intro: tcp_inv_current)
      with True show ?thesis by simp
    qed (use inv in simp)
    then show ?thesis unfolding tcp_reconnect_def Some option.case state_get_def st bind.bind_lunit by (rule returns_bindI) (rule again)
  qed
qed

lemma zejf_tcp_check_connect_ok:
  assumes "tcp_inv t"
  shows "returns (zejf_tcp_check_connect lw t) tcp_inv"
proof -
  have "tcp_inv (snd (wifi_connect lw u))" if "tcp_inv u" for u
    using that by (simp add: wifi_connect_def Let_def split: prod.splits)
  then show ?thesis using assms by (auto simp: zejf_tcp_check_connect_def Let_def tcp_reconnect_ok split: prod.splits) (metis snd_conv tcp_inv_net(4,5) tcp_reconnect_ok)+
qed


section \<open>Properties\<close>

text \<open>
  What happens to the connection: the device sends and checks, lwIP calls back for a connection that exists, and an error of
  the connection, which lwIP reports after it has freed it.
\<close>

datatype tcp_event = Send string | Check | Connected addr err_t | Poll addr | Closed addr | Error addr

primrec tcp_step :: "'n lwip \<Rightarrow> tcp_event \<Rightarrow> 'n tcp \<Rightarrow> 'n tcp option" where
  "tcp_step lw (Send msg) t = map_option snd (zejf_tcp_send lw msg t)"
| "tcp_step lw Check t = zejf_tcp_check_connect lw t"
| "tcp_step lw (Connected a err) t = map_option snd (tcp_client_connected lw a err t)"
| "tcp_step lw (Poll a) t = map_option snd (tcp_client_poll lw a t)"
| "tcp_step lw (Closed a) t = map_option (snd \<circ> snd) (tcp_client_recv None lw 128 (\<lambda>_. Some) a None () t)"
| "tcp_step lw (Error a) t =
     (case pcb_of t a of None \<Rightarrow> None | Some p \<Rightarrow> tcp_client_err lw a (t\<lparr>live_pcbs := live_pcbs t - {p}\<rparr>))"

primrec tcp_allowed :: "tcp_event \<Rightarrow> 'n tcp \<Rightarrow> bool" where
  "tcp_allowed (Send msg) t \<longleftrightarrow> True"
| "tcp_allowed Check t \<longleftrightarrow> True"
| "tcp_allowed (Connected a err) t \<longleftrightarrow> pcb_of t a \<noteq> None"
| "tcp_allowed (Poll a) t \<longleftrightarrow> pcb_of t a \<noteq> None"
| "tcp_allowed (Closed a) t \<longleftrightarrow> pcb_of t a \<noteq> None"
| "tcp_allowed (Error a) t \<longleftrightarrow> pcb_of t a \<noteq> None"

definition tcp_start :: "(nat \<Rightarrow> bool) \<Rightarrow> 'n \<Rightarrow> 'n tcp" where
  "tcp_start served n =
     zejf_tcp_init \<lparr>current_state = None, client_states = Map.empty, tcp_mem = \<lparr>alloc_ok = served, next_addr = 0\<rparr>, next_attempt_wifi = 0,
       next_attempt_last = 1, tcp_reconnects = 0, wifi_reconnects = 0, live_pcbs = {}, next_pcb = 0, net = n\<rparr>"

inductive tcp_reachable :: "'n lwip \<Rightarrow> 'n tcp \<Rightarrow> bool" for lw where
  tcp_begin: "tcp_reachable lw (tcp_start served n)"
| tcp_event: "tcp_reachable lw t \<Longrightarrow> tcp_allowed ev t \<Longrightarrow> tcp_step lw ev t = Some t' \<Longrightarrow> tcp_reachable lw t'"
| tcp_outside: "tcp_reachable lw t \<Longrightarrow> tcp_reachable lw (t\<lparr>net := n\<rparr>)"

lemma pcb_ofD: "pcb_of t a \<noteq> None \<Longrightarrow> \<exists>st p. client_states t a = Some st \<and> tcp_pcb st = Some p \<and> pcb_of t a = Some p"
  by (auto simp: pcb_of_def split: option.splits)

text \<open>The error callback closes a connection that does not exist any more.\<close>

lemma tcp_error_faults: "pcb_of t a \<noteq> None \<Longrightarrow> tcp_step lw (Error a) t = None"
  using pcb_ofD [of t a]
  by (auto simp: tcp_client_err_def tcp_result_def tcp_client_close_def state_get_def state_put_def on_pcb_def)

lemma snd_returns: "returns m (\<lambda>(x, t'). tcp_inv t' \<and> Q t') \<Longrightarrow> returns (map_option snd m) tcp_inv"
  by (cases m) auto

lemma tcp_step_ok:
  assumes inv: "tcp_inv t" and al: "tcp_allowed ev t" and ne: "\<forall>a. ev \<noteq> Error a"
  shows "returns (tcp_step lw ev t) tcp_inv"
proof (cases ev)
  case (Send msg)
  then show ?thesis using snd_returns [of "zejf_tcp_send lw msg t" "\<lambda>_. True"] zejf_tcp_send_ok [OF inv, of lw msg] by simp
next
  case Check
  then show ?thesis using zejf_tcp_check_connect_ok [OF inv] by simp
next
  case (Connected a err)
  then obtain st p where st: "client_states t a = Some st" "tcp_pcb st = Some p" using al pcb_ofD [of t a] by auto
  have "tcp_inv (state_put a (st\<lparr>connected := True\<rparr>) t)" by (rule tcp_inv_put [OF inv st(1)]) (simp_all add: state_ok_def st(2))
  moreover note snd_returns [OF tcp_result_ok [OF inv st(1)]]
  ultimately show ?thesis using st by (simp add: Connected tcp_client_connected_def state_get_def)
next
  case (Poll a)
  then obtain st p where st: "client_states t a = Some st" "tcp_pcb st = Some p" using al pcb_ofD [of t a] by auto
  let ?st = "st\<lparr>idle_time := idle_time st + 1\<rparr>"
  have i: "tcp_inv (state_put a ?st t)" by (rule tcp_inv_put [OF inv st(1)]) (simp_all add: state_ok_def st(2))
  have "client_states (state_put a ?st t) a = Some ?st" by (simp add: state_put_def)
  from snd_returns [OF tcp_result_ok [OF i this]] i show ?thesis using st by (simp add: Poll tcp_client_poll_def state_get_def Let_def)
next
  case (Closed a)
  then obtain st p where st: "client_states t a = Some st" "tcp_pcb st = Some p" using al pcb_ofD [of t a] by auto
  have "returns (map_option (snd \<circ> snd) (do { (err, t) \<leftarrow> tcp_result lw a t; Some (err, (), t) })) tcp_inv"
    using tcp_result_ok [OF inv st(1), of lw] by (cases "tcp_result lw a t") (auto simp: split_beta)
  then show ?thesis by (simp add: Closed tcp_client_recv_def)
next
  case (Error a)
  with ne show ?thesis by simp
qed

lemma tcp_start_inv: "tcp_inv (tcp_start served n)"
  by (simp add: tcp_inv_def tcp_start_def zejf_tcp_init_def pcb_of_def inj_on_def dom_def ran_def)

lemma tcp_reachable_inv: "tcp_reachable lw t \<Longrightarrow> tcp_inv t"
proof (induction rule: tcp_reachable.induct)
  case (tcp_begin served n)
  show ?case by (rule tcp_start_inv)
next
  case (tcp_event t ev t')
  show ?case
  proof (cases "\<exists>a. ev = Error a")
    case True
    then show ?thesis using tcp_event.hyps(2,3) tcp_error_faults [of t _ lw] by auto
  next
    case False
    then show ?thesis using tcp_step_ok [OF tcp_event.IH tcp_event.hyps(2), of lw] tcp_event.hyps(3) by (simp add: returns_def)
  qed
next
  case (tcp_outside t n)
  then show ?case by simp
qed



text \<open>A network that is always linked and serves every call.\<close>

definition quiet_net :: "unit lwip" where
  "quiet_net = \<lparr>lw_linked = \<lambda>_. True, lw_wifi_connect = \<lambda>n. (0, n), lw_new = \<lambda>n. (True, n), lw_connect = \<lambda>_ n. (0, n), lw_close = \<lambda>_ n. (0, n),
     lw_abort = \<lambda>_ n. n, lw_sndbuf = \<lambda>_ _. 1000, lw_write = \<lambda>_ _ n. (0, n), lw_output = \<lambda>_ n. (0, n)\<rparr>"


section \<open>Received lines\<close>

primrec accept_all :: "(string \<Rightarrow> 's \<Rightarrow> 's option) \<Rightarrow> string list \<Rightarrow> 's \<Rightarrow> 's option" where
  "accept_all accept [] s = Some s"
| "accept_all accept (l # ls) s = do { s \<leftarrow> accept l s; accept_all accept ls s }"

primrec recv_chars :: "nat \<Rightarrow> (string \<Rightarrow> 's \<Rightarrow> 's option) \<Rightarrow> string \<Rightarrow> string \<Rightarrow> 's \<Rightarrow> (string \<times> 's) option" where
  "recv_chars maxlen accept [] line s = Some (line, s)"
| "recv_chars maxlen accept (ch # cs) line s =
     do {
       (line, s) \<leftarrow>
         (if ch = NL \<or> length line = maxlen - 1 then do { s \<leftarrow> accept line s; Some ([], s) } else Some (line @ [ch], s));
       recv_chars maxlen accept cs line s
     }"

text \<open>How the bytes are cut into buffers makes no difference.\<close>

lemma recv_loop_flat:
  "cur \<noteq> [] \<Longrightarrow> [] \<notin> set bufs \<Longrightarrow> recv_loop maxlen at_null accept cur bufs line s =
     do { (line, s) \<leftarrow> recv_chars maxlen accept (cur @ concat bufs) line s; _ \<leftarrow> at_null; Some s }"
proof (induction maxlen at_null accept cur bufs line s rule: recv_loop.induct)
  case (2 maxlen at_null accept ch cs bufs line s)
  let ?first = "if ch = NL \<or> length line = maxlen - 1 then do { s \<leftarrow> accept line s; Some ([], s) } else Some (line @ [ch], s)"
  show ?case
  proof (cases ?first)
    case None
    then show ?thesis by simp
  next
    case (Some x)
    obtain l u where x: "x = (l, u)" by (cases x)
    show ?thesis
    proof (cases "cs = []")
      case False
      with 2(1) [OF Some x [symmetric] False] 2(4) Some x show ?thesis by simp
    next
      case True
      show ?thesis
      proof (cases bufs)
        case Nil
        with True Some x show ?thesis by simp
      next
        case (Cons b bs)
        with 2(2) [OF Some x [symmetric] _ Cons] True 2(4) Some x show ?thesis by (simp add: eq_commute [of "[]" b])
      qed
    qed
  qed
qed simp

lemma recv_chars_append:
  "recv_chars maxlen accept (xs @ ys) line s = do { (line, s) \<leftarrow> recv_chars maxlen accept xs line s; recv_chars maxlen accept ys line s }"
  by (induction xs arbitrary: line s) (auto simp: bind_assoc split: bind_splits)

lemma recv_chars_short: "NL \<notin> set l \<Longrightarrow> length line + length l < maxlen \<Longrightarrow> recv_chars maxlen accept l line s = Some (line @ l, s)"
  by (induction l arbitrary: line) auto

lemma recv_chars_lines:
  assumes "\<forall>l\<in>set (rest # ls). NL \<notin> set l \<and> length l < maxlen"
  shows "recv_chars maxlen accept (concat (map (\<lambda>l. l @ [NL]) ls) @ rest) [] s = do { s \<leftarrow> accept_all accept ls s; Some (rest, s) }"
  using assms
proof (induction ls arbitrary: s)
  case Nil
  then show ?case by (simp add: recv_chars_short)
next
  case (Cons l ls)
  have l: "recv_chars maxlen accept l [] s = Some (l, s)" using Cons.prems by (simp add: recv_chars_short)
  have "recv_chars maxlen accept ((l @ [NL]) @ concat (map (\<lambda>l. l @ [NL]) ls) @ rest) [] s =
      do { s \<leftarrow> accept l s; recv_chars maxlen accept (concat (map (\<lambda>l. l @ [NL]) ls) @ rest) [] s }"
    by (simp add: recv_chars_append l bind_assoc)
  with Cons.IH Cons.prems show ?case by (simp add: bind_assoc)
qed

text \<open>
  C34: Each line of a segment from the server is handed to the network layer, in order, however the segment is cut into buffers,
  and the unfinished line at its end is dropped; but all this only where the read of \<open>p->len\<close> through the null pointer
  after the last buffer goes unnoticed: by the rules of C no call with data returns.
\<close>

theorem tcp_segment_received:
  assumes "client_states t arg = Some st" and "bufs \<noteq> []" and "[] \<notin> set bufs"
    and "concat bufs = concat (map (\<lambda>l. l @ [NL]) ls) @ rest" and "\<forall>l\<in>set (rest # ls). NL \<notin> set l \<and> length l < maxlen"
    and "accept_all accept ls s = Some s'"
  shows "tcp_client_recv (Some v) lw maxlen accept arg (Some bufs) s t = Some (ERR_OK, s', state_put arg (st\<lparr>idle_time := 0\<rparr>) t) \<and>
    tcp_client_recv None lw maxlen accept arg (Some bufs) s t = None"
proof -
  obtain b bs where b: "bufs = b # bs" using assms(2) by (cases bufs) auto
  have ne: "b \<noteq> []" "[] \<notin> set bs" using assms(3) b by auto
  have "b @ concat bs = concat (map (\<lambda>l. l @ [NL]) ls) @ rest" using assms(4) b by simp
  then have "recv_loop maxlen x accept b bs [] s = do { _ \<leftarrow> x; Some s' }" for x
    using recv_loop_flat [OF ne, of maxlen x accept "[]" s] recv_chars_lines [OF assms(5), of accept s] assms(6) by simp
  then show ?thesis using assms(1) ne(1) by (simp add: tcp_client_recv_def b state_get_def)
qed

theorem tcp_segment_received_witness:
  "tcp_client_recv (Some 0) quiet_net 128 (\<lambda>l ls. Some (ls @ [l])) 0 (Some [''ab'' @ [NL] @ ''c'', ''d'' @ [NL] @ ''e'']) []
     ((tcp_start (\<lambda>_. True) ())\<lparr>client_states := [0 \<mapsto> \<lparr>tcp_pcb = Some 0, idle_time = 2, complete = False, connected = True\<rparr>]\<rparr>) =
   Some (ERR_OK, [''ab'', ''cd''], (tcp_start (\<lambda>_. True) ())\<lparr>client_states := [0 \<mapsto> \<lparr>tcp_pcb = Some 0, idle_time = 0, complete = False, connected = True\<rparr>]\<rparr>)"
  using tcp_segment_received [of "(tcp_start (\<lambda>_. True) ())\<lparr>client_states := [0 \<mapsto> \<lparr>tcp_pcb = Some 0, idle_time = 2, complete = False, connected = True\<rparr>]\<rparr>"
    0 _ "[''ab'' @ [NL] @ ''c'', ''d'' @ [NL] @ ''e'']" "[''ab'', ''cd'']" "''e''" 128 "\<lambda>l ls. Some (ls @ [l])" "[]" _ 0 quiet_net]
  by (simp add: state_put_def)

section \<open>The connection of a device\<close>

text \<open>
  A connection together with its invariant, for the devices: on it sending and checking always return, as the lemmas say,
  so that the branch for undefined behaviour is never taken.
\<close>

typedef 'n connection = "{t :: 'n tcp. tcp_inv t}"
  morphisms tcp_of connection_of
proof
  show "tcp_start (\<lambda>_. True) undefined \<in> {t. tcp_inv t}" by (simp add: tcp_start_inv)
qed

lemma tcp_of_inv [simp]: "tcp_inv (tcp_of c)"
  using tcp_of [of c] by simp

definition connection_send :: "'n lwip \<Rightarrow> string \<Rightarrow> 'n connection \<Rightarrow> zejf_err \<times> 'n connection" where
  "connection_send lw msg c = (case zejf_tcp_send lw msg (tcp_of c) of Some (e, t) \<Rightarrow> (e, connection_of t) | None \<Rightarrow> (ZEJF_ERR_GENERIC, c))"

definition connection_check :: "'n lwip \<Rightarrow> 'n connection \<Rightarrow> 'n connection" where
  "connection_check lw c = (case zejf_tcp_check_connect lw (tcp_of c) of Some t \<Rightarrow> connection_of t | None \<Rightarrow> c)"

lemma connection_send_returns: "zejf_tcp_send lw msg (tcp_of c) = Some (map_prod id tcp_of (connection_send lw msg c))"
  using zejf_tcp_send_ok [of "tcp_of c" lw msg] by (auto simp: connection_send_def returns_iff connection_of_inverse)

lemma connection_check_returns: "zejf_tcp_check_connect lw (tcp_of c) = Some (tcp_of (connection_check lw c))"
  using zejf_tcp_check_connect_ok [of "tcp_of c" lw] by (auto simp: connection_check_def returns_iff connection_of_inverse)

end
