(* ===== verification/Pico_Runtime.thy ===== *)
theory Pico_Runtime
  imports Pico_Card Pico_Sensors Tcp_Handler
begin

text \<open>
  What the devices ZejfOutside and ZejfWind share: their platform functions and packets (the files \<open>zejf_comm.cpp\<close> of the two differ
  in the variables and in the text of the status) and the main loop, \<open>libs/zejf_pico_utils/src/zejf_runtime.cpp\<close>, over
  the library, the measurements, the SD card and the TCP connection.
\<close>

section \<open>The device\<close>

text \<open>The world of the library: the measurements with the clock, the rest of the board, the card and the connection.\<close>

record ('m, 'b, 'c, 'n) device =
  meter :: 'm
  board :: 'b
  sd_card :: "'c card"
  tcp_conn :: "'n connection"
  rebooted_by_watchdog :: bool

text \<open>
  How the main loop reaches the variables of \<open>time_engine.cpp\<close> and \<open>zejf_pico_data.cpp\<close> among the measurements of a device, and what
  \<open>log_data\<close> of a log in the queue logs: the hour, the number of the sample, and the variables with their values.
\<close>

record ('m, 'l, 'd) meters =
  m_engine :: "'m \<Rightarrow> time_engine"
  m_set_engine :: "time_engine \<Rightarrow> 'm \<Rightarrow> 'm"
  m_queue :: "'m \<Rightarrow> 'l list"
  m_set_queue :: "'l list \<Rightarrow> 'm \<Rightarrow> 'm"
  m_set_lock :: "bool \<Rightarrow> 'm \<Rightarrow> 'm"
  m_log :: "'l \<Rightarrow> u32 \<times> u32 \<times> (VariableInfo \<times> 'd) list"

text \<open>The hardware and the libraries; \<open>hw_temperature\<close> is the temperature of the board as \<open>%.1f\<close> prints it.\<close>

record ('d, 'b, 'f, 'c, 'n) hardware =
  hw_doubles :: "'d doubles"
  hw_i2c :: "'b i2c"
  hw_rtc :: "'b rtc"
  hw_fatfs :: "('f, 'c) fatfs"
  hw_lwip :: "'n lwip"
  hw_temperature :: "'b \<Rightarrow> string"

definition millis_of :: "('m, 'l, 'd) meters \<Rightarrow> ('m, 'b, 'c, 'n) device \<Rightarrow> u32" where
  "millis_of M w = millis_since_boot (m_engine M (meter w))"

definition tcp_client_1 :: addr where
  "tcp_client_1 = 0"

definition pico_interfaces :: "addr \<Rightarrow> Interface option" where
  "pico_interfaces = [tcp_client_1 \<mapsto> \<lparr>if_uid = 2, if_type = TCP, if_handle = 0, rx_count = 0, tx_count = 0\<rparr>]"

text \<open>
  \<open>connection_send\<close> is \<open>zejf_tcp_send\<close> (\<open>connection_send_returns\<close>), and \<open>hour_save\<close> returns whatever the card does
  (\<open>hour_save_accounted\<close>), so that the branch of \<open>pico_platform\<close> for undefined behaviour is never taken.
\<close>

definition pico_send_via :: "('d, 'b, 'f, 'c, 'n) hardware \<Rightarrow> string \<Rightarrow> Interface \<Rightarrow> u32 \<Rightarrow> ('m, 'b, 'c, 'n) device \<Rightarrow> zejf_err \<times> ('m, 'b, 'c, 'n) device" where
  "pico_send_via H msg interface time w =
     (if if_type interface = TCP
      then (case connection_send (hw_lwip H) (fst (snprintf 128 (msg @ [NL]))) (tcp_conn w) of (e, c) \<Rightarrow> (e, w\<lparr>tcp_conn := c\<rparr>))
      else (ZEJF_ERR_SEND_UNABLE, w))"

definition pico_platform :: "('d, 'b, 'f, 'c, 'n) hardware \<Rightarrow> ('m, 'b, 'c, 'n) device platform \<Rightarrow> VariableInfo list \<Rightarrow> ('m, 'b, 'c, 'n) device platform" where
  "pico_platform H settings vars =
     settings\<lparr>network_send_via := pico_send_via H, get_all_interfaces := (\<lambda>_. [tcp_client_1]),
       get_provided_variables := (\<lambda>_. Some vars), get_demanded_variables := (\<lambda>_. None),
       hour_load := (\<lambda>n w. case card_hour_load CARD_FILE_MAX_SIZE (hw_fatfs H) n (sd_card w) of (r, c) \<Rightarrow> (r, w\<lparr>sd_card := c\<rparr>)),
       hour_save := (\<lambda>n bs w. case card_hour_save (hw_fatfs H) n bs (sd_card w) of
          Some (e, c) \<Rightarrow> (e, w\<lparr>sd_card := c\<rparr>) | None \<Rightarrow> (ZEJF_ERR_GENERIC, w))\<rparr>"

section \<open>Packets for the device\<close>

definition show_bool :: "bool \<Rightarrow> string" where
  "show_bool b = (if b then ''1'' else ''0'')"

text \<open>\<open>send_sd_card_msgs\<close> prints \<open>fatal_errors\<close> twice; \<open>sd\<close> gives the card of the device.\<close>

definition sd_card_texts :: "('w \<Rightarrow> 'c card) \<Rightarrow> ('w \<Rightarrow> string) list" where
  "sd_card_texts sd =
     [\<lambda>w. ''  SD Card stats:'' @ [NL] @ ''    fatal_errors='' @ show_int (sint (fatal_errors (sd w))) @ [NL] @ ''    resets='' @ show_int (sint (fatal_errors (sd w))),
      \<lambda>w. ''    successful_reads='' @ show_int (sint (successful_reads (sd w))) @ [NL] @ ''    successful_writes='' @ show_int (sint (successful_writes (sd w))) @
        [NL] @ ''    working='' @ show_bool (working (sd w))]"

definition tcp_texts :: "(('m, 'b, 'c, 'n) device \<Rightarrow> string) list" where
  "tcp_texts =
     [\<lambda>w. ''  TCP stats:'' @ [NL] @ ''    tcp_reconnects='' @ show_nat (tcp_reconnects (tcp_of (tcp_conn w))) @ [NL] @ ''    wifi_reconnects='' @ show_nat (wifi_reconnects (tcp_of (tcp_conn w)))]"

text \<open>\<open>send_msg\<close> is the same in every device; \<open>millis\<close> reads its \<open>millis_since_boot\<close>.\<close>

definition send_msg :: "'w platform \<Rightarrow> ('w \<Rightarrow> u32) \<Rightarrow> u16 \<Rightarrow> string \<Rightarrow> 'w zejf \<Rightarrow> 'w zejf option" where
  "send_msg P millis to' str s =
     do {
       (packet2, s) \<leftarrow> network_prepare_packet P to' MESSAGE (Some (fst (snprintf 96 str))) s;
       (_, s) \<leftarrow> network_send_packet P packet2 (millis (world s)) s;
       Some s
     }"

primrec send_msgs :: "'w platform \<Rightarrow> ('w \<Rightarrow> u32) \<Rightarrow> u16 \<Rightarrow> ('w \<Rightarrow> string) list \<Rightarrow> 'w zejf \<Rightarrow> 'w zejf option" where
  "send_msgs P millis to' [] s = Some s"
| "send_msgs P millis to' (f # fs) s = do { s \<leftarrow> send_msg P millis to' (f (world s)) s; send_msgs P millis to' fs s }"

text \<open>\<open>texts\<close> are the messages of \<open>STATUS_REQUEST\<close>, in order.\<close>

definition pico_process_packet :: "('d, 'b, 'f, 'c, 'n) hardware \<Rightarrow> ('m, 'l, 'd) meters \<Rightarrow> (string \<Rightarrow> (('m, 'b, 'c, 'n) device \<Rightarrow> string) list) \<Rightarrow>
    ('m, 'b, 'c, 'n) device platform \<Rightarrow> Packet \<Rightarrow> ('m, 'b, 'c, 'n) device zejf \<Rightarrow> ('m, 'b, 'c, 'n) device zejf option" where
  "pico_process_packet H M texts P packet s =
     (if command packet = TIME_CHECK
      then do {
        msg \<leftarrow> message packet;
        (case receive_time (hw_i2c H) (hw_rtc H) msg (m_engine M (meter (world s))) (board (world s)) of
           (e, b) \<Rightarrow> Some (s\<lparr>world := (world s)\<lparr>meter := m_set_engine M e (meter (world s)), board := b\<rparr>\<rparr>))
      }
      else if command packet = STATUS_REQUEST
      then send_msgs P (millis_of M) (pkt_from packet) (texts (hw_temperature H (board (world s)))) s
      else Some s)"

section \<open>The main loop\<close>

text \<open>The variables of \<open>zejf_pico_run\<close>.\<close>

record pico_run =
  last_rip :: u32
  last_provide :: u32
  last_save :: u32

definition pico_start :: pico_run where
  "pico_start = \<lparr>last_rip = - 1, last_provide = - 1, last_save = - 1\<rparr>"

text \<open>The logs are taken while \<open>queue_lock\<close> is set, so that the timer adds none.\<close>

definition on_meter :: "('m \<Rightarrow> 'm) \<Rightarrow> ('m, 'b, 'c, 'n) device zejf \<Rightarrow> ('m, 'b, 'c, 'n) device zejf" where
  "on_meter f s = s\<lparr>world := (world s)\<lparr>meter := f (meter (world s))\<rparr>\<rparr>"

primrec drain_logs :: "'d doubles \<Rightarrow> ('m, 'l, 'd) meters \<Rightarrow> ('m, 'b, 'c, 'n) device platform \<Rightarrow> 'l list \<Rightarrow> ('m, 'b, 'c, 'n) device zejf \<Rightarrow>
    ('m, 'b, 'c, 'n) device zejf option" where
  "drain_logs D M P [] s = Some s"
| "drain_logs D M P (log # logs) s =
     (case m_log M log of
        (hn, n, values) \<Rightarrow>
          do {
            s \<leftarrow> log_all P D hn n (millis_of M (world s)) values s;
            drain_logs D M P logs (on_meter (m_set_queue M logs) s)
          })"

definition run_logs :: "'d doubles \<Rightarrow> ('m, 'l, 'd) meters \<Rightarrow> ('m, 'b, 'c, 'n) device platform \<Rightarrow> ('m, 'b, 'c, 'n) device zejf \<Rightarrow> ('m, 'b, 'c, 'n) device zejf option" where
  "run_logs D M P s =
     do {
       let s = on_meter (m_set_lock M True) s;
       s \<leftarrow> drain_logs D M P (m_queue M (meter (world s))) s;
       Some (on_meter (m_set_lock M False) s)
     }"

definition run_rip :: "('d, 'b, 'f, 'c, 'n) hardware \<Rightarrow> ('m, 'l, 'd) meters \<Rightarrow> ('m, 'b, 'c, 'n) device platform \<Rightarrow> ('m, 'b, 'c, 'n) device zejf \<Rightarrow>
    ('m, 'b, 'c, 'n) device zejf option" where
  "run_rip H M P s =
     do {
       (_, s) \<leftarrow> network_send_routing_info P (millis_of M (world s)) s;
       let s = s\<lparr>world := (world s)\<lparr>tcp_conn := connection_check (hw_lwip H) (tcp_conn (world s))\<rparr>\<rparr>;
       (e, s) \<leftarrow> time_check P (m_engine M (meter (world s))) s;
       Some (on_meter (m_set_engine M e) s)
     }"

primrec packets_loop :: "('m, 'l, 'd) meters \<Rightarrow> ('m, 'b, 'c, 'n) device platform \<Rightarrow> (Packet \<Rightarrow> ('m, 'b, 'c, 'n) device zejf \<Rightarrow> ('m, 'b, 'c, 'n) device zejf option) \<Rightarrow>
    nat \<Rightarrow> ('m, 'b, 'c, 'n) device zejf \<Rightarrow> ('m, 'b, 'c, 'n) device zejf option" where
  "packets_loop M P handle 0 s = do { _ \<leftarrow> network_has_packets s; Some s }"
| "packets_loop M P handle (Suc n) s =
     do {
       packets \<leftarrow> network_has_packets s;
       (if packets
        then do { s \<leftarrow> network_process_packets P handle (millis_of M (world s)) s; packets_loop M P handle n s }
        else Some s)
     }"

text \<open>A round up to the processing of packets, and the whole.\<close>

definition pico_prepare :: "('d, 'b, 'f, 'c, 'n) hardware \<Rightarrow> ('m, 'l, 'd) meters \<Rightarrow> ('m, 'b, 'c, 'n) device platform \<Rightarrow> pico_run \<Rightarrow> ('m, 'b, 'c, 'n) device zejf \<Rightarrow>
    (pico_run \<times> ('m, 'b, 'c, 'n) device zejf) option" where
  "pico_prepare H M P r s =
     do {
       s \<leftarrow> run_logs (hw_doubles H) M P s;
       let millis = millis_of M (world s);
       let rip_n = millis div (5 * 1000);
       let provide_n = millis div (20 * 1000);
       let save_n = millis div (120 * 1000);
       s \<leftarrow> (if rip_n \<noteq> last_rip r then run_rip H M P s else Some s);
       s \<leftarrow> (if provide_n \<noteq> last_provide r then map_option snd (network_send_provide_info P (millis_of M (world s)) s) else Some s);
       s \<leftarrow> (if save_n \<noteq> last_save r then data_save P s else Some s);
       s \<leftarrow> data_requests_process P (millis_of M (world s)) s;
       s \<leftarrow> routing_table_check P (millis_of M (world s)) s;
       Some (\<lparr>last_rip = rip_n, last_provide = provide_n, last_save = save_n\<rparr>, s)
     }"

definition pico_round :: "('d, 'b, 'f, 'c, 'n) hardware \<Rightarrow> ('m, 'l, 'd) meters \<Rightarrow> (string \<Rightarrow> (('m, 'b, 'c, 'n) device \<Rightarrow> string) list) \<Rightarrow>
    ('m, 'b, 'c, 'n) device platform \<Rightarrow> pico_run \<Rightarrow> ('m, 'b, 'c, 'n) device zejf \<Rightarrow> (pico_run \<times> ('m, 'b, 'c, 'n) device zejf) option" where
  "pico_round H M texts P r s =
     do {
       (r, s) \<leftarrow> pico_prepare H M P r s;
       s \<leftarrow> packets_loop M P (pico_process_packet H M texts P) 10000 s;
       Some (r, s)
     }"

section \<open>The library on such a device\<close>

lemma lib_step_world:
  assumes "zejf_ok P s"
  shows "lib_step P s (s\<lparr>world := w\<rparr>)" "table_entries (s\<lparr>world := w\<rparr>) = table_entries s"
  using assms by (simp_all add: lib_step_def zejf_ok_def store_ok_def requests_ok_def table_entries_def)

lemma own_sent:
  assumes ok: "zejf_ok P s" and pl: "platform_ok P (interfaces s)" and len: "\<And>t. msg = Some t \<Longrightarrow> length t < 2 ^ 16" and c: "c \<noteq> RIP" "c \<noteq> ID_REQUEST"
  obtains p s1 where "network_prepare_packet P d c msg s = Some (Some p, s1)"
    "\<And>time. returns (network_send_packet P (Some p) time s1) (\<lambda>(e, s'). lib_step P s s' \<and> table_entries s' = table_entries s)"
proof -
  have net: "net_ok P s" using ok by (simp add: zejf_ok_def)
  let ?p = "own_packet P d c msg"
  obtain s1 where s1: "network_prepare_packet P d c msg s = Some (Some ?p, s1)" "mem_frame s s1"
    using network_prepare_packet_ok [OF net_okD(1) [OF net], of msg P d c] len unfolding returns_iff by auto
  have net1: "net_ok P s1" "interfaces s1 = interfaces s" using s1(2) net_ok_mem [OF net] by (auto elim!: mem_frameD)
  have "packet_ok P (interfaces s1) ?p" by (rule packet_ok_own [OF pl]) (use len c in auto)
  then have "returns (network_send_packet P (Some ?p) time s1) (\<lambda>(e, s'). lib_step P s s' \<and> table_entries s' = table_entries s)" for time
    by (rule returns_weaken [OF send_own_ok [OF net1(1)]])
      (auto intro!: net_lib_step [OF ok] tx_net_frame [OF tx_frame_trans [OF mem_tx_frame [OF s1(2)]]]
        dest: tx_frame_simps(1) [OF tx_frame_trans [OF mem_tx_frame [OF s1(2)]]])
  with that s1(1) show thesis by blast
qed

lemma send_msg_ok:
  assumes ok: "zejf_ok P s" and pl: "platform_ok P (interfaces s)"
  shows "returns (send_msg P millis d str s) (\<lambda>s'. lib_step P s s' \<and> table_entries s' = table_entries s)"
proof -
  let ?t = "fst (snprintf 96 str)"
  have l: "length ?t < 2 ^ 16" by (simp add: snprintf_def)
  obtain p s1 where p: "network_prepare_packet P d MESSAGE (Some ?t) s = Some (Some p, s1)"
    "\<And>time. returns (network_send_packet P (Some p) time s1) (\<lambda>(e, s'). lib_step P s s' \<and> table_entries s' = table_entries s)"
    by (rule own_sent [OF ok pl, of "Some ?t" MESSAGE d]) (use l in auto)
  show ?thesis unfolding send_msg_def p(1) bind.bind_lunit prod.case by (rule returns_bindI [OF p(2)]) auto
qed

lemma send_msgs_ok:
  "zejf_ok P s \<Longrightarrow> platform_ok P (interfaces s) \<Longrightarrow> returns (send_msgs P millis d fs s) (\<lambda>s'. lib_step P s s' \<and> table_entries s' = table_entries s)"
proof (induction fs arbitrary: s)
  case Nil
  then show ?case by (simp add: lib_step_refl)
next
  case (Cons f fs)
  show ?case unfolding send_msgs.simps
  proof (rule returns_bindI [OF send_msg_ok [OF Cons.prems]])
    fix u
    assume u: "lib_step P s u \<and> table_entries u = table_entries s"
    then have "zejf_ok P u" "platform_ok P (interfaces u)" using Cons.prems(2) lib_step_ok lib_step_platform by blast+
    from Cons.IH [OF this] show "returns (send_msgs P millis d fs u) (\<lambda>s'. lib_step P s s' \<and> table_entries s' = table_entries s)"
      by (rule returns_weaken) (use u lib_step_trans in auto)
  qed
qed

lemma map_snd_returns: "returns (map_option snd m) Q \<Longrightarrow> returns m (\<lambda>(x, s'). Q s')"
  by (cases m) auto

lemma step_world: "lib_step P s u \<Longrightarrow> lib_step P s (u\<lparr>world := w\<rparr>)"
  by (rule lib_step_trans [OF _ lib_step_world(1) [OF lib_step_ok]])


lemma time_check_ok:
  assumes ok: "zejf_ok P s" and pl: "platform_ok P (interfaces s)"
  shows "returns (time_check P e s) (\<lambda>(e', s'). lib_step P s s')"
proof -
  obtain p s1 where p: "network_prepare_packet P BROADCAST TIME_REQUEST None s = Some (Some p, s1)"
    "\<And>time. returns (network_send_packet P (Some p) time s1) (\<lambda>(e, s'). lib_step P s s' \<and> table_entries s' = table_entries s)"
    by (rule own_sent [OF ok pl, of None TIME_REQUEST BROADCAST]) auto
  have "returns (do { (rv, s) \<leftarrow> network_send_packet P (Some p) time s1; Some (f, s) }) (\<lambda>(e', s'). lib_step P s s')" for time and f :: time_engine
    by (rule returns_bindI [OF p(2)]) auto
  then show ?thesis using lib_step_refl [OF ok] by (simp add: time_check_def Let_def p(1))
qed

text \<open>
  What the main loop relies on: the settings of the device suit the library.  Everything else the loop does is safe whatever
  the measurements and the texts of the device are.
\<close>

locale pico_device =
  fixes H :: "('d, 'b, 'f, 'c, 'n) hardware" and M :: "('m, 'l, 'd) meters" and texts :: "string \<Rightarrow> (('m, 'b, 'c, 'n) device \<Rightarrow> string) list"
    and P :: "('m, 'b, 'c, 'n) device platform"
  assumes platform: "platform_ok P ifs \<longleftrightarrow> tcp_client_1 \<in> dom ifs"

sublocale pico_device \<subseteq> packet_handler P "pico_process_packet H M texts P"
proof
  fix s and p :: Packet and t :: string
  assume ok: "zejf_ok P s" and pl: "platform_ok P (interfaces s)" and t: "message p = Some t"
  show "returns (pico_process_packet H M texts P p s) (\<lambda>s'. lib_step P s s' \<and> table_entries s' = table_entries s)"
    using send_msgs_ok [OF ok pl] lib_step_world [OF ok] lib_step_refl [OF ok] t
    by (auto simp: pico_process_packet_def split: prod.splits)
qed

context pico_device
begin

lemma log_all_ok:
  "lib_step P s u \<Longrightarrow> platform_ok P (interfaces s) \<Longrightarrow> returns (log_all P D hn n millis vs u) (lib_step P s)"
proof (induction vs arbitrary: u)
  case (Cons v vs)
  have "returns (data_log P (fst v) hn n (d_float D (snd v)) millis True u) (\<lambda>(e, s'). lib_step P s s')"
    by (rule map_snd_returns) (rule calls_after(1) [OF Cons.prems])
  then show ?case unfolding log_all.simps by (rule returns_bindI) (use Cons in auto)
qed simp

lemma drain_logs_ok:
  "lib_step P s u \<Longrightarrow> platform_ok P (interfaces s) \<Longrightarrow> returns (drain_logs D M P logs u) (lib_step P s)"
proof (induction logs arbitrary: u)
  case (Cons l ls)
  obtain hn n vs where l: "m_log M l = (hn, n, vs)" by (cases "m_log M l") auto
  show ?case unfolding drain_logs.simps l prod.case on_meter_def
    by (rule returns_bindI [OF log_all_ok [OF Cons.prems]]) (intro Cons.IH step_world Cons.prems(2))
qed simp

lemma run_logs_ok:
  assumes "lib_step P s u" and "platform_ok P (interfaces s)"
  shows "returns (run_logs D M P u) (lib_step P s)"
  unfolding run_logs_def Let_def on_meter_def
  by (rule returns_bindI [OF drain_logs_ok [OF step_world [OF assms(1)] assms(2)]]) (auto intro: step_world)

lemma run_rip_ok:
  assumes st: "lib_step P s u" and pl: "platform_ok P (interfaces s)"
  shows "returns (run_rip H M P u) (lib_step P s)"
  unfolding run_rip_def
proof (rule returns_bindI [OF map_snd_returns [OF calls_after(2) [OF assms]]], clarify)
  fix v
  assume v: "lib_step P s v"
  let ?v = "v\<lparr>world := (world v)\<lparr>tcp_conn := connection_check (hw_lwip H) (tcp_conn (world v))\<rparr>\<rparr>"
  have v': "lib_step P s ?v" by (rule step_world [OF v])
  have "returns (time_check P e ?v) (\<lambda>(e', s'). lib_step P s s')" for e
    by (rule returns_weaken [OF time_check_ok [OF lib_step_ok [OF v'] lib_step_platform [OF v' pl]]]) (auto intro: lib_step_trans [OF v'])
  then show "returns (let s = ?v in do { (e, s) \<leftarrow> time_check P (m_engine M (meter (world s))) s; Some (on_meter (m_set_engine M e) s) }) (lib_step P s)"
    unfolding Let_def on_meter_def by (rule returns_bindI) (auto intro: step_world)
qed

lemma packets_loop_ok:
  "\<lbrakk>zejf_ok P s; platform_ok P (interfaces s); vars_within k s; k + n \<le> 65535\<rbrakk> \<Longrightarrow>
   returns (packets_loop M P (pico_process_packet H M texts P) n s) (lib_step P s)"
proof (induction n arbitrary: s k)
  case 0
  then show ?case using network_has_packets_ok [OF 0(1)] by (auto simp: lib_step_refl)
next
  case (Suc n)
  let ?h = "pico_process_packet H M texts P"
  obtain b where b: "network_has_packets s = Some b" using network_has_packets_ok [OF Suc.prems(1)] by blast
  have small: "entries_small s" using vars_within_small [OF Suc.prems(3)] Suc.prems(4) by simp
  have "returns (do { s \<leftarrow> network_process_packets P ?h t s; packets_loop M P ?h n s }) (lib_step P s)" for t
  proof (rule returns_bindI [OF network_process_packets_ok [OF Suc.prems(1,2) small]])
    fix u
    assume "lib_step P s u \<and> grows s u"
    then have u: "lib_step P s u" "grows s u" by simp_all
    have "returns (packets_loop M P ?h n u) (lib_step P u)"
      by (rule Suc.IH [OF lib_step_ok [OF u(1)] lib_step_platform [OF u(1) Suc.prems(2)], of "Suc k"]) (use u Suc.prems in \<open>auto simp: grows_def\<close>)
    then show "returns (packets_loop M P ?h n u) (lib_step P s)" by (rule returns_weaken) (rule lib_step_trans [OF u(1)])
  qed
  with b Suc.prems(1) show ?case by (simp add: lib_step_refl)
qed

lemma pico_prepare_ok:
  assumes ok: "zejf_ok P s" and pl: "platform_ok P (interfaces s)"
  shows "returns (pico_prepare H M P r s) (\<lambda>(r', s'). lib_step P s s')"
  unfolding pico_prepare_def Let_def
  by (intro returns_bindI [where P = "lib_step P s"])
    (simp_all add: run_logs_ok [OF lib_step_refl [OF ok] pl] run_rip_ok [OF _ pl] calls_after [OF _ pl])

lemma pico_round_ok:
  assumes "zejf_ok P s" and live: "tcp_client_1 \<in> dom (interfaces s)"
  shows "returns (pico_prepare H M P r s) (\<lambda>(r', u). zejf_ok P u \<and>
    (vars_within 55535 u \<longrightarrow> returns (pico_round H M texts P r s) (\<lambda>(r'', s'). r'' = r' \<and> zejf_ok P s' \<and> dom (interfaces s') = dom (interfaces s))))"
proof (rule returns_mono [OF pico_prepare_ok [OF assms(1)]], unfold platform, rule live, clarify)
  fix r' u
  assume pre: "pico_prepare H M P r s = Some (r', u)" and u: "lib_step P s u"
  have pl: "platform_ok P (interfaces u)" using u live by (simp add: platform lib_step_def)
  have "returns (pico_round H M texts P r s) (\<lambda>(r'', s'). r'' = r' \<and> zejf_ok P s' \<and> dom (interfaces s') = dom (interfaces s))" if "vars_within 55535 u"
  proof -
    have "returns (packets_loop M P (pico_process_packet H M texts P) 10000 u) (lib_step P u)"
      by (rule packets_loop_ok [OF lib_step_ok [OF u] pl that]) simp
    then have "returns (do { s \<leftarrow> packets_loop M P (pico_process_packet H M texts P) 10000 u; Some (r', s) })
       (\<lambda>(r'', s'). r'' = r' \<and> zejf_ok P s' \<and> dom (interfaces s') = dom (interfaces s))"
      by (rule returns_bindI) (use u in \<open>auto simp: lib_step_def\<close>)
    then show ?thesis by (simp add: pico_round_def pre)
  qed
  with u show "zejf_ok P u \<and> (vars_within 55535 u \<longrightarrow> returns (pico_round H M texts P r s)
       (\<lambda>(r'', s'). r'' = r' \<and> zejf_ok P s' \<and> dom (interfaces s') = dom (interfaces s)))" by (simp add: lib_step_ok)
qed

end

end
