(* ===== verification/Pico_Outside.thy ===== *)
theory Pico_Outside
  imports Pico_Runtime
begin

text \<open>
  The ZejfOutside device, \<open>devices/ZejfOutside/src/zejf_comm.cpp\<close>: its variables, its status, and its main loop as an
  instance of \<open>Pico_Runtime\<close>.
\<close>

section \<open>The device\<close>

definition my_provided_variables :: "VariableInfo list" where
  "my_provided_variables = [VAR_T2M, VAR_RH, VAR_TD, VAR_RR, VAR_VOLTAGE_SOLAR, VAR_VOLTAGE_BATTERY, VAR_CURRENT_BATTERY, VAR_RAIN_RATE_PEAK]"

definition outside_meters :: "'d doubles \<Rightarrow> ('d outside, 'd any_log, 'd) meters" where
  "outside_meters D =
     \<lparr>m_engine = engine, m_set_engine = (\<lambda>e o'. o'\<lparr>engine := e\<rparr>), m_queue = logs_queue, m_set_queue = (\<lambda>q o'. o'\<lparr>logs_queue := q\<rparr>),
      m_set_lock = (\<lambda>b o'. o'\<lparr>queue_lock := b\<rparr>), m_log = (\<lambda>l. (any_hour l, any_num l, log_values D l))\<rparr>"

definition outside_platform :: "('d, 'b, 'f, 'c, 'n) hardware \<Rightarrow> ('d outside, 'b, 'c, 'n) device platform" where
  "outside_platform H = pico_platform H outside_settings my_provided_variables"

text \<open>The messages of \<open>STATUS_REQUEST\<close>, in order.\<close>

definition status_texts :: "string \<Rightarrow> (('d outside, 'b, 'c, 'n) device \<Rightarrow> string) list" where
  "status_texts temp =
     [\<lambda>w. ''  Status of ZejfOutside:'' @ [NL] @ ''    time_set='' @ show_bool (time_set (engine (meter w))) @ [NL] @ ''    htu_initialised='' @ show_bool (htu_initialised (meter w)),
      \<lambda>w. ''    queue_lock='' @ show_bool (queue_lock (meter w)) @ [NL] @ ''    queue_size='' @ show_nat (length (logs_queue (meter w))) @ [NL] @ ''    rr_count='' @ show_uint (rr_c (meter w)),
      \<lambda>w. ''    millis_since_boot='' @ show_int (sint (millis_since_boot (engine (meter w)))) @ [NL] @ ''    millis_overflows='' @ show_int (sint (millis_overflows (engine (meter w)))),
      \<lambda>w. ''    rebooted_by_watchdog='' @ show_bool (rebooted_by_watchdog w) @ [NL] @ ''    htu_errors='' @ show_int (htu_errors (meter w)),
      \<lambda>w. ''    onboard_temperature='' @ temp @ [CHR 0xCB, CHR 0x9A] @ ''C'' @ [NL] @ ''    ds3231_working='' @ show_bool (ds3231_working (engine (meter w))) @ [NL]] @
     sd_card_texts sd_card @ tcp_texts"

section \<open>The main loop of the device\<close>

text \<open>The main loop calls \<open>log_data\<close> of every log in the queue.\<close>

lemma drain_logs_log_data:
  "drain_logs D (outside_meters D) P (log # logs) s =
     do {
       s \<leftarrow> log_data P D (millis_since_boot (engine (meter (world s)))) log s;
       drain_logs D (outside_meters D) P logs (on_meter (\<lambda>o'. o'\<lparr>logs_queue := logs\<rparr>) s)
     }"
  by (simp add: log_data_def outside_meters_def millis_of_def)

interpretation outside_device: pico_device H "outside_meters (hw_doubles H)" status_texts "outside_platform H" for H
  by unfold_locales (simp add: platform_ok_def outside_platform_def pico_platform_def outside_settings_def meteo_settings_def my_provided_variables_def)


text \<open>The device just started on a memory card, without clock chip and sensor, and linked to a quiet network.\<close>

definition bench :: "(int, datetime, string, string set \<times> (string \<rightharpoonup> u8 list), unit) hardware" where
  "bench = \<lparr>hw_doubles = int_doubles, hw_i2c = \<lparr>i2c_write = \<lambda>_ _ _ w. (-1, w), i2c_read = \<lambda>_ _ _ w. ((-1, []), w)\<rparr>,
     hw_rtc = \<lparr>rtc_set_datetime = \<lambda>dt w. (valid_datetime dt, dt), rtc_get_datetime = \<lambda>w. w\<rparr>, hw_fatfs = memory_card, hw_lwip = quiet_net, hw_temperature = \<lambda>_. ''21.5''\<rparr>"

definition bench_device :: "'m \<Rightarrow> ('m, datetime, string set \<times> (string \<rightharpoonup> u8 list), unit) device" where
  "bench_device m = \<lparr>meter = m, board = rtc_time 0, sd_card = init_card memory_card ({[]}, Map.empty),
     tcp_conn = connection_of (tcp_start (\<lambda>_. True) ()), rebooted_by_watchdog = False\<rparr>"

definition bench_started :: "('m, datetime, string set \<times> (string \<rightharpoonup> u8 list), unit) device platform \<Rightarrow> 'm \<Rightarrow>
    ('m, datetime, string set \<times> (string \<rightharpoonup> u8 list), unit) device zejf" where
  "bench_started P m = snd (zejf_init P ((zejf_start P (bench_device m))\<lparr>interfaces := pico_interfaces\<rparr>))"

lemma bench_started_ok:
  assumes "0 < HOUR_BUFFER_SIZE P"
  shows "zejf_ok P (bench_started P m)" "interfaces (bench_started P m) = pico_interfaces"
proof -
  let ?s = "(zejf_start P (bench_device m))\<lparr>interfaces := pico_interfaces\<rparr>"
  have "never_fails (mem ?s)" "hours ?s = Map.empty" by (simp_all add: zejf_start_def never_fails_def)
  from zejf_init_ok [OF this assms] show "zejf_ok P (bench_started P m)" "interfaces (bench_started P m) = pico_interfaces"
    by (auto simp: bench_started_def)
qed


end
