(* ===== verification/Pico_Bmp390.thy ===== *)
theory Pico_Bmp390
  imports Pico_Sensors
begin

unbundle bit_operations_syntax

text \<open>
  The pressure sensor of ZejfPress, \<open>libs/bmp390/bmp390.h\<close>: reset, identification, calibration, and the measurement, which waits
  until the sensor reports that it is ready.  The arithmetic of \<open>double\<close> is a parameter, the I2C bus too.  \<open>junk\<close> is what
  arrays on the stack hold before they are written.
\<close>

section \<open>The driver\<close>

abbreviation (input) BMP_RESET_REG :: u8 where "BMP_RESET_REG \<equiv> 0x7E"
abbreviation (input) BMP_RESET_VAL :: u8 where "BMP_RESET_VAL \<equiv> 0xB6"
abbreviation (input) BMP_SENSOR_ID_REG :: u8 where "BMP_SENSOR_ID_REG \<equiv> 0x00"
abbreviation (input) BMP_SENSOR_ID_VAL :: u8 where "BMP_SENSOR_ID_VAL \<equiv> 0x60"
abbreviation (input) BMP_OSR_REG :: u8 where "BMP_OSR_REG \<equiv> 0x1C"
abbreviation (input) BMP_CAL_REG :: u8 where "BMP_CAL_REG \<equiv> 0x31"
abbreviation (input) BMP_CAL_LEN :: nat where "BMP_CAL_LEN \<equiv> 0x15"
abbreviation (input) BMP_TEMPERATURE_REG :: u8 where "BMP_TEMPERATURE_REG \<equiv> 0x07"
abbreviation (input) BMP_PRESSURE_REG :: u8 where "BMP_PRESSURE_REG \<equiv> 0x04"
abbreviation (input) BMP_MODE_REG :: u8 where "BMP_MODE_REG \<equiv> 0x1B"
abbreviation (input) BMP_MODE_VAL :: u8 where "BMP_MODE_VAL \<equiv> 0x13"
abbreviation (input) BMP_STATUS_REG :: u8 where "BMP_STATUS_REG \<equiv> 0x03"

text \<open>The signed fields, \<open>int8_t\<close> and \<open>int16_t\<close>, are read by \<open>sint\<close>.\<close>

record bmp_calib_param_t =
  cal_T1 :: u16
  cal_T2 :: u16
  cal_T3 :: u8
  cal_P1 :: u16
  cal_P2 :: u16
  cal_P3 :: u8
  cal_P4 :: u8
  cal_P5 :: u16
  cal_P6 :: u16
  cal_P7 :: u8
  cal_P8 :: u8
  cal_P9 :: u16
  cal_P10 :: u8
  cal_P11 :: u8

record 'd bmp_calib_part_param_t =
  part_T1 :: 'd
  part_T2 :: 'd
  part_T3 :: 'd
  part_P1 :: 'd
  part_P2 :: 'd
  part_P3 :: 'd
  part_P4 :: 'd
  part_P5 :: 'd
  part_P6 :: 'd
  part_P7 :: 'd
  part_P8 :: 'd
  part_P9 :: 'd
  part_P10 :: 'd
  part_P11 :: 'd

record 'd bmp_t =
  bmp_addr :: u8
  oss :: u8
  bmp_temperature :: u32
  bmp_pressure :: u32
  bmp_altitude :: u32
  calib :: bmp_calib_param_t
  calib_part :: "'d bmp_calib_part_param_t"

definition bmp_reset :: "'w i2c \<Rightarrow> 'd bmp_t \<Rightarrow> 'w \<Rightarrow> bool \<times> 'w" where
  "bmp_reset I bmp w = (case i2c_write I (bmp_addr bmp) [BMP_RESET_REG, BMP_RESET_VAL] False w of (rv, w) \<Rightarrow> (rv = 2, w))"

text \<open>Writing the number of a register and reading \<open>n\<close> bytes from there into \<open>buf\<close>, as five of the functions do.\<close>

definition bmp_read :: "'w i2c \<Rightarrow> u8 \<Rightarrow> u8 \<Rightarrow> nat \<Rightarrow> u8 list \<Rightarrow> 'w \<Rightarrow> (bool \<times> u8 list \<times> 'w) option" where
  "bmp_read I a reg n buf w =
     (case i2c_write I a [reg] True w of
        (rv, w) \<Rightarrow>
          if rv \<noteq> 1 then Some (False, buf, w)
          else do { (rv, buf, w) \<leftarrow> i2c_read_into I a buf n False w; Some (rv = int n, buf, w) })"

definition bmp_check_chip_id :: "(nat \<Rightarrow> u8) \<Rightarrow> 'w i2c \<Rightarrow> 'd bmp_t \<Rightarrow> 'w \<Rightarrow> (bool \<times> 'w) option" where
  "bmp_check_chip_id junk I bmp w =
     do {
       (res, chip_id_val, w) \<leftarrow> bmp_read I (bmp_addr bmp) BMP_SENSOR_ID_REG 1 (map junk [0..<1]) w;
       (if chip_id_val ! 0 \<noteq> BMP_SENSOR_ID_VAL then Some (False, w) else Some (res, w))
     }"

definition bmp_set_oversampling_rate :: "'w i2c \<Rightarrow> 'd bmp_t \<Rightarrow> 'w \<Rightarrow> bool \<times> 'w" where
  "bmp_set_oversampling_rate I bmp w =
     (case i2c_write I (bmp_addr bmp) [BMP_OSR_REG, push_bit 3 (oss bmp) OR oss bmp] False w of (rv, w) \<Rightarrow> (rv = 2, w))"

text \<open>\<open>(hi << 8) | lo\<close>\<close>

definition bytes16 :: "u8 \<Rightarrow> u8 \<Rightarrow> u16" where
  "bytes16 hi lo = push_bit 8 (ucast hi) OR ucast lo"

definition bmp_calib_of :: "u8 list \<Rightarrow> bmp_calib_param_t" where
  "bmp_calib_of v =
     \<lparr>cal_T1 = bytes16 (v ! 1) (v ! 0), cal_T2 = bytes16 (v ! 3) (v ! 2), cal_T3 = v ! 4, cal_P1 = bytes16 (v ! 6) (v ! 5),
      cal_P2 = bytes16 (v ! 8) (v ! 7), cal_P3 = v ! 9, cal_P4 = v ! 10, cal_P5 = bytes16 (v ! 12) (v ! 11),
      cal_P6 = bytes16 (v ! 14) (v ! 13), cal_P7 = v ! 15, cal_P8 = v ! 16, cal_P9 = bytes16 (v ! 18) (v ! 17),
      cal_P10 = v ! 19, cal_P11 = v ! 20\<rparr>"

definition bmp_calib_part_of :: "'d doubles \<Rightarrow> bmp_calib_param_t \<Rightarrow> 'd bmp_calib_part_param_t" where
  "bmp_calib_part_of D c =
     (let two = d_int D 2;
          p = (\<lambda>e. d_pow D two (d_lit D e));
          scaled = (\<lambda>i e. d_div D (d_int D i) (p e));
          shifted = (\<lambda>i e. d_div D (d_sub D (d_int D i) (p ''14.0'')) (p e))
      in \<lparr>part_T1 = scaled (uint (cal_T1 c)) ''-8.0'', part_T2 = scaled (uint (cal_T2 c)) ''30.0'', part_T3 = scaled (sint (cal_T3 c)) ''48.0'',
          part_P1 = shifted (sint (cal_P1 c)) ''20.0'', part_P2 = shifted (sint (cal_P2 c)) ''29.0'', part_P3 = scaled (sint (cal_P3 c)) ''32.0'',
          part_P4 = scaled (sint (cal_P4 c)) ''37.0'', part_P5 = scaled (uint (cal_P5 c)) ''-3.0'', part_P6 = scaled (uint (cal_P6 c)) ''6.0'',
          part_P7 = scaled (sint (cal_P7 c)) ''8.0'', part_P8 = scaled (sint (cal_P8 c)) ''15.0'', part_P9 = scaled (sint (cal_P9 c)) ''48.0'',
          part_P10 = scaled (sint (cal_P10 c)) ''48.0'',
          part_P11 = d_div D (d_int D (sint (cal_P11 c))) (d_pow D (d_lit D ''2.0'') (d_lit D ''65.0''))\<rparr>)"

definition bmp_get_calib_coeffs :: "(nat \<Rightarrow> u8) \<Rightarrow> 'd doubles \<Rightarrow> 'w i2c \<Rightarrow> 'd bmp_t \<Rightarrow> 'w \<Rightarrow> (bool \<times> 'd bmp_t \<times> 'w) option" where
  "bmp_get_calib_coeffs junk D I bmp w =
     do {
       (res, v, w) \<leftarrow> bmp_read I (bmp_addr bmp) BMP_CAL_REG BMP_CAL_LEN (map junk [0..<BMP_CAL_LEN]) w;
       (if \<not> res then Some (False, bmp, w)
        else (let c = bmp_calib_of v in Some (True, bmp\<lparr>calib := c, calib_part := bmp_calib_part_of D c\<rparr>, w)))
     }"

text \<open>\<open>(v[2] << 16) | (v[1] << 8) | v[0]\<close>, assigned to a \<open>float\<close>\<close>

definition bytes24 :: "u8 list \<Rightarrow> u32" where
  "bytes24 v = (push_bit 16 (ucast (v ! 2)) OR push_bit 8 (ucast (v ! 1))) OR ucast (v ! 0)"

definition bmp_read_uncalibrated_temperature :: "(nat \<Rightarrow> u8) \<Rightarrow> 'd doubles \<Rightarrow> 'w i2c \<Rightarrow> 'd bmp_t \<Rightarrow> 'w \<Rightarrow> (bool \<times> 'd bmp_t \<times> 'w) option" where
  "bmp_read_uncalibrated_temperature junk D I bmp w =
     do {
       (res, v, w) \<leftarrow> bmp_read I (bmp_addr bmp) BMP_TEMPERATURE_REG 3 (map junk [0..<3]) w;
       (if \<not> res then Some (False, bmp, w) else Some (res, bmp\<lparr>bmp_temperature := d_float D (d_int D (uint (bytes24 v)))\<rparr>, w))
     }"

definition bmp_read_uncalibrated_pressure :: "(nat \<Rightarrow> u8) \<Rightarrow> 'd doubles \<Rightarrow> 'w i2c \<Rightarrow> 'd bmp_t \<Rightarrow> 'w \<Rightarrow> (bool \<times> 'd bmp_t \<times> 'w) option" where
  "bmp_read_uncalibrated_pressure junk D I bmp w =
     do {
       (res, v, w) \<leftarrow> bmp_read I (bmp_addr bmp) BMP_PRESSURE_REG 3 (map junk [0..<3]) w;
       Some (res, bmp\<lparr>bmp_pressure := d_float D (d_int D (uint (bytes24 v)))\<rparr>, w)
     }"

definition bmp_calibrate_temperature :: "'d doubles \<Rightarrow> 'd bmp_t \<Rightarrow> 'd bmp_t" where
  "bmp_calibrate_temperature D bmp =
     (let par1 = d_sub D (d_of_float D (bmp_temperature bmp)) (part_T1 (calib_part bmp));
          par2 = d_mul D par1 (part_T2 (calib_part bmp))
      in bmp\<lparr>bmp_temperature := d_float D (d_add D par2 (d_mul D (d_mul D par1 par1) (part_T3 (calib_part bmp))))\<rparr>)"

definition bmp_calibrate_pressure :: "'d doubles \<Rightarrow> 'd bmp_t \<Rightarrow> 'd bmp_t" where
  "bmp_calibrate_pressure D bmp =
     (let c = calib_part bmp;
          t = d_of_float D (bmp_temperature bmp);
          p = d_of_float D (bmp_pressure bmp);
          sq = (\<lambda>x. d_pow D x (d_lit D ''2.0''));
          cube = (\<lambda>x. d_pow D x (d_lit D ''3.0''));
          poly = (\<lambda>a b c e. d_add D (d_add D (d_add D a (d_mul D b t)) (d_mul D c (sq t))) (d_mul D e (cube t)));
          out1 = poly (part_P5 c) (part_P6 c) (part_P7 c) (part_P8 c);
          out2 = d_mul D p (poly (part_P1 c) (part_P2 c) (part_P3 c) (part_P4 c));
          par3 = d_mul D (sq p) (d_add D (part_P9 c) (d_mul D (part_P10 c) t));
          out3 = d_add D par3 (d_mul D (part_P11 c) (d_pow D p (d_int D 3)))
      in bmp\<lparr>bmp_pressure := d_float D (d_div D (d_add D (d_add D out1 out2) out3) (d_lit D ''100.0''))\<rparr>)"

definition bmp_calculate_altitude :: "'d doubles \<Rightarrow> 'd bmp_t \<Rightarrow> 'd bmp_t" where
  "bmp_calculate_altitude D bmp =
     bmp\<lparr>bmp_altitude := d_float D (d_div D (d_mul D
       (d_sub D (d_pow D (d_div D (d_lit D ''1013.25'') (d_of_float D (bmp_pressure bmp))) (d_div D (d_int D 1) (d_lit D ''5.257''))) (d_int D 1))
       (d_add D (d_of_float D (bmp_temperature bmp)) (d_lit D ''273.15''))) (d_lit D ''0.0065''))\<rparr>"

text \<open>The loop that waits for the sensor; nothing but an error on the bus ends it otherwise.\<close>

partial_function (option) bmp_wait :: "'w i2c \<Rightarrow> u8 \<Rightarrow> bool \<Rightarrow> u8 \<Rightarrow> 'w \<Rightarrow> (bool \<times> 'w) option" where
  "bmp_wait I a res status w =
     (if res \<and> status AND 0x60 \<noteq> 0x60
      then do { (res, buf, w) \<leftarrow> bmp_read I a BMP_STATUS_REG 1 [status] w; bmp_wait I a res (buf ! 0) w }
      else Some (res, w))"

definition bmp_get_pressure_temperature :: "(nat \<Rightarrow> u8) \<Rightarrow> 'd doubles \<Rightarrow> 'w i2c \<Rightarrow> 'd bmp_t \<Rightarrow> 'w \<Rightarrow> (bool \<times> 'd bmp_t \<times> 'w) option" where
  "bmp_get_pressure_temperature junk D I bmp w =
     (case i2c_write I (bmp_addr bmp) [BMP_MODE_REG, BMP_MODE_VAL] False w of
        (rv, w) \<Rightarrow>
          do {
            (res, w) \<leftarrow> bmp_wait I (bmp_addr bmp) (rv = 2) 0 w;
            (res, bmp, w) \<leftarrow> (if res then bmp_read_uncalibrated_temperature junk D I bmp w else Some (False, bmp, w));
            (res, bmp, w) \<leftarrow> (if res then bmp_read_uncalibrated_pressure junk D I bmp w else Some (False, bmp, w));
            (if res then Some (True, bmp_calculate_altitude D (bmp_calibrate_pressure D (bmp_calibrate_temperature D bmp)), w)
             else Some (False, bmp, w))
          })"

definition bmp_init :: "(nat \<Rightarrow> u8) \<Rightarrow> 'd doubles \<Rightarrow> 'w i2c \<Rightarrow> 'd bmp_t \<Rightarrow> 'w \<Rightarrow> (bool \<times> 'd bmp_t \<times> 'w) option" where
  "bmp_init junk D I bmp w =
     (if 5 < oss bmp then Some (False, bmp, w)
      else
        (case bmp_reset I bmp w of
           (res, w) \<Rightarrow>
             if \<not> res then Some (False, bmp, w)
             else do {
               (res, w) \<leftarrow> bmp_check_chip_id junk I bmp w;
               (if \<not> res then Some (False, bmp, w)
                else
                  (case bmp_set_oversampling_rate I bmp w of
                     (res, w) \<Rightarrow> if \<not> res then Some (False, bmp, w) else bmp_get_calib_coeffs junk D I bmp w))
             }))"

definition bmp_get_sea_level_pressure :: "'d doubles \<Rightarrow> 'd \<Rightarrow> u32 \<Rightarrow> u32" where
  "bmp_get_sea_level_pressure D altitude pressure =
     d_float D (d_div D (d_of_float D pressure) (d_pow D (d_sub D (d_lit D ''1.0'') (d_div D altitude (d_lit D ''44330.0''))) (d_lit D ''5.255'')))"


section \<open>Waiting for the sensor\<close>

text \<open>Within \<open>n\<close> readings of the status the sensor reports that it is ready, or a reading fails.\<close>

primrec ready_within :: "'w i2c \<Rightarrow> u8 \<Rightarrow> nat \<Rightarrow> u8 \<Rightarrow> 'w \<Rightarrow> bool" where
  "ready_within I a 0 status w \<longleftrightarrow> status AND 0x60 = 0x60"
| "ready_within I a (Suc n) status w \<longleftrightarrow>
     status AND 0x60 = 0x60 \<or>
     (case bmp_read I a BMP_STATUS_REG 1 [status] w of
        Some (res, buf, w') \<Rightarrow> res \<longrightarrow> ready_within I a n (buf ! 0) w' | None \<Rightarrow> False)"

lemma bmp_wait_stops: "bmp_wait I a False status w = Some (False, w)" "status AND 0x60 = 0x60 \<Longrightarrow> bmp_wait I a res status w = Some (res, w)"
  by (simp_all add: bmp_wait.simps [of I a _ status w])

lemma ready_bmp_wait: "ready_within I a n status w \<Longrightarrow> bmp_wait I a True status w \<noteq> None"
proof (induction n arbitrary: status w)
  case 0
  then show ?case by (simp add: bmp_wait_stops)
next
  case (Suc n)
  show ?case
  proof (cases "status AND 0x60 = 0x60")
    case True
    then show ?thesis by (simp add: bmp_wait_stops)
  next
    case False
    then obtain res buf w' where r: "bmp_read I a BMP_STATUS_REG 1 [status] w = Some (res, buf, w')" "res \<longrightarrow> ready_within I a n (buf ! 0) w'"
      using Suc.prems by (auto split: option.splits)
    show ?thesis using Suc.IH [of "buf ! 0" w'] r False
      by (cases res) (simp_all add: bmp_wait.simps [of I a True status w] bmp_wait_stops)
  qed
qed

lemma bmp_wait_ready:
  assumes "bmp_wait I a res status w = Some r"
  shows "res \<longrightarrow> (\<exists>n. ready_within I a n status w)"
proof (rule bmp_wait.raw_induct [where P = "\<lambda>I a res status w r. res \<longrightarrow> (\<exists>n. ready_within I a n status w)", OF _ assms])
  fix wait I a res status w r
  assume IH: "\<And>I a res status w r. wait I a res status w = Some r \<Longrightarrow> res \<longrightarrow> (\<exists>n. ready_within I a n status w)"
    and body: "(if res \<and> status AND 0x60 \<noteq> 0x60
      then do { (res, buf, w) \<leftarrow> bmp_read I a BMP_STATUS_REG 1 [status] w; wait I a res (buf ! 0) w } else Some (res, w)) = Some r"
  show "res \<longrightarrow> (\<exists>n. ready_within I a n status w)"
  proof (cases "res \<and> status AND 0x60 \<noteq> 0x60")
    case True
    then obtain res' buf w' where b: "bmp_read I a BMP_STATUS_REG 1 [status] w = Some (res', buf, w')" "wait I a res' (buf ! 0) w' = Some r"
      using body by (auto split: bind_splits)
    from IH [OF b(2)] obtain n where "res' \<longrightarrow> ready_within I a n (buf ! 0) w'" by blast
    then have "ready_within I a (Suc n) status w" using b(1) by simp
    then show ?thesis by blast
  next
    case False
    then have "res \<longrightarrow> ready_within I a 0 status w" by simp
    then show ?thesis by blast
  qed
qed

text \<open>A read delivers no more bytes than were asked for.\<close>

definition bus_bounded :: "'w i2c \<Rightarrow> bool" where
  "bus_bounded I \<longleftrightarrow> (\<forall>a n nostop w. length (snd (fst (i2c_read I a n nostop w))) \<le> n)"

lemma bmp_read_returns: "bus_bounded I \<Longrightarrow> length buf = n \<Longrightarrow> bmp_read I a reg n buf w \<noteq> None"
  unfolding bus_bounded_def bmp_read_def i2c_read_into_def
  by (auto split: prod.splits) (metis fst_conv leD snd_conv)

lemma bind_defined: "(\<And>x. f x \<noteq> None) \<Longrightarrow> (m \<bind> f \<noteq> None) = (m \<noteq> None)"
  by (cases m) auto

text \<open>
  C39: A measurement of the pressure sensor ends exactly when the sensor becomes ready.  On a bus that delivers no more bytes
  than asked for, \<open>bmp_get_pressure_temperature\<close> returns if and only if the command is refused or, after finitely many
  readings of the status, the sensor reports both values ready or the bus reports an error; a sensor that acknowledges and
  never becomes ready stops the device for good.
\<close>

theorem bmp_measurement_returns:
  assumes "bus_bounded I" and "i2c_write I (bmp_addr bmp) [BMP_MODE_REG, BMP_MODE_VAL] False w = (rv, w1)"
  shows "bmp_get_pressure_temperature junk D I bmp w \<noteq> None \<longleftrightarrow> rv \<noteq> 2 \<or> (\<exists>n. ready_within I (bmp_addr bmp) n 0 w1)"
proof -
  let ?a = "bmp_addr bmp"
  have t: "bmp_read_uncalibrated_temperature junk D I b u \<noteq> None" and p: "bmp_read_uncalibrated_pressure junk D I b u \<noteq> None" for b u
    using bmp_read_returns [OF assms(1), of "map junk [0..<3]" 3]
    by (fastforce simp: bmp_read_uncalibrated_temperature_def bmp_read_uncalibrated_pressure_def split: bind_splits)+
  have "bmp_get_pressure_temperature junk D I bmp w \<noteq> None \<longleftrightarrow> bmp_wait I ?a (rv = 2) 0 w1 \<noteq> None"
    unfolding bmp_get_pressure_temperature_def assms(2) prod.case
    by (rule bind_defined) (use t p in \<open>auto simp del: not_None_eq split: bind_splits\<close>)
  moreover have "bmp_wait I ?a True 0 w1 \<noteq> None \<longleftrightarrow> (\<exists>n. ready_within I ?a n 0 w1)"
    using ready_bmp_wait [of I ?a _ 0 w1] bmp_wait_ready [of I ?a True 0 w1] by (meson not_Some_eq)
  ultimately show ?thesis by (cases "rv = 2") (simp_all add: bmp_wait_stops)
qed

text \<open>A sensor that is ready after a number of readings, and one that never is.\<close>

definition slow_sensor :: "nat i2c" where
  "slow_sensor = \<lparr>i2c_write = \<lambda>_ bs _ w. (int (length bs), w), i2c_read = \<lambda>_ n _ w. ((int n, replicate n (if w = 0 then 0x60 else 0)), w - 1)\<rparr>"

definition stuck_sensor :: "unit i2c" where
  "stuck_sensor = \<lparr>i2c_write = \<lambda>_ bs _ w. (int (length bs), w), i2c_read = \<lambda>_ n _ w. ((int n, replicate n 0), w)\<rparr>"

definition no_calibration :: bmp_calib_param_t where
  "no_calibration = bmp_calib_of (replicate BMP_CAL_LEN 0)"

definition bmp_start :: "'d doubles \<Rightarrow> 'd bmp_t" where
  "bmp_start D = \<lparr>bmp_addr = 0x77, oss = 5, bmp_temperature = 0, bmp_pressure = 0, bmp_altitude = 0, calib = no_calibration,
     calib_part = bmp_calib_part_of D no_calibration\<rparr>"

theorem bmp_measurement_returns_witness:
  "bmp_get_pressure_temperature (\<lambda>_. 0) int_doubles slow_sensor (bmp_start int_doubles) 2 \<noteq> None \<and>
   bmp_get_pressure_temperature (\<lambda>_. 0) int_doubles stuck_sensor (bmp_start int_doubles) () = None"
proof
  have "bus_bounded slow_sensor" by (simp add: bus_bounded_def slow_sensor_def)
  moreover have "ready_within slow_sensor 0x77 3 0 2"
    by (simp add: numeral_3_eq_3 numeral_2_eq_2 bmp_read_def i2c_read_into_def slow_sensor_def)
  ultimately show "bmp_get_pressure_temperature (\<lambda>_. 0) int_doubles slow_sensor (bmp_start int_doubles) 2 \<noteq> None"
    using bmp_measurement_returns [of slow_sensor "bmp_start int_doubles" 2 2 2 "\<lambda>_. 0" int_doubles] by (force simp: slow_sensor_def bmp_start_def)
  have "bus_bounded stuck_sensor" by (simp add: bus_bounded_def stuck_sensor_def)
  moreover have "\<not> ready_within stuck_sensor 0x77 n 0 ()" for n
    by (induction n) (simp_all add: bmp_read_def i2c_read_into_def stuck_sensor_def)
  ultimately show "bmp_get_pressure_temperature (\<lambda>_. 0) int_doubles stuck_sensor (bmp_start int_doubles) () = None"
    using bmp_measurement_returns [of stuck_sensor "bmp_start int_doubles" "()" 2 "()" "\<lambda>_. 0" int_doubles]
    by (simp add: stuck_sensor_def bmp_start_def del: not_None_eq)
qed

end
