(* ===== verification/Pico_Press.thy ===== *)
theory Pico_Press
  imports Pico_Outside Pico_Bmp390
begin

text \<open>
  The ZejfPress device, \<open>devices/ZejfPress/src/zejf_press.cpp\<close>: a pressure sensor, an SD card, and a serial line to the
  server.  Its timers run \<open>bmp_measure\<close>, \<open>save_all\<close> and \<open>send_rip\<close>, its main loop everything else.
\<close>

section \<open>The device\<close>

definition EVERY_5_SECONDS :: u32 where "EVERY_5_SECONDS = 60 * 12"

definition PRESSURE :: VariableInfo where "PRESSURE = \<lparr>samples_per_hour = EVERY_5_SECONDS, var_id = 1\<rparr>"
definition TEMPERATURE :: VariableInfo where "TEMPERATURE = \<lparr>samples_per_hour = EVERY_MINUTE, var_id = 2\<rparr>"

definition usb_serial_1 :: addr where
  "usb_serial_1 = 0"

definition press_interfaces :: "addr \<Rightarrow> Interface option" where
  "press_interfaces = [usb_serial_1 \<mapsto> \<lparr>if_uid = 1, if_type = USB, if_handle = 0, rx_count = 0, tx_count = 0\<rparr>]"

record ('d, 'b, 'c) press =
  sum_press :: 'd
  sum_temp :: 'd
  count_press :: u32
  count_temp :: u32
  save_all_flag :: bool
  press_time_set :: bool
  press_millis :: u32
  press_check_count :: u32
  press_bmp :: "'d bmp_t"
  press_bmp_initialised :: bool
  press_board :: 'b
  press_card :: "'c card"
  serial_out :: string

text \<open>The hardware and the libraries; \<open>ph_junk\<close> is what arrays on the stack hold before they are written.\<close>

record ('d, 'b, 'f, 'c) press_hardware =
  ph_doubles :: "'d doubles"
  ph_i2c :: "'b i2c"
  ph_rtc :: "'b rtc"
  ph_fatfs :: "('f, 'c) fatfs"
  ph_junk :: "nat \<Rightarrow> u8"

definition PRESS_FILE_MAX_SIZE :: nat where
  "PRESS_FILE_MAX_SIZE = 1024 * 16"

definition press_settings :: "'w platform" where
  "press_settings = meteo_settings\<lparr>DEVICE_ID := 2, RX_QUEUE_SIZE := 64, TX_QUEUE_SIZE := 32, PACKET_DELETE_TIMEOUT := 5000,
     HOUR_BUFFER_SIZE := 12, VARIABLES_MAX := 4, DATA_REQUEST_QUEUE_SIZE := 64\<rparr>"

definition press_send_via :: "string \<Rightarrow> Interface \<Rightarrow> u32 \<Rightarrow> ('d, 'b, 'c) press \<Rightarrow> zejf_err \<times> ('d, 'b, 'c) press" where
  "press_send_via msg interface time w =
     (if if_type interface = USB then (ZEJF_OK, w\<lparr>serial_out := serial_out w @ msg @ [NL]\<rparr>) else (ZEJF_ERR_SEND_UNABLE, w))"

definition press_platform :: "('d, 'b, 'f, 'c) press_hardware \<Rightarrow> ('d, 'b, 'c) press platform" where
  "press_platform H =
     press_settings\<lparr>network_send_via := press_send_via, get_all_interfaces := (\<lambda>_. [usb_serial_1]),
       get_provided_variables := (\<lambda>_. Some [PRESSURE, TEMPERATURE]), get_demanded_variables := (\<lambda>_. None),
       hour_load := (\<lambda>n w. case card_hour_load PRESS_FILE_MAX_SIZE (ph_fatfs H) n (press_card w) of (r, c) \<Rightarrow> (r, w\<lparr>press_card := c\<rparr>)),
       hour_save := (\<lambda>n bs w. case card_hour_save (ph_fatfs H) n bs (press_card w) of
          Some (e, c) \<Rightarrow> (e, w\<lparr>press_card := c\<rparr>) | None \<Rightarrow> (ZEJF_ERR_GENERIC, w))\<rparr>"

text \<open>\<open>init_all\<close>, without the pins.\<close>

definition press_init :: "('d, 'b, 'f, 'c) press_hardware \<Rightarrow> ('d, 'b, 'c) press \<Rightarrow> 'c \<Rightarrow> ('d, 'b, 'c) press option" where
  "press_init H w fs =
     (case rtc_set_datetime (ph_rtc H) \<lparr>dt_year = 2019, dt_month = 6, dt_day = 5, dt_dotw = 5, dt_hour = 15, dt_min = 45, dt_sec = 50\<rparr> (press_board w) of
        (_, b) \<Rightarrow>
          do {
            (ok, bmp, b) \<leftarrow> bmp_init (ph_junk H) (ph_doubles H) (ph_i2c H) ((press_bmp w)\<lparr>bmp_addr := 0x77, oss := 5\<rparr>) b;
            Some (w\<lparr>press_board := b, press_bmp := bmp, press_bmp_initialised := ok, press_card := init_card (ph_fatfs H) fs\<rparr>)
          })"

section \<open>Packets for the device\<close>

definition press_set_time :: "'b rtc \<Rightarrow> string \<Rightarrow> ('d, 'b, 'c) press \<Rightarrow> ('d, 'b, 'c) press" where
  "press_set_time R msg w =
     (case rtc_set_datetime R (rtc_time (strtol msg)) (press_board w) of
        (ok, b) \<Rightarrow> w\<lparr>press_board := b, press_time_set := press_time_set w \<or> ok\<rparr>)"

definition press_status_texts :: "(('d, 'b, 'c) press \<Rightarrow> string) list" where
  "press_status_texts = [\<lambda>w. ''  Status of ZejfPress:'' @ [NL] @ ''    time_set='' @ show_bool (press_time_set w) @ [NL]] @ sd_card_texts press_card"

definition press_process_packet :: "('d, 'b, 'f, 'c) press_hardware \<Rightarrow> ('d, 'b, 'c) press platform \<Rightarrow> Packet \<Rightarrow>
    ('d, 'b, 'c) press zejf \<Rightarrow> ('d, 'b, 'c) press zejf option" where
  "press_process_packet H P packet s =
     (if command packet = TIME_CHECK
      then do { msg \<leftarrow> message packet; Some (s\<lparr>world := press_set_time (ph_rtc H) msg (world s)\<rparr>) }
      else if command packet = STATUS_REQUEST then send_msgs P press_millis (pkt_from packet) press_status_texts s
      else Some s)"

section \<open>The serial line\<close>

text \<open>
  \<open>check_input\<close>: \<open>input\<close> is what \<open>getchar_timeout_us\<close> delivers before it times out; the result is what is left of it after
  a line, the buffer and the position in it.
\<close>

primrec check_input :: "nat \<Rightarrow> (string \<Rightarrow> 's \<Rightarrow> 's option) \<Rightarrow> string \<Rightarrow> string \<times> nat \<Rightarrow> 's \<Rightarrow> (string \<times> (string \<times> nat) \<times> 's) option" where
  "check_input sz accept [] r s = Some ([], r, s)"
| "check_input sz accept (ch # input) r s =
     (case r of (buff, pos) \<Rightarrow>
        if ch = NL
        then do {
          buff \<leftarrow> arr_set buff pos NUL;
          s \<leftarrow> accept (take pos buff) s;
          Some (input, (buff, 0), s)
        }
        else do { buff \<leftarrow> arr_set buff pos ch; check_input sz accept input (buff, (pos + 1) mod sz) s })"

section \<open>The timers\<close>

abbreviation (input) ALTITUDE :: int where "ALTITUDE \<equiv> 396"

definition press_bmp_measure :: "('d, 'b, 'f, 'c) press_hardware \<Rightarrow> ('d, 'b, 'c) press \<Rightarrow> ('d, 'b, 'c) press option" where
  "press_bmp_measure H w =
     (if \<not> press_time_set w \<or> \<not> press_bmp_initialised w then Some w
      else do {
        (ok, bmp, b) \<leftarrow> bmp_get_pressure_temperature (ph_junk H) (ph_doubles H) (ph_i2c H) (press_bmp w) (press_board w);
        let D = ph_doubles H;
        let w = w\<lparr>press_bmp := bmp, press_board := b\<rparr>;
        (if \<not> ok then Some w
         else Some (w\<lparr>sum_press := d_add D (sum_press w) (d_of_float D (bmp_get_sea_level_pressure D (d_int D ALTITUDE) (bmp_pressure bmp))),
                      sum_temp := d_add D (sum_temp w) (d_of_float D (bmp_temperature bmp)),
                      count_press := count_press w + 1, count_temp := count_temp w + 1\<rparr>))
      })"

definition press_time_check :: "('d, 'b, 'c) press platform \<Rightarrow> ('d, 'b, 'c) press zejf \<Rightarrow> ('d, 'b, 'c) press zejf option" where
  "press_time_check P s =
     (let w = world s; count = press_check_count w + 1; s1 = s\<lparr>world := w\<lparr>press_check_count := count\<rparr>\<rparr> in
      if press_time_set w \<and> count < 12 * 30 then Some s1
      else do {
        let s = (if press_time_set w then s\<lparr>world := w\<lparr>press_check_count := 0\<rparr>\<rparr> else s);
        (packet, s) \<leftarrow> network_prepare_packet P BROADCAST TIME_REQUEST None s;
        (if packet = None then Some s else map_option snd (network_send_packet P packet (press_millis (world s)) s))
      })"

definition save_all :: "('d, 'b, 'c) press platform \<Rightarrow> ('d, 'b, 'c) press zejf \<Rightarrow> ('d, 'b, 'c) press zejf option" where
  "save_all P s =
     do {
       (_, s) \<leftarrow> network_send_provide_info P (press_millis (world s)) s;
       Some (s\<lparr>world := (world s)\<lparr>save_all_flag := True\<rparr>\<rparr>)
     }"

definition send_rip :: "('d, 'b, 'c) press platform \<Rightarrow> ('d, 'b, 'c) press zejf \<Rightarrow> ('d, 'b, 'c) press zejf option" where
  "send_rip P s =
     do {
       (_, s) \<leftarrow> network_send_routing_info P (press_millis (world s)) s;
       press_time_check P s
     }"

section \<open>The main loop\<close>

text \<open>The variables of \<open>main\<close>.\<close>

record press_run =
  last_log_num_press :: u32
  last_log_num_temp :: u32
  command_buff :: "string \<times> nat"

definition press_run_start :: "string \<Rightarrow> press_run" where
  "press_run_start junk = \<lparr>last_log_num_press = - 1, last_log_num_temp = - 1, command_buff = (junk, 0)\<rparr>"

definition log_mean :: "'w platform \<Rightarrow> 'd doubles \<Rightarrow> VariableInfo \<Rightarrow> u32 \<Rightarrow> u32 \<Rightarrow> u32 \<Rightarrow> 'd \<Rightarrow> u32 \<Rightarrow> 'w zejf \<Rightarrow> 'w zejf option" where
  "log_mean P D v hn n millis acc count s =
     (if 0 < count then map_option snd (data_log P v hn n (d_float D (d_div D acc (d_int D (uint count)))) millis True s) else Some s)"

definition log_pressure :: "('d, 'b, 'f, 'c) press_hardware \<Rightarrow> ('d, 'b, 'c) press platform \<Rightarrow> u32 \<Rightarrow> u32 \<Rightarrow> press_run \<Rightarrow>
    ('d, 'b, 'c) press zejf \<Rightarrow> (press_run \<times> ('d, 'b, 'c) press zejf) option" where
  "log_pressure H P hn n r s =
     (let w = world s in
      if n \<noteq> last_log_num_press r \<and> press_time_set w
      then do {
        s \<leftarrow> log_mean P (ph_doubles H) PRESSURE hn n (press_millis w) (sum_press w) (count_press w) s;
        Some (r\<lparr>last_log_num_press := n\<rparr>, s\<lparr>world := (world s)\<lparr>count_press := 0, sum_press := d_int (ph_doubles H) 0\<rparr>\<rparr>)
      }
      else Some (r, s))"

definition log_temperature :: "('d, 'b, 'f, 'c) press_hardware \<Rightarrow> ('d, 'b, 'c) press platform \<Rightarrow> u32 \<Rightarrow> u32 \<Rightarrow> press_run \<Rightarrow>
    ('d, 'b, 'c) press zejf \<Rightarrow> (press_run \<times> ('d, 'b, 'c) press zejf) option" where
  "log_temperature H P hn n r s =
     (let w = world s in
      if n \<noteq> last_log_num_temp r \<and> press_time_set w
      then do {
        s \<leftarrow> log_mean P (ph_doubles H) TEMPERATURE hn n (press_millis w) (sum_temp w) (count_temp w) s;
        Some (r\<lparr>last_log_num_temp := n\<rparr>, s\<lparr>world := (world s)\<lparr>count_temp := 0, sum_temp := d_int (ph_doubles H) 0\<rparr>\<rparr>)
      }
      else Some (r, s))"

definition press_accept :: "('d, 'b, 'c) press platform \<Rightarrow> u32 \<Rightarrow> string \<Rightarrow> ('d, 'b, 'c) press zejf \<Rightarrow> ('d, 'b, 'c) press zejf option" where
  "press_accept P time line s = map_option snd (network_accept P line (Some usb_serial_1) time s)"

text \<open>A round up to the processing of packets, and the whole; \<open>ms\<close> is what \<open>to_ms_since_boot\<close> gives.\<close>

definition press_prepare :: "('d, 'b, 'f, 'c) press_hardware \<Rightarrow> ('d, 'b, 'c) press platform \<Rightarrow> u32 \<Rightarrow> string \<Rightarrow> press_run \<Rightarrow>
    ('d, 'b, 'c) press zejf \<Rightarrow> (string \<times> press_run \<times> ('d, 'b, 'c) press zejf) option" where
  "press_prepare H P ms input r s =
     do {
       let s = s\<lparr>world := (world s)\<lparr>press_millis := ms\<rparr>\<rparr>;
       let unixtime = word_of_int (unix_time (rtc_get_datetime (ph_rtc H) (press_board (world s))));
       np \<leftarrow> get_log_num unixtime EVERY_5_SECONDS;
       nt \<leftarrow> get_log_num unixtime EVERY_MINUTE;
       let hn = get_hour_num unixtime;
       (r, s) \<leftarrow> log_pressure H P hn np r s;
       (r, s) \<leftarrow> log_temperature H P hn nt r s;
       (input, b, s) \<leftarrow> check_input 64 (press_accept P (press_millis (world s))) input (command_buff r) s;
       s \<leftarrow> data_requests_process P (press_millis (world s)) s;
       Some (input, r\<lparr>command_buff := b\<rparr>, s)
     }"

definition press_round :: "('d, 'b, 'f, 'c) press_hardware \<Rightarrow> ('d, 'b, 'c) press platform \<Rightarrow> u32 \<Rightarrow> string \<Rightarrow> press_run \<Rightarrow>
    ('d, 'b, 'c) press zejf \<Rightarrow> (string \<times> press_run \<times> ('d, 'b, 'c) press zejf) option" where
  "press_round H P ms input r s =
     do {
       (input, r, s) \<leftarrow> press_prepare H P ms input r s;
       s \<leftarrow> network_process_packets P (press_process_packet H P) (press_millis (world s)) s;
       s \<leftarrow> routing_table_check P (press_millis (world s)) s;
       s \<leftarrow> (if save_all_flag (world s)
             then do { s \<leftarrow> data_save P s; Some (s\<lparr>world := (world s)\<lparr>save_all_flag := False\<rparr>\<rparr>) } else Some s);
       Some (input, r, s)
     }"


section \<open>Lines of the serial line\<close>

text \<open>
  The buffer after the characters \<open>line\<close> since the last newline: of a long line it holds what came after the last time
  it was full.
\<close>

definition line_held :: "nat \<Rightarrow> string \<times> nat \<Rightarrow> string \<Rightarrow> bool" where
  "line_held sz r line \<longleftrightarrow>
     length (fst r) = sz \<and> snd r = length line mod sz \<and> take (snd r) (fst r) = drop (length line - length line mod sz) line"

lemma line_held_empty: "length buff = sz \<Longrightarrow> line_held sz (buff, 0) []"
  by (simp add: line_held_def)

lemma line_held_char:
  assumes "line_held sz (buff, pos) line" and "0 < sz"
  shows "pos < length buff" "line_held sz (buff[pos := ch], (pos + 1) mod sz) (line @ [ch])"
proof -
  have l: "length buff = sz" "pos = length line mod sz" "take pos buff = drop (length line - pos) line" using assms(1) by (auto simp: line_held_def)
  then show lt: "pos < length buff" using assms(2) by simp
  have "pos \<le> length line" using l(2) by simp
  then have s: "Suc (length line) - Suc pos = length line - pos" by simp
  show "line_held sz (buff[pos := ch], (pos + 1) mod sz) (line @ [ch])"
  proof (cases "Suc pos = sz")
    case True
    then show ?thesis using l by (simp add: line_held_def mod_Suc)
  next
    case False
    then have "Suc pos < sz" using lt l(1) by simp
    moreover have "take (Suc pos) (buff[pos := ch]) = take pos buff @ [ch]" using lt by (simp add: take_Suc_conv_app_nth)
    ultimately show ?thesis using l s False by (simp add: line_held_def mod_Suc)
  qed
qed

lemma check_input_chars:
  assumes "0 < sz"
  shows "line_held sz r line \<Longrightarrow> NL \<notin> set part \<Longrightarrow>
    \<exists>r'. line_held sz r' (line @ part) \<and> check_input sz accept (part @ rest) r s = check_input sz accept rest r' s"
proof (induction part arbitrary: r line)
  case (Cons ch part)
  obtain buff pos where r: "r = (buff, pos)" by (cases r)
  note c = line_held_char [OF Cons.prems(1) [unfolded r] assms]
  from Cons.IH [OF c(2) [of ch]] Cons.prems(2) obtain r' where
    "line_held sz r' (line @ ch # part)" "check_input sz accept (part @ rest) (buff[pos := ch], (pos + 1) mod sz) s = check_input sz accept rest r' s" by auto
  then show ?case using c(1) Cons.prems(2) by (intro exI [of _ r']) (auto simp: r)
qed auto

text \<open>
  C38: Lines from the server are collected from any number of calls of \<open>check_input\<close> without leaving the buffer.  Characters without a
  newline are only stored; the newline hands the line to the network layer and leaves the rest of the input for the
  next call.  But a line of 64 characters or more is cut: only what came after the last multiple of 64 is handed over.
\<close>

theorem press_line_received:
  assumes "line_held 64 r line" and "NL \<notin> set part"
  shows "(\<exists>r'. line_held 64 r' (line @ part) \<and> check_input 64 accept part r s = Some ([], r', s)) \<and>
    (\<forall>s'. accept (drop (length (line @ part) - length (line @ part) mod 64) (line @ part)) s = Some s' \<longrightarrow>
       (\<exists>r'. line_held 64 r' [] \<and> check_input 64 accept (part @ NL # rest) r s = Some (rest, r', s')))"
proof -
  obtain r' where r': "line_held 64 r' (line @ part)" "check_input 64 accept part r s = Some ([], r', s)"
    using check_input_chars [of 64, OF _ assms, of accept "[]" s] by auto
  obtain buff pos where q: "line_held 64 (buff, pos) (line @ part)" "check_input 64 accept (part @ NL # rest) r s = check_input 64 accept (NL # rest) (buff, pos) s"
    using check_input_chars [of 64, OF _ assms, of accept "NL # rest" s] by auto
  have "pos < length buff" "take pos buff = drop (length (line @ part) - length (line @ part) mod 64) (line @ part)" "length buff = 64"
    using line_held_char(1) [OF q(1)] q(1) by (auto simp: line_held_def)
  then have "\<forall>s'. accept (drop (length (line @ part) - length (line @ part) mod 64) (line @ part)) s = Some s' \<longrightarrow>
       (\<exists>r'. line_held 64 r' [] \<and> check_input 64 accept (part @ NL # rest) r s = Some (rest, r', s'))"
    using q(2) by (auto simp: line_held_empty)
  with r' show ?thesis by blast
qed

theorem press_line_received_witness:
  "(\<exists>r'. check_input 64 (\<lambda>l ls. Some (ls @ [l])) (''b}'' @ NL # ''{c'') (''{a'' @ replicate 62 NUL, 2) [] = Some (''{c'', r', [''{ab}'']))"
proof -
  have "line_held 64 (''{a'' @ replicate 62 NUL, 2) ''{a''" by (simp add: line_held_def)
  from press_line_received [OF this, of "''b}''" "\<lambda>l ls. Some (ls @ [l])" "[]" "''{c''"] show ?thesis by auto
qed

section \<open>The library on this device\<close>

lemma press_platform_ok [simp]: "platform_ok (press_platform H) ifs \<longleftrightarrow> usb_serial_1 \<in> dom ifs"
  by (simp add: platform_ok_def press_platform_def press_settings_def meteo_settings_def)

interpretation press_handler: packet_handler "press_platform H" "press_process_packet H (press_platform H)" for H
proof
  fix s and p :: Packet and t :: string
  let ?P = "press_platform H"
  assume ok: "zejf_ok ?P s" and pl: "platform_ok ?P (interfaces s)" and t: "message p = Some t"
  show "returns (press_process_packet H ?P p s) (\<lambda>s'. lib_step ?P s s' \<and> table_entries s' = table_entries s)"
    using send_msgs_ok [OF ok pl] lib_step_world [OF ok] lib_step_refl [OF ok] t by (auto simp: press_process_packet_def)
qed

text \<open>What holds between two steps of the device.\<close>

definition press_ok :: "('d, 'b, 'f, 'c) press_hardware \<Rightarrow> press_run \<Rightarrow> ('d, 'b, 'c) press zejf \<Rightarrow> bool" where
  "press_ok H r s \<longleftrightarrow> zejf_ok (press_platform H) s \<and> usb_serial_1 \<in> dom (interfaces s) \<and> (\<exists>line. line_held 64 (command_buff r) line)"

lemma check_input_ok:
  assumes "0 < sz" and "\<And>line s. Q s \<Longrightarrow> returns (accept line s) Q"
  shows "Q s \<Longrightarrow> line_held sz r line \<Longrightarrow> returns (check_input sz accept input r s) (\<lambda>(input', r', s'). Q s' \<and> (\<exists>l. line_held sz r' l))"
proof (induction input arbitrary: r line)
  case (Cons ch input)
  obtain buff pos where r: "r = (buff, pos)" by (cases r)
  note c = line_held_char [OF Cons.prems(2) [unfolded r] assms(1)]
  have len: "length (buff[pos := NUL]) = sz" using Cons.prems(2) by (simp add: r line_held_def)
  show ?case
  proof (cases "ch = NL")
    case True
    have "returns (do { s \<leftarrow> accept (take pos (buff[pos := NUL])) s; Some (input, (buff[pos := NUL], 0 :: nat), s) })
        (\<lambda>(input', r', s'). Q s' \<and> (\<exists>l. line_held sz r' l))"
      by (rule returns_bindI [OF assms(2) [OF Cons.prems(1)]]) (use line_held_empty [OF len] in auto)
    with True c(1) show ?thesis by (simp add: r)
  next
    case False
    with Cons.IH [OF Cons.prems(1) c(2) [of ch]] c(1) show ?thesis by (simp add: r)
  qed
qed auto

lemma log_mean_ok:
  assumes "lib_step (press_platform H) s u" and "usb_serial_1 \<in> dom (interfaces s)"
  shows "returns (log_mean (press_platform H) D v hn n millis acc count u) (lib_step (press_platform H) s)"
  using press_handler.calls_after(1) [OF assms(1)] assms by (simp add: log_mean_def)

lemma log_both_ok:
  assumes "lib_step (press_platform H) s u" and "usb_serial_1 \<in> dom (interfaces s)"
  shows "returns (log_pressure H (press_platform H) hn n r u) (\<lambda>(r', s'). lib_step (press_platform H) s s' \<and> command_buff r' = command_buff r)"
    "returns (log_temperature H (press_platform H) hn n r u) (\<lambda>(r', s'). lib_step (press_platform H) s s' \<and> command_buff r' = command_buff r)"
  unfolding log_pressure_def log_temperature_def Let_def returns_if
  using assms by (auto intro!: returns_bindI [OF log_mean_ok [OF assms]] step_world)

lemma press_log_nums: "\<exists>n. get_log_num t EVERY_5_SECONDS = Some n" "\<exists>n. get_log_num t EVERY_MINUTE = Some n"
  by (simp_all add: get_log_num_def EVERY_5_SECONDS_def EVERY_MINUTE_def)

lemma press_prepare_ok:
  assumes "press_ok H r s"
  shows "returns (press_prepare H (press_platform H) ms input r s)
    (\<lambda>(input', r', u). lib_step (press_platform H) s u \<and> (\<exists>line. line_held 64 (command_buff r') line))"
proof -
  let ?P = "press_platform H"
  let ?s = "s\<lparr>world := (world s)\<lparr>press_millis := ms\<rparr>\<rparr>"
  let ?t = "word_of_int (unix_time (rtc_get_datetime (ph_rtc H) (press_board (world ?s)))) :: u32"
  obtain line where ok: "zejf_ok ?P s" and live: "usb_serial_1 \<in> dom (interfaces s)" and line: "line_held 64 (command_buff r) line"
    using assms by (auto simp: press_ok_def)
  obtain np nt where n: "get_log_num ?t EVERY_5_SECONDS = Some np" "get_log_num ?t EVERY_MINUTE = Some nt" using press_log_nums by metis
  have s: "lib_step ?P s ?s" by (rule step_world [OF lib_step_refl [OF ok]])
  have acc: "returns (press_accept ?P t l u) (lib_step ?P s)" if "lib_step ?P s u" for t l u
    unfolding press_accept_def by (rule press_handler.calls_after(7) [OF that]) (use live in auto)
  have input: "returns (check_input 64 (press_accept ?P t) input (command_buff r) u) (\<lambda>(input', r', s'). lib_step ?P s s' \<and> (\<exists>l. line_held 64 r' l))"
    if "lib_step ?P s u" for t u
    by (rule check_input_ok [where Q = "lib_step ?P s", OF _ acc that line]) simp
  have req: "returns (data_requests_process ?P t u) (lib_step ?P s)" if "lib_step ?P s u" for t u
    by (rule press_handler.calls_after(4) [OF that]) (use live in simp)
  show ?thesis unfolding press_prepare_def Let_def n bind.bind_lunit
    by (rule returns_bindI [OF log_both_ok(1) [OF s live]], clarify, rule returns_bindI [OF log_both_ok(2) [OF _ live]], assumption, clarify,
        simp only:, rule returns_bindI [OF input], assumption, clarify, rule returns_bindI [OF req], assumption) auto
qed

lemma press_time_check_ok:
  assumes st: "lib_step P s u" and pl: "platform_ok P (interfaces s)"
  shows "returns (press_time_check P u) (lib_step P s)"
proof -
  let ?u = "if press_time_set (world u) then u\<lparr>world := (world u)\<lparr>press_check_count := 0\<rparr>\<rparr> else u"
  have u: "lib_step P s ?u" using st step_world [OF st] by simp
  have ok: "zejf_ok P ?u" "platform_ok P (interfaces ?u)" using lib_step_ok [OF u] lib_step_platform [OF u pl] by simp_all
  obtain p s1 where p: "network_prepare_packet P BROADCAST TIME_REQUEST None ?u = Some (Some p, s1)"
    "\<And>time. returns (network_send_packet P (Some p) time s1) (\<lambda>(e, s'). lib_step P ?u s' \<and> table_entries s' = table_entries ?u)"
    by (rule own_sent [OF ok, of None TIME_REQUEST BROADCAST]) auto
  have "returns (map_option snd (network_send_packet P (Some p) time s1)) (lib_step P s)" for time
    by (rule lib_step_map) (rule returns_weaken [OF p(2)], auto intro: lib_step_trans [OF u])
  then show ?thesis using step_world [OF st] unfolding press_time_check_def Let_def by (simp only: p(1) bind.bind_lunit prod.case) simp
qed



text \<open>The device just started on a memory card, with an empty buffer and without a sensor.\<close>

definition bench_press :: "(int, datetime, string, string set \<times> (string \<rightharpoonup> u8 list)) press_hardware" where
  "bench_press = \<lparr>ph_doubles = int_doubles, ph_i2c = hw_i2c bench, ph_rtc = hw_rtc bench, ph_fatfs = memory_card, ph_junk = \<lambda>_. 0\<rparr>"

definition bench_press_world :: "(int, datetime, string set \<times> (string \<rightharpoonup> u8 list)) press" where
  "bench_press_world = \<lparr>sum_press = 0, sum_temp = 0, count_press = 0, count_temp = 0, save_all_flag = False, press_time_set = False, press_millis = 0,
     press_check_count = 0, press_bmp = bmp_start int_doubles, press_bmp_initialised = False, press_board = rtc_time 0,
     press_card = init_card memory_card ({[]}, Map.empty), serial_out = []\<rparr>"

definition bench_press_started :: "(int, datetime, string set \<times> (string \<rightharpoonup> u8 list)) press zejf" where
  "bench_press_started = snd (zejf_init (press_platform bench_press) ((zejf_start (press_platform bench_press) bench_press_world)\<lparr>interfaces := press_interfaces\<rparr>))"


end
