(* ===== verification/Pico_Wind.thy ===== *)
theory Pico_Wind
  imports Pico_Sensors
begin

text \<open>
  The wind averages of the ZejfWind device, \<open>devices/ZejfWind/src/zejf_measure.cpp\<close>: the direction from the voltage of the vane, the
  logs with their ring buffers of averages, and the timers and the interrupt of the anemometer.
\<close>

section \<open>The direction\<close>

definition WDIR_TABLE :: "u16 list" where
  "WDIR_TABLE = [3130, 1630, 1850, 353, 390, 282, 748, 512, 1163, 990, 2520, 2396, 3760, 3300, 3539, 2805]"

text \<open>\<open>std::abs(adc_val - WDIR_TABLE[i])\<close>, assigned to a \<open>uint16_t\<close>\<close>

definition wdir_error :: "u16 \<Rightarrow> nat \<Rightarrow> u16" where
  "wdir_error adc_val i = word_of_int \<bar>uint adc_val - uint (WDIR_TABLE ! i)\<bar>"

text \<open>The loop of \<open>get_wdir\<close>: the variables \<open>lowest_error\<close> and \<open>result\<close>.\<close>

definition wdir_step :: "u16 \<Rightarrow> u16 \<times> nat \<Rightarrow> nat \<Rightarrow> u16 \<times> nat" where
  "wdir_step adc_val r i = (let err = wdir_error adc_val i in if err < fst r then (err, i) else r)"

definition wdir_result :: "u16 \<Rightarrow> nat" where
  "wdir_result adc_val = snd (foldl (wdir_step adc_val) (wdir_error adc_val 0, 0) [1..<16])"

definition get_wdir :: "'d doubles \<Rightarrow> u16 \<Rightarrow> 'd" where
  "get_wdir D adc_val = d_mul D (d_int D (int (wdir_result adc_val))) (d_lit D ''22.5'')"

section \<open>The logs\<close>

record 'd bmp_data =
  bmp_sum_press :: 'd
  bmp_sum_temp :: 'd
  bmp_count :: u16

definition bmp_log_sample :: "'d doubles \<Rightarrow> 'd \<Rightarrow> 'd \<Rightarrow> 'd bmp_data \<Rightarrow> 'd bmp_data" where
  "bmp_log_sample D press temp l =
     l\<lparr>bmp_sum_press := d_add D (bmp_sum_press l) press, bmp_sum_temp := d_add D (bmp_sum_temp l) temp, bmp_count := bmp_count l + 1\<rparr>"

definition bmp_log_reset :: "'d doubles \<Rightarrow> 'd bmp_data \<Rightarrow> 'd bmp_data" where
  "bmp_log_reset D l = l\<lparr>bmp_sum_press := d_int D 0, bmp_sum_temp := d_int D 0, bmp_count := 0\<rparr>"

record 'd wind_data =
  wspd_var :: VariableInfo
  wgust_var :: VariableInfo
  wdir_var :: VariableInfo
  wind_dx :: 'd
  wind_dy :: 'd
  wgust :: 'd
  wdir :: 'd
  actual_wdir :: 'd
  wspd :: 'd
  wind_count :: u32
  running_index :: nat
  average_count :: nat
  averages_sampled :: nat
  wspd_running :: "'d list"
  wdir_running :: "'d list"

definition wind_log :: "'d doubles \<Rightarrow> VariableInfo \<Rightarrow> VariableInfo \<Rightarrow> VariableInfo \<Rightarrow> nat \<Rightarrow> 'd wind_data" where
  "wind_log D v1 v2 v3 n =
     \<lparr>wspd_var = v1, wgust_var = v2, wdir_var = v3, wind_dx = d_lit D ''0.0'', wind_dy = d_lit D ''0.0'', wgust = d_int D 0, wdir = d_int D 0,
      actual_wdir = d_int D 0, wspd = d_int D 0, wind_count = 0, running_index = 0, average_count = n, averages_sampled = 0,
      wspd_running = replicate n (d_lit D ''0.0''), wdir_running = replicate n (d_lit D ''0.0'')\<rparr>"

definition wind_reset :: "'d doubles \<Rightarrow> 'd wind_data \<Rightarrow> 'd wind_data" where
  "wind_reset D l = l\<lparr>wind_dx := d_lit D ''0.0'', wind_dy := d_lit D ''0.0'', wgust := d_int D 0, wind_count := 0\<rparr>"

definition radians :: "'d doubles \<Rightarrow> 'd \<Rightarrow> 'd" where
  "radians D a = d_mul D (d_div D a (d_lit D ''180.0'')) (d_lit D ''M_PI'')"

definition degrees :: "'d doubles \<Rightarrow> 'd \<Rightarrow> 'd \<Rightarrow> 'd" where
  "degrees D dx dy = d_div D (d_mul D (d_add D (d_atan2 D (d_neg D dx) (d_neg D dy)) (d_lit D ''M_PI'')) (d_lit D ''180.0'')) (d_lit D ''M_PI'')"

definition norm2 :: "'d doubles \<Rightarrow> 'd \<Rightarrow> 'd \<Rightarrow> 'd" where
  "norm2 D dx dy = d_sqrt D (d_add D (d_pow D dx (d_int D 2)) (d_pow D dy (d_int D 2)))"

text \<open>What \<open>finish\<close> writes into the ring buffers: the speed and the direction of the period that ends.\<close>

definition period_vector :: "'d doubles \<Rightarrow> 'd wind_data \<Rightarrow> 'd \<times> 'd" where
  "period_vector D l =
     (d_mul D (norm2 D (wind_dx l) (wind_dy l))
        (d_div D (d_mul D (d_lit D ''1.2'') (d_div D (d_lit D ''1000.0'') (d_int D 1000))) (d_int D (uint (wind_count l)))),
      if d_eq D (wind_dx l) (d_int D 0) \<and> d_eq D (wind_dy l) (d_int D 0) then actual_wdir l else degrees D (wind_dx l) (wind_dy l))"

definition add_vector :: "'d doubles \<Rightarrow> 'd \<times> 'd \<Rightarrow> 'd \<times> 'd \<Rightarrow> 'd \<times> 'd" where
  "add_vector D acc v =
     (case acc of (dx, dy) \<Rightarrow> case v of (speed, dir) \<Rightarrow>
        (d_add D dx (d_mul D speed (d_sin D (radians D dir))), d_add D dy (d_mul D speed (d_cos D (radians D dir)))))"

text \<open>The loop of \<open>finish\<close> over the buffers, from the oldest entry on; the sum is \<open>(my_dx, my_dy)\<close>.\<close>

partial_function (option) average_loop :: "'d doubles \<Rightarrow> 'd wind_data \<Rightarrow> nat \<Rightarrow> nat \<Rightarrow> 'd \<times> 'd \<Rightarrow> ('d \<times> 'd) option" where
  "average_loop D l start index acc =
     do {
       speed \<leftarrow> arr_get (wspd_running l) index;
       dir \<leftarrow> arr_get (wdir_running l) index;
       (if average_count l = 0 then None
        else let index = (index + 1) mod average_count l; acc = add_vector D acc (speed, dir) in
             if index \<noteq> start then average_loop D l start index acc else Some acc)
     }"

definition mean_wspd :: "'d doubles \<Rightarrow> nat \<Rightarrow> 'd \<times> 'd \<Rightarrow> 'd" where
  "mean_wspd D n acc = d_div D (norm2 D (fst acc) (snd acc)) (d_int D (int n))"

definition mean_wdir :: "'d doubles \<Rightarrow> 'd \<Rightarrow> 'd \<times> 'd \<Rightarrow> 'd" where
  "mean_wdir D actual acc =
     (if d_le D (d_fabs D (fst acc)) (d_lit D ''0.001'') \<and> d_le D (d_fabs D (snd acc)) (d_lit D ''0.001'') then actual
      else degrees D (fst acc) (snd acc))"

text \<open>The part of \<open>finish\<close> that puts the period into the buffers, and the whole.\<close>

definition push_average :: "'d doubles \<Rightarrow> 'd wind_data \<Rightarrow> 'd wind_data option" where
  "push_average D l =
     do {
       speeds \<leftarrow> arr_set (wspd_running l) (running_index l) (fst (period_vector D l));
       dirs \<leftarrow> arr_set (wdir_running l) (running_index l) (snd (period_vector D l));
       let l = l\<lparr>wspd_running := speeds, wdir_running := dirs, running_index := running_index l + 1\<rparr>;
       let l = (if running_index l = average_count l then l\<lparr>running_index := 0\<rparr> else l);
       Some (if averages_sampled l < average_count l then l\<lparr>averages_sampled := averages_sampled l + 1\<rparr> else l)
     }"

definition wind_finish :: "'d doubles \<Rightarrow> 'd wind_data \<Rightarrow> 'd wind_data option" where
  "wind_finish D l =
     do {
       l \<leftarrow> push_average D l;
       acc \<leftarrow> average_loop D l (running_index l) (running_index l) (d_lit D ''0.0'', d_lit D ''0.0'');
       Some (l\<lparr>wspd := mean_wspd D (average_count l) acc, wdir := mean_wdir D (actual_wdir l) acc\<rparr>)
     }"

definition wind_sample :: "'d doubles \<Rightarrow> 'd \<Rightarrow> u16 \<Rightarrow> 'd \<Rightarrow> 'd wind_data \<Rightarrow> 'd wind_data" where
  "wind_sample D dir counts gust l =
     (let n = d_int D (uint counts);
          l = l\<lparr>wind_dy := d_add D (wind_dy l) (d_mul D n (d_cos D (radians D dir))), wind_dx := d_add D (wind_dx l) (d_mul D n (d_sin D (radians D dir)))\<rparr>;
          l = (if d_less D (wgust l) gust then l\<lparr>wgust := gust\<rparr> else l)
      in l\<lparr>actual_wdir := dir, wind_count := wind_count l + 1\<rparr>)"

datatype 'd wind_any = Wind_Log "'d wind_data zejf_log" | Bmp_Log "'d bmp_data zejf_log"

definition VAR_WSPD_AVG :: VariableInfo where "VAR_WSPD_AVG = \<lparr>samples_per_hour = EVERY_MINUTE, var_id = 3\<rparr>"
definition VAR_WGUST_AVG :: VariableInfo where "VAR_WGUST_AVG = \<lparr>samples_per_hour = EVERY_MINUTE, var_id = 4\<rparr>"
definition VAR_WDIR_AVG :: VariableInfo where "VAR_WDIR_AVG = \<lparr>samples_per_hour = EVERY_MINUTE, var_id = 5\<rparr>"
definition VAR_PRESS :: VariableInfo where "VAR_PRESS = \<lparr>samples_per_hour = EVERY_MINUTE, var_id = 6\<rparr>"
definition VAR_TEMP :: VariableInfo where "VAR_TEMP = \<lparr>samples_per_hour = EVERY_MINUTE, var_id = 7\<rparr>"
definition VAR_WSPD_NOW :: VariableInfo where "VAR_WSPD_NOW = \<lparr>samples_per_hour = SECONDS_5, var_id = 8\<rparr>"
definition VAR_WGUST_NOW :: VariableInfo where "VAR_WGUST_NOW = \<lparr>samples_per_hour = SECONDS_5, var_id = 9\<rparr>"
definition VAR_WDIR_NOW :: VariableInfo where "VAR_WDIR_NOW = \<lparr>samples_per_hour = SECONDS_5, var_id = 10\<rparr>"

text \<open>The calls of \<open>data_log\<close> that \<open>log_data\<close> makes, as variables with their values.\<close>

definition bmp_log_values :: "'d doubles \<Rightarrow> 'd bmp_data \<Rightarrow> (VariableInfo \<times> 'd) list" where
  "bmp_log_values D p =
     (let n = d_int D (uint (bmp_count p)) in
      if bmp_count p = 0 then [] else [(VAR_PRESS, d_div D (bmp_sum_press p) n), (VAR_TEMP, d_div D (bmp_sum_temp p) n)])"

definition wind_values :: "'d wind_data \<Rightarrow> (VariableInfo \<times> 'd) list" where
  "wind_values p =
     (wgust_var p, wgust p) # (if averages_sampled p < average_count p then [] else [(wspd_var p, wspd p), (wdir_var p, wdir p)])"

definition wind_log_data :: "'w platform \<Rightarrow> 'd doubles \<Rightarrow> u32 \<Rightarrow> 'd wind_any \<Rightarrow> 'w zejf \<Rightarrow> 'w zejf option" where
  "wind_log_data P D millis log s =
     (case log of
        Wind_Log l \<Rightarrow> log_all P D (hour_num l) (log_num l) millis (wind_values (payload l)) s
      | Bmp_Log l \<Rightarrow> log_all P D (hour_num l) (log_num l) millis (bmp_log_values D (payload l)) s)"

section \<open>The timers and the anemometer\<close>

record 'd wind =
  wind_engine :: time_engine
  wspd_c :: u16
  wspd_c_last :: u16
  last_wspd_callback :: "64 word"
  gust_measured :: bool
  latest_max_gust :: 'd
  bmp_initialised :: bool
  current_short_log :: "'d wind_data zejf_log"
  current_long_log :: "'d wind_data zejf_log"
  current_bmp_log :: "'d bmp_data zejf_log"
  wind_logs_queue :: "'d wind_any list"
  wind_queue_lock :: bool

text \<open>One turn of the loop over \<open>all_logs\<close>, for a log whose \<open>finish\<close> works on buffers.\<close>

definition wind_log_step :: "'d doubles \<Rightarrow> u32 \<Rightarrow> 'd wind_data zejf_log \<Rightarrow> ('d wind_any list \<times> 'd wind_data zejf_log) option" where
  "wind_log_step D unixtime log =
     do {
       (ready, log) \<leftarrow> is_ready (wind_reset D) unixtime log;
       (if ready
        then do {
          p \<leftarrow> wind_finish D (payload log);
          let log = log\<lparr>payload := p, hour_num := get_hour_num unixtime\<rparr>;
          Some ([Wind_Log log], log\<lparr>payload := wind_reset D (payload log)\<rparr>)
        }
        else Some ([], log))
     }"

definition wind_process_logs :: "'d doubles \<Rightarrow> u32 \<Rightarrow> 'd wind \<Rightarrow> 'd wind option" where
  "wind_process_logs D unixtime w =
     do {
       (q1, l1) \<leftarrow> wind_log_step D unixtime (current_short_log w);
       (q2, l2) \<leftarrow> wind_log_step D unixtime (current_long_log w);
       (q3, l3) \<leftarrow> log_step (bmp_log_reset D) (\<lambda>p. p) unixtime (current_bmp_log w);
       Some (w\<lparr>current_short_log := l1, current_long_log := l2, current_bmp_log := l3,
         wind_logs_queue := wind_logs_queue w @ q1 @ q2 @ map Bmp_Log q3\<rparr>)
     }"

text \<open>\<open>adc_val\<close> is what \<open>adc_read\<close> gives, \<open>dt\<close> what \<open>rtc_get_datetime\<close> gives.\<close>

definition wind_measurements :: "'d doubles \<Rightarrow> u16 \<Rightarrow> datetime \<Rightarrow> 'd wind \<Rightarrow> 'd wind option" where
  "wind_measurements D adc_val dt w =
     (let wspd_c_temp = wspd_c w;
          counts = wspd_c_temp - wspd_c_last w;
          w = w\<lparr>wspd_c_last := wspd_c_temp\<rparr>;
          gust = latest_max_gust w;
          w = w\<lparr>latest_max_gust := d_int D 0\<rparr>
      in if \<not> time_set (wind_engine w) then Some w
         else
           let dir = d_add D (get_wdir D adc_val) (d_int D 20);
               dir = (if d_less D (d_int D 360) dir then d_sub D dir (d_int D 360) else dir);
               l = current_long_log w;
               w = w\<lparr>current_long_log := l\<lparr>payload := wind_sample D dir counts gust (payload l)\<rparr>\<rparr>;
               l = current_short_log w;
               w = w\<lparr>current_short_log := l\<lparr>payload := wind_sample D dir counts gust (payload l)\<rparr>\<rparr>
           in if wind_queue_lock w then Some w else wind_process_logs D (word_of_int (unix_time dt)) w)"

text \<open>\<open>press\<close> and \<open>temp\<close> are what \<open>BMP085_read_all\<close> gives.\<close>

definition wind_bmp_measure :: "'d doubles \<Rightarrow> 'd \<Rightarrow> 'd \<Rightarrow> 'd wind \<Rightarrow> 'd wind" where
  "wind_bmp_measure D press temp w =
     (if \<not> time_set (wind_engine w) \<or> \<not> bmp_initialised w then w
      else (let l = current_bmp_log w in w\<lparr>current_bmp_log := l\<lparr>payload := bmp_log_sample D press temp (payload l)\<rparr>\<rparr>))"

abbreviation (input) WSPD_PIN :: nat where "WSPD_PIN \<equiv> 2"
abbreviation (input) GPIO_IRQ_EDGE_RISE :: nat where "GPIO_IRQ_EDGE_RISE \<equiv> 8"

definition wspd_callback :: "'d doubles \<Rightarrow> nat \<Rightarrow> nat \<Rightarrow> 64 word \<Rightarrow> 'd wind \<Rightarrow> 'd wind" where
  "wspd_callback D gpio events current_us w =
     (if gpio \<noteq> WSPD_PIN then w
      else
        let w = w\<lparr>wspd_c := wspd_c w + 1\<rparr> in
        if events \<noteq> GPIO_IRQ_EDGE_RISE then w
        else
          let gust = d_mul D (d_lit D ''2.4'') (d_div D (d_lit D ''1000000.0'') (d_int D (uint (current_us - last_wspd_callback w))));
              w = (if gust_measured w \<and> time_set (wind_engine w) \<and> (d_le D (d_int D 0) gust \<and> d_less D gust (d_lit D ''200.0'')) \<and> d_less D (latest_max_gust w) gust
                   then w\<lparr>latest_max_gust := gust\<rparr> else w)
          in w\<lparr>gust_measured := True, last_wspd_callback := current_us\<rparr>)"


section \<open>The nearest direction\<close>

lemma wdir_error_dist: "uint (wdir_error adc_val i) = \<bar>uint adc_val - uint (WDIR_TABLE ! i)\<bar>"
proof -
  have "uint adc_val < 2 ^ 16" "uint (WDIR_TABLE ! i) < 2 ^ 16" using uint_lt2p [of adc_val] uint_lt2p [of "WDIR_TABLE ! i"] by simp_all
  then have "\<bar>uint adc_val - uint (WDIR_TABLE ! i)\<bar> < 2 ^ 16" using uint_ge_0 [of adc_val] uint_ge_0 [of "WDIR_TABLE ! i"] by linarith
  then show ?thesis by (simp add: wdir_error_def uint_word_of_int_eq take_bit_int_eq_self)
qed

text \<open>A loop that remembers the first smallest value finds it.\<close>

definition first_min :: "(nat \<Rightarrow> 'a :: linorder) \<Rightarrow> nat \<Rightarrow> nat \<Rightarrow> bool" where
  "first_min f n i \<longleftrightarrow> i < n \<and> (\<forall>j<n. f i \<le> f j) \<and> (\<forall>j<i. f i < f j)"

lemma wdir_loop: "0 < n \<Longrightarrow> \<exists>i. foldl (wdir_step a) (wdir_error a 0, 0) [1..<n] = (wdir_error a i, i) \<and> first_min (wdir_error a) n i"
proof (induction n rule: nat_induct_non_zero)
  case 1
  show ?case by (simp add: first_min_def)
next
  case (Suc n)
  then obtain i where i: "foldl (wdir_step a) (wdir_error a 0, 0) [1..<n] = (wdir_error a i, i)" "first_min (wdir_error a) n i" by blast
  have u: "[1..<Suc n] = [1..<n] @ [n]" using Suc.hyps by simp
  show ?case
  proof (cases "wdir_error a n < wdir_error a i")
    case True
    then have "first_min (wdir_error a) (Suc n) n" using i(2) by (auto simp: first_min_def less_Suc_eq intro: order.strict_trans2 less_imp_le)
    with True show ?thesis unfolding u foldl_append i(1) by (simp add: wdir_step_def Let_def)
  next
    case False
    then have "first_min (wdir_error a) (Suc n) i" using i(2) by (auto simp: first_min_def less_Suc_eq)
    with False show ?thesis unfolding u foldl_append i(1) by (simp add: wdir_step_def Let_def)
  qed
qed

text \<open>
  \<open>get_wdir\<close> finds the direction whose entry in the table is nearest to the measured value, the first one if there are
  several, and recognises each entry exactly.
\<close>

theorem get_wdir_nearest:
  "wdir_result adc_val < 16 \<and>
   (\<forall>j<16. \<bar>uint adc_val - uint (WDIR_TABLE ! wdir_result adc_val)\<bar> \<le> \<bar>uint adc_val - uint (WDIR_TABLE ! j)\<bar>) \<and>
   (\<forall>j<wdir_result adc_val. \<bar>uint adc_val - uint (WDIR_TABLE ! wdir_result adc_val)\<bar> < \<bar>uint adc_val - uint (WDIR_TABLE ! j)\<bar>) \<and>
   (\<forall>i<16. wdir_result (WDIR_TABLE ! i) = i)"
proof -
  have m: "first_min (wdir_error a) 16 (wdir_result a)" for a using wdir_loop [of 16 a] by (auto simp: wdir_result_def)
  have d: "distinct WDIR_TABLE" "length WDIR_TABLE = 16" by (simp_all add: WDIR_TABLE_def)
  have "wdir_result (WDIR_TABLE ! i) = i" if "i < 16" for i
  proof -
    let ?k = "wdir_result (WDIR_TABLE ! i)"
    have "wdir_error (WDIR_TABLE ! i) ?k \<le> wdir_error (WDIR_TABLE ! i) i" "?k < 16" using m [of "WDIR_TABLE ! i"] that by (auto simp: first_min_def)
    then have "WDIR_TABLE ! i = WDIR_TABLE ! ?k" by (simp add: word_le_def wdir_error_dist word_uint_eq_iff)
    then show ?thesis using nth_eq_iff_index_eq [OF d(1), of i ?k] d(2) that \<open>?k < 16\<close> by simp
  qed
  then show ?thesis using m [of adc_val] by (simp add: first_min_def word_le_def word_less_def wdir_error_dist)
qed

theorem get_wdir_nearest_witness:
  "wdir_result 512 = 7 \<and> \<bar>uint (2000 :: u16) - uint (WDIR_TABLE ! wdir_result 2000)\<bar> \<le> 150"
proof
  have "wdir_result (WDIR_TABLE ! 7) = 7" using get_wdir_nearest [of 0] by simp
  then show "wdir_result 512 = 7" by (simp add: WDIR_TABLE_def)
  have "\<bar>uint (2000 :: u16) - uint (WDIR_TABLE ! wdir_result 2000)\<bar> \<le> \<bar>uint (2000 :: u16) - uint (WDIR_TABLE ! 2)\<bar>"
    using get_wdir_nearest [of 2000] by (auto simp del: uint_numeral)
  also have "\<dots> = 150" by (simp add: WDIR_TABLE_def)
  finally show "\<bar>uint (2000 :: u16) - uint (WDIR_TABLE ! wdir_result 2000)\<bar> \<le> 150" .
qed

section \<open>The ring buffer is a window on the last averages\<close>

definition wind_ok :: "'d wind_data \<Rightarrow> bool" where
  "wind_ok l \<longleftrightarrow> 0 < average_count l \<and> length (wspd_running l) = average_count l \<and> length (wdir_running l) = average_count l \<and>
     running_index l < average_count l \<and> averages_sampled l \<le> average_count l"

text \<open>The averages in the buffers, the oldest first.\<close>

definition wind_window :: "'d wind_data \<Rightarrow> ('d \<times> 'd) list" where
  "wind_window l = rotate (running_index l) (zip (wspd_running l) (wdir_running l))"

definition vector_sum :: "'d doubles \<Rightarrow> ('d \<times> 'd) list \<Rightarrow> 'd \<times> 'd" where
  "vector_sum D vs = foldl (add_vector D) (d_lit D ''0.0'', d_lit D ''0.0'') vs"

lemma rotate_overwrite:
  assumes "i < length xs"
  shows "rotate (Suc i) (xs[i := x]) = tl (rotate i xs) @ [x]"
proof -
  have "rotate i (xs[i := x]) = x # drop (Suc i) xs @ take i xs" using assms by (simp add: rotate_drop_take Cons_nth_drop_Suc [symmetric])
  moreover have "rotate i xs = xs ! i # drop (Suc i) xs @ take i xs" using assms by (simp add: rotate_drop_take Cons_nth_drop_Suc [symmetric])
  ultimately show ?thesis by simp
qed

lemma average_loop_window:
  assumes ok: "wind_ok l"
  shows "i < average_count l \<Longrightarrow> average_loop D l (running_index l) ((running_index l + i) mod average_count l) acc =
    Some (foldl (add_vector D) acc (drop i (wind_window l)))"
proof (induction "average_count l - i" arbitrary: i acc)
  case (Suc k)
  let ?n = "average_count l" and ?r = "running_index l"
  have n: "0 < ?n" "length (wspd_running l) = ?n" "length (wdir_running l) = ?n" "?r < ?n" using ok by (simp_all add: wind_ok_def)
  let ?j = "(?r + i) mod ?n"
  have j: "?j < ?n" using n(1) by simp
  have len: "length (wind_window l) = ?n" using n by (simp add: wind_window_def)
  have e: "wind_window l ! i = (wspd_running l ! ?j, wdir_running l ! ?j)" using n Suc.prems j by (simp add: wind_window_def nth_rotate)
  have d: "drop i (wind_window l) = wind_window l ! i # drop (Suc i) (wind_window l)" using Suc.prems len by (simp add: Cons_nth_drop_Suc)
  show ?case
  proof (cases "Suc i < ?n")
    case True
    have "(?r + Suc i) mod ?n \<noteq> ?r"
    proof
      assume "(?r + Suc i) mod ?n = ?r"
      then have "(?r + Suc i) mod ?n = ?r mod ?n" using n(4) by simp
      then have "?n dvd Suc i" using mod_eq_dvd_iff_nat [of ?r "?r + Suc i" ?n] by simp
      with True show False by (auto dest: dvd_imp_le)
    qed
    then show ?thesis using Suc.hyps(1) [of "Suc i" "add_vector D acc (wind_window l ! i)"] Suc.hyps(2) True n j
      by (simp add: average_loop.simps [of D l ?r ?j acc] d e [symmetric] Let_def mod_Suc_eq)
  next
    case False
    then have "Suc i = ?n" using Suc.prems by simp
    then have "Suc (?r + i) mod ?n = ?r" "drop (Suc i) (wind_window l) = []" using n(4) len by (metis add_Suc_right mod_add_self2 mod_less, simp)
    then show ?thesis using n j by (simp add: average_loop.simps [of D l ?r ?j acc] d e [symmetric] Let_def mod_Suc_eq)
  qed
qed simp

text \<open>What a log keeps of its period when its buffers change.\<close>

definition same_period :: "'d wind_data \<Rightarrow> 'd wind_data \<Rightarrow> bool" where
  "same_period l l' \<longleftrightarrow> wind_dx l' = wind_dx l \<and> wind_dy l' = wind_dy l \<and> wind_count l' = wind_count l \<and> wgust l' = wgust l \<and>
     actual_wdir l' = actual_wdir l \<and> average_count l' = average_count l"

lemma push_average_window:
  assumes "wind_ok l"
  shows "\<exists>m. push_average D l = Some m \<and> wind_ok m \<and> wind_window m = tl (wind_window l) @ [period_vector D l] \<and>
    averages_sampled m = min (average_count l) (Suc (averages_sampled l)) \<and> same_period l m"
proof -
  let ?n = "average_count l" and ?r = "running_index l" and ?v = "period_vector D l"
  have n: "0 < ?n" "length (wspd_running l) = ?n" "length (wdir_running l) = ?n" "?r < ?n" "averages_sampled l \<le> ?n" using assms by (simp_all add: wind_ok_def)
  then obtain m where m: "push_average D l = Some m" "average_count m = ?n" "wspd_running m = (wspd_running l)[?r := fst ?v]"
    "wdir_running m = (wdir_running l)[?r := snd ?v]" "running_index m = Suc ?r mod ?n" "averages_sampled m = min ?n (Suc (averages_sampled l))" "same_period l m"
    by (simp add: push_average_def Let_def mod_Suc min_def same_period_def)
  have "wind_window m = rotate (Suc ?r) ((zip (wspd_running l) (wdir_running l))[?r := ?v])" unfolding wind_window_def m
    using rotate_conv_mod [of "Suc ?r" "(zip (wspd_running l) (wdir_running l))[?r := ?v]"] n by (simp add: update_zip del: rotate_Suc)
  also have "\<dots> = tl (wind_window l) @ [?v]" using n by (simp add: rotate_overwrite wind_window_def del: rotate_Suc)
  finally show ?thesis using m n by (auto simp: wind_ok_def)
qed

lemma wind_finish_window:
  assumes "wind_ok l"
  shows "\<exists>l'. wind_finish D l = Some l' \<and> wind_ok l' \<and> wind_window l' = tl (wind_window l) @ [period_vector D l] \<and>
    wspd l' = mean_wspd D (average_count l) (vector_sum D (wind_window l')) \<and> wdir l' = mean_wdir D (actual_wdir l) (vector_sum D (wind_window l')) \<and>
    averages_sampled l' = min (average_count l) (Suc (averages_sampled l)) \<and> same_period l l'"
proof -
  obtain m where m: "push_average D l = Some m" "wind_ok m" "wind_window m = tl (wind_window l) @ [period_vector D l]"
    "averages_sampled m = min (average_count l) (Suc (averages_sampled l))" "same_period l m" using push_average_window [OF assms] by blast
  have "average_loop D m (running_index m) (running_index m) acc = Some (foldl (add_vector D) acc (wind_window m))" for acc
    using average_loop_window [OF m(2), of 0 D acc] m(2) by (simp add: wind_ok_def)
  with m show ?thesis by (simp add: wind_finish_def vector_sum_def wind_ok_def wind_window_def same_period_def)
qed

lemma same_period_vector: "same_period l l' \<Longrightarrow> period_vector D l' = period_vector D l"
  by (simp add: same_period_def period_vector_def)


section \<open>Periods\<close>

text \<open>A log over a list of periods, each a list of samples \<open>(direction, counts, gust)\<close>, with the log as it is put into the queue after each.\<close>

definition wind_samples :: "'d doubles \<Rightarrow> ('d \<times> u16 \<times> 'd) list \<Rightarrow> 'd wind_data \<Rightarrow> 'd wind_data" where
  "wind_samples D xs l = foldl (\<lambda>l (dir, counts, gust). wind_sample D dir counts gust l) l xs"

primrec wind_periods :: "'d doubles \<Rightarrow> ('d \<times> u16 \<times> 'd) list list \<Rightarrow> 'd wind_data \<Rightarrow> ('d wind_data list \<times> 'd wind_data) option" where
  "wind_periods D [] l = Some ([], l)"
| "wind_periods D (xs # ps) l =
     do {
       l \<leftarrow> wind_finish D (wind_samples D xs l);
       (rest, l') \<leftarrow> wind_periods D ps (wind_reset D l);
       Some (l # rest, l')
     }"

lemma wind_sample_simps [simp]:
  "wind_ok (wind_sample D dir counts gust l) = wind_ok l" "wind_window (wind_sample D dir counts gust l) = wind_window l"
  "average_count (wind_sample D dir counts gust l) = average_count l" "averages_sampled (wind_sample D dir counts gust l) = averages_sampled l"
  "wind_count (wind_sample D dir counts gust l) = wind_count l + 1"
  "(wind_dx (wind_sample D dir counts gust l), wind_dy (wind_sample D dir counts gust l)) = add_vector D (wind_dx l, wind_dy l) (d_int D (uint counts), dir)"
  by (simp_all add: wind_sample_def Let_def wind_ok_def wind_window_def add_vector_def)

lemma wind_samples_simps [simp]:
  "wind_ok (wind_samples D xs l) = wind_ok l" "wind_window (wind_samples D xs l) = wind_window l"
  "average_count (wind_samples D xs l) = average_count l" "averages_sampled (wind_samples D xs l) = averages_sampled l"
  "wind_count (wind_samples D xs l) = wind_count l + of_nat (length xs)"
  "(wind_dx (wind_samples D xs l), wind_dy (wind_samples D xs l)) =
     foldl (add_vector D) (wind_dx l, wind_dy l) (map (\<lambda>(dir, counts, gust). (d_int D (uint counts), dir)) xs)"
  by (induction xs arbitrary: l) (simp_all add: wind_samples_def split: prod.splits)

lemma wind_reset_simps [simp]:
  "wind_ok (wind_reset D l) = wind_ok l" "wind_window (wind_reset D l) = wind_window l" "average_count (wind_reset D l) = average_count l"
  "averages_sampled (wind_reset D l) = averages_sampled l" "wind_count (wind_reset D l) = 0"
  "wind_dx (wind_reset D l) = d_lit D ''0.0''" "wind_dy (wind_reset D l) = d_lit D ''0.0''"
  by (simp_all add: wind_reset_def wind_ok_def wind_window_def)

text \<open>What a log holds after a period: the window \<open>vs\<close>, its mean, the number of averages so far, and the sum of the samples.\<close>

definition averaged :: "'d doubles \<Rightarrow> ('d \<times> 'd) list \<Rightarrow> nat \<Rightarrow> ('d \<times> u16 \<times> 'd) list \<Rightarrow> 'd wind_data \<Rightarrow> bool" where
  "averaged D vs k xs l \<longleftrightarrow>
     wind_window l = vs \<and> wspd l = mean_wspd D (length vs) (vector_sum D vs) \<and> wdir l = mean_wdir D (actual_wdir l) (vector_sum D vs) \<and>
     average_count l = length vs \<and> averages_sampled l = min (length vs) k \<and> (wind_dx l, wind_dy l) = vector_sum D (map (\<lambda>(dir, counts, gust). (d_int D (uint counts), dir)) xs) \<and>
     wind_count l = of_nat (length xs)"

lemma length_wind_window [simp]: "wind_ok l \<Longrightarrow> length (wind_window l) = average_count l"
  by (simp add: wind_ok_def wind_window_def)

lemma wind_periods_windows:
  "\<lbrakk>wind_ok l; wind_dx l = d_lit D ''0.0''; wind_dy l = d_lit D ''0.0''; wind_count l = 0\<rbrakk> \<Longrightarrow>
   \<exists>outs l'. wind_periods D ps l = Some (outs, l') \<and> length outs = length ps \<and>
     (\<forall>k<length ps. averaged D (drop (Suc k) (wind_window l @ map (period_vector D) (take (Suc k) outs))) (averages_sampled l + Suc k) (ps ! k) (outs ! k))"
proof (induction ps arbitrary: l)
  case Nil
  show ?case by simp
next
  case (Cons xs ps)
  let ?l = "wind_samples D xs l"
  obtain o' where o: "wind_finish D ?l = Some o'" "wind_ok o'" "wind_window o' = tl (wind_window ?l) @ [period_vector D ?l]"
    "wspd o' = mean_wspd D (average_count ?l) (vector_sum D (wind_window o'))" "wdir o' = mean_wdir D (actual_wdir ?l) (vector_sum D (wind_window o'))"
    "averages_sampled o' = min (average_count ?l) (Suc (averages_sampled ?l))" "same_period ?l o'"
    using wind_finish_window [of ?l D] Cons.prems(1) by auto
  have v: "period_vector D o' = period_vector D ?l" by (rule same_period_vector [OF o(7)])
  have len: "length (wind_window l) = average_count l" "0 < average_count l" using Cons.prems(1) by (simp_all add: wind_ok_def)
  have le: "averages_sampled l \<le> average_count l" using Cons.prems(1) by (simp add: wind_ok_def)
  have w: "wind_window o' = drop (Suc 0) (wind_window l @ [period_vector D o'])" using o(3) v len by (cases "wind_window l") auto
  have "(wind_dx o', wind_dy o') = (wind_dx ?l, wind_dy ?l)" using o(7) by (simp add: same_period_def)
  then have first: "averaged D (wind_window o') (averages_sampled l + 1) xs o'"
    using o(2,4-7) Cons.prems by (simp add: averaged_def same_period_def vector_sum_def)
  obtain outs l' where IH: "wind_periods D ps (wind_reset D o') = Some (outs, l')" "length outs = length ps"
    "\<And>k. k < length ps \<Longrightarrow> averaged D (drop (Suc k) (wind_window o' @ map (period_vector D) (take (Suc k) outs))) (averages_sampled o' + Suc k) (ps ! k) (outs ! k)"
    using Cons.IH [of "wind_reset D o'"] o(2) by auto
  have "averaged D (drop (Suc k) (wind_window l @ map (period_vector D) (take (Suc k) (o' # outs)))) (averages_sampled l + Suc k) ((xs # ps) ! k) ((o' # outs) ! k)"
    if "k < length (xs # ps)" for k
  proof (cases k)
    case 0
    with first w show ?thesis by simp
  next
    case (Suc j)
    let ?vs = "map (period_vector D) (take (Suc j) outs)"
    have d: "drop (Suc k) (wind_window l @ map (period_vector D) (take (Suc k) (o' # outs))) = drop (Suc j) (wind_window o' @ ?vs)"
      using len by (cases "wind_window l") (simp_all add: Suc w)
    have n: "length (drop (Suc j) (wind_window o' @ ?vs)) = average_count l" using o(2,7) IH(2) that Suc by (simp add: same_period_def)
    have "min (average_count l) (averages_sampled o' + Suc j) = min (average_count l) (averages_sampled l + Suc k)" using o(6) le Suc by simp
    then show ?thesis using IH(3) [of j] that Suc n unfolding d by (simp add: averaged_def)
  qed
  then show ?case using o(1) IH(1,2) by (simp del: nth_Cons_Suc)
qed

text \<open>
  C35: Each wind average is the mean of the last periods.  After any periods the log that goes into the queue has in its ring buffer
  the speed and direction of the last \<open>average_count\<close> periods in order (zero before the first ones), its speed and direction are those
  of their vector sum, its period those of the samples since the previous one; and until \<open>average_count\<close> periods have
  passed only the gust is logged.
\<close>

theorem wind_averages:
  assumes "0 < n"
  shows "\<exists>outs l'. wind_periods D ps (wind_log D v1 v2 v3 n) = Some (outs, l') \<and> length outs = length ps \<and>
    (\<forall>k<length ps.
       averaged D (drop (Suc k) (replicate n (d_lit D ''0.0'', d_lit D ''0.0'') @ map (period_vector D) (take (Suc k) outs))) (Suc k) (ps ! k) (outs ! k) \<and>
       (map fst (wind_values (outs ! k)) = [wgust_var (outs ! k)] \<longleftrightarrow> Suc k < n))"
proof -
  let ?l = "wind_log D v1 v2 v3 n"
  have l: "wind_ok ?l" "wind_window ?l = replicate n (d_lit D ''0.0'', d_lit D ''0.0'')" "averages_sampled ?l = 0"
    using assms by (simp_all add: wind_ok_def wind_window_def wind_log_def)
  then have "wind_dx ?l = d_lit D ''0.0''" "wind_dy ?l = d_lit D ''0.0''" "wind_count ?l = 0" by (simp_all add: wind_log_def)
  from wind_periods_windows [OF l(1) this, of ps] l obtain outs l' where r: "wind_periods D ps ?l = Some (outs, l')" "length outs = length ps"
    "\<And>k. k < length ps \<Longrightarrow>
       averaged D (drop (Suc k) (replicate n (d_lit D ''0.0'', d_lit D ''0.0'') @ map (period_vector D) (take (Suc k) outs))) (Suc k) (ps ! k) (outs ! k)" by auto
  have "average_count (outs ! k) = n \<and> averages_sampled (outs ! k) = min n (Suc k)" if "k < length ps" for k
  proof -
    have "length (drop (Suc k) (replicate n (d_lit D ''0.0'', d_lit D ''0.0'') @ map (period_vector D) (take (Suc k) outs))) = n"
      unfolding length_drop length_append length_replicate length_map length_take using r(2) that by simp
    with r(3) [OF that] show ?thesis unfolding averaged_def by simp
  qed
  then have "map fst (wind_values (outs ! k)) = [wgust_var (outs ! k)] \<longleftrightarrow> Suc k < n" if "k < length ps" for k
    using that by (auto simp: wind_values_def)
  then show ?thesis by (intro exI [of _ outs] exI [of _ l'] conjI allI impI r)
qed

theorem wind_averages_witness:
  "\<exists>outs l'. wind_periods int_doubles [[(5, 3, 0)], [(5, 4, 0), (6, 1, 2)]] (wind_log int_doubles VAR_WSPD_NOW VAR_WGUST_NOW VAR_WDIR_NOW 12) = Some (outs, l') \<and>
     length outs = 2 \<and> map fst (wind_values (outs ! 1)) = [wgust_var (outs ! 1)]"
  using wind_averages [of 12 int_doubles "[[(5, 3, 0)], [(5, 4, 0), (6, 1, 2)]]" VAR_WSPD_NOW VAR_WGUST_NOW VAR_WDIR_NOW]
  by (fastforce simp del: wind_periods.simps)


section \<open>No average of nothing\<close>

text \<open>\<open>_process_measurements\<close> of \<open>zejf_runtime.cpp\<close>, the timer callback.\<close>

definition wind_timer :: "'d doubles \<Rightarrow> u32 \<Rightarrow> u16 \<Rightarrow> datetime \<Rightarrow> 'd wind \<Rightarrow> 'd wind option" where
  "wind_timer D ms adc_val dt w = wind_measurements D adc_val dt (w\<lparr>wind_engine := update_millis ms (wind_engine w)\<rparr>)"

text \<open>What happens to the measurements; \<open>Engine\<close> is any change of the time engine, such as the setting of the time.\<close>

datatype 'd wind_event = Edge nat "64 word" | Wind_Second u32 u16 datetime | Pressure 'd 'd | Engine time_engine | Wind_Lock bool | Wind_Take

primrec wind_event_step :: "'d doubles \<Rightarrow> 'd wind_event \<Rightarrow> 'd wind \<Rightarrow> ('d wind_any list \<times> 'd wind) option" where
  "wind_event_step D (Edge events us) w = Some ([], wspd_callback D WSPD_PIN events us w)"
| "wind_event_step D (Wind_Second ms adc_val dt) w = do { w \<leftarrow> wind_timer D ms adc_val dt w; Some ([], w) }"
| "wind_event_step D (Pressure press temp) w = Some ([], wind_bmp_measure D press temp w)"
| "wind_event_step D (Engine e) w = Some ([], w\<lparr>wind_engine := e\<rparr>)"
| "wind_event_step D (Wind_Lock b) w = Some ([], w\<lparr>wind_queue_lock := b\<rparr>)"
| "wind_event_step D Wind_Take w = (case wind_logs_queue w of [] \<Rightarrow> Some ([], w) | l # ls \<Rightarrow> Some ([l], w\<lparr>wind_logs_queue := ls\<rparr>))"

primrec wind_run :: "'d doubles \<Rightarrow> 'd wind_event list \<Rightarrow> 'd wind \<Rightarrow> ('d wind_any list \<times> 'd wind) option" where
  "wind_run D [] w = Some ([], w)"
| "wind_run D (e # es) w = do { (taken, w) \<leftarrow> wind_event_step D e w; (rest, w) \<leftarrow> wind_run D es w; Some (taken @ rest, w) }"

definition wind_start :: "'d doubles \<Rightarrow> bool \<Rightarrow> 'd wind" where
  "wind_start D bmp =
     \<lparr>wind_engine = start_engine, wspd_c = 0, wspd_c_last = 0, last_wspd_callback = 0, gust_measured = False, latest_max_gust = d_lit D ''0.0'',
      bmp_initialised = bmp, current_short_log = start_log SECONDS_5 (wind_log D VAR_WSPD_NOW VAR_WGUST_NOW VAR_WDIR_NOW 12),
      current_long_log = start_log EVERY_MINUTE (wind_log D VAR_WSPD_AVG VAR_WGUST_AVG VAR_WDIR_AVG 10),
      current_bmp_log = start_log EVERY_MINUTE \<lparr>bmp_sum_press = d_int D 0, bmp_sum_temp = d_int D 0, bmp_count = 0\<rparr>,
      wind_logs_queue = [], wind_queue_lock = False\<rparr>"

definition log_inv :: "nat \<Rightarrow> u32 \<Rightarrow> 'd wind_data zejf_log \<Rightarrow> bool" where
  "log_inv k rate l \<longleftrightarrow> log_rate l = rate \<and> wind_ok (payload l) \<and> unat (wind_count (payload l)) \<le> k"

definition measured :: "'d wind_any \<Rightarrow> bool" where
  "measured log \<longleftrightarrow> (case log of Wind_Log l \<Rightarrow> wind_count (payload l) \<noteq> 0 | Bmp_Log _ \<Rightarrow> True)"

definition wind_inv :: "nat \<Rightarrow> 'd wind \<Rightarrow> bool" where
  "wind_inv k w \<longleftrightarrow> log_inv k SECONDS_5 (current_short_log w) \<and> log_inv k EVERY_MINUTE (current_long_log w) \<and>
     log_rate (current_bmp_log w) = EVERY_MINUTE \<and> list_all measured (wind_logs_queue w)"

lemma is_ready_payload:
  assumes "log_rate l \<noteq> 0" and "3600 div log_rate l \<noteq> 0"
  shows "\<exists>ready m. is_ready reset t l = Some (ready, m) \<and> log_rate m = log_rate l \<and>
    (ready \<and> payload m = payload l \<or> \<not> ready \<and> (payload m = payload l \<or> payload m = reset (payload l)))"
proof (cases "t div (3600 div log_rate l) - last_log_num l = 1")
  case True
  with assms show ?thesis by (auto simp: is_ready_def get_log_num_abs_def get_log_num_def)
next
  case False
  with assms show ?thesis by (cases "t div (3600 div log_rate l) = last_log_num l") (auto simp: is_ready_def get_log_num_abs_def)
qed

lemma wind_log_step_inv:
  assumes "log_inv k rate l" and "wind_count (payload l) \<noteq> 0" and "rate \<noteq> 0" and "3600 div rate \<noteq> 0"
  shows "\<exists>q l'. wind_log_step D t l = Some (q, l') \<and> log_inv k rate l' \<and> list_all measured q"
proof -
  obtain ready m where m: "is_ready (wind_reset D) t l = Some (ready, m)" "log_rate m = rate"
    "ready \<and> payload m = payload l \<or> \<not> ready \<and> (payload m = payload l \<or> payload m = wind_reset D (payload l))"
    using is_ready_payload [of l "wind_reset D" t] assms(1,3,4) by (auto simp: log_inv_def)
  show ?thesis
  proof (cases ready)
    case True
    then have p: "payload m = payload l" using m(3) by blast
    obtain p' where "wind_finish D (payload l) = Some p'" "wind_ok p'" "same_period (payload l) p'"
      using wind_finish_window [of "payload l" D] assms(1) by (auto simp: log_inv_def)
    then show ?thesis using True m(1,2) p assms(2) by (simp add: wind_log_step_def log_inv_def measured_def same_period_def)
  next
    case False
    then show ?thesis using m assms(1) by (auto simp: wind_log_step_def log_inv_def)
  qed
qed

lemma wind_timer_inv:
  assumes "wind_inv k w" and "Suc k < 2 ^ 32"
  shows "\<exists>w'. wind_timer D ms adc_val dt w = Some w' \<and> wind_inv (Suc k) w'"
proof -
  have s: "unat (c + 1) = Suc (unat c) \<and> c + 1 \<noteq> 0" if "unat c \<le> k" for c :: u32
  proof -
    have "Suc (unat c) < 2 ^ LENGTH(32)" using that assms(2) by simp
    then have "unat (c + 1) = Suc (unat c)" by (simp add: unat_word_ariths)
    then show ?thesis by (metis nat.distinct(1) unat_0)
  qed
  have sample: "log_inv (Suc k) r (l\<lparr>payload := wind_sample D x n g (payload l)\<rparr>) \<and> wind_count (wind_sample D x n g (payload l)) \<noteq> 0"
    if "log_inv k r l" for r l x n g
    using that s [of "wind_count (payload l)"] by (simp add: log_inv_def)
  have mono: "log_inv (Suc k) r l" if "log_inv k r l" for r l using that by (simp add: log_inv_def)
  have bmp: "\<exists>q l'. log_step (bmp_log_reset D) (\<lambda>p. p) t (current_bmp_log w) = Some (q, l') \<and> log_rate l' = EVERY_MINUTE" for t
    using log_step_returns [of "current_bmp_log w" "bmp_log_reset D" "\<lambda>p. p" t] assms(1) by (simp add: wind_inv_def EVERY_MINUTE_def)
  have rates: "SECONDS_5 \<noteq> 0" "3600 div SECONDS_5 \<noteq> 0" "EVERY_MINUTE \<noteq> 0" "3600 div EVERY_MINUTE \<noteq> 0" by (simp_all add: SECONDS_5_def EVERY_MINUTE_def)
  have inv: "log_inv k SECONDS_5 (current_short_log w)" "log_inv k EVERY_MINUTE (current_long_log w)" "list_all measured (wind_logs_queue w)"
    "log_rate (current_bmp_log w) = EVERY_MINUTE" using assms(1) by (simp_all add: wind_inv_def)
  define dir where "dir = (let dir = d_add D (get_wdir D adc_val) (d_int D 20) in if d_less D (d_int D 360) dir then d_sub D dir (d_int D 360) else dir)"
  let ?t = "word_of_int (unix_time dt)"
  let ?sampled = "\<lambda>l. l\<lparr>payload := wind_sample D dir (wspd_c w - wspd_c_last w) (latest_max_gust w) (payload l)\<rparr>"
  note short = sample [OF inv(1), of dir "wspd_c w - wspd_c_last w" "latest_max_gust w"]
    and long = sample [OF inv(2), of dir "wspd_c w - wspd_c_last w" "latest_max_gust w"]
  obtain q1 l1 where 1: "wind_log_step D ?t (?sampled (current_short_log w)) = Some (q1, l1)" "log_inv (Suc k) SECONDS_5 l1" "list_all measured q1"
    using wind_log_step_inv [OF conjunct1 [OF short] _ rates(1,2), of D ?t] short by auto
  obtain q2 l2 where 2: "wind_log_step D ?t (?sampled (current_long_log w)) = Some (q2, l2)" "log_inv (Suc k) EVERY_MINUTE l2" "list_all measured q2"
    using wind_log_step_inv [OF conjunct1 [OF long] _ rates(3,4), of D ?t] long by auto
  obtain q3 l3 where 3: "log_step (bmp_log_reset D) (\<lambda>p. p) (word_of_int (unix_time dt)) (current_bmp_log w) = Some (q3, l3)" "log_rate l3 = EVERY_MINUTE" using bmp by blast
  have "list_all measured (map Bmp_Log q3)" by (simp add: list_all_iff measured_def)
  then have q: "list_all measured (wind_logs_queue w @ q1 @ q2 @ map Bmp_Log q3)" using inv(3) 1(3) 2(3) by (simp only: list_all_append)
  let ?w = "w\<lparr>wind_engine := update_millis ms (wind_engine w), wspd_c_last := wspd_c w, latest_max_gust := d_int D 0\<rparr>"
  let ?v = "?w\<lparr>current_long_log := ?sampled (current_long_log w), current_short_log := ?sampled (current_short_log w)\<rparr>"
  have t: "wind_timer D ms adc_val dt w =
      (if \<not> time_set (wind_engine w) then Some ?w else if wind_queue_lock w then Some ?v else wind_process_logs D ?t ?v)"
    by (simp add: wind_timer_def wind_measurements_def Let_def dir_def)
  have "wind_inv (Suc k) ?w" "wind_inv (Suc k) ?v" using inv short long mono [OF inv(1)] mono [OF inv(2)] by (simp_all add: wind_inv_def)
  moreover have "\<exists>w'. wind_process_logs D ?t ?v = Some w' \<and> wind_inv (Suc k) w'"
    using 1 2 3 q by (simp add: wind_process_logs_def wind_inv_def)
  ultimately show ?thesis unfolding t by simp
qed

lemma wind_event_inv:
  assumes "wind_inv k w" and "(case e of Wind_Second _ _ _ \<Rightarrow> Suc k | _ \<Rightarrow> k) < 2 ^ 32"
  shows "\<exists>taken w'. wind_event_step D e w = Some (taken, w') \<and> wind_inv (case e of Wind_Second _ _ _ \<Rightarrow> Suc k | _ \<Rightarrow> k) w' \<and> list_all measured taken"
proof (cases e)
  case (Wind_Second ms adc_val dt)
  then show ?thesis using wind_timer_inv [OF assms(1), of D ms adc_val dt] assms(2) by auto
next
  case Wind_Take
  then show ?thesis using assms(1) by (cases "wind_logs_queue w") (auto simp: wind_inv_def)
qed (use assms(1) in \<open>auto simp: wind_inv_def wspd_callback_def wind_bmp_measure_def Let_def\<close>)

definition seconds :: "'d wind_event list \<Rightarrow> nat" where
  "seconds es = length (filter (\<lambda>e. case e of Wind_Second _ _ _ \<Rightarrow> True | _ \<Rightarrow> False) es)"

lemma seconds_Cons: "seconds (e # es) = (case e of Wind_Second _ _ _ \<Rightarrow> Suc (seconds es) | _ \<Rightarrow> seconds es)"
  by (simp add: seconds_def split: wind_event.splits)

lemma wind_run_inv:
  "wind_inv k w \<Longrightarrow> k + seconds es < 2 ^ 32 \<Longrightarrow> \<exists>taken w'. wind_run D es w = Some (taken, w') \<and> wind_inv (k + seconds es) w' \<and> list_all measured taken"
proof (induction es arbitrary: k w)
  case Nil
  then show ?case by (simp add: seconds_def)
next
  case (Cons e es)
  let ?k = "case e of Wind_Second _ _ _ \<Rightarrow> Suc k | _ \<Rightarrow> k"
  have k: "k + seconds (e # es) = ?k + seconds es" by (simp add: seconds_Cons split: wind_event.splits)
  obtain taken u where u: "wind_event_step D e w = Some (taken, u)" "wind_inv ?k u" "list_all measured taken"
    using wind_event_inv [OF Cons.prems(1), of e D] Cons.prems(2) unfolding k by (auto simp del: wind_event_step.simps)
  obtain rest w' where "wind_run D es u = Some (rest, w')" "wind_inv (?k + seconds es) w'" "list_all measured rest"
    using Cons.IH [OF u(2)] Cons.prems(2) unfolding k by auto
  with u show ?case unfolding k by (simp del: wind_event_step.simps)
qed

text \<open>
  C36: The wind device never averages over nothing and never leaves its ring buffers.  From the start, for any order of anemometer pulses,
  timer calls, pressure readings, changes of the time, locking and taking of logs, everything returns, and every wind log that
  reaches the queue has at least one sample, so that \<open>finish\<close> does not divide by zero (for 136 years of timer calls).
\<close>

theorem wind_logs_measured:
  assumes "seconds es < 2 ^ 32"
  shows "\<exists>taken w. wind_run D es (wind_start D bmp) = Some (taken, w) \<and>
    (\<forall>l. Wind_Log l \<in> set (taken @ wind_logs_queue w) \<longrightarrow> wind_count (payload l) \<noteq> 0)"
proof -
  have "wind_inv 0 (wind_start D bmp)" by (simp add: wind_inv_def wind_start_def log_inv_def start_log_def wind_log_def wind_ok_def)
  from wind_run_inv [OF this, of es D] assms show ?thesis by (fastforce simp: wind_inv_def list_all_iff measured_def)
qed

theorem wind_logs_measured_witness:
  "\<exists>taken w. wind_run int_doubles [Engine (start_engine\<lparr>time_set := True\<rparr>), Edge 8 1000, Wind_Second 5000 353 (rtc_time 5), Wind_Take]
     (wind_start int_doubles False) = Some (taken, w) \<and> (\<forall>l. Wind_Log l \<in> set (taken @ wind_logs_queue w) \<longrightarrow> wind_count (payload l) \<noteq> 0)"
  by (rule wind_logs_measured) (simp add: seconds_def)

end
