(* ===== verification/Pico_Bmp085.thy ===== *)
theory Pico_Bmp085
  imports Pico_Bmp390 "HOL-Library.Signed_Division"
begin

unbundle bit_operations_syntax

text \<open>
  The pressure sensor of ZejfWind, \<open>libs/bmp085/src/bmp085.c\<close>: reading the calibration and the raw values, and the compensation in
  32-bit integers.  A signed overflow or a division by zero is undefined behaviour; a right shift of a negative number
  rounds down and a left shift multiplies, as the compiler for the Pico defines them.
\<close>

section \<open>The driver\<close>

abbreviation (input) BMP085_ADDR :: u8 where "BMP085_ADDR \<equiv> 0x77"
abbreviation (input) BMP085_CONTROL :: u8 where "BMP085_CONTROL \<equiv> 0xF4"
abbreviation (input) BMP085_TEMPDATA :: u8 where "BMP085_TEMPDATA \<equiv> 0xF6"
abbreviation (input) BMP085_PRESSUREDATA :: u8 where "BMP085_PRESSUREDATA \<equiv> 0xF6"
abbreviation (input) BMP085_READTEMPCMD :: u8 where "BMP085_READTEMPCMD \<equiv> 0x2E"
abbreviation (input) BMP085_READPRESSURECMD :: u8 where "BMP085_READPRESSURECMD \<equiv> 0x34"
abbreviation (input) BMP085_ULTRAHIGHRES :: u8 where "BMP085_ULTRAHIGHRES \<equiv> 3"

text \<open>The calibration: all are \<open>int16_t\<close>, read by \<open>sint\<close>, but for \<open>ac4\<close>, \<open>ac5\<close> and \<open>ac6\<close>.\<close>

record bmp085 =
  ac1 :: u16
  ac2 :: u16
  ac3 :: u16
  ac4 :: u16
  ac5 :: u16
  ac6 :: u16
  b1 :: u16
  b2 :: u16
  mb :: u16
  mc :: u16
  md :: u16
  oversampling :: u8

definition BMP085_read8 :: "(nat \<Rightarrow> u8) \<Rightarrow> 'w i2c \<Rightarrow> u8 \<Rightarrow> 'w \<Rightarrow> (u8 \<times> 'w) option" where
  "BMP085_read8 junk I a w =
     (case i2c_write I BMP085_ADDR [a] True w of
        (_, w) \<Rightarrow> do { (_, r, w) \<leftarrow> i2c_read_into I BMP085_ADDR (map junk [0..<1]) 1 False w; Some (r ! 0, w) })"

definition BMP085_read16 :: "(nat \<Rightarrow> u8) \<Rightarrow> 'w i2c \<Rightarrow> u8 \<Rightarrow> 'w \<Rightarrow> (u16 \<times> 'w) option" where
  "BMP085_read16 junk I a w =
     (case i2c_write I BMP085_ADDR [a] True w of
        (_, w) \<Rightarrow> do { (_, r, w) \<leftarrow> i2c_read_into I BMP085_ADDR (map junk [0..<2]) 2 False w; Some (bytes16 (r ! 0) (r ! 1), w) })"

definition BMP085_write8 :: "'w i2c \<Rightarrow> u8 \<Rightarrow> u8 \<Rightarrow> 'w \<Rightarrow> 'w" where
  "BMP085_write8 I a d w = snd (i2c_write I BMP085_ADDR [a, d] False w)"

definition BMP085_init :: "(nat \<Rightarrow> u8) \<Rightarrow> 'w i2c \<Rightarrow> u8 \<Rightarrow> bmp085 \<Rightarrow> 'w \<Rightarrow> (bool \<times> bmp085 \<times> 'w) option" where
  "BMP085_init junk I mode c w =
     do {
       let c = c\<lparr>oversampling := if BMP085_ULTRAHIGHRES < mode then BMP085_ULTRAHIGHRES else mode\<rparr>;
       (d, w) \<leftarrow> BMP085_read8 junk I 0xD0 w;
       (if d \<noteq> 0x55 then Some (False, c, w)
        else do {
          (x1, w) \<leftarrow> BMP085_read16 junk I 0xAA w;
          (x2, w) \<leftarrow> BMP085_read16 junk I 0xAC w;
          (x3, w) \<leftarrow> BMP085_read16 junk I 0xAE w;
          (x4, w) \<leftarrow> BMP085_read16 junk I 0xB0 w;
          (x5, w) \<leftarrow> BMP085_read16 junk I 0xB2 w;
          (x6, w) \<leftarrow> BMP085_read16 junk I 0xB4 w;
          (y1, w) \<leftarrow> BMP085_read16 junk I 0xB6 w;
          (y2, w) \<leftarrow> BMP085_read16 junk I 0xB8 w;
          (zb, w) \<leftarrow> BMP085_read16 junk I 0xBA w;
          (zc, w) \<leftarrow> BMP085_read16 junk I 0xBC w;
          (zd, w) \<leftarrow> BMP085_read16 junk I 0xBE w;
          Some (True, c\<lparr>ac1 := x1, ac2 := x2, ac3 := x3, ac4 := x4, ac5 := x5, ac6 := x6, b1 := y1, b2 := y2, mb := zb, mc := zc, md := zd\<rparr>, w)
        })
     }"

text \<open>The result of an \<open>int32_t\<close> operation.\<close>

definition i32 :: "int \<Rightarrow> int option" where
  "i32 x = (if - (2 ^ 31) \<le> x \<and> x < 2 ^ 31 then Some x else None)"

definition div32 :: "int \<Rightarrow> int \<Rightarrow> int option" where
  "div32 x y = (if y = 0 then None else i32 (x sdiv y))"

definition computeB5 :: "bmp085 \<Rightarrow> int \<Rightarrow> int option" where
  "computeB5 c UT =
     do {
       diff \<leftarrow> i32 (UT - uint (ac6 c));
       x \<leftarrow> i32 (diff * uint (ac5 c));
       let X1 = x div 2 ^ 15;
       n \<leftarrow> i32 (sint (mc c) * 2 ^ 11);
       d \<leftarrow> i32 (X1 + sint (md c));
       X2 \<leftarrow> div32 n d;
       i32 (X1 + X2)
     }"

definition BMP085_readRawTemperature :: "(nat \<Rightarrow> u8) \<Rightarrow> 'w i2c \<Rightarrow> 'w \<Rightarrow> (u16 \<times> 'w) option" where
  "BMP085_readRawTemperature junk I w = BMP085_read16 junk I BMP085_TEMPDATA (BMP085_write8 I BMP085_CONTROL BMP085_READTEMPCMD w)"

definition BMP085_readRawPressure :: "(nat \<Rightarrow> u8) \<Rightarrow> 'w i2c \<Rightarrow> bmp085 \<Rightarrow> 'w \<Rightarrow> (u32 \<times> 'w) option" where
  "BMP085_readRawPressure junk I c w =
     do {
       let w = BMP085_write8 I BMP085_CONTROL (BMP085_READPRESSURECMD + push_bit 6 (oversampling c)) w;
       (hi, w) \<leftarrow> BMP085_read16 junk I BMP085_PRESSUREDATA w;
       (lo, w) \<leftarrow> BMP085_read8 junk I (BMP085_PRESSUREDATA + 2) w;
       (if 8 < oversampling c then None
        else Some (drop_bit (8 - unat (oversampling c)) (push_bit 8 (ucast hi) OR ucast lo), w))
     }"

text \<open>The pressure before its last correction, and the correction.\<close>

definition bmp085_raw :: "bmp085 \<Rightarrow> int \<Rightarrow> int \<Rightarrow> int option" where
  "bmp085_raw c B5 UP =
     do {
       let os = unat (oversampling c);
       B6 \<leftarrow> i32 (B5 - 4000);
       sq \<leftarrow> i32 (B6 * B6);
       x \<leftarrow> i32 (sint (b2 c) * (sq div 2 ^ 12));
       let X1 = x div 2 ^ 11;
       x \<leftarrow> i32 (sint (ac2 c) * B6);
       let X2 = x div 2 ^ 11;
       X3 \<leftarrow> i32 (X1 + X2);
       x \<leftarrow> i32 (sint (ac1 c) * 4 + X3);
       x \<leftarrow> i32 (x * 2 ^ os);
       x \<leftarrow> i32 (x + 2);
       B3 \<leftarrow> div32 x 4;
       x \<leftarrow> i32 (sint (ac3 c) * B6);
       let X1 = x div 2 ^ 13;
       x \<leftarrow> i32 (sint (b1 c) * (sq div 2 ^ 12));
       let X2 = x div 2 ^ 16;
       x \<leftarrow> i32 (X1 + X2);
       x \<leftarrow> i32 (x + 2);
       let X3 = x div 2 ^ 2;
       x \<leftarrow> i32 (X3 + 32768);
       let B4 = drop_bit 15 ((ucast (ac4 c) :: u32) * word_of_int x);
       let B7 = (word_of_int UP - word_of_int B3) * (drop_bit os 50000 :: u32);
       (if B4 = 0 then None
        else Some (sint (if B7 < 0x80000000 then (B7 * 2) div B4 else (B7 div B4) * 2)))
     }"

definition bmp085_correct :: "int \<Rightarrow> int option" where
  "bmp085_correct p =
     do {
       X1 \<leftarrow> i32 ((p div 2 ^ 8) * (p div 2 ^ 8));
       x \<leftarrow> i32 (X1 * 3038);
       let X1 = x div 2 ^ 16;
       x \<leftarrow> i32 (- 7357 * p);
       let X2 = x div 2 ^ 16;
       x \<leftarrow> i32 (X1 + X2);
       x \<leftarrow> i32 (x + 3791);
       i32 (p + x div 2 ^ 4)
     }"

definition seaLevelForAltitude :: "'d doubles \<Rightarrow> u32 \<Rightarrow> u32 \<Rightarrow> u32" where
  "seaLevelForAltitude D altitude atmospheric =
     d_float D (d_div D (d_of_float D atmospheric)
       (d_pow D (d_sub D (d_lit D ''1.0'') (d_div D (d_of_float D altitude) (d_lit D ''44330.0''))) (d_lit D ''5.255'')))"

text \<open>The integer part of \<open>BMP085_read_all\<close>, which is that of \<open>BMP085_readPressure\<close> too: \<open>B5\<close> and the pressure in pascals.\<close>

definition bmp085_compensate :: "bmp085 \<Rightarrow> int \<Rightarrow> int \<Rightarrow> (int \<times> int) option" where
  "bmp085_compensate c UT UP =
     do {
       B5 \<leftarrow> computeB5 c UT;
       p \<leftarrow> bmp085_raw c B5 UP;
       p \<leftarrow> bmp085_correct p;
       Some (B5, p)
     }"

definition bmp085_temp :: "'d doubles \<Rightarrow> int \<Rightarrow> u32" where
  "bmp085_temp D B5 = d_float D (d_div D (d_int D ((B5 + 8) div 2 ^ 4)) (d_int D 10))"

definition BMP085_readTemperature :: "(nat \<Rightarrow> u8) \<Rightarrow> 'd doubles \<Rightarrow> 'w i2c \<Rightarrow> bmp085 \<Rightarrow> 'w \<Rightarrow> (u32 \<times> 'w) option" where
  "BMP085_readTemperature junk D I c w =
     do {
       (UT, w) \<leftarrow> BMP085_readRawTemperature junk I w;
       B5 \<leftarrow> computeB5 c (uint UT);
       _ \<leftarrow> i32 (B5 + 8);
       Some (bmp085_temp D B5, w)
     }"

definition BMP085_read_all :: "(nat \<Rightarrow> u8) \<Rightarrow> 'd doubles \<Rightarrow> 'w i2c \<Rightarrow> bmp085 \<Rightarrow> u32 \<Rightarrow> 'w \<Rightarrow> ((u32 \<times> u32) \<times> 'w) option" where
  "BMP085_read_all junk D I c altitude w =
     do {
       (UT, w) \<leftarrow> BMP085_readRawTemperature junk I w;
       (UP, w) \<leftarrow> BMP085_readRawPressure junk I c w;
       (B5, p) \<leftarrow> bmp085_compensate c (uint UT) (sint UP);
       _ \<leftarrow> i32 (B5 + 8);
       Some ((seaLevelForAltitude D altitude (d_float D (d_div D (d_int D p) (d_lit D ''100.0''))), bmp085_temp D B5), w)
     }"

definition BMP085_readPressure :: "(nat \<Rightarrow> u8) \<Rightarrow> 'w i2c \<Rightarrow> bmp085 \<Rightarrow> 'w \<Rightarrow> (int \<times> 'w) option" where
  "BMP085_readPressure junk I c w =
     do {
       (UT, w) \<leftarrow> BMP085_readRawTemperature junk I w;
       (UP, w) \<leftarrow> BMP085_readRawPressure junk I c w;
       (B5, p) \<leftarrow> bmp085_compensate c (uint UT) (sint UP);
       Some (p, w)
     }"

section \<open>No overflow in the operating range\<close>

lemma i32_abs: "\<bar>x\<bar> \<le> 2147483647 \<Longrightarrow> i32 x = Some x"
  by (auto simp: i32_def)

lemma mult_abs: "\<bar>a\<bar> \<le> A \<Longrightarrow> \<bar>b\<bar> \<le> B \<Longrightarrow> \<bar>a * b\<bar> \<le> A * B" for a b A B :: int
  unfolding abs_mult by (rule mult_mono) auto

lemma div_abs: "\<bar>a\<bar> \<le> A \<Longrightarrow> 0 < k \<Longrightarrow> \<bar>a div k\<bar> \<le> A div k + 1" for a A k :: int
proof -
  assume a: "\<bar>a\<bar> \<le> A" "0 < k"
  have "a div k \<le> A div k" by (rule zdiv_mono1) (use a in auto)
  moreover have "(- A) div k \<le> a div k" by (rule zdiv_mono1) (use a in auto)
  moreover have "- (A div k) - 1 \<le> (- A) div k" using a(2) by (simp add: zdiv_zminus1_eq_if)
  ultimately show "\<bar>a div k\<bar> \<le> A div k + 1" by linarith
qed

lemma add_abs: "\<bar>a\<bar> \<le> A \<Longrightarrow> \<bar>b\<bar> \<le> B \<Longrightarrow> \<bar>a + b\<bar> \<le> A + B" for a b A B :: int
  by linarith

lemma sdiv_abs: "\<bar>a sdiv 4\<bar> \<le> \<bar>a\<bar>" for a :: int
proof -
  have "0 \<le> \<bar>a\<bar> div 4" "\<bar>a\<bar> div 4 \<le> \<bar>a\<bar>" by linarith+
  then show ?thesis by (cases "a = 0") (simp_all add: signed_divide_int_def abs_mult)
qed

lemma sint_abs: "\<bar>sint x\<bar> \<le> 32768" for x :: u16
  using sint_range_size [of x] by (auto simp: word_size)

lemma divisor_positive:
  fixes a :: u16 and x :: int
  assumes "2 \<le> a" and "18000 \<le> x" "x \<le> 60000"
  shows "drop_bit 15 ((ucast a :: u32) * word_of_int x) \<noteq> 0"
proof -
  have a: "2 \<le> uint a" "uint a < 65536" using assms(1) uint_lt2p [of a] by (simp_all add: word_le_def)
  have "uint a * x \<le> 65535 * 60000" using a assms(2,3) by (intro mult_mono) auto
  moreover have "36000 \<le> uint a * x" using mult_mono [of 2 "uint a" 18000 x] a(1) assms(2) by simp
  ultimately have "(uint a * x) mod 2 ^ 32 = uint a * x" "32768 \<le> uint a * x" by auto
  moreover have "(ucast a :: u32) * word_of_int x = word_of_int (uint a * x)" by simp
  ultimately have "uint ((ucast a :: u32) * word_of_int x) = uint a * x" by (simp only: uint_word_of_int) simp
  then have "uint (drop_bit 15 ((ucast a :: u32) * word_of_int x)) = (uint a * x) div 2 ^ 15" by (simp add: drop_bit_eq_div uint_div del: of_int_mult)
  moreover have "0 < (uint a * x) div 2 ^ 15" using \<open>32768 \<le> uint a * x\<close> by (simp add: pos_imp_zdiv_pos_iff)
  ultimately show ?thesis by (metis uint_0_eq less_irrefl)
qed

lemma bmp085_raw_defined:
  assumes B5: "- 6400 \<le> B5" "B5 \<le> 13600" and os: "oversampling c \<le> 3" and ac4: "2 \<le> ac4 c"
  shows "bmp085_raw c B5 UP \<noteq> None"
proof -
  define B6 where "B6 = B5 - 4000"
  define sq where "sq = B6 * B6"
  define q where "q = sq div 2 ^ 12"
  have B6: "\<bar>B6\<bar> \<le> 10400" using B5 by (simp add: B6_def)
  have sq: "\<bar>sq\<bar> \<le> 108160000" using mult_abs [OF B6 B6] by (simp add: sq_def)
  have q: "\<bar>q\<bar> \<le> 26407" using div_abs [OF sq, of "2 ^ 12"] by (simp add: q_def)
  have t: "\<bar>sint (b :: u16) * q\<bar> \<le> 865304576" "\<bar>sint b * B6\<bar> \<le> 340787200" for b
    using mult_abs [OF sint_abs q, of b] mult_abs [OF sint_abs B6, of b] by simp_all
  define x where "x = sint (ac1 c) * 4 + ((sint (b2 c) * q) div 2 ^ 11 + (sint (ac2 c) * B6) div 2 ^ 11)"
  have x1: "\<bar>(sint (b2 c) * q) div 2 ^ 11\<bar> \<le> 422513" "\<bar>(sint (ac2 c) * B6) div 2 ^ 11\<bar> \<le> 166401"
    using div_abs [OF t(1), of "2 ^ 11" "b2 c"] div_abs [OF t(2), of "2 ^ 11" "ac2 c"] by simp_all
  have x: "\<bar>x\<bar> \<le> 720000" using sint_abs [of "ac1 c"] x1 unfolding x_def by linarith
  let ?os = "unat (oversampling c)"
  have "?os \<le> 3" using os by (simp add: word_le_nat_alt)
  then have "(2 :: int) ^ ?os \<le> 2 ^ 3" by (intro power_increasing) auto
  then have p: "\<bar>(2 :: int) ^ ?os\<bar> \<le> 8" by simp
  have x2: "\<bar>x * 2 ^ ?os\<bar> \<le> 5760000" using mult_abs [OF x p] by simp
  have "\<bar>(x * 2 ^ ?os + 2) sdiv 4\<bar> \<le> \<bar>x * 2 ^ ?os + 2\<bar>" by (rule sdiv_abs)
  then have B3: "div32 (x * 2 ^ ?os + 2) 4 = Some ((x * 2 ^ ?os + 2) sdiv 4)" unfolding div32_def using x2 by (simp add: i32_abs)
  define y where "y = (sint (ac3 c) * B6) div 2 ^ 13 + (sint (b1 c) * q) div 2 ^ 16"
  have y1: "\<bar>(sint (ac3 c) * B6) div 2 ^ 13\<bar> \<le> 41601" "\<bar>(sint (b1 c) * q) div 2 ^ 16\<bar> \<le> 13204"
    using div_abs [OF t(2), of "2 ^ 13" "ac3 c"] div_abs [OF t(1), of "2 ^ 16" "b1 c"] by simp_all
  have y: "\<bar>y\<bar> \<le> 54805" using y1 unfolding y_def by linarith
  then have "\<bar>y + 2\<bar> \<le> 54807" by linarith
  then have z: "\<bar>(y + 2) div 2 ^ 2\<bar> \<le> 13702" using div_abs [of "y + 2" 54807 "2 ^ 2"] by simp
  have n: "drop_bit 15 ((ucast (ac4 c) :: u32) * word_of_int ((y + 2) div 2 ^ 2 + 32768)) \<noteq> 0"
    by (rule divisor_positive [OF ac4]) (use z in linarith)+
  have i: "i32 B6 = Some B6" "i32 sq = Some sq" "i32 (sint b * q) = Some (sint b * q)" "i32 (sint b * B6) = Some (sint b * B6)" for b :: u16
    using B6 sq t [of b] by (simp_all add: i32_abs)
  have j: "i32 ((sint (b2 c) * q) div 2 ^ 11 + (sint (ac2 c) * B6) div 2 ^ 11) = Some ((sint (b2 c) * q) div 2 ^ 11 + (sint (ac2 c) * B6) div 2 ^ 11)"
    "i32 x = Some x" "i32 (x * 2 ^ ?os) = Some (x * 2 ^ ?os)" "i32 (x * 2 ^ ?os + 2) = Some (x * 2 ^ ?os + 2)" "i32 y = Some y" "i32 (y + 2) = Some (y + 2)"
    "i32 ((y + 2) div 2 ^ 2 + 32768) = Some ((y + 2) div 2 ^ 2 + 32768)"
    using x x1 x2 y z by (intro i32_abs; linarith)+
  show ?thesis unfolding bmp085_raw_def Let_def B6_def [symmetric] i(1) bind.bind_lunit sq_def [symmetric] i(2) q_def [symmetric] i(3,4)
      j(1) x_def [symmetric] j(2-4) B3 y_def [symmetric] j(5-7) using n by simp
qed

lemma bmp085_correct_range:
  assumes "0 \<le> p" and "p \<le> 200000"
  shows "\<exists>q. bmp085_correct p = Some q \<and> \<bar>q - p\<bar> \<le> 2100"
proof -
  have p: "\<bar>p\<bar> \<le> 200000" using assms by simp
  define a where "a = p div 2 ^ 8"
  have a: "\<bar>a\<bar> \<le> 782" using div_abs [OF p, of "2 ^ 8"] by (simp add: a_def)
  have aa: "\<bar>a * a\<bar> \<le> 611524" using mult_abs [OF a a] by simp
  then have m: "\<bar>a * a * 3038\<bar> \<le> 1857809912" using mult_abs [OF aa, of 3038 3038] by simp
  have n: "\<bar>- 7357 * p\<bar> \<le> 1471400000" using mult_abs [OF _ p, of "- 7357" 7357] by simp
  have m': "\<bar>(a * a * 3038) div 2 ^ 16\<bar> \<le> 28349" and n': "\<bar>(- 7357 * p) div 2 ^ 16\<bar> \<le> 22453"
    using div_abs [OF m, of "2 ^ 16"] div_abs [OF n, of "2 ^ 16"] by simp_all
  have low: "0 \<le> (a * a * 3038) div 2 ^ 16" "(- 7357 * p) div 2 ^ 16 \<le> 0" using assms(1) zero_le_square [of a] by (simp_all add: div_nonpos_pos_le0 pos_imp_zdiv_nonneg_iff)
  define x where "x = (a * a * 3038) div 2 ^ 16 + (- 7357 * p) div 2 ^ 16"
  have x: "\<bar>x\<bar> \<le> 28349" using m' n' low unfolding x_def by linarith
  then have x3: "\<bar>x + 3791\<bar> \<le> 32140" by linarith
  have d: "\<bar>(x + 3791) div 2 ^ 4\<bar> \<le> 2009" using div_abs [OF x3, of "2 ^ 4"] by simp
  have i: "i32 (a * a) = Some (a * a)" "i32 (a * a * 3038) = Some (a * a * 3038)" "i32 (- 7357 * p) = Some (- 7357 * p)" "i32 x = Some x"
    "i32 (x + 3791) = Some (x + 3791)" "i32 (p + (x + 3791) div 2 ^ 4) = Some (p + (x + 3791) div 2 ^ 4)"
    using aa m n x x3 d p by (intro i32_abs; linarith)+
  have "bmp085_correct p = Some (p + (x + 3791) div 2 ^ 4)"
    unfolding bmp085_correct_def Let_def a_def [symmetric] i(1-3) bind.bind_lunit x_def [symmetric] i(4-6) by simp
  with d show ?thesis by simp
qed

text \<open>
  C40: In the operating range of the sensor the compensation has no undefined behaviour.  For any calibration with \<open>ac4\<close> at least 2,
  any raw pressure and any temperature between -40 and 85 degrees (\<open>B5\<close> is 160 per degree), no signed operation of the
  pressure computation overflows and the divisor is not zero; the last correction of a pressure of at most 2000 hectopascals does not overflow either,
  and is at most 21 hectopascals.
\<close>

theorem bmp085_in_range:
  assumes B5: "- 6400 \<le> B5" "B5 \<le> 13600" and os: "oversampling c \<le> 3" and ac4: "2 \<le> ac4 c"
  shows "\<exists>p. bmp085_raw c B5 UP = Some p \<and> (0 \<le> p \<and> p \<le> 200000 \<longrightarrow> (\<exists>q. bmp085_correct p = Some q \<and> \<bar>q - p\<bar> \<le> 2100))"
  using bmp085_raw_defined [OF assms, of UP] bmp085_correct_range by blast

text \<open>
  The chip of the data sheet: at 15 degrees and 699.64 hectopascals the code agrees with it, but a raw temperature of 20285 makes the code
  divide by zero.
\<close>

definition datasheet :: bmp085 where
  "datasheet = \<lparr>ac1 = 408, ac2 = - 72, ac3 = - 14383, ac4 = 32741, ac5 = 32757, ac6 = 23153, b1 = 6190, b2 = 4, mb = - 32768, mc = - 8711, md = 2868, oversampling = 0\<rparr>"

lemma datasheet_compensate: "bmp085_compensate datasheet 27898 23843 = Some (2400, 69964)"
  by code_simp

lemma datasheet_divides_by_zero: "computeB5 datasheet 20285 = None"
  by code_simp

theorem bmp085_in_range_witness:
  "\<exists>p q. bmp085_raw datasheet 2400 23843 = Some p \<and> bmp085_correct p = Some q \<and> \<bar>q - p\<bar> \<le> 2100"
proof -
  have p: "bmp085_raw datasheet 2400 23843 = Some 70003" by code_simp
  show ?thesis using bmp085_in_range [of 2400 datasheet 23843] p by (auto simp: datasheet_def)
qed

end
