(* ===== verification/Pico_Wind_Device.thy ===== *)
theory Pico_Wind_Device
  imports Pico_Outside Pico_Wind Pico_Bmp085
begin

text \<open>
  The ZejfWind device, \<open>devices/ZejfWind/src/zejf_comm.cpp\<close> and \<open>zejf_measure.h\<close>: its variables, its status, and its main loop as an
  instance of \<open>Pico_Runtime\<close>.
\<close>

definition wind_provided_variables :: "VariableInfo list" where
  "wind_provided_variables = [VAR_WSPD_AVG, VAR_WGUST_AVG, VAR_WDIR_AVG, VAR_PRESS, VAR_TEMP, VAR_WSPD_NOW, VAR_WGUST_NOW, VAR_WDIR_NOW]"

definition wind_settings :: "'w platform" where
  "wind_settings = meteo_settings\<lparr>DEVICE_ID := 3, RX_QUEUE_SIZE := 64, TX_QUEUE_SIZE := 32, PACKET_DELETE_TIMEOUT := 5000,
     HOUR_BUFFER_SIZE := 8, VARIABLES_MAX := 8, DATA_REQUEST_QUEUE_SIZE := 312\<rparr>"

definition wind_log_num :: "'d doubles \<Rightarrow> 'd wind_any \<Rightarrow> u32 \<times> u32 \<times> (VariableInfo \<times> 'd) list" where
  "wind_log_num D log =
     (case log of
        Wind_Log l \<Rightarrow> (hour_num l, log_num l, wind_values (payload l))
      | Bmp_Log l \<Rightarrow> (hour_num l, log_num l, bmp_log_values D (payload l)))"

definition wind_meters :: "'d doubles \<Rightarrow> ('d wind, 'd wind_any, 'd) meters" where
  "wind_meters D =
     \<lparr>m_engine = wind_engine, m_set_engine = (\<lambda>e w. w\<lparr>wind_engine := e\<rparr>), m_queue = wind_logs_queue, m_set_queue = (\<lambda>q w. w\<lparr>wind_logs_queue := q\<rparr>),
      m_set_lock = (\<lambda>b w. w\<lparr>wind_queue_lock := b\<rparr>), m_log = wind_log_num D\<rparr>"

definition wind_platform :: "('d, 'b, 'f, 'c, 'n) hardware \<Rightarrow> ('d wind, 'b, 'c, 'n) device platform" where
  "wind_platform H = pico_platform H wind_settings wind_provided_variables"

definition wind_status_texts :: "string \<Rightarrow> (('d wind, 'b, 'c, 'n) device \<Rightarrow> string) list" where
  "wind_status_texts temp =
     [\<lambda>w. ''  Status of ZejfWind:'' @ [NL] @ ''    time_set='' @ show_bool (time_set (wind_engine (meter w))) @ [NL] @ ''    bmp_initialised='' @ show_bool (bmp_initialised (meter w)),
      \<lambda>w. ''    queue_lock='' @ show_bool (wind_queue_lock (meter w)) @ [NL] @ ''    queue_size='' @ show_nat (length (wind_logs_queue (meter w))) @ [NL] @ ''    wspd_count='' @ show_uint (wspd_c (meter w)),
      \<lambda>w. ''    millis_since_boot='' @ show_int (sint (millis_since_boot (wind_engine (meter w)))) @ [NL] @ ''    millis_overflows='' @ show_int (sint (millis_overflows (wind_engine (meter w)))),
      \<lambda>w. ''    rebooted_by_watchdog='' @ show_bool (rebooted_by_watchdog w) @ [NL] @ ''    onboard_temperature='' @ temp @ [CHR 0xCB, CHR 0x9A] @ ''C'',
      \<lambda>w. ''    ds3231_working='' @ show_bool (ds3231_working (wind_engine (meter w))) @ [NL]] @
     sd_card_texts sd_card @ tcp_texts"

lemma drain_logs_wind_log_data:
  "drain_logs D (wind_meters D) P (log # logs) s =
     do {
       s \<leftarrow> wind_log_data P D (millis_since_boot (wind_engine (meter (world s)))) log s;
       drain_logs D (wind_meters D) P logs (on_meter (\<lambda>w. w\<lparr>wind_logs_queue := logs\<rparr>) s)
     }"
  by (cases log) (simp_all add: wind_log_data_def wind_log_num_def wind_meters_def millis_of_def)

text \<open>\<open>bmp_measure\<close>: a reading of the sensor goes into the current log, of which the arguments are the numbers as \<open>double\<close>.\<close>

definition wind_sensor :: "(nat \<Rightarrow> u8) \<Rightarrow> 'd doubles \<Rightarrow> 'b i2c \<Rightarrow> bmp085 \<Rightarrow> 'd wind \<Rightarrow> 'b \<Rightarrow> ('d wind \<times> 'b) option" where
  "wind_sensor junk D I c w b =
     (if \<not> time_set (wind_engine w) \<or> \<not> bmp_initialised w then Some (w, b)
      else do {
        ((press, temp), b) \<leftarrow> BMP085_read_all junk D I c (d_float D (d_int D 395)) b;
        Some (wind_bmp_measure D (d_of_float D press) (d_of_float D temp) w, b)
      })"

interpretation wind_device: pico_device H "wind_meters (hw_doubles H)" wind_status_texts "wind_platform H" for H
  by unfold_locales (simp add: platform_ok_def wind_platform_def pico_platform_def wind_settings_def meteo_settings_def wind_provided_variables_def)

text \<open>The main loop of this device does not get stuck either.\<close>

theorem wind_loop_round_safe:
  assumes "zejf_ok (wind_platform H) s" and "tcp_client_1 \<in> dom (interfaces s)"
  shows "returns (pico_prepare H (wind_meters (hw_doubles H)) (wind_platform H) r s) (\<lambda>(r', u). zejf_ok (wind_platform H) u \<and>
    (vars_within 55535 u \<longrightarrow> returns (pico_round H (wind_meters (hw_doubles H)) wind_status_texts (wind_platform H) r s)
       (\<lambda>(r'', s'). r'' = r' \<and> zejf_ok (wind_platform H) s' \<and> dom (interfaces s') = dom (interfaces s))))"
  by (rule wind_device.pico_round_ok [OF assms])

end
