(* ===== verification/Spec2Isabelle.thy ===== *)
theory Spec2Isabelle
  imports Meteo_Server Sd_Crc Pico_Press Pico_Wind_Device
begin

text \<open>
  Verification of the ZejfMeteo weather station network.

  \<^bold>\<open>The program.\<close>  Stations exchange text packets over serial lines and TCP.  All of them run the same C library
  (\<open>src/core/api/zejf_api\<close>), which routes packets, keeps the hours of measurements in a bounded cache over the storage of the
  device, announces and demands variables, answers requests for past samples and looks for missing ones.  A device supplies
  the functions of \<open>zejf_api.h\<close> (sending on an interface, loading and saving an hour, its variables, its own packets) and
  calls the library from its threads or its main loop: the server (\<open>src/core/devices/ZejfMeteo\<close>, Linux) and the
  sensor devices on a Raspberry Pi Pico: \<open>ZejfOutside\<close> (humidity, temperature, rain) and \<open>ZejfWind\<close> (wind, pressure),
  which talk to the server over TCP and share the main loop of \<open>src/core/libs/zejf_pico_utils\<close>, and \<open>ZejfPress\<close> (pressure), with a
  loop of its own on a USB serial line.

  \<^bold>\<open>How it is modelled.\<close>  A C function is a HOL function in the option monad (\<open>Zejf_Prelude\<close>): \<^term>\<open>None\<close> is undefined
  behaviour (a null or freed pointer, an index out of range, a read behind an array) or a loop that does not end, never an
  error code; error codes are values of \<^typ>\<open>zejf_err\<close>.  \<open>returns m Q\<close> says that \<open>m\<close> is defined and its result satisfies
  \<open>Q\<close>, so that every property of this form includes termination and memory safety.  Static variables and heap objects
  are fields of one state record that grows with the components (\<open>linked_list\<close>, \<open>network\<close>, \<open>store\<close>, \<open>zejf\<close>), pointers are
  addresses into maps, \<open>malloc\<close> may fail at any call where the theorems do not say otherwise, integers are words of the
  width of the source, floats are their 32-bit patterns.  What is outside the repository is a parameter: the functions a
  platform supplies with the rest of the device (\<open>world\<close>), \<open>localtime\<close>, the file system of the server (each call may fail), the
  I2C bus, the clock of the microcontroller, FatFs, lwIP, and the arithmetic of \<open>double\<close>.

  \<^bold>\<open>Theories and sources\<close> (under \<open>src/core\<close>).
  \<^item> \<open>Zejf_Prelude\<close>: the option monad with \<open>returns\<close>, lists, words, the allocator.  \<open>C_Stdio\<close>: \<open>snprintf\<close> and \<open>sscanf\<close> as far
    as the program uses them, with their round trips.  \<open>Zejf_Defs\<close>: \<open>zejf_defs.h\<close>, the platform record of \<open>zejf_api.h\<close>.
  \<^item> \<open>Linked_List\<close>: \<open>linked_list.c\<close>, the circular list on a heap; it implements the locale \<open>bounded_queue\<close>.
  \<^item> \<open>Protocol\<close>: \<open>zejf_protocol.c\<close>, packet text and checksum.  \<open>Routing\<close>: \<open>zejf_routing.c\<close>, the table as an array of entries.
    \<open>Network\<close>: \<open>zejf_network.c\<close>, queues, acceptance, forwarding, retransmission, removal of interfaces.
  \<^item> \<open>Data_Info\<close>: \<open>data_info.c\<close>, announcements.  \<open>Data_Hour\<close>: the hours of \<open>zejf_data.c\<close> and their byte format; the locale
    \<open>codec\<close> is what all formats of the program promise.  \<open>Data_Store\<close>, \<open>Data_Values\<close>: the cache of hours and access
    through it.  \<open>Data_Request\<close>: \<open>data_request.c\<close>.  \<open>Data_Check\<close>: \<open>data_check.c\<close>.
  \<^item> \<open>Hour_Storage\<close>: the locale \<open>hour_storage\<close> between the cache and the storage of a device; what a value logged once
    gives when it is read later is proved there once, for the server and for the SD card.
  \<^item> \<open>Zejf_Api\<close>: \<open>zejf_api.c\<close>, the calls of a device as data (\<open>api_call\<close>), states reachable by them, and the locale
    \<open>packet_handler\<close> for the packets a device handles itself.
  \<^item> \<open>Data_Loader\<close>, \<open>Meteo\<close>, \<open>Meteo_Input\<close>, \<open>Meteo_Server\<close>: the server: \<open>zejf_data_loader.c\<close>; \<open>serial.c\<close>, \<open>time_utils.c\<close>
    and \<open>interface_manager.c\<close>; how lines of the serial port, of clients and of the terminal are cut (\<open>zejf_meteo.c\<close>); \<open>server.c\<close>.
  \<^item> \<open>Pico_Time\<close>, \<open>Pico_Clock\<close>: the calendar and sample times (\<open>time_utils.cpp\<close>, \<open>zejf_pico_data.h\<close>), the DS3231 chip and
    \<open>time_engine.cpp\<close>.  \<open>Pico_Card\<close>: \<open>sd_card_handler.cpp\<close>, a second storage.  \<open>Sd_Crc\<close>: the checksums of the card protocol.
    \<open>Pico_Sensors\<close>: the HTU21 sensor and the measurements of ZejfOutside.  \<open>Tcp_Handler\<close>: \<open>tcp_handler.c\<close>.
  \<^item> \<open>Pico_Runtime\<close>: \<open>zejf_runtime.cpp\<close> and what \<open>zejf_comm.cpp\<close> has in common on two devices, over the locale \<open>pico_device\<close>,
    which says what a device owes the main loop; it extends \<open>packet_handler\<close>.  \<open>Pico_Outside\<close> and
    \<open>Pico_Wind_Device\<close> are its two instances; \<open>Pico_Wind\<close>: the measurements of \<open>ZejfWind\<close>.
  \<^item> \<open>Pico_Bmp390\<close>: \<open>bmp390.h\<close>.  \<open>Pico_Bmp085\<close>: \<open>bmp085.c\<close>, with its integer arithmetic.  \<open>Pico_Press\<close>: \<open>zejf_press.cpp\<close>, a
    third instance of \<open>packet_handler\<close>.
  \<^item> This theory: the server with its library, storage and clock, and the properties that span them.

  \<^bold>\<open>What is shown.\<close>
  \<^item> The library is safe as a whole: from the start every sequence of calls returns and keeps its invariant \<open>zejf_ok\<close>
    (\<open>server_never_stuck\<close>), and so does a round of the main loop of a Pico device (\<open>main_loop_round_safe\<close>,
    \<open>wind_loop_round_safe\<close>, \<open>press_round_safe\<close>), over a connection that is used only while it exists (\<open>tcp_connection_safe\<close>).
  \<^item> Data are kept: a logged value is read back after any accesses, through the cache, the byte format and the files of the
    server (\<open>logged_value_survives\<close>) or of the SD card (\<open>card_value_survives\<close>); requests are answered sample by sample, and the
    counts of the data checks are right.
  \<^item> Packets arrive: the text format is read back (\<open>packet_roundtrip\<close>), a packet reaches its neighbour and is passed on, the
    transmit queue drains, routes are learnt, kept and expire as the abstract table says, announcements go to those that ask.
  \<^item> Input of any shape is handled: arbitrary bytes on a line (\<open>network_accept_robust\<close>), in an hour file
    (\<open>hour_read_robust\<close>), on the terminal, from clients and on the serial line of \<open>ZejfPress\<close> (\<open>press_line_received\<close>), with
    the exact inputs where the code goes wrong.
  \<^item> Measurements are complete: each sample is taken once (\<open>every_slot_logged_once\<close>), no tip of the rain gauge is lost or
    counted twice (\<open>rain_conserved\<close>), the ring buffers of the wind log give the mean over the last periods
    (\<open>wind_averages\<close>, \<open>wind_logs_measured\<close>), a failing sensor recovers, a measurement of the BMP390 returns as soon as the sensor
    is ready (\<open>bmp_measurement_returns\<close>), the compensation of the BMP085 has no overflow in the operating range of
    the sensor (\<open>bmp085_in_range\<close>), transmission errors are detected by the checksums.

  \<^bold>\<open>Bounds.\<close>  Loops that end by themselves are recursion with a measure, walks over the heap are
  \<open>partial_function (option)\<close> and proved to return.  The sender thread and the main loop handle at most 10000 packets per
  round, as the code does; the hypothesis \<open>vars_within 55535\<close> says that this cannot push the 16-bit number of variables of a
  device over its limit.

  \<^bold>\<open>Not modelled.\<close>  \<open>main.c\<close>, the entry points of the Pico devices and the set-up of threads, sockets, the serial port and
  pins; the mutexes around the library calls (a call is one step of the model; the timers of \<open>ZejfPress\<close>, which take no lock, run
  between two calls here); printing and logging; the watchdog, \<open>cyw43_arch_poll\<close> and the formula of
  \<open>read_onboard_temperature\<close>; FatFs, its \<open>ff_stdio\<close> layer and the SPI driver of the card, which are third-party code and parameters here.
\<close>

section \<open>The server with its disk\<close>

lemma meteo_storage:
  assumes "clock_ok lt" and "clock_distinct lt"
  shows "hour_storage (meteo_platform lt ifs) (disk_hours lt) disk_works (\<lambda>bs. bs \<noteq> [] \<and> length bs \<le> HOUR_FILE_MAX_SIZE)"
  unfolding meteo_platform_def by (rule disk_hour_storage [OF assms]) (simp add: settings_fit_def HOUR_FILE_MAX_SIZE_def)

text \<open>A disk with one hour on it, and the server just started on it; times are in UTC.\<close>

definition sample_disk :: meteo_world where
  "sample_disk =
     quiet_world\<lparr>disk_files := [path_text (gmtime (470000 * 60 * 60)) \<mapsto> hour_encoding (summed sample_hour)]\<rparr>"

definition usb_only :: "addr \<Rightarrow> Interface option" where
  "usb_only = [usb_interface_1 \<mapsto> \<lparr>if_uid = 0, if_type = USB, if_handle = 0, rx_count = 0, tx_count = 0\<rparr>]"

abbreviation utc_server :: "meteo_world platform" where
  "utc_server \<equiv> meteo_platform gmtime [usb_interface_1]"

definition started :: "meteo_world zejf" where
  "started = snd (zejf_init utc_server ((zejf_start utc_server sample_disk)\<lparr>interfaces := usb_only\<rparr>))"

lemma started_simps [simp]:
  "zejf_ok utc_server started" "interfaces started = usb_only" "world started = sample_disk" "cached started = []"
  "requests started = []" "table_entries started = []" "queue_items (rx_queue started) = []" "queue_items (tx_queue started) = []"
proof -
  let ?s = "(zejf_start utc_server sample_disk)\<lparr>interfaces := usb_only\<rparr>"
  have "never_fails (mem ?s)" "hours ?s = Map.empty" "0 < HOUR_BUFFER_SIZE utc_server" by (simp_all add: zejf_start_def never_fails_def)
  from zejf_init_ok [OF this] show "zejf_ok utc_server started" "interfaces started = usb_only" "world started = sample_disk" "cached started = []"
    "requests started = []" "table_entries started = []" "queue_items (rx_queue started) = []" "queue_items (tx_queue started) = []"
    by (auto simp: started_def zejf_start_def)
qed

lemma started_store [simp]: "store_ok utc_server started"
  using started_simps(1) by (simp add: zejf_ok_def)

lemma sample_disk_hours: "disk_hours gmtime sample_disk = [470000 \<mapsto> hour_encoding (summed sample_hour)]"
proof
  fix n :: u32
  have "path_text (gmtime (unat n * 60 * 60)) = path_text (gmtime (unat (470000 :: u32) * 60 * 60)) \<longleftrightarrow> n = 470000"
    using path_inj [OF gmtime_ok gmtime_distinct, of n 470000] by (auto simp: day_path [OF gmtime_ok] simp del: unat_numeral)
  then show "disk_hours gmtime sample_disk n = [470000 \<mapsto> hour_encoding (summed sample_hour)] n"
    by (simp add: disk_hours_def sample_disk_def quiet_world_def day_path [OF gmtime_ok])
qed

lemma sample_disk_works: "disk_works sample_disk"
  using gmtime_days(1) by (simp add: disk_works_def sample_disk_def quiet_world_def path_slashes)

lemma sample_stored: "stored_hour utc_server (summed sample_hour)"
  by (rule summed_stored) (use sample_hour_ok in \<open>simp add: hour_vars_ok_def variable_ok_def\<close>)

lemma sample_view:
  "cached s = [] \<Longrightarrow> world s = sample_disk \<Longrightarrow> view utc_server (disk_hours gmtime) s = [470000 \<mapsto> hour_core sample_hour]"
  using hour_decode_encoding [OF sample_stored]
  by (auto simp: view_def cache_entries_def stored_view_def sample_disk_hours fun_eq_iff summed_def hour_core_def)

lemma sample_sound:
  assumes "cached s = []" and "world s = sample_disk" and "store_ok utc_server s"
  shows "sound utc_server (disk_hours gmtime) disk_works s"
proof -
  have "hour_id (summed sample_hour) = 470000" by (simp add: summed_def sample_hour_def)
  then have "files_ok utc_server (disk_hours gmtime) sample_disk"
    using sample_stored by (auto simp: files_ok_def sample_disk_hours split: if_splits)
  with assms sample_disk_works show ?thesis by (simp add: sound_def coherent_def cache_entries_def)
qed



text \<open>
  C3: requests for data are answered.  When a known device asks for the samples \<open>a\<close> to \<open>b\<close> of a variable,
  no other request is waiting and the queue has room, \<open>data_request_add\<close> and one call of
  \<open>data_requests_process\<close> queue exactly one \<open>DATA_LOG\<close> packet for each of these samples, in order, with
  the values the server has for them in memory or on disk, and the request is finished.
\<close>

theorem data_request_answered:
  assumes "clock_ok lt" and "clock_distinct lt" and so: "sound (meteo_platform lt ifs) (disk_hours lt) disk_works s"
    and ok: "zejf_ok (meteo_platform lt ifs) s" and live: "set ifs \<subseteq> dom (interfaces s)"
    and idle: "requests s = []" and d: "reachable_device (meteo_platform lt ifs) s d" and ab: "a \<le> b"
    and room: "length (queue_items (tx_queue s)) + 2 * (unat b - unat a + 2) \<le> 16384"
    and x: "\<And>i. i \<le> unat b - unat a \<Longrightarrow>
      read_hour (view (meteo_platform lt ifs) (disk_hours lt) s hn) (var_id v) (a + of_nat i) = (ZEJF_OK, Some (x i))"
  shows "returns (do {
       (e, s) \<leftarrow> data_request_add d v hn a b s;
       s \<leftarrow> data_requests_process (meteo_platform lt ifs) time s;
       Some (e, s)
     }) (\<lambda>(e, s'). e = ZEJF_OK \<and> zejf_ok (meteo_platform lt ifs) s' \<and> requests s' = [] \<and>
       queue_items (tx_queue s') = queue_items (tx_queue s) @
         map (\<lambda>i. answer (meteo_platform lt ifs) time (new_request d v hn a b) (a + of_nat i) (x i)) [0..<Suc (unat b - unat a)])"
proof -
  let ?P = "meteo_platform lt ifs" and ?r = "new_request d v hn a b"
  have okD: "requests_ok ?P s" "never_fails (mem s)" "net_ok ?P s" "store_ok ?P s" using ok by (simp_all add: zejf_ok_def net_ok_def)
  have le: "unat a \<le> unat b" using ab by (simp add: word_le_nat_alt)
  show ?thesis
  proof (rule returns_bindI [OF data_request_add_ok [OF okD(1,2)]], clarify)
    fix e t
    assume t: "requests_ok ?P t" "request_frame s t" and e: "(e, requests t) = add_request (DATA_REQUEST_QUEUE_SIZE ?P) d v hn a b (requests s)"
    then have e: "e = ZEJF_OK" "requests t = [?r]" by (simp_all add: add_request_def idle)
    have st: "lib_step ?P s t" by (rule request_lib_step [OF ok t(1,2)])
    have same: "t = s\<lparr>mem := mem t, data_requests_queue := data_requests_queue t\<rparr>" using t(2) by (simp add: request_frame_def)
    have view: "view ?P (disk_hours lt) t = view ?P (disk_hours lt) s" "tx_queue t = tx_queue s" "table_entries t = table_entries s"
      by (subst same, simp add: view_def cache_entries_def hour_at_def)+
    have "cache_entries t = cache_entries s" "world t = world s" by (subst same, simp add: cache_entries_def hour_at_def)+
    then have so': "sound ?P (disk_hours lt) disk_works t"
      using so lib_step_ok [OF st] by (simp add: sound_def coherent_def zejf_ok_def)
    have rem: "remaining ?r = Suc (unat b - unat a)" using le by (simp add: remaining_def new_request_def)
    have cur: "current_log ?r = a" by (simp add: new_request_def)
    have slots: "remaining ?r < (TX_QUEUE_SIZE ?P - length (queue_items (tx_queue t))) div 2" using room by (simp add: rem view)
    have "returns (data_requests_process ?P time t) (\<lambda>s'. zejf_ok ?P s' \<and>
      queue_items (tx_queue s') = queue_items (tx_queue t) @ map (\<lambda>i. answer ?P time ?r (current_log ?r + of_nat i) (x i)) [0..<remaining ?r] \<and>
      requests s' = [])"
    proof (rule returns_weaken [OF hour_storage.data_requests_served [OF meteo_storage [OF assms(1,2)] so' lib_step_ok [OF st] _ e(2)]])
      show "platform_ok ?P (interfaces t)" using live by (subst same) simp
      show "\<not> 50 < req_errors ?r" "current_log ?r \<le> end_log ?r" using ab by (simp_all add: new_request_def)
      show "reachable_device ?P t (target_device ?r)" using d view(3) by (simp add: reachable_device_def used_id_def new_request_def)
      show "read_hour (view ?P (disk_hours lt) t (req_hour_number ?r)) (var_id (req_variable ?r)) (current_log ?r + of_nat i) = (ZEJF_OK, Some (x i))"
        if "i < min ((TX_QUEUE_SIZE ?P - length (queue_items (tx_queue t))) div 2) (remaining ?r)" for i
      proof -
        have "i \<le> unat b - unat a" using that by (simp add: rem)
        then show ?thesis using x [of i] by (simp add: view new_request_def)
      qed
    qed (use slots in auto)
    then show "returns (do { s \<leftarrow> data_requests_process ?P time t; Some (e, s) }) (\<lambda>(e, s'). e = ZEJF_OK \<and> zejf_ok ?P s' \<and> requests s' = [] \<and>
       queue_items (tx_queue s') = queue_items (tx_queue s) @ map (\<lambda>i. answer ?P time ?r (a + of_nat i) (x i)) [0..<Suc (unat b - unat a)])"
      by (auto simp: returns_iff e view rem cur)
  qed
qed


text \<open>The server knows device 5.\<close>

definition known_device :: "meteo_world zejf" where
  "known_device = started\<lparr>rtable := Some (demander\<lparr>re_interface := Some usb_interface_1\<rparr>) # replicate 15 None, routing_table_top := 1\<rparr>"

lemma known_device_simps [simp]:
  "zejf_ok utc_server known_device" "interfaces known_device = usb_only" "world known_device = sample_disk" "cached known_device = []"
  "requests known_device = []" "queue_items (tx_queue known_device) = []" "reachable_device utc_server known_device 5"
proof -
  have t: "table_entries known_device = [demander\<lparr>re_interface := Some usb_interface_1\<rparr>]" by (simp add: known_device_def table_entries_def)
  have "routing_ok utc_server known_device"
    by (simp add: routing_ok_def t, simp add: known_device_def table_rep_def demander_def new_entry_def routing_entry_zero_def entry_ok_def usb_only_def)
  with started_simps(1) show "zejf_ok utc_server known_device"
    by (simp add: zejf_ok_def net_ok_def store_ok_def store_rep_def cached_def requests_ok_def known_device_def)
  show "reachable_device utc_server known_device 5"
    by (simp add: reachable_device_def used_id_def t demander_def new_entry_def)
qed (use started_simps(2-8) in \<open>simp_all add: known_device_def cached_def requests_def\<close>)

theorem data_request_answered_witness:
  "returns (do {
       (e, s) \<leftarrow> data_request_add 5 \<lparr>samples_per_hour = 2, var_id = 7\<rparr> 470000 0 0 known_device;
       s \<leftarrow> data_requests_process utc_server 9 s;
       Some (e, s)
     }) (\<lambda>(e, s'). map (\<lambda>p. (pkt_to p, command p)) (queue_items (tx_queue s')) = [(5, DATA_LOG)])"
proof (rule returns_weaken [OF data_request_answered [OF gmtime_ok gmtime_distinct]])
  show "sound utc_server (disk_hours gmtime) disk_works known_device" using known_device_simps(1) by (intro sample_sound) (simp_all add: zejf_ok_def)
  show "read_hour (view utc_server (disk_hours gmtime) known_device 470000) (var_id \<lparr>samples_per_hour = 2, var_id = 7\<rparr>) (0 + of_nat i) =
      (ZEJF_OK, Some 0x41A40000)" if "i \<le> unat (0 :: u32) - unat (0 :: u32)" for i
    using that by (simp add: sample_view read_hour_def find_var_def sample_hour_def hour_core_def)
qed (auto simp: usb_only_def answer_def new_request_def stamped_def text_packet_def)





end
